(* ===== verification/Prelude.thy ===== *)
theory Prelude
  imports Main "HOL-Library.Word" "HOL-Library.Monad_Syntax" "HOL-Library.AList"
begin

unbundle bit_operations_syntax

text \<open>Vocabulary shared by every component: the C++ return codes, bytes, checked memory copies
  (a copy that leaves its source or destination object is the value \<^const>\<open>None\<close>), the two
  collections of rewrite rules that the component proofs use, and the generic list lemmas.\<close>

named_theorems sls_defs "unfolding rules for the small operations of the model"
named_theorems sls_inv "preservation facts of component invariants"

type_synonym byte = "8 word"
type_synonym buffer = "byte list"
type_synonym time_ms = int

text \<open>\<^verbatim>\<open>common.hpp\<close>: SLS_OK, SLS_ERROR and SLS_PENDING.\<close>

definition SLS_OK :: int where
  "SLS_OK = 0"

definition SLS_ERROR :: int where
  "SLS_ERROR = - (2 ^ 24)"

definition SLS_PENDING :: int where
  "SLS_PENDING = - (2 * 2 ^ 24)"

definition TS_PACK_LEN :: int where
  "TS_PACK_LEN = 188"

lemmas sls_codes = SLS_OK_def SLS_ERROR_def SLS_PENDING_def

text \<open>\<^verbatim>\<open>memcpy (dst + dpos, src + spos, n)\<close> between two objects; outside of either object the
  result is \<^const>\<open>None\<close>.\<close>

definition memcpy :: "'a list \<Rightarrow> int \<Rightarrow> 'a list \<Rightarrow> int \<Rightarrow> int \<Rightarrow> 'a list option" where
  "memcpy dst dpos src spos n =
     (if 0 \<le> n \<and> 0 \<le> dpos \<and> dpos + n \<le> int (length dst) \<and> 0 \<le> spos \<and> spos + n \<le> int (length src)
      then Some (take (nat dpos) dst @ take (nat n) (drop (nat spos) src) @ drop (nat (dpos + n)) dst)
      else None)"

lemma memcpy_SomeI:
  "0 \<le> n \<Longrightarrow> 0 \<le> dpos \<Longrightarrow> dpos + n \<le> int (length dst) \<Longrightarrow> 0 \<le> spos \<Longrightarrow> spos + n \<le> int (length src) \<Longrightarrow>
   memcpy dst dpos src spos n =
     Some (take (nat dpos) dst @ take (nat n) (drop (nat spos) src) @ drop (nat (dpos + n)) dst)"
  by (simp add: memcpy_def)

lemma memcpy_length:
  assumes "memcpy dst dpos src spos n = Some dst'"
  shows "length dst' = length dst"
proof -
  have b: "0 \<le> n" "0 \<le> dpos" "dpos + n \<le> int (length dst)" "0 \<le> spos" "spos + n \<le> int (length src)"
    and d: "dst' = take (nat dpos) dst @ take (nat n) (drop (nat spos) src) @ drop (nat (dpos + n)) dst"
    using assms unfolding memcpy_def by (simp_all split: if_splits)
  show ?thesis unfolding d using b by simp
qed

lemma memcpy_nat:
  "d + n \<le> length dst \<Longrightarrow> s + n \<le> length src \<Longrightarrow>
   memcpy dst (int d) src (int s) (int n) = Some (take d dst @ take n (drop s src) @ drop (d + n) dst)"
  unfolding memcpy_def by (simp flip: of_nat_add)

lemma memcpy_after_prefix:
  assumes "length x = f" "f + m \<le> length dst" "m \<le> length a"
  shows "memcpy (x @ drop f dst) (int f) a 0 (int m) = Some ((x @ take m a) @ drop (f + m) dst)"
  using assms memcpy_nat [of f m "x @ drop f dst" 0 a] by (simp add: add.commute)

text \<open>Decimal digits of a natural number, most significant first (the integer part of \<^verbatim>\<open>printf\<close>'s \<^verbatim>\<open>d\<close>).\<close>

fun dec_digits :: "nat \<Rightarrow> string" where
  "dec_digits n = (if n < 10 then [char_of (48 + n)] else dec_digits (n div 10) @ [char_of (48 + n mod 10)])"

declare dec_digits.simps [simp del]

text \<open>A checked read of one byte, as the non-negative int the C++ integer promotion gives.\<close>

definition byte_at :: "buffer \<Rightarrow> int \<Rightarrow> int option" where
  "byte_at buf i = (if 0 \<le> i \<and> i < int (length buf) then Some (uint (buf ! nat i)) else None)"

lemma byte_at_in [simp]:
  "0 \<le> i \<Longrightarrow> i < int (length buf) \<Longrightarrow> byte_at buf i = Some (uint (buf ! nat i))"
  by (simp add: byte_at_def)

lemma byte_at_total:
  "len \<le> int (length buf) \<Longrightarrow> \<exists>f. \<forall>i. 0 \<le> i \<and> i < len \<longrightarrow> byte_at buf i = Some (f i) \<and> 0 \<le> f i"
  by (intro exI [of _ "\<lambda>i. uint (buf ! nat i)"]) (auto simp: byte_at_def)

lemma uint_byte_bounds [simp]:
  "0 \<le> uint (b :: byte)" "uint (b :: byte) < 256" "uint (b :: byte) \<le> 255"
  using uint_bounded [of b] by auto

lemma int_and_exp: "x AND (2 ^ n - 1) = x mod 2 ^ n" for x :: int
  using take_bit_eq_mask [of n x] by (simp add: take_bit_eq_mod mask_eq_exp_minus_1)

lemma int_and_mask:
  fixes x :: int
  shows "x AND 1 = x mod 2" "x AND 3 = x mod 4" "x AND 7 = x mod 8" "x AND 0x0F = x mod 16" "x AND 0x1F = x mod 32"
    "x AND 0x3F = x mod 64" "x AND 0x7F = x mod 128" "x AND 0xFF = x mod 256"
  using int_and_exp [of x 1] apply simp
  using int_and_exp [of x 2] apply simp
  using int_and_exp [of x 3] apply simp
  using int_and_exp [of x 4] apply simp
  using int_and_exp [of x 5] apply simp
  using int_and_exp [of x 6] apply simp
  using int_and_exp [of x 7] apply simp
  using int_and_exp [of x 8] apply simp
  done

lemma push_bit_or_add:
  fixes x y :: int
  assumes "0 \<le> y" "y < 2 ^ n"
  shows "push_bit n x OR y = x * 2 ^ n + y"
proof -
  have "take_bit n y = y" using assms by (simp add: take_bit_int_eq_self_iff)
  hence "push_bit n x OR y = concat_bit n y x" by (simp add: concat_bit_def or.commute)
  also have "\<dots> = y + push_bit n x" using \<open>take_bit n y = y\<close> by (simp add: concat_bit_eq)
  finally show ?thesis by (simp add: push_bit_eq_mult)
qed

lemma nth_write:
  assumes "d + length ys \<le> length xs" "j < length xs"
  shows "(take d xs @ ys @ drop (d + length ys) xs) ! j =
         (if d \<le> j \<and> j < d + length ys then ys ! (j - d) else xs ! j)"
  using assms by (auto simp: nth_append min_def)

lemma mod_add_small:
  fixes c i n :: nat
  assumes "0 < n" "i \<le> n"
  shows "(c + i) mod n = (if c mod n + i < n then c mod n + i else c mod n + i - n)"
proof -
  have "(c + i) mod n = (c mod n + i) mod n" by presburger
  moreover have "c mod n < n" using assms by simp
  ultimately show ?thesis using assms
    by (cases "c mod n + i < n") (auto simp: le_mod_geq)
qed

lemma mod_diff_small:
  fixes c m n :: nat
  assumes "c \<le> m" "m - c < n"
  shows "m - c = (if c mod n \<le> m mod n then m mod n - c mod n else n - c mod n + m mod n)"
proof -
  have n: "0 < n" using assms by simp
  have "m mod n = (c + (m - c)) mod n" using assms by simp
  also have "\<dots> = (if c mod n + (m - c) < n then c mod n + (m - c) else c mod n + (m - c) - n)"
    using assms n by (intro mod_add_small) auto
  finally have eq: "m mod n = (if c mod n + (m - c) < n then c mod n + (m - c) else c mod n + (m - c) - n)" .
  have "c mod n < n" using n by simp
  thus ?thesis using eq assms by (auto split: if_splits)
qed

section \<open>Association lists as maps\<close>

lemma alist_update_new: "map_of al k = None \<Longrightarrow> AList.update k v al = al @ [(k, v)]"
  by (induction al) (auto split: if_splits)

lemma alist_set_update: "set (AList.update k v al) \<subseteq> insert (k, v) (set al)"
  by (induction al) auto

lemma alist_update_len: "map_of al k = Some w \<Longrightarrow> length (AList.update k v al) = length al"
  by (induction al) (auto split: if_splits)

lemma alist_update_sum:
  "map_of al k = Some w \<Longrightarrow> f v = f w \<Longrightarrow>
   sum_list (map (\<lambda>x. f (snd x)) (AList.update k v al)) = sum_list (map (\<lambda>x. f (snd x)) al)"
  by (induction al) (auto split: if_splits)

lemma alist_delete_other: "k \<notin> fst ` set al \<Longrightarrow> AList.delete k al = al"
  by (induction al) auto

lemma alist_delete_len:
  "distinct (map fst al) \<Longrightarrow> map_of al k = Some w \<Longrightarrow> Suc (length (AList.delete k al)) = length al"
  by (induction al) (auto simp: alist_delete_other split: if_splits)

lemma alist_delete_sum:
  "distinct (map fst al) \<Longrightarrow> map_of al k = Some w \<Longrightarrow>
   sum_list (map (\<lambda>x. f (snd x)) (AList.delete k al)) = sum_list (map (\<lambda>x. f (snd x)) al) - (f w :: int)"
  by (induction al) (auto simp: alist_delete_other split: if_splits)

lemma alist_set_delete: "set (AList.delete k al) \<subseteq> set al"
  by (induction al) auto

lemma alist_update_keys: "map_of al k = Some w \<Longrightarrow> map fst (AList.update k v al) = map fst al"
  by (induction al) (auto split: if_splits)

lemma map_of_update: "map_of (AList.update k v al) k' = (if k' = k then Some v else map_of al k')"
  by (simp add: update_conv')

section \<open>Components as transition systems\<close>

text \<open>A component is a set of initial states and the steps its operations make; each component below that
  keeps state interprets this locale with its own operations and its invariant.\<close>

locale component =
  fixes init :: "'s \<Rightarrow> bool" and step :: "'s \<Rightarrow> 's \<Rightarrow> bool" and inv :: "'s \<Rightarrow> bool"
  assumes inv_init: "init s \<Longrightarrow> inv s"
    and inv_step: "inv s \<Longrightarrow> step s t \<Longrightarrow> inv t"
begin

lemma inv_steps: "step\<^sup>*\<^sup>* s t \<Longrightarrow> inv s \<Longrightarrow> inv t"
  by (induction rule: rtranclp_induct) (auto intro: inv_step)

lemma inv_reachable: "init s \<Longrightarrow> step\<^sup>*\<^sup>* s t \<Longrightarrow> inv t"
  using inv_steps inv_init by blast

text \<open>What a step keeps in every state that satisfies the invariant, a run keeps too.\<close>

lemma kept_by_steps:
  assumes "step\<^sup>*\<^sup>* s t" "inv s" "P s" "\<And>x y. inv x \<Longrightarrow> P x \<Longrightarrow> step x y \<Longrightarrow> P y"
  shows "P t"
  using assms(1)
proof (induction rule: rtranclp_induct)
  case (step y z)
  thus ?case using assms(4) inv_steps [OF step.hyps(1) assms(2)] by blast
qed (rule assms(3))

end

end
