(* ===== verification/Recycle_Array.thy ===== *)
theory Recycle_Array
  imports Prelude
begin

text \<open>The broadcast ring of one live stream, \<^verbatim>\<open>src/core/SLSRecycleArray.hpp\<close> and \<^verbatim>\<open>.cpp\<close>.
  One writer (the publisher) appends to a circular byte array; every reader (player) carries its
  own cursor. The clock \<^verbatim>\<open>sls_gettime_ms ()\<close> is the argument \<open>now\<close>; the process-wide source of ring
  identities is threaded as \<open>next_gen\<close>. Every \<^verbatim>\<open>memcpy\<close> is checked, so a result \<^const>\<open>None\<close> of
  \<open>put\<close> or \<open>get\<close> is an access outside of an object. The lemmas refine the array to the list of
  all bytes ever written.\<close>

section \<open>State and operations\<close>

record SLSRecycleArrayID =
  nReadPos :: int
  nDataCount :: int
  bFirst :: bool
  nGeneration :: nat

record CSLSRecycleArray =
  m_arrayData :: "buffer option"
  m_nDataSize :: int
  m_nDataCount :: int
  m_nWritePos :: int
  m_last_read_time :: time_ms
  m_overrun_count :: int
  m_max_reader_backlog :: int
  m_viewer_backpressure_events :: int
  m_viewer_snd_drops :: int
  m_ingest_discontinuities :: int
  m_nGeneration :: nat

definition DEFAULT_MAX_DATA_SIZE :: int where
  "DEFAULT_MAX_DATA_SIZE = 8 * 1024 * 1024"

definition s_next_generation_init :: nat where
  "s_next_generation_init = 1"

definition atomic_store_max :: "int \<Rightarrow> int \<Rightarrow> int" where
  "atomic_store_max slot candidate = (if candidate > slot then candidate else slot)"

definition ring_new :: "nat \<Rightarrow> time_ms \<Rightarrow> CSLSRecycleArray \<times> nat" where
  "ring_new next_gen now =
     (\<lparr> m_arrayData = Some (replicate (nat DEFAULT_MAX_DATA_SIZE) 0),
        m_nDataSize = DEFAULT_MAX_DATA_SIZE,
        m_nDataCount = 0,
        m_nWritePos = 0,
        m_last_read_time = now,
        m_overrun_count = 0,
        m_max_reader_backlog = 0,
        m_viewer_backpressure_events = 0,
        m_viewer_snd_drops = 0,
        m_ingest_discontinuities = 0,
        m_nGeneration = next_gen \<rparr>, Suc next_gen)"

definition ring_delete :: "CSLSRecycleArray \<Rightarrow> CSLSRecycleArray" where
  "ring_delete r = r\<lparr> m_arrayData := None \<rparr>"

text \<open>\<^verbatim>\<open>return (int) m_nDataCount\<close>: the 64 bit counter is narrowed to 32 bits.\<close>

definition ring_count :: "CSLSRecycleArray \<Rightarrow> int" where
  "ring_count r = signed_take_bit 31 (m_nDataCount r)"

text \<open>\<^verbatim>\<open>new char[n]\<close> with a negative \<open>n\<close> throws, which is the result \<^const>\<open>None\<close>.\<close>

definition setSize :: "int \<Rightarrow> CSLSRecycleArray \<Rightarrow> nat \<Rightarrow> (CSLSRecycleArray \<times> nat) option" where
  "setSize n r next_gen =
     (if n < 0 then None
      else Some (r\<lparr> m_nDataSize := n, m_nWritePos := 0, m_nDataCount := 0,
                    m_nGeneration := next_gen,
                    m_arrayData := Some (replicate (nat n) 0) \<rparr>, Suc next_gen))"

definition ring_put :: "buffer option \<Rightarrow> int \<Rightarrow> CSLSRecycleArray \<Rightarrow> (int \<times> CSLSRecycleArray) option" where
  "ring_put data len r =
     (if data = None \<or> len \<le> 0 then Some (SLS_ERROR, r)
      else if len > m_nDataSize r then Some (SLS_ERROR, r)
      else do {
        arr \<leftarrow> m_arrayData r;
        src \<leftarrow> data;
        (arr', wpos) \<leftarrow>
          (if m_nDataSize r - m_nWritePos r \<ge> len
           then do {
             a \<leftarrow> memcpy arr (m_nWritePos r) src 0 len;
             Some (a, m_nWritePos r + len)
           }
           else do {
             let first_len = m_nDataSize r - m_nWritePos r;
             a \<leftarrow> memcpy arr (m_nWritePos r) src 0 first_len;
             b \<leftarrow> memcpy a 0 src first_len (len - first_len);
             Some (b, len - first_len)
           });
        let wpos' = (if wpos = m_nDataSize r then 0 else wpos);
        Some (len, r\<lparr> m_arrayData := Some arr', m_nWritePos := wpos',
                      m_nDataCount := m_nDataCount r + len \<rparr>)
      })"

definition anchor_reader :: "CSLSRecycleArray \<Rightarrow> SLSRecycleArrayID \<Rightarrow> SLSRecycleArrayID" where
  "anchor_reader r rid =
     rid\<lparr> nReadPos := m_nWritePos r, nDataCount := m_nDataCount r, nGeneration := m_nGeneration r \<rparr>"

text \<open>The length arithmetic of one drain: \<open>copy_data_len / aligned * aligned\<close> on non-negative ints.\<close>

definition align_down :: "int \<Rightarrow> int \<Rightarrow> int" where
  "align_down aligned n = (if aligned > 0 then n div aligned * aligned else n)"

definition ready_data_len :: "CSLSRecycleArray \<Rightarrow> SLSRecycleArrayID \<Rightarrow> int" where
  "ready_data_len r rid =
     (if nReadPos rid < m_nWritePos r then m_nWritePos r - nReadPos rid
      else m_nDataSize r - nReadPos rid + m_nWritePos r)"

definition copy_data_len :: "int \<Rightarrow> int \<Rightarrow> CSLSRecycleArray \<Rightarrow> SLSRecycleArrayID \<Rightarrow> int" where
  "copy_data_len sz aligned r rid =
     align_down aligned (if ready_data_len r rid \<le> sz then ready_data_len r rid else sz)"

definition ring_copy_out ::
  "buffer \<Rightarrow> int \<Rightarrow> CSLSRecycleArray \<Rightarrow> SLSRecycleArrayID \<Rightarrow> buffer \<Rightarrow> (buffer \<times> int) option" where
  "ring_copy_out dst clen r rid arr =
     (if clen \<le> 0 then Some (dst, nReadPos rid)
      else if nReadPos rid < m_nWritePos r then do {
        d \<leftarrow> memcpy dst 0 arr (nReadPos rid) clen;
        Some (d, nReadPos rid + clen)
      }
      else if m_nDataSize r - nReadPos rid \<ge> clen then do {
        d \<leftarrow> memcpy dst 0 arr (nReadPos rid) clen;
        Some (d, nReadPos rid + clen)
      }
      else do {
        d \<leftarrow> memcpy dst 0 arr (nReadPos rid) (m_nDataSize r - nReadPos rid);
        e \<leftarrow> memcpy d (m_nDataSize r - nReadPos rid) arr 0 (clen - (m_nDataSize r - nReadPos rid));
        Some (e, clen - (m_nDataSize r - nReadPos rid))
      })"

text \<open>\<^verbatim>\<open>get\<close> returns its code, the destination buffer, the cursor and the ring (whose gauges change).\<close>

definition ring_get ::
  "time_ms \<Rightarrow> buffer \<Rightarrow> int \<Rightarrow> SLSRecycleArrayID option \<Rightarrow> int \<Rightarrow> CSLSRecycleArray \<Rightarrow>
   (int \<times> buffer \<times> SLSRecycleArrayID option \<times> CSLSRecycleArray) option" where
  "ring_get now dst sz read_id aligned r =
     (case m_arrayData r of None \<Rightarrow> Some (SLS_ERROR, dst, read_id, r)
      | Some arr \<Rightarrow>
     (case read_id of None \<Rightarrow> Some (SLS_ERROR, dst, read_id, r)
      | Some rid \<Rightarrow>
        if bFirst rid then Some (SLS_OK, dst, Some ((anchor_reader r rid)\<lparr> bFirst := False \<rparr>), r)
        else if nGeneration rid \<noteq> m_nGeneration r then Some (SLS_OK, dst, Some (anchor_reader r rid), r)
        else if nReadPos rid = m_nWritePos r \<and> m_nDataCount r = nDataCount rid
        then Some (SLS_OK, dst, Some rid, r)
        else
          let behind = m_nDataCount r - nDataCount rid in
          if behind \<ge> m_nDataSize r \<or> behind < 0
          then Some (SLS_OK, dst, Some (rid\<lparr> nReadPos := m_nWritePos r, nDataCount := m_nDataCount r \<rparr>),
                     r\<lparr> m_overrun_count := m_overrun_count r + 1 \<rparr>)
          else do {
            let r' = r\<lparr> m_max_reader_backlog := atomic_store_max (m_max_reader_backlog r) behind,
                        m_last_read_time := now \<rparr>;
            let clen = copy_data_len sz aligned r rid;
            (dst', rpos) \<leftarrow> ring_copy_out dst clen r rid arr;
            let rpos' = (if rpos = m_nDataSize r then 0 else rpos);
            let rpos'' = (if rpos' > m_nDataSize r then 0 else rpos');
            Some (clen, dst', Some (rid\<lparr> nReadPos := rpos'', nDataCount := nDataCount rid + clen \<rparr>), r')
          }))"

definition get_reader_backlog :: "CSLSRecycleArray \<Rightarrow> SLSRecycleArrayID option \<Rightarrow> int" where
  "get_reader_backlog r read_id =
     (case read_id of None \<Rightarrow> 0
      | Some rid \<Rightarrow>
        if bFirst rid then 0
        else let behind = m_nDataCount r - nDataCount rid;
                 behind = (if behind < 0 then 0 else behind)
             in if behind > m_nDataSize r then m_nDataSize r else behind)"

definition is_stale_reader :: "CSLSRecycleArray \<Rightarrow> SLSRecycleArrayID option \<Rightarrow> bool" where
  "is_stale_reader r read_id =
     (case read_id of None \<Rightarrow> False
      | Some rid \<Rightarrow> \<not> bFirst rid \<and> nGeneration rid \<noteq> m_nGeneration r)"

definition get_max_reader_backlog :: "bool \<Rightarrow> CSLSRecycleArray \<Rightarrow> int \<times> CSLSRecycleArray" where
  "get_max_reader_backlog clear r =
     (m_max_reader_backlog r, if clear then r\<lparr> m_max_reader_backlog := 0 \<rparr> else r)"

definition report_viewer_backpressure :: "CSLSRecycleArray \<Rightarrow> CSLSRecycleArray" where
  "report_viewer_backpressure r =
     r\<lparr> m_viewer_backpressure_events := m_viewer_backpressure_events r + 1 \<rparr>"

definition get_viewer_backpressure_events :: "bool \<Rightarrow> CSLSRecycleArray \<Rightarrow> int \<times> CSLSRecycleArray" where
  "get_viewer_backpressure_events clear r =
     (m_viewer_backpressure_events r, if clear then r\<lparr> m_viewer_backpressure_events := 0 \<rparr> else r)"

definition report_viewer_snd_drops :: "int \<Rightarrow> CSLSRecycleArray \<Rightarrow> CSLSRecycleArray" where
  "report_viewer_snd_drops c r =
     (if c > 0 then r\<lparr> m_viewer_snd_drops := m_viewer_snd_drops r + c \<rparr> else r)"

definition get_viewer_snd_drops :: "bool \<Rightarrow> CSLSRecycleArray \<Rightarrow> int \<times> CSLSRecycleArray" where
  "get_viewer_snd_drops clear r =
     (m_viewer_snd_drops r, if clear then r\<lparr> m_viewer_snd_drops := 0 \<rparr> else r)"

definition note_ingest_discontinuity :: "CSLSRecycleArray \<Rightarrow> CSLSRecycleArray" where
  "note_ingest_discontinuity r = r\<lparr> m_ingest_discontinuities := m_ingest_discontinuities r + 1 \<rparr>"

definition get_ingest_discontinuities :: "bool \<Rightarrow> CSLSRecycleArray \<Rightarrow> int \<times> CSLSRecycleArray" where
  "get_ingest_discontinuities clear r =
     (m_ingest_discontinuities r, if clear then r\<lparr> m_ingest_discontinuities := 0 \<rparr> else r)"

section \<open>Abstraction: the array holds the tail of the byte history\<close>

definition circ :: "'a list \<Rightarrow> 'a list \<Rightarrow> bool" where
  "circ a hist \<longleftrightarrow> 0 < length a \<and>
     (\<forall>i<length hist. length hist \<le> i + length a \<longrightarrow> a ! (i mod length a) = hist ! i)"

definition ring_rep :: "CSLSRecycleArray \<Rightarrow> buffer \<Rightarrow> bool" where
  "ring_rep r hist \<longleftrightarrow>
     (case m_arrayData r of None \<Rightarrow> False
      | Some a \<Rightarrow> m_nDataSize r = int (length a) \<and> m_nDataCount r = int (length hist) \<and>
          m_nWritePos r = int (length hist mod length a) \<and> circ a hist)"

definition reader_at :: "CSLSRecycleArray \<Rightarrow> SLSRecycleArrayID \<Rightarrow> nat \<Rightarrow> bool" where
  "reader_at r rid c \<longleftrightarrow> \<not> bFirst rid \<and> nGeneration rid = m_nGeneration r \<and>
     nDataCount rid = int c \<and> nReadPos rid = int (c mod nat (m_nDataSize r))"

lemma circ_writeI:
  assumes "circ a hist" "length a' = length a" "length d \<le> length a"
    and upd: "\<And>k. k < length a \<Longrightarrow> a' ! ((length hist + k) mod length a) =
        (if k < length d then d ! k else a ! ((length hist + k) mod length a))"
  shows "circ a' (hist @ d)"
  unfolding circ_def
proof (intro conjI allI impI)
  show "0 < length a'" using assms by (simp add: circ_def)
next
  fix i assume i: "i < length (hist @ d)" "length (hist @ d) \<le> i + length a'"
  show "a' ! (i mod length a') = (hist @ d) ! i"
  proof (cases "length hist \<le> i")
    case True
    then obtain k where "i = length hist + k" by (auto simp: le_iff_add)
    thus ?thesis using i assms upd [of k] by (simp add: nth_append)
  next
    case False
    define k where "k = i + length a - length hist"
    have k: "length hist + k = i + length a" "k < length a" "\<not> k < length d"
      using i False assms by (auto simp: k_def)
    have "a' ! (i mod length a) = a ! (i mod length a)" using upd [of k] k by simp
    thus ?thesis using assms(1,2) i False by (simp add: circ_def nth_append)
  qed
qed

lemma circ_write_direct:
  assumes "circ a hist" "length hist mod length a + length d \<le> length a"
  shows "circ (take (length hist mod length a) a @ d @ drop (length hist mod length a + length d) a)
              (hist @ d)" (is "circ ?a' _")
proof (rule circ_writeI [OF assms(1)])
  show "length ?a' = length a" "length d \<le> length a" using assms by auto
next
  fix k assume k: "k < length a"
  hence "?a' ! ((length hist + k) mod length a) =
      (if length hist mod length a \<le> (length hist + k) mod length a \<and>
          (length hist + k) mod length a < length hist mod length a + length d
       then d ! ((length hist + k) mod length a - length hist mod length a)
       else a ! ((length hist + k) mod length a))"
    using assms by (intro nth_write) (auto simp: circ_def)
  thus "?a' ! ((length hist + k) mod length a) =
      (if k < length d then d ! k else a ! ((length hist + k) mod length a))"
    using k assms mod_add_small [of "length a" k "length hist"] by (auto simp: circ_def)
qed

lemma circ_write_wrap:
  assumes "circ a hist" "length d \<le> length a"
    and f: "f = length a - length hist mod length a" "f < length d"
  shows "circ (drop f d @ drop (length d - f) (take (length hist mod length a) a @ take f d))
              (hist @ d)" (is "circ ?a' _")
proof (rule circ_writeI [OF assms(1)])
  let ?w = "length hist mod length a"
  have w: "?w < length a" using assms(1) by (simp add: circ_def)
  show "length ?a' = length a" "length d \<le> length a" using w assms(2) f by auto
  fix k assume k: "k < length a"
  have m: "(length hist + k) mod length a = (if ?w + k < length a then ?w + k else ?w + k - length a)"
    using k w by (intro mod_add_small) auto
  show "?a' ! ((length hist + k) mod length a) =
      (if k < length d then d ! k else a ! ((length hist + k) mod length a))"
    unfolding m using k w f assms(2) by (auto simp: nth_append min_def)
qed

lemma circ_read:
  assumes "circ a hist" "c + k \<le> length hist" "length hist \<le> c + length a" "i < k"
  shows "hist ! (c + i) = a ! (if c mod length a + i < length a then c mod length a + i
                               else c mod length a + i - length a)"
proof -
  have "hist ! (c + i) = a ! ((c + i) mod length a)" using assms by (simp add: circ_def)
  also have "(c + i) mod length a = (if c mod length a + i < length a then c mod length a + i
                               else c mod length a + i - length a)"
    using assms by (intro mod_add_small) (auto simp: circ_def)
  finally show ?thesis .
qed

lemma circ_read_direct:
  assumes "circ a hist" "c + k \<le> length hist" "length hist \<le> c + length a"
    and "c mod length a + k \<le> length a"
  shows "take k (drop (c mod length a) a) = take k (drop c hist)"
  using assms by (intro nth_equalityI) (auto simp: circ_read [OF assms(1-3)])

lemma circ_read_wrap:
  assumes "circ a hist" "c + k \<le> length hist" "length hist \<le> c + length a"
    and f: "f = length a - c mod length a" "f < k"
  shows "drop (c mod length a) a @ take (k - f) a = take k (drop c hist)"
proof (rule nth_equalityI)
  have c: "c mod length a < length a" using assms(1) by (simp add: circ_def)
  show len: "length (drop (c mod length a) a @ take (k - f) a) = length (take k (drop c hist))"
    using assms(2,3) c f by auto
  fix i assume "i < length (drop (c mod length a) a @ take (k - f) a)"
  thus "(drop (c mod length a) a @ take (k - f) a) ! i = take k (drop c hist) ! i"
    using c f assms(2,3) circ_read [OF assms(1-3), of i] by (auto simp: nth_append len add.commute)
qed

section \<open>The writer\<close>

lemma ring_repE:
  assumes "ring_rep r hist"
  obtains a where "m_arrayData r = Some a" "m_nDataSize r = int (length a)"
    "m_nDataCount r = int (length hist)" "m_nWritePos r = int (length hist mod length a)" "circ a hist"
    "0 < length a" "length hist mod length a < length a"
  using assms unfolding ring_rep_def by (auto simp: circ_def split: option.splits)

lemma ring_put_rejects:
  "data = None \<or> len \<le> 0 \<or> len > m_nDataSize r \<Longrightarrow> ring_put data len r = Some (SLS_ERROR, r)"
  by (auto simp: ring_put_def)

lemma ring_put_direct:
  assumes "m_arrayData r = Some a" "m_nDataSize r = int (length a)" "m_nWritePos r = int w"
    and "w + n \<le> length a" "0 < n" "n \<le> length src"
  shows "ring_put (Some src) (int n) r =
     Some (int n, r\<lparr> m_arrayData := Some (take w a @ take n src @ drop (w + n) a),
                     m_nWritePos := (if w + n = length a then 0 else int (w + n)),
                     m_nDataCount := m_nDataCount r + int n \<rparr>)"
proof -
  have "memcpy a (int w) src 0 (int n) = Some (take w a @ take n src @ drop (w + n) a)"
    using assms memcpy_nat [of w n a 0 src] by simp
  moreover have "int w + int n = int (length a) \<longleftrightarrow> w + n = length a" by arith
  ultimately show ?thesis using assms by (simp add: ring_put_def)
qed

lemma ring_put_wrap:
  assumes "m_arrayData r = Some a" "m_nDataSize r = int (length a)" "m_nWritePos r = int w"
    and "w < length a" "f = length a - w" "f < n" "n \<le> length a" "n \<le> length src"
  shows "ring_put (Some src) (int n) r =
     Some (int n, r\<lparr> m_arrayData := Some (drop f (take n src) @ drop (n - f) (take w a @ take f src)),
                     m_nWritePos := int (n - f),
                     m_nDataCount := m_nDataCount r + int n \<rparr>)"
proof -
  have f: "int (length a) - int w = int f" "int n - int f = int (n - f)" using assms by auto
  let ?a = "take w a @ take f src"
  have "memcpy a (int w) src 0 (int f) = Some ?a"
    using assms memcpy_nat [of w f a 0 src] by simp
  moreover have "memcpy ?a 0 src (int f) (int (n - f)) =
      Some (take (n - f) (drop f src) @ drop (n - f) ?a)"
    using assms memcpy_nat [of 0 "n - f" ?a f src] by simp
  moreover have "n - f \<noteq> length a" "0 < n" "\<not> n \<le> f" "n \<le> length a" using assms by auto
  ultimately show ?thesis
    unfolding ring_put_def assms(1-3) f(1) by (simp add: drop_take)
qed

lemma ring_put_rep:
  assumes rep: "ring_rep r hist"
    and len: "0 < len" "len \<le> int (length src)" "len \<le> m_nDataSize r"
  shows "\<exists>r'. ring_put (Some src) len r = Some (len, r') \<and> ring_rep r' (hist @ take (nat len) src) \<and>
              m_nDataSize r' = m_nDataSize r \<and> m_nGeneration r' = m_nGeneration r"
proof -
  obtain a where a: "m_arrayData r = Some a" "m_nDataSize r = int (length a)"
      "m_nDataCount r = int (length hist)" "m_nWritePos r = int (length hist mod length a)" "circ a hist"
      "0 < length a" "length hist mod length a < length a"
    using rep by (rule ring_repE)
  define n where "n = nat len"
  have n: "len = int n" "0 < n" "n \<le> length src" "n \<le> length a" using len a by (auto simp: n_def)
  let ?w = "length hist mod length a" and ?d = "take n src"
  have lm: "(length hist + n) mod length a =
      (if ?w + n < length a then ?w + n else ?w + n - length a)"
    using n a by (intro mod_add_small) auto
  show ?thesis
  proof (cases "?w + n \<le> length a")
    case True
    have "circ (take ?w a @ ?d @ drop (?w + n) a) (hist @ ?d)"
      using circ_write_direct [of a hist ?d] a n True by (simp add: min_absorb2)
    thus ?thesis using True a n lm
      by (subst n(1), subst ring_put_direct [OF a(1,2,4) True n(2,3)]) (auto simp: ring_rep_def min_absorb2)
  next
    case False
    define f where "f = length a - ?w"
    have f: "f < n" using False a(7) unfolding f_def by linarith
    define a' where "a' = drop f ?d @ drop (n - f) (take ?w a @ take f src)"
    have "circ a' (hist @ ?d)"
      using circ_write_wrap [of a hist ?d f] a n f by (simp add: a'_def f_def min_absorb2 min_absorb1)
    moreover have "length a' = length a" using a(7) n f unfolding a'_def f_def by simp
    moreover have "n - f = (length hist + n) mod length a" using lm False f a(7) unfolding f_def by simp
    moreover have "ring_put (Some src) (int n) r = Some (int n, r\<lparr> m_arrayData := Some a',
        m_nWritePos := int (n - f), m_nDataCount := m_nDataCount r + int n \<rparr>)"
      unfolding a'_def by (rule ring_put_wrap [OF a(1,2,4,7) f_def f n(4,3)])
    ultimately show ?thesis using a(2,3) n(1,3) by (simp add: ring_rep_def)
  qed
qed

section \<open>The readers\<close>

lemma align_down_bounds:
  assumes "0 \<le> n"
  shows "0 \<le> align_down al n" "align_down al n \<le> n"
proof -
  have "n div al * al = n - n mod al" by (simp add: minus_mod_eq_div_mult)
  moreover have "0 < al \<Longrightarrow> 0 \<le> n mod al \<and> 0 \<le> n div al"
    using assms by (simp add: pos_imp_zdiv_nonneg_iff)
  ultimately show "0 \<le> align_down al n" "align_down al n \<le> n"
    using assms zmod_le_nonneg_dividend [of n al] by (auto simp: align_down_def)
qed

lemma ready_data_len_eq:
  assumes "m_nDataSize r = int n" "m_nWritePos r = int (m mod n)" "nReadPos rid = int (c mod n)"
    and "c \<le> m" "m - c < n" "c \<noteq> m"
  shows "ready_data_len r rid = int (m - c)"
proof -
  have n: "0 < n" "c mod n < n" using assms by auto
  have eq: "m - c = (if c mod n \<le> m mod n then m mod n - c mod n else n - c mod n + m mod n)"
    using assms by (intro mod_diff_small) auto
  have "c mod n \<noteq> m mod n" using eq assms by auto
  thus ?thesis using eq n unfolding ready_data_len_def assms(1-3) by auto
qed

lemma ring_copy_out_slice:
  assumes "circ a hist" "m_nDataSize r = int (length a)" "m_nWritePos r = int (length hist mod length a)"
    and "nReadPos rid = int (c mod length a)"
    and k: "c + k \<le> length hist" "length hist - c \<le> length a" "k \<le> length dst"
  shows "\<exists>p. ring_copy_out dst (int k) r rid a = Some (take k (drop c hist) @ drop k dst, int p) \<and>
             p \<le> length a \<and> (if p = length a then 0 else p) = (c + k) mod length a"
proof (cases "k = 0")
  case True
  have "c mod length a < length a" using assms(1) by (simp add: circ_def)
  thus ?thesis using True assms by (intro exI [of _ "c mod length a"]) (simp add: ring_copy_out_def)
next
  case False
  let ?p = "c mod length a"
  have n: "0 < length a" "?p < length a" using assms(1) by (auto simp: circ_def)
  have lm: "(c + k) mod length a = (if ?p + k < length a then ?p + k else ?p + k - length a)"
    using n k by (intro mod_add_small) auto
  show ?thesis
  proof (cases "?p + k \<le> length a")
    case True
    have "memcpy dst 0 a (int ?p) (int k) = Some (take k (drop ?p a) @ drop k dst)"
      using True k memcpy_nat [of 0 k dst ?p a] by simp
    also have "take k (drop ?p a) = take k (drop c hist)"
      using assms(1) k True by (intro circ_read_direct) auto
    finally show ?thesis using True False lm unfolding ring_copy_out_def assms(2-4)
      by (intro exI [of _ "?p + k"]) auto
  next
    case wrap: False
    define f where "f = length a - ?p"
    have f: "int (length a) - int ?p = int f" "f < k" using wrap n(2) unfolding f_def by linarith+
    have ge: "\<not> ?p < length hist mod length a"
    proof
      assume lt: "?p < length hist mod length a"
      have "length hist - c \<noteq> length a"
      proof
        assume "length hist - c = length a"
        hence "length hist = c + length a" using k(1) n(1) by linarith
        thus False using lt by simp
      qed
      hence "length hist - c = length hist mod length a - ?p"
        using mod_diff_small [of c "length hist" "length a"] k lt by simp
      moreover have "length hist mod length a < length a" using n by simp
      ultimately show False using k(1) wrap lt by linarith
    qed
    have 1: "memcpy dst 0 a (int ?p) (int f) = Some (drop ?p a @ drop f dst)"
      using k f memcpy_nat [of 0 f dst ?p a] n unfolding f_def by simp
    have kf: "k - f < length a" using k f(2) n unfolding f_def by linarith
    have "memcpy (drop ?p a @ drop f dst) (int f) a 0 (int (k - f)) =
        Some ((drop ?p a @ take (k - f) a) @ drop (f + (k - f)) dst)"
      by (rule memcpy_after_prefix) (use k f(2) n kf in \<open>auto simp: f_def\<close>)
    moreover have "f + (k - f) = k" using f(2) by simp
    moreover have "drop ?p a @ take (k - f) a = take k (drop c hist)"
      using k by (intro circ_read_wrap [OF assms(1) _ _ f_def f(2)]) auto
    ultimately have 2: "memcpy (drop ?p a @ drop f dst) (int f) a 0 (int (k - f)) =
        Some (take k (drop c hist) @ drop k dst)" by metis
    have 3: "int k - int f = int (k - f)" "\<not> int k \<le> 0" "\<not> int f \<ge> int k"
      using f(2) False by auto
    have "k - f = (c + k) mod length a" using lm wrap n f(2) k unfolding f_def by auto
    thus ?thesis using kf ge 3(2,3) unfolding ring_copy_out_def assms(2-4) f(1) 3(1) 1 bind.bind_lunit 2
      by (intro exI [of _ "k - f"]) (simp only: of_nat_less_iff if_False simp_thms, auto)
  qed
qed


text \<open>The four outcomes of \<^const>\<open>ring_get\<close> for a reader that has consumed \<open>c\<close> bytes.\<close>

lemma ring_get_first:
  assumes "ring_rep r hist" "bFirst rid"
  shows "\<exists>rid'. ring_get now dst sz (Some rid) al r = Some (SLS_OK, dst, Some rid', r) \<and>
                reader_at r rid' (length hist)"
  using assms(1) by (rule ring_repE)
    (use assms(2) in \<open>simp add: ring_get_def reader_at_def anchor_reader_def\<close>)

lemma ring_get_stale:
  assumes "ring_rep r hist" "\<not> bFirst rid" "nGeneration rid \<noteq> m_nGeneration r"
  shows "\<exists>rid'. ring_get now dst sz (Some rid) al r = Some (SLS_OK, dst, Some rid', r) \<and>
                reader_at r rid' (length hist)"
  using assms(1) by (rule ring_repE)
    (use assms(2,3) in \<open>simp add: ring_get_def reader_at_def anchor_reader_def\<close>)

lemma ring_get_caught_up:
  assumes "ring_rep r hist" "reader_at r rid (length hist)"
  shows "ring_get now dst sz (Some rid) al r = Some (SLS_OK, dst, Some rid, r)"
  using assms(1) by (rule ring_repE)
    (use assms(2) in \<open>simp add: ring_get_def reader_at_def\<close>)

lemma ring_get_overrun:
  assumes "ring_rep r hist" "reader_at r rid c" "c \<le> length hist" "nat (m_nDataSize r) \<le> length hist - c"
  shows "\<exists>rid'. ring_get now dst sz (Some rid) al r =
                  Some (SLS_OK, dst, Some rid', r\<lparr> m_overrun_count := m_overrun_count r + 1 \<rparr>) \<and>
                reader_at r rid' (length hist)"
proof -
  obtain a where a: "m_arrayData r = Some a" "m_nDataSize r = int (length a)"
      "m_nDataCount r = int (length hist)" "m_nWritePos r = int (length hist mod length a)" "0 < length a"
    using assms(1) by (rule ring_repE)
  have b: "int (length hist) - int c \<ge> int (length a)" "int (length hist) \<noteq> int c"
    using assms(3,4) a by auto
  have r: "\<not> bFirst rid" "nGeneration rid = m_nGeneration r" "nDataCount rid = int c"
    using assms(2) by (auto simp: reader_at_def)
  show ?thesis unfolding ring_get_def a r option.case Let_def using b r
    by (simp only: HOL.simp_thms if_True if_False refl) (simp add: reader_at_def a)
qed

lemma ring_get_drain:
  assumes rep: "ring_rep r hist" and at: "reader_at r rid c"
    and lag: "c < length hist" "length hist - c < nat (m_nDataSize r)"
    and dst: "0 \<le> sz" "sz \<le> int (length dst)"
    and k_def: "k = nat (align_down al (min (int (length hist - c)) sz))"
  shows "\<exists>rid' r'. ring_get now dst sz (Some rid) al r =
            Some (int k, take k (drop c hist) @ drop k dst, Some rid', r') \<and>
          r' = r\<lparr> m_max_reader_backlog := atomic_store_max (m_max_reader_backlog r) (int (length hist - c)),
                  m_last_read_time := now \<rparr> \<and>
          reader_at r rid' (c + k) \<and> c + k \<le> length hist"
proof -
  obtain a where a: "m_arrayData r = Some a" "m_nDataSize r = int (length a)"
      "m_nDataCount r = int (length hist)" "m_nWritePos r = int (length hist mod length a)" "circ a hist"
      "0 < length a" "length hist mod length a < length a"
    using rep by (rule ring_repE)
  have rid: "\<not> bFirst rid" "nGeneration rid = m_nGeneration r" "nDataCount rid = int c"
      "nReadPos rid = int (c mod length a)"
    using at a by (auto simp: reader_at_def)
  have k: "int k = align_down al (min (int (length hist - c)) sz)" "int k \<le> int (length hist - c)" "int k \<le> sz"
    using align_down_bounds [of "min (int (length hist - c)) sz" al] dst unfolding k_def by auto
  have ready: "ready_data_len r rid = int (length hist - c)"
    using a rid lag by (intro ready_data_len_eq) auto
  have clen: "copy_data_len sz al r rid = int k"
    unfolding copy_data_len_def ready k(1) by (simp add: min_def)
  obtain p where p: "ring_copy_out dst (int k) r rid a = Some (take k (drop c hist) @ drop k dst, int p)"
      "p \<le> length a" "(if p = length a then 0 else p) = (c + k) mod length a"
    using ring_copy_out_slice [OF a(5,2,4) rid(4), of k dst] k lag dst a(2) by auto
  have b: "int (length hist) - int c = int (length hist - c)" "int (length hist) \<noteq> int c"
      "\<not> int (length hist - c) \<ge> int (length a)" "\<not> int (length hist - c) < 0"
      "\<not> (if int p = int (length a) then 0 else int p) > int (length a)"
      "(if int p = int (length a) then 0 else int p) = int ((c + k) mod length a)"
    using lag a(2) p(2,3) by (auto split: if_splits)
  show ?thesis unfolding ring_get_def option.case rid a Let_def clen b(1) p(1) Option.bind.bind_lunit prod.case
    using b(2-) rid k(2) lag
    by (simp only: HOL.simp_thms if_True if_False refl) (simp add: reader_at_def a)
qed

section \<open>The contract between one writer and many readers\<close>

text \<open>\<open>ring_write\<close> and \<open>ring_read\<close> are \<^const>\<open>ring_put\<close> and \<^const>\<open>ring_get\<close> as the publisher and a player
  call them: the whole chunk, into a fresh buffer of \<open>n\<close> bytes. A schedule is any interleaving of
  writes and reads of the readers \<open>0, 1, ...\<close>; \<open>run_sched\<close> collects what each read delivers.\<close>

definition ring_write :: "CSLSRecycleArray \<Rightarrow> buffer \<Rightarrow> CSLSRecycleArray" where
  "ring_write r d = (case ring_put (Some d) (int (length d)) r of Some (_, r') \<Rightarrow> r' | None \<Rightarrow> r)"

definition ring_read ::
  "time_ms \<Rightarrow> int \<Rightarrow> nat \<Rightarrow> CSLSRecycleArray \<Rightarrow> SLSRecycleArrayID \<Rightarrow> buffer \<times> SLSRecycleArrayID \<times> CSLSRecycleArray" where
  "ring_read now al n r rid =
     (case ring_get now (replicate n 0) (int n) (Some rid) al r of
        Some (ret, dst, Some rid', r') \<Rightarrow> (take (nat ret) dst, rid', r')
      | _ \<Rightarrow> ([], rid, r))"

datatype ring_op = Write buffer | Read nat nat

fun run_sched ::
  "('r \<Rightarrow> buffer \<Rightarrow> 'r) \<Rightarrow> (nat \<Rightarrow> 'r \<Rightarrow> 'c \<Rightarrow> buffer \<times> 'c \<times> 'r) \<Rightarrow> 'r \<Rightarrow> 'c list \<Rightarrow> ring_op list \<Rightarrow>
   (nat \<times> buffer) list" where
  "run_sched wr rd r cs [] = []"
| "run_sched wr rd r cs (Write d # ops) = run_sched wr rd (wr r d) cs ops"
| "run_sched wr rd r cs (Read i n # ops) =
     (case rd n r (cs ! i) of (out, c', r') \<Rightarrow> (i, out) # run_sched wr rd r' (cs[i := c']) ops)"

fun written :: "ring_op list \<Rightarrow> buffer" where
  "written [] = []"
| "written (Write d # ops) = d @ written ops"
| "written (Read _ _ # ops) = written ops"

fun sched_ok :: "nat \<Rightarrow> nat \<Rightarrow> ring_op list \<Rightarrow> bool" where
  "sched_ok cap nr [] = True"
| "sched_ok cap nr (Write d # ops) = (d \<noteq> [] \<and> length d \<le> cap \<and> sched_ok cap nr ops)"
| "sched_ok cap nr (Read i n # ops) = (i < nr \<and> sched_ok cap nr ops)"

definition delivered_to :: "nat \<Rightarrow> (nat \<times> buffer) list \<Rightarrow> buffer list" where
  "delivered_to i tr = map snd (filter (\<lambda>x. fst x = i) tr)"

text \<open>\<open>in_order h p chunks\<close>: the chunks are pairwise disjoint slices of \<open>h\<close>, in the order of \<open>h\<close>, none
  before position \<open>p\<close>.\<close>

fun in_order :: "'a list \<Rightarrow> nat \<Rightarrow> 'a list list \<Rightarrow> bool" where
  "in_order h p [] = True"
| "in_order h p (x # xs) =
     (\<exists>q \<in> set [p..<Suc (length h)]. take (length x) (drop q h) = x \<and> in_order h (q + length x) xs)"

locale broadcast_ring =
  fixes rep :: "'r \<Rightarrow> buffer \<Rightarrow> bool"
    and cap :: "'r \<Rightarrow> nat"
    and at :: "'r \<Rightarrow> 'c \<Rightarrow> nat \<Rightarrow> bool"
    and wr :: "'r \<Rightarrow> buffer \<Rightarrow> 'r"
    and rd :: "nat \<Rightarrow> 'r \<Rightarrow> 'c \<Rightarrow> buffer \<times> 'c \<times> 'r"
  assumes write_rep: "rep r h \<Longrightarrow> d \<noteq> [] \<Longrightarrow> length d \<le> cap r \<Longrightarrow> rep (wr r d) (h @ d)"
    and write_cap: "rep r h \<Longrightarrow> d \<noteq> [] \<Longrightarrow> length d \<le> cap r \<Longrightarrow> cap (wr r d) = cap r"
    and write_at: "rep r h \<Longrightarrow> d \<noteq> [] \<Longrightarrow> length d \<le> cap r \<Longrightarrow> at r c p \<Longrightarrow> at (wr r d) c p"
    and read_frame: "rep r h \<Longrightarrow> at r c p \<Longrightarrow> p \<le> length h \<Longrightarrow> rd n r c = (out, c', r') \<Longrightarrow>
          rep r' h \<and> cap r' = cap r \<and> (\<forall>c2 p2. at r c2 p2 \<longrightarrow> at r' c2 p2)"
    and read_slice: "rep r h \<Longrightarrow> at r c p \<Longrightarrow> p \<le> length h \<Longrightarrow> length h - p < cap r \<Longrightarrow>
          rd n r c = (out, c', r') \<Longrightarrow>
          out = take (length out) (drop p h) \<and> p + length out \<le> length h \<and> at r' c' (p + length out)"
    and read_lapped: "rep r h \<Longrightarrow> at r c p \<Longrightarrow> p \<le> length h \<Longrightarrow> cap r \<le> length h - p \<Longrightarrow>
          rd n r c = (out, c', r') \<Longrightarrow> out = [] \<and> at r' c' (length h)"
begin

lemma read_step:
  assumes "rep r h" "at r c p" "p \<le> length h" "rd n r c = (out, c', r')"
  obtains q where "p \<le> q" "q + length out \<le> length h" "take (length out) (drop q h) = out"
    "at r' c' (q + length out)"
proof (cases "length h - p < cap r")
  case True
  thus thesis using read_slice [OF assms(1-3) _ assms(4)] that [of p] by auto
next
  case False
  thus thesis using read_lapped [OF assms(1-3) _ assms(4)] assms(3) that [of "length h"] by auto
qed

lemma in_order_extend:
  "in_order h p xs \<Longrightarrow> q \<le> p \<Longrightarrow> in_order h q xs"
  by (cases xs) auto

lemma in_order_delivery:
  assumes "rep r h" "list_all2 (\<lambda>c p. at r c p \<and> p \<le> length h) cs ps"
    and "sched_ok (cap r) (length cs) ops" "i < length cs"
  shows "in_order (h @ written ops) (ps ! i) (delivered_to i (run_sched wr rd r cs ops))"
  using assms
proof (induction ops arbitrary: r h cs ps)
  case Nil
  thus ?case by (simp add: delivered_to_def)
next
  case (Cons op ops)
  note rep = Cons.prems(1) and cs = Cons.prems(2)
  show ?case
  proof (cases op)
    case (Write d)
    have ok: "d \<noteq> []" "length d \<le> cap r" using Cons.prems(3) Write by auto
    have "list_all2 (\<lambda>c p. at (wr r d) c p \<and> p \<le> length (h @ d)) cs ps"
      using cs by (rule list_all2_mono) (auto intro: write_at [OF rep ok])
    thus ?thesis
      using Cons.IH [OF write_rep [OF rep ok], of cs ps] Cons.prems(3,4) Write write_cap [OF rep ok] by simp
  next
    case (Read j n)
    obtain out c' r' where rd: "rd n r (cs ! j) = (out, c', r')" by (cases "rd n r (cs ! j)") auto
    have j: "j < length cs" "length ps = length cs" using Cons.prems(3) cs Read
      by (auto dest: list_all2_lengthD)
    hence at_j: "at r (cs ! j) (ps ! j)" "ps ! j \<le> length h" using cs by (auto dest: list_all2_nthD)
    note frame = read_frame [OF rep at_j rd]
    obtain q where q: "ps ! j \<le> q" "q + length out \<le> length h" "take (length out) (drop q h) = out"
        "at r' c' (q + length out)"
      using rep at_j rd by (rule read_step)
    have "list_all2 (\<lambda>c p. at r' c p \<and> p \<le> length h) cs ps"
      using cs by (rule list_all2_mono) (use frame in auto)
    hence "list_all2 (\<lambda>c p. at r' c p \<and> p \<le> length h) (cs[j := c']) (ps[j := q + length out])"
      by (rule list_all2_update_cong) (use q in auto)
    hence IH: "in_order (h @ written ops) (ps[j := q + length out] ! i)
        (delivered_to i (run_sched wr rd r' (cs[j := c']) ops))"
      using Cons.prems(3,4) Read frame by (intro Cons.IH) auto
    have "take (length out) (drop q (h @ written ops)) = out" using q by simp
    thus ?thesis using IH q j Cons.prems(4) by (auto simp: Read rd delivered_to_def)
  qed
qed

lemma gapless_read:
  assumes "rep r h" "at r c p" "p \<le> length h" "length h - p < cap r" "rd n r c = (out, c', r')"
  shows "take p h @ out = take (p + length out) h \<and> at r' c' (p + length out)"
  using read_slice [OF assms] assms(3) by (metis take_add)

end

lemma ring_write_eq:
  assumes "ring_rep r h" "d \<noteq> []" "length d \<le> nat (m_nDataSize r)"
  shows "ring_rep (ring_write r d) (h @ d)" "m_nDataSize (ring_write r d) = m_nDataSize r"
    "m_nGeneration (ring_write r d) = m_nGeneration r"
proof -
  have "int (length d) \<le> m_nDataSize r" using assms(2,3) by (cases d) (auto simp: le_nat_iff)
  thus "ring_rep (ring_write r d) (h @ d)" "m_nDataSize (ring_write r d) = m_nDataSize r"
    "m_nGeneration (ring_write r d) = m_nGeneration r"
    using ring_put_rep [OF assms(1), of "int (length d)" d] assms(2) by (auto simp: ring_write_def)
qed

lemma ring_rep_gauges [simp]:
  "ring_rep (r\<lparr> m_overrun_count := n \<rparr>) h = ring_rep r h"
  "ring_rep (r\<lparr> m_max_reader_backlog := n \<rparr>) h = ring_rep r h"
  "ring_rep (r\<lparr> m_last_read_time := n \<rparr>) h = ring_rep r h"
  "ring_rep (r\<lparr> m_viewer_backpressure_events := n \<rparr>) h = ring_rep r h"
  "ring_rep (r\<lparr> m_viewer_snd_drops := n \<rparr>) h = ring_rep r h"
  "ring_rep (r\<lparr> m_ingest_discontinuities := n \<rparr>) h = ring_rep r h"
  by (simp_all add: ring_rep_def split: option.split)

lemma reader_at_gauges [simp]:
  "reader_at (r\<lparr> m_overrun_count := n \<rparr>) rid c = reader_at r rid c"
  "reader_at (r\<lparr> m_max_reader_backlog := n \<rparr>) rid c = reader_at r rid c"
  "reader_at (r\<lparr> m_last_read_time := n \<rparr>) rid c = reader_at r rid c"
  by (simp_all add: reader_at_def)

lemma ring_read_outcome:
  assumes "ring_rep r h" "reader_at r rid p" "p \<le> length h"
  obtains (lapped) rid' where "nat (m_nDataSize r) \<le> length h - p" "reader_at r rid' (length h)"
      "ring_read now al n r rid = ([], rid', r\<lparr> m_overrun_count := m_overrun_count r + 1 \<rparr>)"
  | (drained) rid' k g t where "length h - p < nat (m_nDataSize r)" "p + k \<le> length h"
      "reader_at r rid' (p + k)"
      "ring_read now al n r rid =
         (take k (drop p h), rid', r\<lparr> m_max_reader_backlog := g, m_last_read_time := t \<rparr>)"
proof (cases "nat (m_nDataSize r) \<le> length h - p")
  case True
  thus thesis using ring_get_overrun [OF assms True, of now "replicate n 0" "int n" al] lapped by (auto simp: ring_read_def sls_codes)
next
  case lag: False
  show thesis
  proof (cases "p = length h")
    case True
    moreover have "r\<lparr> m_max_reader_backlog := m_max_reader_backlog r, m_last_read_time := m_last_read_time r \<rparr> = r"
      by simp
    ultimately show thesis using drained [of 0 rid "m_last_read_time r" "m_max_reader_backlog r"]
        ring_get_caught_up [OF assms(1)] assms lag by (auto simp: ring_read_def sls_codes)
  next
    case False
    define k where "k = nat (align_down al (min (int (length h - p)) (int n)))"
    show thesis
      using ring_get_drain [OF assms(1,2) _ _ _ _ k_def, of "replicate n 0" now] False lag assms(3)
        drained [of k] by (auto simp: ring_read_def)
  qed
qed

interpretation live: broadcast_ring ring_rep "\<lambda>r. nat (m_nDataSize r)" reader_at ring_write "ring_read now al"
proof unfold_locales
  fix r h and d :: buffer and c p
  assume w: "ring_rep r h" "d \<noteq> []" "length d \<le> nat (m_nDataSize r)"
  show "ring_rep (ring_write r d) (h @ d)" "nat (m_nDataSize (ring_write r d)) = nat (m_nDataSize r)"
    using ring_write_eq [OF w] by auto
  show "reader_at r c p \<Longrightarrow> reader_at (ring_write r d) c p"
    using ring_write_eq [OF w] by (simp add: reader_at_def)
next
  fix r h c p n out c' r'
  assume r: "ring_rep r h" "reader_at r c p" "p \<le> length h" "ring_read now al n r c = (out, c', r')"
  show "ring_rep r' h \<and> nat (m_nDataSize r') = nat (m_nDataSize r) \<and>
        (\<forall>c2 p2. reader_at r c2 p2 \<longrightarrow> reader_at r' c2 p2)"
    using r(1-3) by (rule ring_read_outcome [where now = now and al = al and n = n]) (use r in auto)
  show "out = take (length out) (drop p h) \<and> p + length out \<le> length h \<and> reader_at r' c' (p + length out)"
    if "length h - p < nat (m_nDataSize r)"
    using r(1-3) by (rule ring_read_outcome [where now = now and al = al and n = n]) (use r that in auto)
  show "out = [] \<and> reader_at r' c' (length h)" if "nat (m_nDataSize r) \<le> length h - p"
    using r(1-3) by (rule ring_read_outcome [where now = now and al = al and n = n]) (use r that in auto)
qed

section \<open>Properties\<close>

lemma setSize_rep:
  assumes "0 < n" "setSize n r g = Some (r', g')"
  shows "ring_rep r' []" "m_nDataSize r' = n" "m_nGeneration r' = g" "g' = Suc g"
  using assms by (auto simp: setSize_def ring_rep_def circ_def split: if_splits)

text \<open>A ring of four bytes with generation 2, and the cursor of a new viewer.\<close>

definition small_ring :: CSLSRecycleArray where
  "small_ring = \<lparr> m_arrayData = Some (replicate 4 0), m_nDataSize = 4, m_nDataCount = 0, m_nWritePos = 0,
     m_last_read_time = 0, m_overrun_count = 0, m_max_reader_backlog = 0, m_viewer_backpressure_events = 0,
     m_viewer_snd_drops = 0, m_ingest_discontinuities = 0, m_nGeneration = 2 \<rparr>"

definition anchored_cursor :: SLSRecycleArrayID where
  "anchored_cursor = \<lparr> nReadPos = 0, nDataCount = 0, bFirst = False, nGeneration = 2 \<rparr>"

lemma small_ring_size [simp]: "m_nDataSize small_ring = 4"
  by (simp add: small_ring_def)

lemma small_ring_rep: "ring_rep small_ring []"
  by (simp add: small_ring_def ring_rep_def circ_def)

lemma anchored_cursor_at: "reader_at small_ring anchored_cursor 0"
  by (simp add: small_ring_def anchored_cursor_def reader_at_def)



text \<open>C17. put on a ring that holds the history h: a null pointer, a non-positive length or a length over the
  capacity is SLS_ERROR with the ring untouched; every other call stays inside the array, returns the
  length, and appends exactly those bytes to the history, keeping size and generation.\<close>

theorem ring_put_refines_append:
  assumes "ring_rep r h" "len \<le> int (length src)"
  shows "ring_put None len r = Some (SLS_ERROR, r) \<and>
    (if len \<le> 0 \<or> len > m_nDataSize r then ring_put (Some src) len r = Some (SLS_ERROR, r)
     else \<exists>r'. ring_put (Some src) len r = Some (len, r') \<and> ring_rep r' (h @ take (nat len) src) \<and>
               m_nDataSize r' = m_nDataSize r \<and> m_nGeneration r' = m_nGeneration r)"
  using ring_put_rep [OF assms(1), of len src] assms(2) ring_put_rejects by auto

theorem ring_put_refines_append_witness:
  "\<exists>r'. ring_put (Some [1, 2, 3]) 3 small_ring = Some (3, r') \<and> ring_rep r' [1, 2, 3]"
  using ring_put_refines_append [OF small_ring_rep, of 3 "[1, 2, 3]"] by auto

text \<open>get for a viewer that has consumed p bytes of the history h: a new viewer and one anchored on another
  incarnation of the ring get nothing and join at the write head; a viewer lapped by a whole ring gets
  nothing, joins at the write head and is counted; every other viewer gets the next bytes of the
  history, as many as are ready and fit, rounded down to the alignment. No copy leaves its object.\<close>

theorem ring_get_refines_slice:
  assumes rep: "ring_rep r h" and dst: "0 \<le> sz" "sz \<le> int (length dst)"
    and rid: "\<not> bFirst rid \<and> nGeneration rid = m_nGeneration r \<longrightarrow> reader_at r rid p \<and> p \<le> length h"
  shows "\<exists>ret dst' rid' r'. ring_get now dst sz (Some rid) al r = Some (ret, dst', Some rid', r') \<and>
     ring_rep r' h \<and>
     (if bFirst rid \<or> is_stale_reader r (Some rid)
      then ret = SLS_OK \<and> dst' = dst \<and> r' = r \<and> reader_at r' rid' (length h)
      else if m_nDataSize r \<le> int (length h - p)
      then ret = SLS_OK \<and> dst' = dst \<and> reader_at r' rid' (length h) \<and>
           m_overrun_count r' = m_overrun_count r + 1
      else ret = align_down al (min (int (length h - p)) sz) \<and>
           dst' = take (nat ret) (drop p h) @ drop (nat ret) dst \<and>
           reader_at r' rid' (p + nat ret) \<and> m_overrun_count r' = m_overrun_count r)"
proof (cases "bFirst rid \<or> is_stale_reader r (Some rid)")
  case True
  thus ?thesis using ring_get_first [OF rep, of rid now dst sz al] ring_get_stale [OF rep, of rid now dst sz al] rep
    by (auto simp: is_stale_reader_def)
next
  case fresh: False
  hence at: "reader_at r rid p" "p \<le> length h" using rid by (auto simp: is_stale_reader_def)
  consider (lapped) "m_nDataSize r \<le> int (length h - p)" | (same) "\<not> m_nDataSize r \<le> int (length h - p)" "p = length h"
    | (some) "\<not> m_nDataSize r \<le> int (length h - p)" "p < length h" using at(2) by linarith
  thus ?thesis
  proof cases
    case lapped
    hence "nat (m_nDataSize r) \<le> length h - p" by linarith
    thus ?thesis using ring_get_overrun [OF rep at, of now dst sz al] fresh lapped rep by auto
  next
    case same
    thus ?thesis using ring_get_caught_up [OF rep, of rid now dst sz al] at fresh rep dst
      by (auto simp: sls_codes align_down_def)
  next
    case some
    hence "length h - p < nat (m_nDataSize r)" by linarith
    moreover have "0 \<le> align_down al (min (int (length h - p)) sz)"
      using dst by (intro align_down_bounds) auto
    ultimately show ?thesis using ring_get_drain [OF rep at(1) some(2) _ dst refl, of now al] fresh some rep
      by (auto simp: nat_le_iff)
  qed
qed

theorem ring_get_refines_slice_witness:
  "\<exists>ret dst' rid' r'. ring_get 9 [0, 0] 2 (Some anchored_cursor) 0 small_ring = Some (ret, dst', Some rid', r') \<and>
     ring_rep r' []"
  using ring_get_refines_slice [OF small_ring_rep, of 2 "[0, 0]" anchored_cursor 0 9 0] anchored_cursor_at by auto

end
