(* ===== verification/Ts_Common.thy ===== *)
theory Ts_Common
  imports Prelude
begin

text \<open>The transport-stream helpers of \<^verbatim>\<open>src/core/common.cpp\<close>: the continuity-counter tracker the ingest
  path runs on every chunk (\<open>sls_ts_check_continuity\<close>) and the PAT/PES reader used to index a file
  by decode time (\<open>sls_parse_ts_info\<close>). Reads go through \<^const>\<open>byte_at\<close>, so \<^const>\<open>None\<close> is a read
  outside of the buffer.\<close>

section \<open>State and operations\<close>

definition TS_SYNC_BYTE :: int where "TS_SYNC_BYTE = 0x47"
definition INVALID_PID :: int where "INVALID_PID = -1"
definition PAT_PID :: int where "PAT_PID = 0"
definition INVALID_DTS_PTS :: int where "INVALID_DTS_PTS = -1"
definition MAX_PES_PAYLOAD :: int where "MAX_PES_PAYLOAD = 200 * 1024"
definition TS_CC_MAX_PIDS :: nat where "TS_CC_MAX_PIDS = 16"

lemmas ts_consts = TS_SYNC_BYTE_def INVALID_PID_def PAT_PID_def INVALID_DTS_PTS_def TS_PACK_LEN_def
  TS_CC_MAX_PIDS_def

record ts_info =
  es_pid :: int
  dts :: int
  pts :: int
  pmt_pid :: int

text \<open>\<open>pid\<close> and \<open>last_cc\<close> are the fixed arrays of \<^const>\<open>TS_CC_MAX_PIDS\<close> cells; the first \<open>n_pids\<close> are in use.\<close>

record ts_cc_state =
  n_pids :: nat
  pid :: "int list"
  last_cc :: "int list"

definition sls_init_ts_info :: "ts_info option \<Rightarrow> ts_info option" where
  "sls_init_ts_info ti = map_option
     (\<lambda>t. \<lparr> es_pid = INVALID_PID, dts = INVALID_DTS_PTS, pts = INVALID_DTS_PTS, pmt_pid = INVALID_PID \<rparr>) ti"

definition sls_init_ts_cc_state :: "ts_cc_state option \<Rightarrow> ts_cc_state option" where
  "sls_init_ts_cc_state st = map_option (\<lambda>s. s\<lparr> n_pids := 0 \<rparr>) st"

text \<open>A 32 bit signed shift result: bits above 31 are lost, bit 31 is the sign.\<close>

definition to_int32 :: "int \<Rightarrow> int" where
  "to_int32 x = signed_take_bit 31 x"

definition ff_parse_pes_pts :: "buffer \<Rightarrow> int \<Rightarrow> int option" where
  "ff_parse_pes_pts buf len =
     (if len < 5 then Some INVALID_DTS_PTS
      else do {
        b0 \<leftarrow> byte_at buf 0;
        b1 \<leftarrow> byte_at buf 1;
        b2 \<leftarrow> byte_at buf 2;
        b3 \<leftarrow> byte_at buf 3;
        b4 \<leftarrow> byte_at buf 4;
        let p0 = 0 OR to_int32 (push_bit 29 (b0 AND 0x0e));
        let p1 = p0 OR push_bit 15 (push_bit 8 (b1 AND 0xFF) OR drop_bit 1 b2);
        let p2 = p1 OR drop_bit 1 (push_bit 8 (b3 AND 0xFF) OR b4);
        Some p2
      })"

text \<open>\<open>pes\<close> walks from offset 3; every advance is compared with the end \<open>pes_len\<close> first.\<close>

definition sls_pes2es :: "buffer option \<Rightarrow> int \<Rightarrow> ts_info \<Rightarrow> (int \<times> ts_info) option" where
  "sls_pes2es pes_frame pes_len ti =
     (case pes_frame of None \<Rightarrow> Some (SLS_ERROR, ti)
      | Some f \<Rightarrow>
        if pes_len < 3 then Some (SLS_ERROR, ti)
        else do {
          s0 \<leftarrow> byte_at f 0; s1 \<leftarrow> byte_at f 1; s2 \<leftarrow> byte_at f 2;
          if s0 \<noteq> 0 \<or> s1 \<noteq> 0 \<or> s2 \<noteq> 1 then Some (SLS_ERROR, ti)
          else if 3 \<ge> pes_len then Some (SLS_ERROR, ti)
          else do {
            stream_id \<leftarrow> byte_at f 3;
            if stream_id AND 0xFF \<noteq> 0xE0 \<and> stream_id AND 0xFF \<noteq> 0xC0 then Some (SLS_ERROR, ti)
            else if 4 + 2 > pes_len then Some (SLS_ERROR, ti)
            else do {
              t0 \<leftarrow> byte_at f 4; t1 \<leftarrow> byte_at f 5;
              if 6 + 3 > pes_len then Some (SLS_ERROR, ti)
              else do {
                f0 \<leftarrow> byte_at f 6;
                flags \<leftarrow> byte_at f 7;
                let ti1 = ti\<lparr> dts := INVALID_DTS_PTS, pts := INVALID_DTS_PTS \<rparr>;
                if flags AND 0xc0 = 0x80 then
                  if 9 + 5 > pes_len then Some (SLS_ERROR, ti1)
                  else do {
                    t \<leftarrow> ff_parse_pes_pts (drop 9 f) (pes_len - 9);
                    Some (SLS_OK, ti1\<lparr> pts := t, dts := t \<rparr>)
                  }
                else if flags AND 0xc0 = 0xc0 then
                  if 9 + 10 > pes_len then Some (SLS_ERROR, ti1)
                  else do {
                    p \<leftarrow> ff_parse_pes_pts (drop 9 f) (pes_len - 9);
                    d \<leftarrow> ff_parse_pes_pts (drop 14 f) (pes_len - 14);
                    Some (SLS_OK, ti1\<lparr> pts := p, dts := d \<rparr>)
                  }
                else Some (SLS_OK, ti1)
              }
            }
          }
        })"

function pat_programs :: "buffer \<Rightarrow> int \<Rightarrow> int \<Rightarrow> ts_info \<Rightarrow> ts_info option" where
  "pat_programs buf prog_end n ti =
     (if n < prog_end then do {
        h \<leftarrow> byte_at buf (8 + n); l \<leftarrow> byte_at buf (9 + n);
        x \<leftarrow> byte_at buf (10 + n); y \<leftarrow> byte_at buf (11 + n);
        let pid_val = push_bit 8 (x AND 0x1F) OR y;
        pat_programs buf prog_end (n + 4)
          (if push_bit 8 h OR l = 0 then ti else ti\<lparr> pmt_pid := pid_val \<rparr>)
      }
      else Some ti)"
  by pat_completeness auto
termination by (relation "measure (\<lambda>(buf, prog_end, n, ti). nat (prog_end - n))") auto

definition sls_parse_pat :: "buffer \<Rightarrow> int \<Rightarrow> ts_info \<Rightarrow> (int \<times> ts_info) option" where
  "sls_parse_pat buf len ti =
     (if len < 8 then Some (SLS_ERROR, ti)
      else do {
        b0 \<leftarrow> byte_at buf 0; b1 \<leftarrow> byte_at buf 1; b2 \<leftarrow> byte_at buf 2; b3 \<leftarrow> byte_at buf 3;
        b4 \<leftarrow> byte_at buf 4; b5 \<leftarrow> byte_at buf 5; b6 \<leftarrow> byte_at buf 6; b7 \<leftarrow> byte_at buf 7;
        c3 \<leftarrow> byte_at buf (len - 4); c2 \<leftarrow> byte_at buf (len - 3);
        c1 \<leftarrow> byte_at buf (len - 2); c0 \<leftarrow> byte_at buf (len - 1);
        let section_length = push_bit 8 (b1 AND 0x0F) OR b2;
        let prog_end = (if section_length - 12 > len - 11 then len - 11 else section_length - 12);
        ti' \<leftarrow> pat_programs buf prog_end 0 ti;
        Some (SLS_OK, ti')
      })"

text \<open>The end of \<open>sls_parse_ts_info\<close>: the payload at \<open>pos\<close> is a PAT section (after its pointer byte) or a PES.\<close>

definition ts_demux :: "buffer \<Rightarrow> int \<Rightarrow> int \<Rightarrow> ts_info \<Rightarrow> (int \<times> ts_info) option" where
  "ts_demux pk p pos ti =
     (if p = PAT_PID
      then sls_parse_pat (take (nat (TS_PACK_LEN - (pos + 1))) (drop (nat (pos + 1)) pk))
             (TS_PACK_LEN - (pos + 1)) ti
      else do {
        (ret, ti') \<leftarrow> sls_pes2es (Some (take (nat (TS_PACK_LEN - pos)) (drop (nat pos) pk)))
                        (TS_PACK_LEN - pos) ti;
        Some (ret, if dts ti' \<noteq> INVALID_DTS_PTS then ti'\<lparr> es_pid := p \<rparr> else ti')
      })"

definition sls_parse_ts_info :: "buffer option \<Rightarrow> int \<Rightarrow> ts_info \<Rightarrow> (int \<times> ts_info) option" where
  "sls_parse_ts_info packet len ti =
     (case packet of None \<Rightarrow> Some (SLS_ERROR, ti)
      | Some pk \<Rightarrow>
        if len < TS_PACK_LEN then Some (SLS_ERROR, ti)
        else do {
          b0 \<leftarrow> byte_at pk 0; b1 \<leftarrow> byte_at pk 1; b2 \<leftarrow> byte_at pk 2; b3 \<leftarrow> byte_at pk 3;
          let p = push_bit 8 (b1 AND 0x1F) OR (b2 AND 0xFF);
          let afc = (drop_bit 4 b3) AND 3;
          if b0 \<noteq> TS_SYNC_BYTE then Some (SLS_ERROR, ti)
          else if b1 AND 0x40 = 0 then Some (SLS_ERROR, ti)
          else if p \<noteq> PAT_PID \<and> pmt_pid ti = p then Some (SLS_OK, ti)
          else if p \<noteq> PAT_PID \<and> es_pid ti \<noteq> INVALID_PID \<and> p \<noteq> es_pid ti then Some (SLS_ERROR, ti)
          else if afc = 0 then Some (SLS_ERROR, ti)
          else do {
            b4 \<leftarrow> byte_at pk 4;
            let pos = (if afc AND 2 \<noteq> 0 then 4 + (b4 + 1) else 4);
            if pos \<ge> TS_PACK_LEN \<or> afc AND 1 \<noteq> 1 then Some (SLS_ERROR, ti)
            else ts_demux pk p pos ti
          }
        })"

fun find_slot :: "int list \<Rightarrow> nat \<Rightarrow> int \<Rightarrow> nat option" where
  "find_slot pids 0 p = None"
| "find_slot [] (Suc n) p = None"
| "find_slot (x # pids) (Suc n) p = (if x = p then Some 0 else map_option Suc (find_slot pids n p))"

text \<open>One iteration of the loop of \<open>sls_ts_check_continuity\<close>, on the packet at offset \<open>i\<close>: the new tracker
  and whether the packet is a break.\<close>

definition cc_packet :: "buffer \<Rightarrow> int \<Rightarrow> ts_cc_state \<Rightarrow> (ts_cc_state \<times> int) option" where
  "cc_packet data i st = do {
     p0 \<leftarrow> byte_at data i; p1 \<leftarrow> byte_at data (i + 1); p2 \<leftarrow> byte_at data (i + 2);
     p3 \<leftarrow> byte_at data (i + 3); p4 \<leftarrow> byte_at data (i + 4); p5 \<leftarrow> byte_at data (i + 5);
     let p = push_bit 8 (p1 AND 0x1F) OR p2;
     let afc = (drop_bit 4 p3) AND 3;
     let has_payload = (afc AND 1 \<noteq> 0);
     let cc = p3 AND 0x0F;
     let declared_discontinuity = (afc AND 2 \<noteq> 0 \<and> p4 > 0 \<and> p5 AND 0x80 \<noteq> 0);
     if p0 \<noteq> TS_SYNC_BYTE then Some (st, 0)
     else if p = 0x1FFF then Some (st, 0)
     else case find_slot (pid st) (n_pids st) p of
       None \<Rightarrow>
         if n_pids st < TS_CC_MAX_PIDS
         then Some (st\<lparr> n_pids := Suc (n_pids st), pid := (pid st)[n_pids st := p],
                        last_cc := (last_cc st)[n_pids st := cc] \<rparr>, 0)
         else Some (st, 0)
     | Some slot \<Rightarrow>
         if has_payload
         then let expected = (last_cc st ! slot + 1) AND 0x0F;
                  broken = (cc \<noteq> expected \<and> cc \<noteq> last_cc st ! slot \<and> \<not> declared_discontinuity)
              in Some (st\<lparr> last_cc := (last_cc st)[slot := cc] \<rparr>, if broken then 1 else 0)
         else Some (st, 0)
   }"

function cc_loop :: "buffer \<Rightarrow> int \<Rightarrow> int \<Rightarrow> ts_cc_state \<Rightarrow> int \<Rightarrow> (int \<times> ts_cc_state) option" where
  "cc_loop data len i st breaks =
     (if i + TS_PACK_LEN \<le> len then do {
        (st', b) \<leftarrow> cc_packet data i st;
        cc_loop data len (i + TS_PACK_LEN) st' (breaks + b)
      }
      else Some (breaks, st))"
  by pat_completeness auto
termination
  by (relation "measure (\<lambda>(data, len, i, st, breaks). nat (len - i))") (auto simp: TS_PACK_LEN_def)

definition sls_ts_check_continuity ::
  "buffer option \<Rightarrow> int \<Rightarrow> ts_cc_state option \<Rightarrow> (int \<times> ts_cc_state option) option" where
  "sls_ts_check_continuity data len st =
     (case (data, st) of
        (Some d, Some s) \<Rightarrow> map_option (\<lambda>(b, s'). (b, Some s')) (cc_loop d len 0 s 0)
      | _ \<Rightarrow> Some (0, st))"

declare pat_programs.simps [simp del] cc_loop.simps [simp del]

section \<open>Continuity: reference semantics\<close>

text \<open>What a packet header says, and the tracker as a map from PIDs to the last counter seen.\<close>

record ts_hdr =
  h_sync :: bool
  h_pid :: int
  h_payload :: bool
  h_cc :: int
  h_disc :: bool

definition hdr_at :: "buffer \<Rightarrow> nat \<Rightarrow> ts_hdr" where
  "hdr_at data i =
     (let afc = uint (data ! (i + 3)) div 16 mod 4 in
      \<lparr> h_sync = (uint (data ! i) = 0x47),
        h_pid = push_bit 8 (uint (data ! (i + 1)) mod 32) OR uint (data ! (i + 2)),
        h_payload = odd afc,
        h_cc = uint (data ! (i + 3)) mod 16,
        h_disc = (afc AND 2 \<noteq> 0 \<and> uint (data ! (i + 4)) > 0 \<and> uint (data ! (i + 5)) AND 0x80 \<noteq> 0) \<rparr>)"

definition cc_break :: "int \<Rightarrow> ts_hdr \<Rightarrow> bool" where
  "cc_break l h \<longleftrightarrow> h_cc h \<noteq> (l + 1) mod 16 \<and> h_cc h \<noteq> l \<and> \<not> h_disc h"

definition cc_spec_step :: "ts_hdr \<Rightarrow> (int \<rightharpoonup> int) \<times> int \<Rightarrow> (int \<rightharpoonup> int) \<times> int" where
  "cc_spec_step h = (\<lambda>(m, b).
     if \<not> h_sync h \<or> h_pid h = 0x1FFF then (m, b)
     else case m (h_pid h) of
       None \<Rightarrow> (if card (dom m) < TS_CC_MAX_PIDS then m(h_pid h \<mapsto> h_cc h) else m, b)
     | Some l \<Rightarrow> if h_payload h then (m(h_pid h \<mapsto> h_cc h), if cc_break l h then b + 1 else b) else (m, b))"

definition ts_headers :: "buffer \<Rightarrow> nat \<Rightarrow> ts_hdr list" where
  "ts_headers data n = map (\<lambda>k. hdr_at data (188 * k)) [0..<n]"

definition cc_map :: "ts_cc_state \<Rightarrow> int \<rightharpoonup> int" where
  "cc_map st p = map_option (\<lambda>s. last_cc st ! s) (find_slot (pid st) (n_pids st) p)"

definition cc_ok :: "ts_cc_state \<Rightarrow> bool" where
  "cc_ok st \<longleftrightarrow> n_pids st \<le> TS_CC_MAX_PIDS \<and> length (pid st) = TS_CC_MAX_PIDS \<and>
     length (last_cc st) = TS_CC_MAX_PIDS \<and> distinct (take (n_pids st) (pid st))"

lemma find_slot_None: "n \<le> length pids \<Longrightarrow> find_slot pids n p = None \<longleftrightarrow> p \<notin> set (take n pids)"
  by (induction pids n p rule: find_slot.induct) auto

lemma find_slot_Some:
  "find_slot pids n p = Some s \<Longrightarrow> s < n \<and> s < length pids \<and> pids ! s = p"
  by (induction pids n p arbitrary: s rule: find_slot.induct) (auto split: if_splits)

lemma find_slot_push:
  "n < length pids \<Longrightarrow> find_slot (pids[n := p]) (Suc n) q =
     (case find_slot pids n q of Some s \<Rightarrow> Some s | None \<Rightarrow> if q = p then Some n else None)"
  by (induction pids n q rule: find_slot.induct) (auto simp: neq_Nil_conv split: option.splits)

lemma dom_cc_map: "cc_ok st \<Longrightarrow> dom (cc_map st) = set (take (n_pids st) (pid st))"
  using find_slot_None [of "n_pids st" "pid st"] by (auto simp: cc_map_def cc_ok_def dom_def)

lemma card_dom_cc_map: "cc_ok st \<Longrightarrow> card (dom (cc_map st)) = n_pids st"
  using distinct_card [of "take (n_pids st) (pid st)"] by (auto simp: dom_cc_map cc_ok_def)

lemma cc_map_update:
  assumes "cc_ok st" "find_slot (pid st) (n_pids st) p = Some s"
  shows "cc_map (st\<lparr> last_cc := (last_cc st)[s := c] \<rparr>) = (cc_map st)(p \<mapsto> c)"
proof
  fix q
  have "s < length (last_cc st)" using find_slot_Some [OF assms(2)] assms(1) by (simp add: cc_ok_def)
  thus "cc_map (st\<lparr> last_cc := (last_cc st)[s := c] \<rparr>) q = ((cc_map st)(p \<mapsto> c)) q"
    using assms(2) find_slot_Some [OF assms(2)] find_slot_Some [of "pid st" "n_pids st" q s]
    by (cases "find_slot (pid st) (n_pids st) q") (auto simp: cc_map_def nth_list_update)
qed

lemma cc_map_push:
  assumes "cc_ok st" "find_slot (pid st) (n_pids st) p = None" "n_pids st < TS_CC_MAX_PIDS"
    and st': "st' = st\<lparr> n_pids := Suc (n_pids st), pid := (pid st)[n_pids st := p],
                     last_cc := (last_cc st)[n_pids st := c] \<rparr>"
  shows "cc_map st' = (cc_map st)(p \<mapsto> c)" "cc_ok st'"
proof -
  have "find_slot (pid st) (n_pids st) q = Some s \<Longrightarrow> s \<noteq> n_pids st" for q s
    using find_slot_Some by fastforce
  thus "cc_map st' = (cc_map st)(p \<mapsto> c)" unfolding st'
    using assms(1-3) find_slot_push [of "n_pids st" "pid st" p]
    by (auto simp: cc_map_def cc_ok_def fun_eq_iff nth_list_update split: option.splits)
  show "cc_ok st'" unfolding st' using assms(1-3) find_slot_None [of "n_pids st" "pid st" p]
    by (auto simp: cc_ok_def take_Suc_conv_app_nth)
qed

lemma cc_ok_update: "cc_ok st \<Longrightarrow> cc_ok (st\<lparr> last_cc := (last_cc st)[s := c] \<rparr>)"
  by (simp add: cc_ok_def)

text \<open>One packet refines one step of the reference semantics.\<close>

lemma cc_packet_refines:
  assumes "cc_ok st" "i + 188 \<le> length data"
  obtains st' b where "cc_packet data (int i) st = Some (st', b)" "cc_ok st'"
    "\<And>n. cc_spec_step (hdr_at data i) (cc_map st, n) = (cc_map st', n + b)"
proof -
  let ?h = "hdr_at data i"
  have n: "nat (int i + 1) = i + 1" "nat (int i + 2) = i + 2" "nat (int i + 3) = i + 3"
      "nat (int i + 4) = i + 4" "nat (int i + 5) = i + 5" by auto
  have eq: "cc_packet data (int i) st =
     (if \<not> h_sync ?h then Some (st, 0)
      else if h_pid ?h = 0x1FFF then Some (st, 0)
      else case find_slot (pid st) (n_pids st) (h_pid ?h) of
        None \<Rightarrow> if n_pids st < TS_CC_MAX_PIDS
          then Some (st\<lparr> n_pids := Suc (n_pids st), pid := (pid st)[n_pids st := h_pid ?h],
                         last_cc := (last_cc st)[n_pids st := h_cc ?h] \<rparr>, 0)
          else Some (st, 0)
      | Some slot \<Rightarrow> if h_payload ?h
          then Some (st\<lparr> last_cc := (last_cc st)[slot := h_cc ?h] \<rparr>,
                     if cc_break (last_cc st ! slot) ?h then 1 else 0)
          else Some (st, 0))"
    using assms(2) unfolding cc_packet_def
    by (simp add: n hdr_at_def TS_SYNC_BYTE_def cc_break_def int_and_mask drop_bit_int_def Let_def odd_iff_mod_2_eq_one
        split: option.split)
  show thesis
  proof (cases "find_slot (pid st) (n_pids st) (h_pid ?h)")
    case None
    thus thesis using that eq assms(1) cc_map_push [OF assms(1) None _ refl, of "h_cc ?h"] card_dom_cc_map [OF assms(1)]
      by (auto simp: cc_spec_step_def cc_map_def split: if_splits)
  next
    case (Some slot)
    thus thesis using that eq assms(1) cc_map_update [OF assms(1) Some, of "h_cc ?h"] cc_ok_update
      by (auto simp: cc_spec_step_def cc_map_def split: if_splits)
  qed
qed

lemma ts_headers_from:
  "k < n \<Longrightarrow> map (\<lambda>j. hdr_at data (188 * j)) [k..<n] =
     hdr_at data (188 * k) # map (\<lambda>j. hdr_at data (188 * j)) [Suc k..<n]"
  by (simp add: upt_conv_Cons)

lemma cc_loop_refines:
  assumes "cc_ok st" "m \<le> length data" "k \<le> m div 188"
  shows "\<exists>st' b'. cc_loop data (int m) (int (188 * k)) st b = Some (b', st') \<and> cc_ok st' \<and>
     fold cc_spec_step (map (\<lambda>j. hdr_at data (188 * j)) [k..<m div 188]) (cc_map st, b) = (cc_map st', b')"
  using assms
proof (induction "m div 188 - k" arbitrary: k st b)
  case 0
  hence "k = m div 188" by simp
  hence "\<not> int (188 * k) + TS_PACK_LEN \<le> int m" by (simp add: TS_PACK_LEN_def)
  thus ?case using 0 by (simp add: cc_loop.simps)
next
  case (Suc x)
  hence k: "k < m div 188" by simp
  hence le: "188 * k + 188 \<le> m" by linarith
  obtain st1 b1 where p: "cc_packet data (int (188 * k)) st = Some (st1, b1)" "cc_ok st1"
      "\<And>n. cc_spec_step (hdr_at data (188 * k)) (cc_map st, n) = (cc_map st1, n + b1)"
    using cc_packet_refines [of st "188 * k" data] Suc.prems le by auto
  have "int (188 * k) + TS_PACK_LEN = int (188 * Suc k)" "int (188 * k) + TS_PACK_LEN \<le> int m"
    using le by (simp_all add: TS_PACK_LEN_def)
  hence "cc_loop data (int m) (int (188 * k)) st b = cc_loop data (int m) (int (188 * Suc k)) st1 (b + b1)"
    using p(1) by (subst cc_loop.simps) (simp add: add.commute)
  thus ?case
    using Suc.hyps(1) [of "Suc k" st1 "b + b1"] Suc.hyps(2) Suc.prems p k by (simp add: ts_headers_from)
qed

lemma check_continuity_refines:
  assumes "cc_ok st" "m \<le> length data"
  shows "\<exists>b st'. sls_ts_check_continuity (Some data) (int m) (Some st) = Some (b, Some st') \<and> cc_ok st' \<and>
    fold cc_spec_step (ts_headers data (m div 188)) (cc_map st, 0) = (cc_map st', b)"
  using cc_loop_refines [OF assms, of 0 0] by (auto simp: sls_ts_check_continuity_def ts_headers_def)

lemma mod_16_wrap:
  fixes x :: int
  assumes "0 \<le> x" "x < 32"
  shows "x mod 16 = (if x < 16 then x else x - 16)"
proof (cases "x < 16")
  case False
  hence "x mod 16 = (x - 16) mod 16" by (intro mod_pos_geq) auto
  also have "\<dots> = x - 16" using assms False by (intro mod_pos_pos_trivial) auto
  finally show ?thesis using False by simp
qed (use assms in simp)

lemma cc_gap:
  fixes l k :: int
  assumes "0 \<le> l" "l < 16"
  shows "(l + 1 + k) mod 16 = (l + 1) mod 16 \<longleftrightarrow> k mod 16 = 0"
    and "(l + 1 + k) mod 16 = l \<longleftrightarrow> k mod 16 = 15"
proof -
  have r: "0 \<le> k mod 16" "k mod 16 < 16" by auto
  have "(l + 1 + k) mod 16 = (l + 1 + k mod 16) mod 16" by (simp add: mod_add_right_eq)
  also have "\<dots> = (if l + 1 + k mod 16 < 16 then l + 1 + k mod 16 else l + 1 + k mod 16 - 16)"
    using assms r by (intro mod_16_wrap) auto
  finally have e: "(l + 1 + k) mod 16 = (if l + 1 + k mod 16 < 16 then l + 1 + k mod 16 else l + 1 + k mod 16 - 16)" .
  show "(l + 1 + k) mod 16 = l \<longleftrightarrow> k mod 16 = 15" unfolding e using assms r by (simp split: if_split) linarith
  have "(l + 1) mod 16 = (if l + 1 < 16 then l + 1 else l + 1 - 16)" using assms by (intro mod_16_wrap) auto
  thus "(l + 1 + k) mod 16 = (l + 1) mod 16 \<longleftrightarrow> k mod 16 = 0"
    unfolding e using assms r by (simp split: if_split) linarith
qed

lemma cc_spec_breaks_bound:
  "b \<le> snd (fold cc_spec_step hs (m, b)) \<and> snd (fold cc_spec_step hs (m, b)) \<le> b + int (length hs)"
proof (induction hs arbitrary: m b)
  case (Cons h hs)
  obtain m' b' where s: "cc_spec_step h (m, b) = (m', b')" by (cases "cc_spec_step h (m, b)")
  hence "b \<le> b'" "b' \<le> b + 1" by (auto simp: cc_spec_step_def split: if_splits option.splits)
  thus ?case using Cons [of b' m'] s by simp
qed simp

section \<open>PAT and PES: reads stay inside the packet\<close>

lemma pat_programs_total:
  "0 \<le> n \<Longrightarrow> prog_end \<le> int (length buf) - 11 \<Longrightarrow>
   \<exists>x. pat_programs buf prog_end n ti = Some (ti\<lparr> pmt_pid := x \<rparr>)"
proof (induction buf prog_end n ti rule: pat_programs.induct)
  case (1 buf prog_end n ti)
  show ?case
  proof (cases "n < prog_end")
    case True
    thus ?thesis using 1 by (subst pat_programs.simps) (force simp: Let_def)
  next
    case False
    thus ?thesis by (subst pat_programs.simps) (auto intro: exI [of _ "pmt_pid ti"])
  qed
qed

lemma sls_parse_pat_total:
  assumes "len \<le> int (length buf)"
  obtains ret x where "sls_parse_pat buf len ti = Some (ret, ti\<lparr> pmt_pid := x \<rparr>)" "ret \<in> {SLS_OK, SLS_ERROR}"
proof (cases "len < 8")
  case True
  thus thesis using that [of SLS_ERROR "pmt_pid ti"] by (simp add: sls_parse_pat_def)
next
  case False
  obtain f where f: "\<forall>i. 0 \<le> i \<and> i < len \<longrightarrow> byte_at buf i = Some (f i) \<and> 0 \<le> f i"
    using byte_at_total [OF assms] by blast
  define e where "e = (let s = push_bit 8 (f 1 AND 0x0F) OR f 2 in if s - 12 > len - 11 then len - 11 else s - 12)"
  have "e \<le> int (length buf) - 11" using assms by (auto simp: e_def Let_def)
  then obtain x where "pat_programs buf e 0 ti = Some (ti\<lparr> pmt_pid := x \<rparr>)"
    using pat_programs_total [of 0 e buf ti] by auto
  hence "sls_parse_pat buf len ti = Some (SLS_OK, ti\<lparr> pmt_pid := x \<rparr>)"
    using False f unfolding sls_parse_pat_def e_def Let_def by simp
  thus thesis using that by simp
qed

lemma ff_parse_pes_pts_total:
  assumes "len \<le> int (length buf)"
  obtains t where "ff_parse_pes_pts buf len = Some t"
proof -
  obtain f where f: "\<forall>i. 0 \<le> i \<and> i < len \<longrightarrow> byte_at buf i = Some (f i) \<and> 0 \<le> f i"
    using byte_at_total [OF assms] by blast
  thus thesis using that unfolding ff_parse_pes_pts_def Let_def by (cases "len < 5") simp_all
qed

lemma sls_pes2es_total:
  assumes "len \<le> int (length f)"
  obtains ret ti' where "sls_pes2es (Some f) len ti = Some (ret, ti')" "pmt_pid ti' = pmt_pid ti"
    "es_pid ti' = es_pid ti" "ret \<in> {SLS_OK, SLS_ERROR}"
proof -
  obtain g where g: "\<forall>i. 0 \<le> i \<and> i < len \<longrightarrow> byte_at f i = Some (g i) \<and> 0 \<le> g i"
    using byte_at_total [OF assms] by blast
  obtain t1 where t1: "len \<ge> 14 \<Longrightarrow> ff_parse_pes_pts (drop 9 f) (len - 9) = Some t1"
    using ff_parse_pes_pts_total [of "len - 9" "drop 9 f"] assms by fastforce
  obtain t2 where t2: "len \<ge> 19 \<Longrightarrow> ff_parse_pes_pts (drop 14 f) (len - 14) = Some t2"
    using ff_parse_pes_pts_total [of "len - 14" "drop 14 f"] assms by fastforce
  have "\<exists>ret ti'. sls_pes2es (Some f) len ti = Some (ret, ti') \<and> pmt_pid ti' = pmt_pid ti \<and>
      es_pid ti' = es_pid ti \<and> ret \<in> {SLS_OK, SLS_ERROR}"
    unfolding sls_pes2es_def using t1 t2 by (simp add: g Let_def)
  thus thesis using that by blast
qed

lemma ts_demux_total:
  assumes "0 \<le> pos" "TS_PACK_LEN \<le> int (length pk)"
  shows "\<exists>ret ti'. ts_demux pk p pos ti = Some (ret, ti') \<and> ret \<in> {SLS_OK, SLS_ERROR}"
proof -
  have sub: "TS_PACK_LEN - n \<le> int (length (take (nat (TS_PACK_LEN - n)) (drop (nat n) pk)))" if "0 \<le> n" for n
    using assms that by simp
  show ?thesis
  proof (cases "p = PAT_PID")
    case True
    obtain ret x where "sls_parse_pat (take (nat (TS_PACK_LEN - (pos + 1))) (drop (nat (pos + 1)) pk))
        (TS_PACK_LEN - (pos + 1)) ti = Some (ret, ti\<lparr> pmt_pid := x \<rparr>)" "ret \<in> {SLS_OK, SLS_ERROR}"
      using sls_parse_pat_total [OF sub [of "pos + 1"]] assms(1) by (metis add_nonneg_nonneg zero_le_one)
    thus ?thesis using True by (simp add: ts_demux_def)
  next
    case False
    obtain ret ti' where "sls_pes2es (Some (take (nat (TS_PACK_LEN - pos)) (drop (nat pos) pk)))
        (TS_PACK_LEN - pos) ti = Some (ret, ti')" "ret \<in> {SLS_OK, SLS_ERROR}"
      using sls_pes2es_total [OF sub [of pos]] assms(1) by metis
    thus ?thesis using False by (simp add: ts_demux_def)
  qed
qed

lemma sls_parse_ts_info_total:
  assumes "len \<le> int (length pk)"
  shows "\<exists>ret ti'. sls_parse_ts_info (Some pk) len ti = Some (ret, ti') \<and> ret \<in> {SLS_OK, SLS_ERROR}"
proof (cases "len < TS_PACK_LEN")
  case True
  thus ?thesis by (simp add: sls_parse_ts_info_def)
next
  case False
  obtain g where g: "\<forall>i. 0 \<le> i \<and> i < len \<longrightarrow> byte_at pk i = Some (g i) \<and> 0 \<le> g i"
    using byte_at_total [OF assms] by blast
  have len: "188 \<le> len" using False by (simp add: TS_PACK_LEN_def)
  have "\<exists>ret ti'. ts_demux pk p pos ti = Some (ret, ti') \<and> ret \<in> {SLS_OK, SLS_ERROR}" if "0 \<le> pos" for p pos
    using that False assms by (intro ts_demux_total) auto
  thus ?thesis unfolding sls_parse_ts_info_def Let_def using False len by (simp add: g)
qed

section \<open>Presentation time stamps\<close>

text \<open>The five-byte PTS field of ISO/IEC 13818-1 for a 33 bit value \<open>p\<close>, marker bits set.\<close>

definition pes_pts_field :: "int \<Rightarrow> buffer" where
  "pes_pts_field p = map word_of_int
     [0x21 + 2 * (p div 2 ^ 30 mod 8), p div 2 ^ 22 mod 256, 2 * (p div 2 ^ 15 mod 128) + 1,
      p div 2 ^ 7 mod 256, 2 * (p mod 128) + 1]"

lemma uint_of_int_byte: "0 \<le> b \<Longrightarrow> b < 256 \<Longrightarrow> uint (word_of_int b :: byte) = b"
  by (simp add: uint_word_of_int)

lemma drop_bit_1_int: "drop_bit 1 (x :: int) = x div 2"
  by (simp add: drop_bit_int_def)

lemma ff_parse_pes_pts_bytes:
  assumes z: "b0 AND 0x0e = 0" and b: "0 \<le> b2" "b2 < 256" "0 \<le> b3" "b3 < 256" "0 \<le> b4" "b4 < 256"
      "0 \<le> b0" "b0 < 256" "0 \<le> b1" "b1 < 256"
  shows "ff_parse_pes_pts (map word_of_int [b0, b1, b2, b3, b4]) 5 =
     Some (b1 * 2 ^ 23 + b2 div 2 * 2 ^ 15 + b3 * 2 ^ 7 + b4 div 2)"
proof -
  let ?b = "map word_of_int [b0, b1, b2, b3, b4] :: buffer"
  have r: "byte_at ?b 0 = Some b0" "byte_at ?b 1 = Some b1" "byte_at ?b 2 = Some b2" "byte_at ?b 3 = Some b3"
      "byte_at ?b 4 = Some b4"
    using b by (simp_all add: byte_at_def uint_of_int_byte)
  have m: "b1 AND 0xFF = b1" "b3 AND 0xFF = b3" using b by (simp_all add: int_and_mask)
  have h: "push_bit 8 b1 OR b2 div 2 = b1 * 256 + b2 div 2" "push_bit 8 b3 OR b4 = b3 * 256 + b4"
    using push_bit_or_add [of "b2 div 2" 8 b1] push_bit_or_add [of b4 8 b3] b by simp_all
  have "(b3 * 256 + b4) div 2 = b3 * 128 + b4 div 2" by simp
  moreover have "push_bit 15 (b1 * 256 + b2 div 2) OR (b3 * 128 + b4 div 2) =
      (b1 * 256 + b2 div 2) * 2 ^ 15 + (b3 * 128 + b4 div 2)"
    using b by (intro push_bit_or_add) auto
  ultimately show ?thesis
    unfolding ff_parse_pes_pts_def Let_def r bind.bind_lunit m z drop_bit_1_int h
    by (simp add: to_int32_def)
qed

lemma ff_parse_pes_pts_low:
  assumes "0 \<le> p" "p < 2 ^ 22"
  shows "ff_parse_pes_pts (pes_pts_field p) 5 = Some p"
proof -
  have p: "p div 2 ^ 30 = 0" "p div 2 ^ 22 = 0" using assms by auto
  have "ff_parse_pes_pts (pes_pts_field p) 5 =
      Some (0 * 2 ^ 23 + (2 * (p div 2 ^ 15 mod 128) + 1) div 2 * 2 ^ 15
            + p div 2 ^ 7 mod 256 * 2 ^ 7 + (2 * (p mod 128) + 1) div 2)"
    unfolding pes_pts_field_def p by (subst ff_parse_pes_pts_bytes) auto
  also have "(2 * (p div 2 ^ 15 mod 128) + 1) div 2 = p div 2 ^ 15" using assms by simp
  also have "(2 * (p mod 128) + 1) div 2 = p mod 128" by simp
  also have "0 * 2 ^ 23 + p div 2 ^ 15 * 2 ^ 15 + p div 2 ^ 7 mod 256 * 2 ^ 7 + p mod 128 = p"
  proof -
    have "p div 128 div 256 * 32768 + p div 128 mod 256 * 128 + p mod 128 = p"
      using mult_div_mod_eq [of 256 "p div 128"] mult_div_mod_eq [of 128 p] by linarith
    thus ?thesis using zdiv_zmult2_eq [of 256 p 128] by simp
  qed
  finally show ?thesis .
qed

section \<open>Properties\<close>

text \<open>C28. The continuity check of an ingested chunk refines the reference semantics over a map from PIDs to the
  last counter: it never reads outside of the chunk, keeps the tracker well formed (at most sixteen
  distinct PIDs), and returns exactly the number of breaks of the whole packets in the chunk.\<close>

theorem ts_check_continuity_refines:
  assumes "cc_ok st" "m \<le> length data"
  shows "\<exists>b st'. sls_ts_check_continuity (Some data) (int m) (Some st) = Some (b, Some st') \<and> cc_ok st' \<and>
     fold cc_spec_step (ts_headers data (m div 188)) (cc_map st, 0) = (cc_map st', b) \<and>
     0 \<le> b \<and> b \<le> int (m div 188)"
proof -
  obtain b st' where r: "sls_ts_check_continuity (Some data) (int m) (Some st) = Some (b, Some st')" "cc_ok st'"
      "fold cc_spec_step (ts_headers data (m div 188)) (cc_map st, 0) = (cc_map st', b)"
    using check_continuity_refines [OF assms] by blast
  have "length (ts_headers data (m div 188)) = m div 188" by (simp add: ts_headers_def)
  thus ?thesis using r cc_spec_breaks_bound [of 0 "ts_headers data (m div 188)" "cc_map st"] by auto
qed

definition fresh_cc :: ts_cc_state where
  "fresh_cc = \<lparr> n_pids = 0, pid = replicate 16 0, last_cc = replicate 16 0 \<rparr>"

lemma fresh_cc_ok: "cc_ok fresh_cc"
  by (simp add: cc_ok_def fresh_cc_def TS_CC_MAX_PIDS_def)

theorem ts_check_continuity_refines_witness:
  "\<exists>b st'. sls_ts_check_continuity (Some (replicate 400 0x47)) 376 (Some fresh_cc) = Some (b, Some st') \<and> b \<le> 2"
  using ts_check_continuity_refines [OF fresh_cc_ok, of 376 "replicate 400 0x47"] by auto

text \<open>Packet loss is seen: when the tracker last saw counter l on a PID and the next payload packet of
  that PID skips k packets without declaring a discontinuity, the chunk counts one break exactly
  when k mod 16 is neither 0 (nothing lost) nor 15 (the counter repeats, as for a duplicate).\<close>

theorem ts_packet_loss_counted:
  assumes st: "cc_ok st" and len: "length data = 188"
    and h: "h_sync (hdr_at data 0)" "h_pid (hdr_at data 0) \<noteq> 0x1FFF" "h_payload (hdr_at data 0)" "\<not> h_disc (hdr_at data 0)"
    and l: "cc_map st (h_pid (hdr_at data 0)) = Some l" "0 \<le> l" "l < 16"
    and k: "h_cc (hdr_at data 0) = (l + 1 + k) mod 16"
  shows "\<exists>st'. sls_ts_check_continuity (Some data) 188 (Some st) =
           Some (if k mod 16 \<in> {0, 15} then 0 else 1, Some st') \<and>
         cc_map st' (h_pid (hdr_at data 0)) = Some (h_cc (hdr_at data 0))"
proof -
  obtain b st' where r: "sls_ts_check_continuity (Some data) (int 188) (Some st) = Some (b, Some st')"
      "fold cc_spec_step (ts_headers data (188 div 188)) (cc_map st, 0) = (cc_map st', b)"
    using check_continuity_refines [OF st, of 188 data] len by auto
  have "(l + 1 + k) mod 16 = (l + 1) mod 16 \<longleftrightarrow> k mod 16 = 0" "(l + 1 + k) mod 16 = l \<longleftrightarrow> k mod 16 = 15"
    using cc_gap [OF l(2,3)] by auto
  hence "cc_break l (hdr_at data 0) \<longleftrightarrow> k mod 16 \<notin> {0, 15}" using h k by (simp add: cc_break_def)
  moreover have "(cc_map st', b) = ((cc_map st)(h_pid (hdr_at data 0) \<mapsto> h_cc (hdr_at data 0)),
      if cc_break l (hdr_at data 0) then 1 else 0)"
    using r(2) h l by (auto simp: ts_headers_def cc_spec_step_def)
  ultimately show ?thesis using r(1) by auto
qed

definition one_packet :: buffer where
  "one_packet = [0x47, 0x01, 0x00, 0x15] @ replicate 184 0"

definition cc_after_3 :: ts_cc_state where
  "cc_after_3 = \<lparr> n_pids = 1, pid = 256 # replicate 15 0, last_cc = 3 # replicate 15 0 \<rparr>"

lemma one_packet_hdr:
  "hdr_at one_packet 0 = \<lparr> h_sync = True, h_pid = 256, h_payload = True, h_cc = 5, h_disc = False \<rparr>"
  by (simp add: hdr_at_def one_packet_def push_bit_eq_mult Let_def)

theorem ts_packet_loss_counted_witness:
  "\<exists>st'. sls_ts_check_continuity (Some one_packet) 188 (Some cc_after_3) = Some (1, Some st') \<and>
         cc_map st' 256 = Some 5"
proof -
  have "cc_ok cc_after_3" "cc_map cc_after_3 256 = Some 3" "length one_packet = 188"
    by (simp_all add: cc_ok_def cc_after_3_def TS_CC_MAX_PIDS_def cc_map_def one_packet_def)
  thus ?thesis using ts_packet_loss_counted [of cc_after_3 one_packet 3 1] by (simp add: one_packet_hdr)
qed

text \<open>C30. Whatever the bytes of a packet and the state of the demuxer, sls_parse_ts_info returns SLS_OK or
  SLS_ERROR and never reads outside of the packet: a crafted section length, adaptation field length
  or PES header cannot drive a read past the buffer.\<close>

theorem sls_parse_ts_info_memory_safe:
  assumes "len \<le> int (length pk)"
  shows "\<exists>ret ti'. sls_parse_ts_info (Some pk) len ti = Some (ret, ti') \<and> ret \<in> {SLS_OK, SLS_ERROR}"
  using assms by (rule sls_parse_ts_info_total)

theorem sls_parse_ts_info_memory_safe_witness:
  "\<exists>ret ti'. sls_parse_ts_info (Some one_packet) 188
     \<lparr> es_pid = -1, dts = -1, pts = -1, pmt_pid = -1 \<rparr> = Some (ret, ti') \<and> ret \<in> {SLS_OK, SLS_ERROR}"
  using sls_parse_ts_info_memory_safe [of 188 one_packet] by (simp add: one_packet_def)

text \<open>The PES time stamp reader recovers every time stamp below 2^22, but not the others: the second byte
  of the field is shifted one place too far, so the field of 2^22 reads as 2^23, and the shift of the
  first byte is done in 32 bits, so the field of 2^31 reads as a negative number.\<close>

theorem ff_parse_pes_pts_range:
  "(\<forall>p \<in> {0..<2 ^ 22}. ff_parse_pes_pts (pes_pts_field p) 5 = Some p) \<and>
   ff_parse_pes_pts (pes_pts_field (2 ^ 22)) 5 = Some (2 ^ 23) \<and>
   ff_parse_pes_pts (pes_pts_field (2 ^ 31)) 5 = Some (- (2 ^ 31))"
proof (intro conjI)
  show "\<forall>p \<in> {0..<2 ^ 22}. ff_parse_pes_pts (pes_pts_field p) 5 = Some p"
    using ff_parse_pes_pts_low by simp
  show "ff_parse_pes_pts (pes_pts_field (2 ^ 22)) 5 = Some (2 ^ 23)"
    unfolding pes_pts_field_def by (subst ff_parse_pes_pts_bytes) simp_all
  show "ff_parse_pes_pts (pes_pts_field (2 ^ 31)) 5 = Some (- (2 ^ 31))"
    by (simp add: pes_pts_field_def ff_parse_pes_pts_def byte_at_def to_int32_def Let_def)
qed

theorem ff_parse_pes_pts_range_witness:
  "ff_parse_pes_pts (pes_pts_field 90000) 5 = Some 90000"
  using ff_parse_pes_pts_range by simp

end
