(* ===== verification/Timecode.thy ===== *)
theory Timecode
  imports Ts_Common "HOL-Library.State_Monad"
begin

text \<open>The in-band SMPTE timecode scanner, \<^verbatim>\<open>src/core/SLSTimecode.cpp\<close>: a checked bit reader, the RBSP
  unescaper, the H.264 SPS and pic_timing and the HEVC time_code parsers, the SEI and NAL walks, the
  PAT/PMT readers, the access-unit accumulator and the per-chunk scan. The bit reader is a state
  monad; its ghost field \<open>br_oob\<close> is set when a bit outside of the buffer would be fetched. Byte
  walks that test the remaining length before every read are recursions over the remaining bytes;
  reads at fixed offsets are checked by \<^const>\<open>byte_at\<close>.\<close>

section \<open>Bit reader\<close>

record bitreader =
  br_buf :: buffer
  br_len :: int
  br_pos :: int
  br_err :: bool
  br_oob :: bool

type_synonym 'a br = "(bitreader, 'a) state"

definition br_start :: "buffer \<Rightarrow> int \<Rightarrow> bitreader" where
  "br_start b n = \<lparr> br_buf = b, br_len = n, br_pos = 0, br_err = False, br_oob = False \<rparr>"

fun br_bits :: "nat \<Rightarrow> int \<Rightarrow> bitreader \<Rightarrow> int \<times> bitreader" where
  "br_bits 0 v r = (v, r)"
| "br_bits (Suc n) v r =
     (case byte_at (br_buf r) (br_pos r div 8) of
        None \<Rightarrow> (v, r\<lparr> br_oob := True \<rparr>)
      | Some b \<Rightarrow> br_bits n ((2 * v + (b div 2 ^ nat (7 - br_pos r mod 8)) mod 2) mod 2 ^ 32)
                    (r\<lparr> br_pos := br_pos r + 1 \<rparr>))"

definition br_u :: "int \<Rightarrow> int br" where
  "br_u n = State (\<lambda>r.
     if br_err r then (0, r)
     else if n \<le> 0 \<or> n > 32 then (0, r\<lparr> br_err := True \<rparr>)
     else if br_pos r + n > br_len r * 8 then (0, r\<lparr> br_err := True \<rparr>)
     else br_bits (nat n) 0 r)"

definition br_fail :: "unit br" where
  "br_fail = State (\<lambda>r. ((), r\<lparr> br_err := True \<rparr>))"

definition br_failed :: "bool br" where
  "br_failed = State (\<lambda>r. (br_err r, r))"

text \<open>The \<^verbatim>\<open>while\<close> loop of \<open>br_ue\<close>; it is left when a one is read, on error, or after 32 zeros.\<close>

function br_zeros :: "nat \<Rightarrow> nat br" where
  "br_zeros z = do {
     e \<leftarrow> br_failed;
     if e then State_Monad.return z
     else do {
       b \<leftarrow> br_u 1;
       if b = 1 then State_Monad.return z
       else if z + 1 > 31 then do { br_fail; State_Monad.return (z + 1) }
       else br_zeros (z + 1)
     }
   }"
  by pat_completeness auto
termination by (relation "measure (\<lambda>z. 32 - z)") auto

declare br_zeros.simps [simp del]

definition br_ue :: "int br" where
  "br_ue = do {
     z \<leftarrow> br_zeros 0;
     e \<leftarrow> br_failed;
     if e \<or> z = 0 then State_Monad.return 0
     else do { v \<leftarrow> br_u (int z); State_Monad.return (((2 ^ z - 1) + v) mod 2 ^ 32) }
   }"

definition br_se :: "int br" where
  "br_se = do {
     k \<leftarrow> br_ue;
     State_Monad.return (if k AND 1 \<noteq> 0 then (k + 1) div 2 else - (k div 2))
   }"

definition br_i :: "int \<Rightarrow> int br" where
  "br_i n = do {
     v \<leftarrow> br_u n;
     e \<leftarrow> br_failed;
     State_Monad.return
       (if n \<ge> 32 \<or> e then to_int32 v
        else if v AND 2 ^ nat (n - 1) \<noteq> 0 then v - 2 ^ nat n else v)
   }"

section \<open>RBSP\<close>

text \<open>\<open>room\<close> is \<^verbatim>\<open>dst_cap - out\<close>; the result is the bytes written to \<^verbatim>\<open>dst\<close>.\<close>

fun rbsp_unescape_from :: "nat \<Rightarrow> nat \<Rightarrow> buffer \<Rightarrow> buffer" where
  "rbsp_unescape_from zeros room [] = []"
| "rbsp_unescape_from zeros room (c # src) =
     (if room = 0 then []
      else if zeros \<ge> 2 \<and> c = 3 then rbsp_unescape_from 0 room src
      else c # rbsp_unescape_from (if c = 0 then zeros + 1 else 0) (room - 1) src)"

definition rbsp_unescape :: "buffer \<Rightarrow> nat \<Rightarrow> buffer" where
  "rbsp_unescape src dst_cap = rbsp_unescape_from 0 dst_cap src"

section \<open>Scanner state\<close>

definition SLS_TC_AU_PREFIX_MAX :: nat where "SLS_TC_AU_PREFIX_MAX = 8192"

datatype sls_tc_codec = SLS_TC_CODEC_NONE | SLS_TC_CODEC_H264 | SLS_TC_CODEC_HEVC

record clock_timestamp =
  c_hours :: int
  c_minutes :: int
  c_seconds :: int
  c_frames :: int
  c_drop_frame :: bool

text \<open>\<open>au\<close> is the used part of the accumulator array; its length is \<^verbatim>\<open>au_len\<close>.\<close>

record ts_timecode_state =
  tc_pmt_pid :: int
  tc_video_pid :: int
  tc_codec :: sls_tc_codec
  sps_valid :: bool
  cpb_dpb_delays_present :: bool
  cpb_removal_delay_length :: int
  dpb_output_delay_length :: int
  pic_struct_present :: bool
  time_offset_length :: int
  au :: buffer
  au_open :: bool
  au_pts :: int
  tc_valid :: bool
  hours :: int
  minutes :: int
  seconds :: int
  frames :: int
  drop_frame :: bool
  tc_pts :: int
  updates :: int

definition sls_init_ts_timecode_state :: "ts_timecode_state option \<Rightarrow> ts_timecode_state option" where
  "sls_init_ts_timecode_state st = map_option (\<lambda>_.
     \<lparr> tc_pmt_pid = INVALID_PID, tc_video_pid = INVALID_PID, tc_codec = SLS_TC_CODEC_NONE,
       sps_valid = False, cpb_dpb_delays_present = False, cpb_removal_delay_length = 0,
       dpb_output_delay_length = 0, pic_struct_present = False, time_offset_length = 24,
       au = [], au_open = False, au_pts = INVALID_DTS_PTS,
       tc_valid = False, hours = 0, minutes = 0, seconds = 0, frames = 0, drop_frame = False,
       tc_pts = INVALID_DTS_PTS, updates = 0 \<rparr>) st"

definition read_hms :: "bool \<Rightarrow> (int \<times> int \<times> int) br" where
  "read_hms full_timestamp =
     (if full_timestamp then do {
        s \<leftarrow> br_u 6; m \<leftarrow> br_u 6; h \<leftarrow> br_u 5;
        State_Monad.return (h, m, s)
      }
      else do {
        sf \<leftarrow> br_u 1;
        if sf = 0 then State_Monad.return (0, 0, 0)
        else do {
          s \<leftarrow> br_u 6; mf \<leftarrow> br_u 1;
          if mf = 0 then State_Monad.return (0, 0, s)
          else do {
            m \<leftarrow> br_u 6; hf \<leftarrow> br_u 1;
            if hf = 0 then State_Monad.return (0, m, s)
            else do { h \<leftarrow> br_u 5; State_Monad.return (h, m, s) }
          }
        }
      })"

definition plausible :: "clock_timestamp \<Rightarrow> bool" where
  "plausible tc \<longleftrightarrow> c_hours tc < 24 \<and> c_minutes tc < 60 \<and> c_seconds tc < 60"

section \<open>H.264 sequence parameter set\<close>

text \<open>The C remainder of \<^verbatim>\<open>(last_scale + delta + 256) % 256\<close> has the sign of its 32 bit dividend.\<close>

definition c_rem_256 :: "int \<Rightarrow> int" where
  "c_rem_256 x = (let y = to_int32 x in if y \<ge> 0 then y mod 256 else - ((- y) mod 256))"

fun skip_scaling_loop :: "nat \<Rightarrow> int \<Rightarrow> int \<Rightarrow> unit br" where
  "skip_scaling_loop 0 last_scale next_scale = State_Monad.return ()"
| "skip_scaling_loop (Suc n) last_scale next_scale = do {
     e \<leftarrow> br_failed;
     if e then State_Monad.return ()
     else do {
       next' \<leftarrow> (if next_scale \<noteq> 0
                 then do { delta \<leftarrow> br_se; State_Monad.return (c_rem_256 (last_scale + delta + 256)) }
                 else State_Monad.return next_scale);
       skip_scaling_loop n (if next' = 0 then last_scale else next') next'
     }
   }"

definition skip_scaling_list :: "nat \<Rightarrow> unit br" where
  "skip_scaling_list sz = skip_scaling_loop sz 8 8"

fun hrd_cpb_loop :: "nat \<Rightarrow> unit br" where
  "hrd_cpb_loop 0 = State_Monad.return ()"
| "hrd_cpb_loop (Suc n) = do {
     e \<leftarrow> br_failed;
     if e then State_Monad.return ()
     else do { _ \<leftarrow> br_ue; _ \<leftarrow> br_ue; _ \<leftarrow> br_u 1; hrd_cpb_loop n }
   }"

text \<open>The three lengths are reference parameters: unchanged when the function returns early.\<close>

definition parse_hrd :: "int \<times> int \<times> int \<Rightarrow> (int \<times> int \<times> int) br" where
  "parse_hrd lens = do {
     c \<leftarrow> br_ue;
     let cpb_cnt = (c + 1) mod 2 ^ 32;
     _ \<leftarrow> br_u 4;
     _ \<leftarrow> br_u 4;
     if cpb_cnt > 32 then do { br_fail; State_Monad.return lens }
     else do {
       hrd_cpb_loop (nat cpb_cnt);
       _ \<leftarrow> br_u 5;
       cpb \<leftarrow> br_u 5;
       dpb \<leftarrow> br_u 5;
       off \<leftarrow> br_u 5;
       State_Monad.return (cpb + 1, dpb + 1, off)
     }
   }"

definition profile_has_chroma_ext :: "int \<Rightarrow> bool" where
  "profile_has_chroma_ext profile_idc \<longleftrightarrow>
     profile_idc \<in> set [100, 110, 122, 244, 44, 83, 86, 118, 128, 138, 139, 134, 135]"

fun scaling_matrix_loop :: "nat \<Rightarrow> nat \<Rightarrow> unit br" where
  "scaling_matrix_loop i 0 = State_Monad.return ()"
| "scaling_matrix_loop i (Suc n) = do {
     e \<leftarrow> br_failed;
     if e then State_Monad.return ()
     else do {
       f \<leftarrow> br_u 1;
       (if f \<noteq> 0 then skip_scaling_list (if i < 6 then 16 else 64) else State_Monad.return ());
       scaling_matrix_loop (Suc i) n
     }
   }"

definition sps_chroma_ext :: "unit br" where
  "sps_chroma_ext = do {
     chroma_format_idc \<leftarrow> br_ue;
     _ \<leftarrow> (if chroma_format_idc = 3 then br_u 1 else State_Monad.return 0);
     _ \<leftarrow> br_ue;
     _ \<leftarrow> br_ue;
     _ \<leftarrow> br_u 1;
     m \<leftarrow> br_u 1;
     (if m \<noteq> 0 then scaling_matrix_loop 0 (if chroma_format_idc \<noteq> 3 then 8 else 12)
      else State_Monad.return ())
   }"

fun se_loop :: "nat \<Rightarrow> unit br" where
  "se_loop 0 = State_Monad.return ()"
| "se_loop (Suc n) = do {
     e \<leftarrow> br_failed;
     if e then State_Monad.return () else do { _ \<leftarrow> br_se; se_loop n }
   }"

text \<open>\<open>False\<close> is the early return on an absurd cycle length.\<close>

definition sps_poc :: "bool br" where
  "sps_poc = do {
     poc_type \<leftarrow> br_ue;
     if poc_type = 0 then do { _ \<leftarrow> br_ue; State_Monad.return True }
     else if poc_type = 1 then do {
       _ \<leftarrow> br_u 1;
       _ \<leftarrow> br_se;
       _ \<leftarrow> br_se;
       cycle \<leftarrow> br_ue;
       if cycle > 255 then do { br_fail; State_Monad.return False }
       else do { se_loop (nat cycle); State_Monad.return True }
     }
     else State_Monad.return True
   }"

definition sps_vui_head :: "unit br" where
  "sps_vui_head = do {
     a \<leftarrow> br_u 1;
     (if a \<noteq> 0 then do {
        idc \<leftarrow> br_u 8;
        if idc = 255 then do { _ \<leftarrow> br_u 16; _ \<leftarrow> br_u 16; State_Monad.return () } else State_Monad.return ()
      } else State_Monad.return ());
     o1 \<leftarrow> br_u 1;
     (if o1 \<noteq> 0 then do { _ \<leftarrow> br_u 1; State_Monad.return () } else State_Monad.return ());
     v \<leftarrow> br_u 1;
     (if v \<noteq> 0 then do {
        _ \<leftarrow> br_u 3;
        _ \<leftarrow> br_u 1;
        d \<leftarrow> br_u 1;
        if d \<noteq> 0 then do { _ \<leftarrow> br_u 8; _ \<leftarrow> br_u 8; _ \<leftarrow> br_u 8; State_Monad.return () }
        else State_Monad.return ()
      } else State_Monad.return ());
     c \<leftarrow> br_u 1;
     (if c \<noteq> 0 then do { _ \<leftarrow> br_ue; _ \<leftarrow> br_ue; State_Monad.return () } else State_Monad.return ());
     t \<leftarrow> br_u 1;
     (if t \<noteq> 0 then do { _ \<leftarrow> br_u 32; _ \<leftarrow> br_u 32; _ \<leftarrow> br_u 1; State_Monad.return () }
      else State_Monad.return ())
   }"

text \<open>What the SPS tells: CpbDpbDelaysPresentFlag, the two delay widths, pic_struct_present_flag and
  time_offset_length; \<^const>\<open>None\<close> where the code returns without touching the state.\<close>

definition sps_hrd :: "(bool \<times> int \<times> int \<times> bool \<times> int) option br" where
  "sps_hrd = do {
     nal_hrd \<leftarrow> br_u 1;
     lens \<leftarrow> (if nal_hrd \<noteq> 0 then parse_hrd (0, 0, 24) else State_Monad.return (0, 0, 24));
     vcl_hrd \<leftarrow> br_u 1;
     lens' \<leftarrow> (if vcl_hrd \<noteq> 0 then parse_hrd lens else State_Monad.return lens);
     _ \<leftarrow> (if nal_hrd \<noteq> 0 \<or> vcl_hrd \<noteq> 0 then br_u 1 else State_Monad.return 0);
     ps \<leftarrow> br_u 1;
     e \<leftarrow> br_failed;
     State_Monad.return
       (if e then None
        else Some (nal_hrd \<noteq> 0 \<or> vcl_hrd \<noteq> 0, fst lens', fst (snd lens'), ps \<noteq> 0, snd (snd lens')))
   }"

definition sps_fields :: "(bool \<times> int \<times> int \<times> bool \<times> int) option br" where
  "sps_fields = do {
     profile_idc \<leftarrow> br_u 8;
     _ \<leftarrow> br_u 8;
     _ \<leftarrow> br_u 8;
     _ \<leftarrow> br_ue;
     (if profile_has_chroma_ext profile_idc then sps_chroma_ext else State_Monad.return ());
     _ \<leftarrow> br_ue;
     ok \<leftarrow> sps_poc;
     if \<not> ok then State_Monad.return None
     else do {
       _ \<leftarrow> br_ue;
       _ \<leftarrow> br_u 1;
       _ \<leftarrow> br_ue;
       _ \<leftarrow> br_ue;
       frame_mbs_only \<leftarrow> br_u 1;
       _ \<leftarrow> (if frame_mbs_only = 0 then br_u 1 else State_Monad.return 0);
       _ \<leftarrow> br_u 1;
       crop \<leftarrow> br_u 1;
       (if crop \<noteq> 0 then do { _ \<leftarrow> br_ue; _ \<leftarrow> br_ue; _ \<leftarrow> br_ue; _ \<leftarrow> br_ue; State_Monad.return () }
        else State_Monad.return ());
       vui_present \<leftarrow> br_u 1;
       e \<leftarrow> br_failed;
       if e then State_Monad.return None
       else if vui_present = 0 then State_Monad.return (Some (False, 0, 0, False, 24))
       else do { sps_vui_head; sps_hrd }
     }
   }"

definition parse_sps_h264 :: "buffer \<Rightarrow> ts_timecode_state \<Rightarrow> ts_timecode_state" where
  "parse_sps_h264 rbsp st =
     (case fst (run_state sps_fields (br_start rbsp (int (length rbsp)))) of
        None \<Rightarrow> st
      | Some (delays, cpb, dpb, ps, off) \<Rightarrow>
          st\<lparr> sps_valid := True, cpb_dpb_delays_present := delays, cpb_removal_delay_length := cpb,
              dpb_output_delay_length := dpb, pic_struct_present := ps, time_offset_length := off \<rparr>)"

section \<open>SEI payloads\<close>

fun pic_timing_loop :: "nat \<Rightarrow> int \<Rightarrow> clock_timestamp option br" where
  "pic_timing_loop 0 off = State_Monad.return None"
| "pic_timing_loop (Suc n) off = do {
     e0 \<leftarrow> br_failed;
     if e0 then State_Monad.return None
     else do {
       f \<leftarrow> br_u 1;
       if f = 0 then pic_timing_loop n off
       else do {
         _ \<leftarrow> br_u 2;
         _ \<leftarrow> br_u 1;
         _ \<leftarrow> br_u 5;
         full_timestamp \<leftarrow> br_u 1;
         _ \<leftarrow> br_u 1;
         df \<leftarrow> br_u 1;
         nf \<leftarrow> br_u 8;
         hms \<leftarrow> read_hms (full_timestamp \<noteq> 0);
         e1 \<leftarrow> br_failed;
         if e1 then State_Monad.return None
         else do {
           _ \<leftarrow> (if off > 0 then br_i off else State_Monad.return 0);
           e2 \<leftarrow> br_failed;
           let tc = \<lparr> c_hours = fst hms, c_minutes = fst (snd hms), c_seconds = snd (snd hms),
                      c_frames = nf, c_drop_frame = (df \<noteq> 0) \<rparr>;
           State_Monad.return (if e2 then None else if plausible tc then Some tc else None)
         }
       }
     }
   }"

definition num_clock_ts :: "nat list" where
  "num_clock_ts = [1, 1, 1, 2, 2, 3, 3, 2, 3]"

definition pic_timing_fields :: "ts_timecode_state \<Rightarrow> clock_timestamp option br" where
  "pic_timing_fields st = do {
     (if cpb_dpb_delays_present st
      then do { _ \<leftarrow> br_u (cpb_removal_delay_length st); _ \<leftarrow> br_u (dpb_output_delay_length st); State_Monad.return () }
      else State_Monad.return ());
     pic_struct \<leftarrow> br_u 4;
     e \<leftarrow> br_failed;
     if e \<or> pic_struct > 8 then State_Monad.return None
     else pic_timing_loop (num_clock_ts ! nat pic_struct) (time_offset_length st)
   }"

definition parse_pic_timing_h264 :: "buffer \<Rightarrow> ts_timecode_state \<Rightarrow> clock_timestamp option" where
  "parse_pic_timing_h264 payload st =
     (if \<not> sps_valid st \<or> \<not> pic_struct_present st then None
      else fst (run_state (pic_timing_fields st) (br_start payload (int (length payload)))))"

fun time_code_loop :: "nat \<Rightarrow> clock_timestamp option br" where
  "time_code_loop 0 = State_Monad.return None"
| "time_code_loop (Suc n) = do {
     e0 \<leftarrow> br_failed;
     if e0 then State_Monad.return None
     else do {
       f \<leftarrow> br_u 1;
       if f = 0 then time_code_loop n
       else do {
         _ \<leftarrow> br_u 1;
         _ \<leftarrow> br_u 5;
         full_timestamp \<leftarrow> br_u 1;
         _ \<leftarrow> br_u 1;
         df \<leftarrow> br_u 1;
         nf \<leftarrow> br_u 9;
         hms \<leftarrow> read_hms (full_timestamp \<noteq> 0);
         e1 \<leftarrow> br_failed;
         if e1 then State_Monad.return None
         else do {
           off \<leftarrow> br_u 5;
           _ \<leftarrow> (if off > 0 then br_i off else State_Monad.return 0);
           e2 \<leftarrow> br_failed;
           let tc = \<lparr> c_hours = fst hms, c_minutes = fst (snd hms), c_seconds = snd (snd hms),
                      c_frames = nf, c_drop_frame = (df \<noteq> 0) \<rparr>;
           State_Monad.return (if e2 then None else if plausible tc then Some tc else None)
         }
       }
     }
   }"

definition time_code_fields :: "clock_timestamp option br" where
  "time_code_fields = do { n \<leftarrow> br_u 2; time_code_loop (nat n) }"

definition parse_time_code_hevc :: "buffer \<Rightarrow> clock_timestamp option" where
  "parse_time_code_hevc payload = fst (run_state time_code_fields (br_start payload (int (length payload))))"

text \<open>A byte-coded SEI number: every 0xFF adds 255, the first other byte ends it. \<^const>\<open>None\<close> when the payload
  ends first.\<close>

fun sei_number :: "int \<Rightarrow> buffer \<Rightarrow> (int \<times> buffer) option" where
  "sei_number n [] = None"
| "sei_number n (b # bs) = (if b = 0xFF then sei_number (n + 255) bs else Some (n + uint b, bs))"

lemma sei_number_shorter: "sei_number n bs = Some (v, bs') \<Longrightarrow> length bs' < length bs"
  by (induction n bs rule: sei_number.induct) (auto split: if_splits)

definition sei_payload :: "ts_timecode_state \<Rightarrow> int \<Rightarrow> buffer \<Rightarrow> clock_timestamp option" where
  "sei_payload st payload_type payload =
     (if tc_codec st = SLS_TC_CODEC_HEVC
      then (if payload_type = 136 then parse_time_code_hevc payload else None)
      else (if payload_type = 1 then parse_pic_timing_h264 payload st else None))"

function scan_sei_messages :: "ts_timecode_state \<Rightarrow> buffer \<Rightarrow> clock_timestamp option" where
  "scan_sei_messages st bs =
     (case bs of [] \<Rightarrow> None
      | b # rest \<Rightarrow>
        if b = 0x80 \<and> rest = [] then None
        else case sei_number 0 bs of
          None \<Rightarrow> None
        | Some (payload_type, bs1) \<Rightarrow>
          (case sei_number 0 bs1 of
             None \<Rightarrow> None
           | Some (payload_size, bs2) \<Rightarrow>
             if payload_size < 0 \<or> payload_size > int (length bs2) then None
             else case sei_payload st payload_type (take (nat payload_size) bs2) of
                    Some tc \<Rightarrow> Some tc
                  | None \<Rightarrow> scan_sei_messages st (drop (nat payload_size) bs2)))"
  by pat_completeness auto
termination
  by (relation "measure (\<lambda>(st, bs). length bs)") (auto dest!: sei_number_shorter simp del: sei_number.simps)

declare scan_sei_messages.simps [simp del]

section \<open>NAL walk\<close>

definition scan_nal :: "buffer \<Rightarrow> ts_timecode_state \<Rightarrow> ts_timecode_state \<times> clock_timestamp option" where
  "scan_nal nal st =
     (if tc_codec st = SLS_TC_CODEC_HEVC then
        (if length nal < 3 then (st, None)
         else let nal_type = (uint (nal ! 0) div 2) mod 64 in
           if nal_type \<noteq> 39 \<and> nal_type \<noteq> 40 then (st, None)
           else (st, scan_sei_messages st (rbsp_unescape (drop 2 nal) SLS_TC_AU_PREFIX_MAX)))
      else
        (if length nal < 2 then (st, None)
         else let nal_type = uint (nal ! 0) mod 32 in
           if nal_type = 7 then (parse_sps_h264 (rbsp_unescape (drop 1 nal) SLS_TC_AU_PREFIX_MAX) st, None)
           else if nal_type \<noteq> 6 then (st, None)
           else (st, scan_sei_messages st (rbsp_unescape (drop 1 nal) SLS_TC_AU_PREFIX_MAX))))"

text \<open>Whether a start code begins the remaining bytes; the number of bytes it takes.\<close>

definition is_start_code :: "buffer \<Rightarrow> nat option" where
  "is_start_code s =
     (if length s < 3 \<or> s ! 0 \<noteq> 0 \<or> s ! 1 \<noteq> 0 then None
      else if s ! 2 = 1 then Some 3
      else if length s \<ge> 4 \<and> s ! 2 = 0 \<and> s ! 3 = 1 then Some 4
      else None)"

text \<open>The bytes up to the next start code (all of them when fewer than three are left), and the rest.\<close>

fun nal_split :: "buffer \<Rightarrow> buffer \<times> buffer" where
  "nal_split [] = ([], [])"
| "nal_split (b # s) =
     (if length (b # s) < 3 then (b # s, [])
      else if is_start_code (b # s) \<noteq> None then ([], b # s)
      else case nal_split s of (x, y) \<Rightarrow> (b # x, y))"

lemma nal_split_append: "nal_split s = (x, y) \<Longrightarrow> x @ y = s"
  by (induction s arbitrary: x y) (auto split: if_splits prod.splits)

lemma is_start_code_le: "is_start_code s = Some k \<Longrightarrow> 3 \<le> k \<and> k \<le> length s"
  by (auto simp: is_start_code_def split: if_splits)

lemma nal_rest_shorter:
  assumes "is_start_code s = Some k" "nal_split (drop k s) = (nal, rest)"
  shows "length rest < length s"
proof -
  have "length nal + length rest = length s - k"
    using nal_split_append [OF assms(2)] by (metis length_append length_drop)
  thus ?thesis using is_start_code_le [OF assms(1)] by linarith
qed

function scan_au_from ::
  "buffer \<Rightarrow> ts_timecode_state \<Rightarrow> clock_timestamp option \<Rightarrow> ts_timecode_state \<times> clock_timestamp option" where
  "scan_au_from s st found =
     (if length s < 3 then (st, found)
      else case is_start_code s of
        None \<Rightarrow> scan_au_from (tl s) st found
      | Some k \<Rightarrow>
        (case nal_split (drop k s) of (nal, rest) \<Rightarrow>
           (case (if nal \<noteq> [] then scan_nal nal st else (st, None)) of (st', cand) \<Rightarrow>
              scan_au_from rest st' (if found = None then cand else found))))"
  by pat_completeness auto
termination
  by (relation "measure (\<lambda>(s, st, found). length s)") (auto dest: nal_rest_shorter [OF _ sym])

declare scan_au_from.simps [simp del]

definition scan_au_prefix :: "ts_timecode_state \<Rightarrow> ts_timecode_state \<times> clock_timestamp option" where
  "scan_au_prefix st = scan_au_from (au st) st None"

section \<open>PSI, PES and the access-unit accumulator\<close>

definition read_pts :: "buffer \<Rightarrow> int option" where
  "read_pts b = do {
     b0 \<leftarrow> byte_at b 0; b1 \<leftarrow> byte_at b 1; b2 \<leftarrow> byte_at b 2; b3 \<leftarrow> byte_at b 3; b4 \<leftarrow> byte_at b 4;
     Some ((((push_bit 29 (b0 AND 0x0E) OR push_bit 22 b1) OR push_bit 14 (b2 AND 0xFE)) OR push_bit 7 b3)
           OR drop_bit 1 (b4 AND 0xFE))
   }"

text \<open>The section bytes without their CRC; the inner \<^const>\<open>None\<close> is \<^verbatim>\<open>false\<close>.\<close>

definition psi_section :: "buffer \<Rightarrow> int \<Rightarrow> buffer option option" where
  "psi_section payload table_id =
     (let len = int (length payload) in
      if len < 1 then Some None
      else do {
        ptr \<leftarrow> byte_at payload 0;
        let offset = 1 + ptr;
        if offset + 8 > len then Some None
        else do {
          t \<leftarrow> byte_at payload offset;
          s1 \<leftarrow> byte_at payload (offset + 1);
          s2 \<leftarrow> byte_at payload (offset + 2);
          let section_length = push_bit 8 (s1 AND 0x0F) OR s2;
          if t \<noteq> table_id then Some None
          else if section_length < 9 \<or> section_length + 3 > len - offset then Some None
          else Some (Some (take (nat (3 + section_length - 4)) (drop (nat offset) payload)))
        }
      })"

definition tc_reset_program :: "int \<Rightarrow> ts_timecode_state \<Rightarrow> ts_timecode_state" where
  "tc_reset_program p st =
     st\<lparr> tc_pmt_pid := p, tc_video_pid := INVALID_PID, tc_codec := SLS_TC_CODEC_NONE, sps_valid := False,
         au_open := False, au := [] \<rparr>"

function parse_pat_loop :: "buffer \<Rightarrow> int \<Rightarrow> ts_timecode_state \<Rightarrow> ts_timecode_state option" where
  "parse_pat_loop s q st =
     (if q + 4 \<le> int (length s) then do {
        h \<leftarrow> byte_at s q; l \<leftarrow> byte_at s (q + 1); x \<leftarrow> byte_at s (q + 2); y \<leftarrow> byte_at s (q + 3);
        if push_bit 8 h OR l = 0 then parse_pat_loop s (q + 4) st
        else let p = push_bit 8 (x AND 0x1F) OR y
             in Some (if p \<noteq> tc_pmt_pid st then tc_reset_program p st else st)
      }
      else Some st)"
  by pat_completeness auto
termination by (relation "measure (\<lambda>(s, q, st). nat (int (length s) - q))") auto

definition parse_pat :: "buffer \<Rightarrow> ts_timecode_state \<Rightarrow> ts_timecode_state option" where
  "parse_pat payload st = do {
     sec \<leftarrow> psi_section payload 0;
     case sec of None \<Rightarrow> Some st | Some s \<Rightarrow> parse_pat_loop s 8 st
   }"

definition stream_codec :: "int \<Rightarrow> sls_tc_codec" where
  "stream_codec stream_type =
     (if stream_type = 0x1B then SLS_TC_CODEC_H264
      else if stream_type = 0x24 then SLS_TC_CODEC_HEVC else SLS_TC_CODEC_NONE)"

function parse_pmt_loop :: "buffer \<Rightarrow> int \<Rightarrow> ts_timecode_state \<Rightarrow> ts_timecode_state option" where
  "parse_pmt_loop s q st =
     (if q + 5 \<le> int (length s) then do {
        stream_type \<leftarrow> byte_at s q; e1 \<leftarrow> byte_at s (q + 1); e2 \<leftarrow> byte_at s (q + 2);
        i1 \<leftarrow> byte_at s (q + 3); i2 \<leftarrow> byte_at s (q + 4);
        let elementary_pid = push_bit 8 (e1 AND 0x1F) OR e2;
        let es_info_length = nat (push_bit 8 (i1 AND 0x0F) OR i2);
        let codec = stream_codec stream_type;
        if codec \<noteq> SLS_TC_CODEC_NONE then
          Some (if elementary_pid \<noteq> tc_video_pid st \<or> codec \<noteq> tc_codec st
                then st\<lparr> tc_video_pid := elementary_pid, tc_codec := codec, sps_valid := False,
                         au_open := False, au := [] \<rparr>
                else st)
        else parse_pmt_loop s (q + 5 + int es_info_length) st
      }
      else Some st)"
  by pat_completeness auto
termination
  by (relation "measure (\<lambda>(s, q, st). nat (int (length s) - q))") (auto intro: less_le_trans [of _ 0])

declare parse_pat_loop.simps [simp del] parse_pmt_loop.simps [simp del]

definition parse_pmt :: "buffer \<Rightarrow> ts_timecode_state \<Rightarrow> ts_timecode_state option" where
  "parse_pmt payload st = do {
     sec \<leftarrow> psi_section payload 2;
     case sec of None \<Rightarrow> Some st
     | Some s \<Rightarrow>
         if length s < 12 then Some st
         else do {
           p1 \<leftarrow> byte_at s 10; p2 \<leftarrow> byte_at s 11;
           parse_pmt_loop s (12 + (push_bit 8 (p1 AND 0x0F) OR p2)) st
         }
   }"

definition au_append :: "buffer \<Rightarrow> ts_timecode_state \<Rightarrow> ts_timecode_state" where
  "au_append data st = st\<lparr> au := au st @ take (SLS_TC_AU_PREFIX_MAX - length (au st)) data \<rparr>"

definition au_flush :: "ts_timecode_state \<Rightarrow> int \<times> ts_timecode_state" where
  "au_flush st =
     (case (if au st \<noteq> [] then scan_au_prefix st else (st, None)) of (st1, found) \<Rightarrow>
      (case found of
         None \<Rightarrow> (0, st1\<lparr> au_open := False, au := [] \<rparr>)
       | Some tc \<Rightarrow>
          (1, st1\<lparr> tc_valid := True, hours := c_hours tc, minutes := c_minutes tc, seconds := c_seconds tc,
                   frames := c_frames tc, drop_frame := c_drop_frame tc, tc_pts := au_pts st1,
                   updates := updates st1 + 1, au_open := False, au := [] \<rparr>)))"

text \<open>The PES header branch of \<open>feed_video_packet\<close>, after the flush; \<^const>\<open>None\<close> inside is the early return.\<close>

definition feed_pes_header :: "buffer \<Rightarrow> ts_timecode_state \<Rightarrow> ts_timecode_state option option" where
  "feed_pes_header payload st =
     (let len = int (length payload) in
      if len < 9 then Some None
      else do {
        p0 \<leftarrow> byte_at payload 0; p1 \<leftarrow> byte_at payload 1; p2 \<leftarrow> byte_at payload 2;
        stream_id \<leftarrow> byte_at payload 3; p7 \<leftarrow> byte_at payload 7; header_len \<leftarrow> byte_at payload 8;
        if p0 \<noteq> 0 \<or> p1 \<noteq> 0 \<or> p2 \<noteq> 1 then Some None
        else if stream_id < 0xE0 \<or> stream_id > 0xEF then Some None
        else if 9 + header_len > len then Some None
        else do {
          st1 \<leftarrow> (if (p7 AND 0xC0 = 0x80 \<and> header_len \<ge> 5) \<or> (p7 AND 0xC0 = 0xC0 \<and> header_len \<ge> 10)
                 then do { t \<leftarrow> read_pts (drop 9 payload); Some (st\<lparr> au_pts := t \<rparr>) }
                 else Some st);
          Some (Some (au_append (drop (nat (9 + header_len)) payload) (st1\<lparr> au_open := True \<rparr>)))
        }
      })"

definition au_full_flush :: "int \<times> ts_timecode_state \<Rightarrow> int \<times> ts_timecode_state" where
  "au_full_flush = (\<lambda>(decoded, st).
     if au_open st \<and> length (au st) \<ge> SLS_TC_AU_PREFIX_MAX
     then (case au_flush st of (d, st') \<Rightarrow> (decoded + d, st')) else (decoded, st))"

definition feed_video_packet :: "buffer \<Rightarrow> bool \<Rightarrow> ts_timecode_state \<Rightarrow> (int \<times> ts_timecode_state) option" where
  "feed_video_packet payload pusi st =
     (if pusi then
        (case au_flush st of (d, st1) \<Rightarrow> do {
           r \<leftarrow> feed_pes_header payload (st1\<lparr> au_pts := INVALID_DTS_PTS \<rparr>);
           Some (case r of None \<Rightarrow> (d, st1\<lparr> au_pts := INVALID_DTS_PTS \<rparr>) | Some st2 \<Rightarrow> au_full_flush (d, st2))
         })
      else Some (au_full_flush (0, if au_open st then au_append payload st else st)))"

section \<open>The chunk scan and the printed form\<close>

definition scan_packet :: "buffer \<Rightarrow> int \<Rightarrow> ts_timecode_state \<Rightarrow> (int \<times> ts_timecode_state) option" where
  "scan_packet data i st = do {
     p0 \<leftarrow> byte_at data i; p1 \<leftarrow> byte_at data (i + 1); p2 \<leftarrow> byte_at data (i + 2); p3 \<leftarrow> byte_at data (i + 3);
     p4 \<leftarrow> byte_at data (i + 4);
     let p = push_bit 8 (p1 AND 0x1F) OR p2;
     let afc = drop_bit 4 p3 AND 3;
     let pos = (if afc AND 2 \<noteq> 0 then 4 + (1 + p4) else 4);
     let payload = take (nat (TS_PACK_LEN - pos)) (drop (nat (i + pos)) data);
     let pusi = (p1 AND 0x40 \<noteq> 0);
     if p0 \<noteq> TS_SYNC_BYTE \<or> p1 AND 0x80 \<noteq> 0 \<or> p = 0x1FFF \<or> afc AND 1 = 0 \<or> pos \<ge> TS_PACK_LEN
     then Some (0, st)
     else if p = PAT_PID then
       (if pusi then map_option (Pair 0) (parse_pat payload st) else Some (0, st))
     else if p = tc_pmt_pid st then
       (if pusi then map_option (Pair 0) (parse_pmt payload st) else Some (0, st))
     else if p = tc_video_pid st \<and> tc_codec st \<noteq> SLS_TC_CODEC_NONE then feed_video_packet payload pusi st
     else Some (0, st)
   }"

function scan_loop ::
  "buffer \<Rightarrow> int \<Rightarrow> int \<Rightarrow> ts_timecode_state \<Rightarrow> int \<Rightarrow> (int \<times> ts_timecode_state) option" where
  "scan_loop data len i st decoded =
     (if i + TS_PACK_LEN \<le> len then do {
        (d, st') \<leftarrow> scan_packet data i st;
        scan_loop data len (i + TS_PACK_LEN) st' (decoded + d)
      }
      else Some (decoded, st))"
  by pat_completeness auto
termination
  by (relation "measure (\<lambda>(data, len, i, st, d). nat (len - i))") (auto simp: TS_PACK_LEN_def)

declare scan_loop.simps [simp del]

definition sls_ts_scan_timecode ::
  "buffer option \<Rightarrow> int \<Rightarrow> ts_timecode_state option \<Rightarrow> (int \<times> ts_timecode_state option) option" where
  "sls_ts_scan_timecode data len st =
     (case (data, st) of
        (Some d, Some s) \<Rightarrow> map_option (\<lambda>(n, s'). (n, Some s')) (scan_loop d len 0 s 0)
      | _ \<Rightarrow> Some (0, st))"

definition format_02d :: "int \<Rightarrow> string" where
  "format_02d n = (let s = dec_digits (nat n) in if length s < 2 then CHR ''0'' # s else s)"

definition sls_format_timecode :: "ts_timecode_state option \<Rightarrow> int \<Rightarrow> string option" where
  "sls_format_timecode st buf_len =
     (if buf_len \<le> 0 then None
      else case st of
        None \<Rightarrow> Some []
      | Some t \<Rightarrow>
          if \<not> tc_valid t then Some []
          else Some (take (nat (buf_len - 1))
                 (format_02d (hours t) @ '':'' @ format_02d (minutes t) @ '':'' @ format_02d (seconds t) @
                  (if drop_frame t then '';'' else '':'') @ format_02d (frames t))))"

end
