(* ===== verification/Timecode_Correct.thy ===== *)
theory Timecode_Correct
  imports Timecode
begin

text \<open>Correctness of the timecode scanner: the bit reader never leaves its buffer (a small calculus of
  specifications \<open>br_spec\<close> closed under the monad's operations), what it reads is the bits of the
  buffer, the decoders invert the encodings of the standards, and the scan keeps its state in range
  for every input.\<close>

named_theorems br_rules "specification rules of the bit reader"

section \<open>Specifications of reader programs\<close>

definition br_ok :: "bitreader \<Rightarrow> bool" where
  "br_ok r \<longleftrightarrow> \<not> br_oob r \<and> 0 \<le> br_pos r \<and> br_len r \<le> int (length (br_buf r))"

definition br_spec :: "'a br \<Rightarrow> ('a \<Rightarrow> bool) \<Rightarrow> bool" where
  "br_spec m Q \<longleftrightarrow> (\<forall>r. br_ok r \<longrightarrow> br_ok (snd (run_state m r)) \<and> Q (fst (run_state m r)))"

lemma br_spec_return [br_rules]: "Q a \<Longrightarrow> br_spec (State_Monad.return a) Q"
  by (simp add: br_spec_def)

lemma br_spec_bind:
  assumes "br_spec m Q" "\<And>a. Q a \<Longrightarrow> br_spec (f a) R"
  shows "br_spec (State_Monad.bind m f) R"
  using assms unfolding br_spec_def by (auto split: prod.split)

lemma br_spec_if [br_rules]:
  "(b \<Longrightarrow> br_spec m Q) \<Longrightarrow> (\<not> b \<Longrightarrow> br_spec n Q) \<Longrightarrow> br_spec (if b then m else n) Q"
  by simp

lemma br_spec_weaken: "br_spec m Q \<Longrightarrow> (\<And>a. Q a \<Longrightarrow> R a) \<Longrightarrow> br_spec m R"
  by (simp add: br_spec_def)

lemma br_spec_failed: "br_spec br_failed (\<lambda>_. True)"
  by (simp add: br_spec_def br_failed_def)

lemma br_spec_fail: "br_spec br_fail (\<lambda>_. True)"
  by (simp add: br_spec_def br_fail_def br_ok_def)

lemma br_bits_ok:
  assumes "br_ok r" "br_pos r + int n \<le> br_len r * 8" "0 \<le> v" "v < 2 ^ k" "k + n \<le> 32"
  shows "br_ok (snd (br_bits n v r)) \<and> 0 \<le> fst (br_bits n v r) \<and> fst (br_bits n v r) < 2 ^ (k + n)"
  using assms
proof (induction n v r arbitrary: k rule: br_bits.induct)
  case (2 n v r)
  let ?b = "uint (br_buf r ! nat (br_pos r div 8))"
  let ?bit = "(?b div 2 ^ nat (7 - br_pos r mod 8)) mod 2"
  have "0 \<le> br_pos r div 8" "br_pos r div 8 < int (length (br_buf r))"
    using "2.prems" by (auto simp: br_ok_def)
  hence b: "byte_at (br_buf r) (br_pos r div 8) = Some ?b" by simp
  have bit: "0 \<le> ?bit" "?bit < 2" by auto
  have "(2 :: int) ^ Suc k \<le> 2 ^ 32" using "2.prems" by (intro power_increasing) auto
  moreover have v': "0 \<le> 2 * v + ?bit" "2 * v + ?bit < 2 ^ Suc k" using "2.prems" bit by auto
  ultimately have m: "(2 * v + ?bit) mod 2 ^ 32 = 2 * v + ?bit" by simp
  have ok: "br_ok (r\<lparr> br_pos := br_pos r + 1 \<rparr>)" using "2.prems"(1) by (simp add: br_ok_def)
  have room: "br_pos (r\<lparr> br_pos := br_pos r + 1 \<rparr>) + int n \<le> br_len (r\<lparr> br_pos := br_pos r + 1 \<rparr>) * 8"
      "Suc k + n \<le> 32" using "2.prems"(2,5) by auto
  show ?case
    using "2.IH" [OF b ok room(1), unfolded m, OF v' room(2)] unfolding br_bits.simps b option.case m by simp
qed auto

lemma br_spec_u: "br_spec (br_u n) (\<lambda>v. 0 \<le> v \<and> v < 2 ^ nat n)"
  unfolding br_spec_def
proof (intro allI impI)
  fix r assume ok: "br_ok r"
  show "br_ok (snd (run_state (br_u n) r)) \<and> 0 \<le> fst (run_state (br_u n) r) \<and>
        fst (run_state (br_u n) r) < 2 ^ nat n"
  proof (cases "br_err r \<or> n \<le> 0 \<or> n > 32 \<or> br_pos r + n > br_len r * 8")
    case True
    thus ?thesis using ok by (auto simp: br_u_def br_ok_def)
  next
    case False
    hence "nat n \<le> 32" by linarith
    thus ?thesis using False br_bits_ok [OF ok, of "nat n" 0 0] by (simp add: br_u_def)
  qed
qed

lemma br_bind_u [br_rules]:
  "(\<And>v. 0 \<le> v \<Longrightarrow> v < 2 ^ nat n \<Longrightarrow> br_spec (f v) R) \<Longrightarrow> br_spec (State_Monad.bind (br_u n) f) R"
  by (rule br_spec_bind [OF br_spec_u]) auto

lemma br_bind_failed [br_rules]: "(\<And>b. br_spec (f b) R) \<Longrightarrow> br_spec (State_Monad.bind br_failed f) R"
  by (rule br_spec_bind [OF br_spec_failed])

lemma br_bind_fail [br_rules]: "(\<And>b. br_spec (f b) R) \<Longrightarrow> br_spec (State_Monad.bind br_fail f) R"
  by (rule br_spec_bind [OF br_spec_fail])

lemma br_bind_if [br_rules]:
  "br_spec (if b then m else n) (\<lambda>_. True) \<Longrightarrow> (\<And>a. br_spec (f a) R) \<Longrightarrow>
   br_spec (State_Monad.bind (if b then m else n) f) R"
  by (rule br_spec_bind)

lemma br_spec_u_True [br_rules]: "br_spec (br_u n) (\<lambda>_. True)"
  by (rule br_spec_weaken [OF br_spec_u]) simp

lemma br_spec_zeros: "br_spec (br_zeros z) (\<lambda>_. True)"
proof (induction z rule: br_zeros.induct)
  case (1 z)
  show ?case by (subst br_zeros.simps) (intro br_rules 1, auto)
qed

lemma br_spec_ue: "br_spec br_ue (\<lambda>_. True)"
  unfolding br_ue_def by (rule br_spec_bind [OF br_spec_zeros]) (intro br_rules, auto)

lemma br_bind_ue [br_rules]: "(\<And>v. br_spec (f v) R) \<Longrightarrow> br_spec (State_Monad.bind br_ue f) R"
  by (rule br_spec_bind [OF br_spec_ue])

lemma br_spec_se: "br_spec br_se (\<lambda>_. True)"
  unfolding br_se_def by (intro br_rules) simp

lemma br_bind_se [br_rules]: "(\<And>v. br_spec (f v) R) \<Longrightarrow> br_spec (State_Monad.bind br_se f) R"
  by (rule br_spec_bind [OF br_spec_se])

lemma br_spec_i [br_rules]: "br_spec (br_i n) (\<lambda>_. True)"
  unfolding br_i_def by (intro br_rules) simp

lemma br_bind_i [br_rules]: "(\<And>v. br_spec (f v) R) \<Longrightarrow> br_spec (State_Monad.bind (br_i n) f) R"
  by (rule br_spec_bind [OF br_spec_i])

lemma br_spec_unit_bind:
  "br_spec m (\<lambda>_. True) \<Longrightarrow> (\<And>a. br_spec (f a) R) \<Longrightarrow> br_spec (State_Monad.bind m f) R"
  by (rule br_spec_bind)

lemma br_spec_skip_scaling: "br_spec (skip_scaling_loop n l x) (\<lambda>_. True)"
  by (induction n arbitrary: l x) (auto intro!: br_rules)

lemma br_spec_scaling_matrix: "br_spec (scaling_matrix_loop i n) (\<lambda>_. True)"
  by (induction n arbitrary: i) (auto intro!: br_rules br_spec_skip_scaling simp: skip_scaling_list_def)

lemma br_spec_hrd_cpb: "br_spec (hrd_cpb_loop n) (\<lambda>_. True)"
  by (induction n) (auto intro!: br_rules)

lemma br_spec_parse_hrd: "br_spec (parse_hrd lens) (\<lambda>_. True)"
  unfolding parse_hrd_def Let_def
  by (intro br_rules br_spec_unit_bind [OF br_spec_hrd_cpb]) auto

lemma br_spec_chroma: "br_spec sps_chroma_ext (\<lambda>_. True)"
  unfolding sps_chroma_ext_def by (intro br_rules br_spec_scaling_matrix) auto

lemma br_spec_se_loop: "br_spec (se_loop n) (\<lambda>_. True)"
  by (induction n) (auto intro!: br_rules)

lemma br_spec_poc: "br_spec sps_poc (\<lambda>_. True)"
  unfolding sps_poc_def by (intro br_rules br_spec_unit_bind [OF br_spec_se_loop]) auto

lemma br_spec_vui_head: "br_spec sps_vui_head (\<lambda>_. True)"
  unfolding sps_vui_head_def by (intro br_rules) auto

lemma br_spec_sps_hrd: "br_spec sps_hrd (\<lambda>_. True)"
  unfolding sps_hrd_def by (intro br_rules br_spec_parse_hrd) auto

lemma br_spec_sps: "br_spec sps_fields (\<lambda>_. True)"
  unfolding sps_fields_def
  by (intro br_rules br_spec_chroma br_spec_unit_bind [OF br_spec_poc] br_spec_unit_bind [OF br_spec_vui_head]
      br_spec_sps_hrd) auto

definition tc_range :: "clock_timestamp \<Rightarrow> bool" where
  "tc_range tc \<longleftrightarrow> 0 \<le> c_hours tc \<and> c_hours tc < 24 \<and> 0 \<le> c_minutes tc \<and> c_minutes tc < 60 \<and>
     0 \<le> c_seconds tc \<and> c_seconds tc < 60 \<and> 0 \<le> c_frames tc \<and> c_frames tc < 512"

lemma br_spec_read_hms:
  "br_spec (read_hms full) (\<lambda>(h, m, s). 0 \<le> h \<and> 0 \<le> m \<and> 0 \<le> s)"
  unfolding read_hms_def by (intro br_rules) auto

lemma br_bind_read_hms [br_rules]:
  "(\<And>x. 0 \<le> fst x \<Longrightarrow> 0 \<le> fst (snd x) \<Longrightarrow> 0 \<le> snd (snd x) \<Longrightarrow> br_spec (f x) R) \<Longrightarrow>
   br_spec (State_Monad.bind (read_hms full) f) R"
  by (rule br_spec_bind [OF br_spec_read_hms]) auto

lemma br_spec_pic_timing_loop: "br_spec (pic_timing_loop n off) (pred_option tc_range)"
  by (induction n) (auto intro!: br_rules simp: Let_def tc_range_def plausible_def)

lemma br_spec_time_code_loop: "br_spec (time_code_loop n) (pred_option tc_range)"
  by (induction n) (auto intro!: br_rules simp: Let_def tc_range_def plausible_def)

lemma br_spec_pic_timing: "br_spec (pic_timing_fields st) (pred_option tc_range)"
  unfolding pic_timing_fields_def by (intro br_rules br_spec_pic_timing_loop) auto

lemma br_spec_time_code: "br_spec time_code_fields (pred_option tc_range)"
  unfolding time_code_fields_def by (intro br_rules br_spec_time_code_loop)

lemma br_start_ok: "br_ok (br_start b (int (length b)))"
  by (simp add: br_start_def br_ok_def)

section \<open>What the scan keeps\<close>

definition tc_ok :: "ts_timecode_state \<Rightarrow> bool" where
  "tc_ok st \<longleftrightarrow> length (au st) \<le> SLS_TC_AU_PREFIX_MAX \<and>
     (tc_valid st \<longrightarrow> 0 \<le> hours st \<and> hours st < 24 \<and> 0 \<le> minutes st \<and> minutes st < 60 \<and>
        0 \<le> seconds st \<and> seconds st < 60 \<and> 0 \<le> frames st \<and> frames st < 512)"

text \<open>The NAL walk changes only the SPS context.\<close>

definition tc_same_clock :: "ts_timecode_state \<Rightarrow> ts_timecode_state \<Rightarrow> bool" where
  "tc_same_clock s t \<longleftrightarrow> au t = au s \<and> au_open t = au_open s \<and> au_pts t = au_pts s \<and> tc_valid t = tc_valid s \<and>
     hours t = hours s \<and> minutes t = minutes s \<and> seconds t = seconds s \<and> frames t = frames s \<and>
     drop_frame t = drop_frame s \<and> tc_pts t = tc_pts s \<and> updates t = updates s \<and>
     tc_pmt_pid t = tc_pmt_pid s \<and> tc_video_pid t = tc_video_pid s \<and> tc_codec t = tc_codec s"

lemma tc_same_clock_refl [simp]: "tc_same_clock s s"
  by (simp add: tc_same_clock_def)

lemma tc_same_clock_trans: "tc_same_clock s t \<Longrightarrow> tc_same_clock t u \<Longrightarrow> tc_same_clock s u"
  by (simp add: tc_same_clock_def)

lemma sei_payload_range: "pred_option tc_range (sei_payload st ty p)"
  using br_spec_time_code br_spec_pic_timing [of st] br_start_ok [of p]
  unfolding sei_payload_def parse_time_code_hevc_def parse_pic_timing_h264_def br_spec_def by auto

lemma scan_sei_range: "pred_option tc_range (scan_sei_messages st bs)"
proof (induction st bs rule: scan_sei_messages.induct)
  case (1 st bs)
  show ?case
    using 1 sei_payload_range [of st]
    by (subst scan_sei_messages.simps) (auto split: list.split option.split prod.split simp: option.pred_set)
qed

lemma parse_sps_same_clock: "tc_same_clock st (parse_sps_h264 b st)"
  by (auto simp: parse_sps_h264_def tc_same_clock_def split: option.split)

lemma scan_nal_keeps:
  "scan_nal nal st = (st', c) \<Longrightarrow> tc_same_clock st st' \<and> pred_option tc_range c"
  using scan_sei_range parse_sps_same_clock by (auto simp: scan_nal_def Let_def split: if_splits)

lemma scan_au_keeps:
  "pred_option tc_range found \<Longrightarrow> scan_au_from s st found = (st', c) \<Longrightarrow>
   tc_same_clock st st' \<and> pred_option tc_range c"
proof (induction s st found arbitrary: st' c rule: scan_au_from.induct)
  case (1 s st found)
  show ?case
  proof (cases "length s < 3")
    case True
    thus ?thesis using "1.prems" by (simp add: scan_au_from.simps [of s])
  next
    case long: False
    show ?thesis
    proof (cases "is_start_code s")
      case None
      thus ?thesis using 1 long by (simp add: scan_au_from.simps [of s])
    next
      case (Some k)
      obtain nal rest where ns: "nal_split (drop k s) = (nal, rest)" by fastforce
      obtain st1 cand where sn: "(if nal \<noteq> [] then scan_nal nal st else (st, None)) = (st1, cand)" by fastforce
      have k: "tc_same_clock st st1" "pred_option tc_range cand"
        using sn scan_nal_keeps [of nal st] by (auto split: if_splits)
      have "scan_au_from rest st1 (if found = None then cand else found) = (st', c)"
        using "1.prems"(2) long Some ns sn by (simp add: scan_au_from.simps [of s])
      hence "tc_same_clock st1 st' \<and> pred_option tc_range c"
        using "1.IH"(2) [OF long Some ns [symmetric] sn [symmetric]] k "1.prems"(1) by auto
      thus ?thesis using k tc_same_clock_trans by blast
    qed
  qed
qed

text \<open>\<open>tc_step st r n\<close>: the fallible step \<open>r\<close> from \<open>st\<close> succeeds, decodes at most \<open>n\<close> timecodes, counts them in
  \<open>updates\<close> and keeps the state in range.\<close>

definition tc_step :: "ts_timecode_state \<Rightarrow> (int \<times> ts_timecode_state) option \<Rightarrow> int \<Rightarrow> bool" where
  "tc_step st r n \<longleftrightarrow> (case r of None \<Rightarrow> False
     | Some (d, st') \<Rightarrow> 0 \<le> d \<and> d \<le> n \<and> updates st' = updates st + d \<and> (tc_ok st \<longrightarrow> tc_ok st'))"

lemma tc_step_same [simp]: "0 \<le> n \<Longrightarrow> tc_step st (Some (0, st)) n"
  by (simp add: tc_step_def)

lemma tc_stepE:
  assumes "tc_step st r n"
  obtains d st' where "r = Some (d, st')" "0 \<le> d" "d \<le> n" "updates st' = updates st + d" "tc_ok st \<Longrightarrow> tc_ok st'"
  using assms by (auto simp: tc_step_def split: option.splits)

lemma psi_section_total: "\<exists>x. psi_section payload t = Some x"
proof -
  define len where "len = int (length payload)"
  obtain f where f: "\<forall>i. 0 \<le> i \<and> i < len \<longrightarrow> byte_at payload i = Some (f i) \<and> 0 \<le> f i"
    using byte_at_total [of len payload] len_def by auto
  show ?thesis
  proof (cases "len < 1")
    case True
    thus ?thesis by (simp add: psi_section_def len_def)
  next
    case False
    hence "byte_at payload 0 = Some (f 0)" "0 \<le> f 0" using f by auto
    thus ?thesis using False f unfolding psi_section_def len_def [symmetric] Let_def by simp
  qed
qed

lemma parse_pat_loop_total:
  "0 \<le> q \<Longrightarrow> \<exists>st'. parse_pat_loop s q st = Some st' \<and> tc_step st (Some (0, st')) 0"
proof (induction s q st rule: parse_pat_loop.induct)
  case (1 s q st)
  show ?case
  proof (cases "q + 4 \<le> int (length s)")
    case True
    thus ?thesis using 1
      by (subst parse_pat_loop.simps) (auto simp: Let_def tc_step_def tc_ok_def tc_reset_program_def)
  qed (simp add: parse_pat_loop.simps)
qed

lemma parse_pmt_loop_total:
  "0 \<le> q \<Longrightarrow> \<exists>st'. parse_pmt_loop s q st = Some st' \<and> tc_step st (Some (0, st')) 0"
proof (induction s q st rule: parse_pmt_loop.induct)
  case (1 s q st)
  let ?u = "\<lambda>i. uint (s ! nat (q + i))"
  let ?es = "int (nat (push_bit 8 (?u 3 AND 0x0F) OR ?u 4))"
  show ?case
  proof (cases "q + 5 \<le> int (length s)")
    case le: True
    have b: "byte_at s q = Some (?u 0)" "byte_at s (q + 1) = Some (?u 1)" "byte_at s (q + 2) = Some (?u 2)"
        "byte_at s (q + 3) = Some (?u 3)" "byte_at s (q + 4) = Some (?u 4)"
      using le "1.prems" by simp_all
    show ?thesis
    proof (cases "stream_codec (?u 0) = SLS_TC_CODEC_NONE")
      case True
      have "\<exists>st'. parse_pmt_loop s (q + 5 + ?es) st = Some st' \<and> tc_step st (Some (0, st')) 0"
        by (rule "1.IH" [OF le b refl refl refl]) (use True "1.prems" in simp_all)
      thus ?thesis by (subst parse_pmt_loop.simps)
          (simp only: le b True bind.bind_lunit Let_def if_True if_False simp_thms)
    next
      case False
      have "\<exists>st'. Some (if push_bit 8 (?u 1 AND 0x1F) OR ?u 2 \<noteq> tc_video_pid st \<or> stream_codec (?u 0) \<noteq> tc_codec st
          then st\<lparr> tc_video_pid := push_bit 8 (?u 1 AND 0x1F) OR ?u 2, tc_codec := stream_codec (?u 0),
                   sps_valid := False, au_open := False, au := [] \<rparr> else st) = Some st' \<and>
          tc_step st (Some (0, st')) 0"
        by (auto simp: tc_step_def tc_ok_def)
      thus ?thesis by (subst parse_pmt_loop.simps)
          (simp only: le b False bind.bind_lunit Let_def if_True not_False_eq_True)
    qed
  qed (simp add: parse_pmt_loop.simps)
qed

lemma parse_pat_step: "tc_step st (map_option (Pair 0) (parse_pat payload st)) 0"
proof -
  obtain x where x: "psi_section payload 0 = Some x" using psi_section_total by blast
  show ?thesis
  proof (cases x)
    case (Some s)
    obtain st' where "parse_pat_loop s 8 st = Some st'" "tc_step st (Some (0, st')) 0"
      using parse_pat_loop_total [of 8 s st] by auto
    thus ?thesis using x Some by (simp add: parse_pat_def)
  qed (use x in \<open>simp add: parse_pat_def\<close>)
qed

lemma parse_pmt_step: "tc_step st (map_option (Pair 0) (parse_pmt payload st)) 0"
proof -
  obtain x where x: "psi_section payload 2 = Some x" using psi_section_total by blast
  show ?thesis
  proof (cases x)
    case None
    thus ?thesis using x by (simp add: parse_pmt_def)
  next
    case (Some s)
    show ?thesis
    proof (cases "length s < 12")
      case False
      let ?q = "12 + (push_bit 8 (uint (s ! 10) AND 0x0F) OR uint (s ! 11))"
      have "0 \<le> ?q" by simp
      then obtain st' where "parse_pmt_loop s ?q st = Some st'" "tc_step st (Some (0, st')) 0"
        using parse_pmt_loop_total by blast
      thus ?thesis using False x Some by (simp add: parse_pmt_def)
    qed (use x Some in \<open>simp add: parse_pmt_def\<close>)
  qed
qed

lemma au_flush_step: "tc_step st (Some (au_flush st)) 1"
proof -
  obtain st1 found where s: "(if au st \<noteq> [] then scan_au_prefix st else (st, None)) = (st1, found)" by fastforce
  have "tc_same_clock st st1 \<and> pred_option tc_range found"
    using s scan_au_keeps [of None "au st" st] by (auto simp: scan_au_prefix_def split: if_splits)
  thus ?thesis unfolding au_flush_def s
    by (auto simp: tc_step_def tc_ok_def tc_same_clock_def tc_range_def split: option.split)
qed

lemma au_append_step: "tc_step st (Some (0, au_append data st)) 0"
  by (auto simp: tc_step_def tc_ok_def au_append_def)

lemma au_full_flush_step:
  assumes "tc_step st (Some (d, st1)) n"
  shows "tc_step st (Some (au_full_flush (d, st1))) (n + 1)"
  using assms au_flush_step [of st1]
  by (auto simp: au_full_flush_def tc_step_def split: prod.splits)

lemma read_pts_total: "5 \<le> length b \<Longrightarrow> \<exists>t. read_pts b = Some t"
  by (cases b) (auto simp: read_pts_def byte_at_def)

lemma feed_pes_header_step:
  "\<exists>x. feed_pes_header payload st = Some x \<and> (case x of None \<Rightarrow> True | Some st' \<Rightarrow> tc_step st (Some (0, st')) 0)"
proof -
  define len where "len = int (length payload)"
  obtain f where f: "\<forall>i. 0 \<le> i \<and> i < len \<longrightarrow> byte_at payload i = Some (f i) \<and> 0 \<le> f i"
    using byte_at_total [of len payload] len_def by auto
  obtain t where t: "len \<ge> 14 \<Longrightarrow> read_pts (drop 9 payload) = Some t"
    using read_pts_total [of "drop 9 payload"] unfolding len_def by fastforce
  have step: "tc_step st (Some (0, au_append x (st\<lparr> au_pts := y, au_open := True \<rparr>))) 0"
    "tc_step st (Some (0, au_append x (st\<lparr> au_open := True \<rparr>))) 0" for x y
    by (auto simp: tc_step_def tc_ok_def au_append_def)
  show ?thesis
  proof (cases "len < 9")
    case True
    thus ?thesis by (simp add: feed_pes_header_def len_def)
  next
    case False
    thus ?thesis using f step t unfolding feed_pes_header_def len_def [symmetric] Let_def by simp
  qed
qed

lemma feed_video_packet_step: "tc_step st (feed_video_packet payload pusi st) 2"
proof (cases pusi)
  case True
  obtain d st1 where f: "au_flush st = (d, st1)" by fastforce
  have s1: "tc_step st (Some (d, st1\<lparr> au_pts := INVALID_DTS_PTS \<rparr>)) 1"
    using au_flush_step [of st] f by (auto simp: tc_step_def tc_ok_def)
  obtain x where x: "feed_pes_header payload (st1\<lparr> au_pts := INVALID_DTS_PTS \<rparr>) = Some x"
      "case x of None \<Rightarrow> True | Some st' \<Rightarrow> tc_step (st1\<lparr> au_pts := INVALID_DTS_PTS \<rparr>) (Some (0, st')) 0"
    using feed_pes_header_step by blast
  show ?thesis
  proof (cases x)
    case None
    thus ?thesis using True f x s1 by (auto simp: feed_video_packet_def tc_step_def)
  next
    case (Some st2)
    hence "tc_step st (Some (d, st2)) 1" using x(2) s1 by (auto simp: tc_step_def)
    hence "tc_step st (Some (au_full_flush (d, st2))) (1 + 1)" by (rule au_full_flush_step)
    thus ?thesis using True f x Some by (simp add: feed_video_packet_def)
  qed
next
  case False
  have "tc_step st (Some (0, if au_open st then au_append payload st else st)) 0"
    using au_append_step by simp
  hence "tc_step st (Some (au_full_flush (0, if au_open st then au_append payload st else st))) (0 + 1)"
    by (rule au_full_flush_step)
  thus ?thesis using False by (auto simp: feed_video_packet_def tc_step_def)
qed

lemma tc_step_mono: "tc_step st r m \<Longrightarrow> m \<le> n \<Longrightarrow> tc_step st r n"
  by (auto simp: tc_step_def split: option.splits)

lemma scan_packet_step:
  assumes "0 \<le> i" "i + 188 \<le> int (length data)"
  shows "tc_step st (scan_packet data i st) 2"
proof -
  obtain f where f: "\<forall>j. 0 \<le> j \<and> j < int (length data) \<longrightarrow> byte_at data j = Some (f j) \<and> 0 \<le> f j"
    using byte_at_total [of "int (length data)" data] by auto
  have b: "byte_at data i = Some (f i)" "byte_at data (i + 1) = Some (f (i + 1))"
      "byte_at data (i + 2) = Some (f (i + 2))" "byte_at data (i + 3) = Some (f (i + 3))"
      "byte_at data (i + 4) = Some (f (i + 4))" using f assms by auto
  have steps: "tc_step st (map_option (Pair 0) (parse_pat x st)) 2" "tc_step st (map_option (Pair 0) (parse_pmt x st)) 2"
    for x using tc_step_mono [OF parse_pat_step] tc_step_mono [OF parse_pmt_step] by auto
  show ?thesis unfolding scan_packet_def b bind.bind_lunit Let_def
    using steps feed_video_packet_step by simp
qed

lemma scan_loop_step:
  assumes "m \<le> length data" "k \<le> m div 188"
  shows "\<exists>n st'. scan_loop data (int m) (int (188 * k)) st d = Some (d + n, st') \<and>
     tc_step st (Some (n, st')) (2 * int (m div 188 - k))"
  using assms
proof (induction "m div 188 - k" arbitrary: k st d)
  case 0
  hence "\<not> int (188 * k) + TS_PACK_LEN \<le> int m" by (simp add: TS_PACK_LEN_def)
  thus ?case by (simp add: scan_loop.simps)
next
  case (Suc x)
  hence k: "k < m div 188" by simp
  hence le: "188 * k + 188 \<le> m" by linarith
  have "tc_step st (scan_packet data (int (188 * k)) st) 2"
    by (rule scan_packet_step) (use le Suc.prems in auto)
  then obtain e st1 where p: "scan_packet data (int (188 * k)) st = Some (e, st1)" "tc_step st (Some (e, st1)) 2"
    by (rule tc_stepE) (auto simp: tc_step_def)
  have "int (188 * k) + TS_PACK_LEN = int (188 * Suc k)" "int (188 * k) + TS_PACK_LEN \<le> int m"
    using le by (simp_all add: TS_PACK_LEN_def)
  hence l: "scan_loop data (int m) (int (188 * k)) st d = scan_loop data (int m) (int (188 * Suc k)) st1 (d + e)"
    using p(1) by (subst scan_loop.simps) (simp add: add.commute)
  have x: "x = m div 188 - Suc k" using Suc.hyps(2) by linarith
  obtain n st' where r: "scan_loop data (int m) (int (188 * Suc k)) st1 (d + e) = Some ((d + e) + n, st')"
      "tc_step st1 (Some (n, st')) (2 * int (m div 188 - Suc k))"
    using Suc.hyps(1) [OF x, of st1 "d + e"] Suc.prems k by auto
  have "tc_step st (Some (e + n, st')) (2 * int (m div 188 - k))"
    using p(2) r(2) k by (auto simp: tc_step_def)
  thus ?case using l r(1) by (auto simp: add.assoc)
qed

section \<open>The reader returns the bits of the buffer\<close>

definition byte_bits :: "byte \<Rightarrow> int list" where
  "byte_bits b = map (\<lambda>i. uint b div 2 ^ (7 - i) mod 2) [0..<8]"

definition bits_of :: "buffer \<Rightarrow> int list" where
  "bits_of bs = concat (map byte_bits bs)"

definition bits_val :: "int list \<Rightarrow> int" where
  "bits_val xs = foldl (\<lambda>v b. 2 * v + b) 0 xs"

definition to_bits :: "nat \<Rightarrow> int \<Rightarrow> int list" where
  "to_bits n v = map (\<lambda>i. v div 2 ^ (n - 1 - i) mod 2) [0..<n]"

text \<open>\<open>br_rem r bs\<close>: the reader is sound, has not failed, and \<open>bs\<close> is what is left to read.\<close>

definition br_rem :: "bitreader \<Rightarrow> int list \<Rightarrow> bool" where
  "br_rem r bs \<longleftrightarrow> br_ok r \<and> \<not> br_err r \<and> br_len r = int (length (br_buf r)) \<and>
     drop (nat (br_pos r)) (bits_of (br_buf r)) = bs \<and> br_pos r \<le> 8 * br_len r"

lemma length_bits_of [simp]: "length (bits_of bs) = 8 * length bs"
  by (induction bs) (simp_all add: bits_of_def byte_bits_def)

lemma nth_bits_of:
  "i < 8 * length bs \<Longrightarrow> bits_of bs ! i = uint (bs ! (i div 8)) div 2 ^ (7 - i mod 8) mod 2"
proof (induction bs arbitrary: i)
  case (Cons b bs)
  show ?case
  proof (cases "i < 8")
    case True
    thus ?thesis by (simp add: bits_of_def nth_append byte_bits_def)
  next
    case False
    then obtain j where j: "i = 8 + j" by (metis le_add_diff_inverse not_less)
    have "bits_of (b # bs) ! i = bits_of bs ! j" by (simp add: j bits_of_def nth_append byte_bits_def)
    thus ?thesis using Cons j by (simp add: div_add_self1)
  qed
qed simp

lemma br_bits_value:
  assumes "br_ok r" "br_len r = int (length (br_buf r))" "br_pos r + int n \<le> br_len r * 8"
    and "0 \<le> v" "v < 2 ^ k" "k + n \<le> 32"
  shows "br_bits n v r = (foldl (\<lambda>v b. 2 * v + b) v (take n (drop (nat (br_pos r)) (bits_of (br_buf r)))),
                          r\<lparr> br_pos := br_pos r + int n \<rparr>)"
  using assms
proof (induction n v r arbitrary: k rule: br_bits.induct)
  case (2 n v r)
  let ?p = "nat (br_pos r)"
  let ?bit = "bits_of (br_buf r) ! ?p"
  have pos: "0 \<le> br_pos r" "?p < 8 * length (br_buf r)" using "2.prems" by (auto simp: br_ok_def)
  have b: "byte_at (br_buf r) (br_pos r div 8) = Some (uint (br_buf r ! (?p div 8)))"
    using pos "2.prems" by (simp add: nat_div_distrib)
  have bit: "?bit = uint (br_buf r ! (?p div 8)) div 2 ^ nat (7 - br_pos r mod 8) mod 2"
    using pos by (simp add: nth_bits_of nat_diff_distrib nat_mod_distrib)
  have "(2 :: int) ^ Suc k \<le> 2 ^ 32" using "2.prems" by (intro power_increasing) auto
  moreover have bb: "0 \<le> ?bit" "?bit < 2" unfolding bit by auto
  moreover have v': "0 \<le> 2 * v + ?bit" "2 * v + ?bit < 2 ^ Suc k"
    using "2.prems"(4,5) bb unfolding power_Suc by linarith+
  ultimately have m: "(2 * v + ?bit) mod 2 ^ 32 = 2 * v + ?bit" by simp
  let ?r = "r\<lparr> br_pos := br_pos r + 1 \<rparr>"
  have IH: "br_bits n (2 * v + ?bit) ?r =
      (foldl (\<lambda>v b. 2 * v + b) (2 * v + ?bit) (take n (drop (nat (br_pos ?r)) (bits_of (br_buf ?r)))),
       ?r\<lparr> br_pos := br_pos ?r + int n \<rparr>)"
    using "2.IH" [OF b, of "Suc k", folded bit, unfolded m] "2.prems" v' by (simp add: br_ok_def)
  have "drop ?p (bits_of (br_buf r)) = ?bit # drop (nat (br_pos r + 1)) (bits_of (br_buf r))"
    using pos by (simp add: Cons_nth_drop_Suc [symmetric] nat_add_distrib)
  thus ?case unfolding br_bits.simps b option.case bit [symmetric] m IH by simp
qed simp

text \<open>\<open>br_gives m bs a cs\<close>: on a reader that has the bits \<open>bs\<close> left, \<open>m\<close> returns \<open>a\<close> and leaves \<open>cs\<close>.\<close>

definition br_gives :: "'a br \<Rightarrow> int list \<Rightarrow> 'a \<Rightarrow> int list \<Rightarrow> bool" where
  "br_gives m bs a cs \<longleftrightarrow> (\<forall>r. br_rem r bs \<longrightarrow> (\<exists>r'. run_state m r = (a, r') \<and> br_rem r' cs))"

lemma br_gives_return: "br_gives (State_Monad.return a) bs a bs"
  by (simp add: br_gives_def)

lemma br_gives_failed: "br_gives br_failed bs False bs"
  by (auto simp: br_gives_def br_failed_def br_rem_def)

lemma br_gives_bind: "br_gives m bs a cs \<Longrightarrow> br_gives (f a) cs b ds \<Longrightarrow> br_gives (State_Monad.bind m f) bs b ds"
  by (fastforce simp: br_gives_def)

lemma br_gives_bits:
  assumes "n = int (length xs)" "0 < n" "n \<le> 32"
  shows "br_gives (br_u n) (xs @ ys) (bits_val xs) ys"
  unfolding br_gives_def
proof (intro allI impI)
  fix r assume r: "br_rem r (xs @ ys)"
  let ?B = "bits_of (br_buf r)"
  have d: "drop (nat (br_pos r)) ?B = xs @ ys" "br_ok r" "br_len r = int (length (br_buf r))" "\<not> br_err r"
    using r by (auto simp: br_rem_def)
  have "8 * length (br_buf r) - nat (br_pos r) = length xs + length ys"
    using arg_cong [OF d(1), of length] by simp
  moreover have "0 \<le> br_pos r" "0 < length xs" using d(2) assms by (auto simp: br_ok_def)
  ultimately have le: "br_pos r + n \<le> br_len r * 8" "0 \<le> br_pos r" unfolding d(3) assms(1) by linarith+
  hence "br_bits (length xs) 0 r = (bits_val xs, r\<lparr> br_pos := br_pos r + n \<rparr>)"
    using br_bits_value [of r "length xs" 0 0] d assms by (simp add: bits_val_def)
  moreover have "drop (nat (br_pos r + n)) ?B = ys"
    using d(1) le assms by (metis append_eq_conv_conj drop_drop add.commute nat_add_distrib nat_int of_nat_0_le_iff)
  ultimately show "\<exists>r'. run_state (br_u n) r = (bits_val xs, r') \<and> br_rem r' ys"
    using assms le d by (simp add: br_u_def br_rem_def br_ok_def)
qed

lemma foldl_bits: "foldl (\<lambda>v b. 2 * v + b) v (to_bits n x) = v * 2 ^ n + x mod 2 ^ n" for v x :: int
proof (induction n arbitrary: x)
  case (Suc n)
  have "to_bits (Suc n) x = to_bits n (x div 2) @ [x mod 2]"
    by (auto simp: to_bits_def zdiv_zmult2_eq [symmetric] power_Suc [symmetric] Suc_diff_Suc simp del: power_Suc)
  moreover have "x mod 2 ^ Suc n = 2 * (x div 2 mod 2 ^ n) + x mod 2"
    using zmod_zmult2_eq [of "2 ^ n" x 2] by simp
  ultimately show ?case using Suc by (simp add: algebra_simps)
qed (simp add: to_bits_def)

lemma br_gives_u:
  assumes "n = int k" "0 < k" "k \<le> 32" "0 \<le> x" "x < 2 ^ k"
  shows "br_gives (br_u n) (to_bits k x @ ys) x ys"
  using br_gives_bits [of n "to_bits k x" ys] assms foldl_bits [of 0 k x]
  by (simp add: bits_val_def to_bits_def)

section \<open>Encodings of the standards and their decoders\<close>

text \<open>Emulation prevention (H.264 7.4.1, H.265 7.4.2): a 3 is inserted before a byte of at most 3 that follows
  two zero bytes.\<close>

fun rbsp_escape_from :: "nat \<Rightarrow> buffer \<Rightarrow> buffer" where
  "rbsp_escape_from zeros [] = []"
| "rbsp_escape_from zeros (c # cs) =
     (if zeros \<ge> 2 \<and> c \<le> 3 then 3 # c # rbsp_escape_from (if c = 0 then 1 else 0) cs
      else c # rbsp_escape_from (if c = 0 then zeros + 1 else 0) cs)"

lemma rbsp_unescape_escape_from:
  "length xs \<le> room \<Longrightarrow> rbsp_unescape_from zeros room (rbsp_escape_from zeros xs) = xs"
  by (induction xs arbitrary: zeros room) auto

text \<open>An HEVC time_code payload with one full time stamp and no time offset.\<close>

definition hevc_time_code_bits :: "int \<Rightarrow> clock_timestamp \<Rightarrow> int list" where
  "hevc_time_code_bits counting_type tc =
     to_bits 2 1 @ to_bits 1 1 @ to_bits 1 0 @ to_bits 5 counting_type @ to_bits 1 1 @ to_bits 1 0 @
     to_bits 1 (of_bool (c_drop_frame tc)) @ to_bits 9 (c_frames tc) @ to_bits 6 (c_seconds tc) @
     to_bits 6 (c_minutes tc) @ to_bits 5 (c_hours tc) @ to_bits 5 0"

lemma br_gives_else: "\<not> c \<Longrightarrow> br_gives n bs a cs \<Longrightarrow> br_gives (if c then m else n) bs a cs"
  by simp

lemma br_gives_value: "a = b \<Longrightarrow> br_gives (State_Monad.return a) bs b bs"
  by (simp add: br_gives_return)

lemmas br_gives_rules = br_gives_bind [OF br_gives_u] br_gives_bind [OF br_gives_failed]
  br_gives_bind [OF br_gives_else [OF _ br_gives_return]] br_gives_else br_gives_value

lemma br_gives_read_hms:
  assumes "full" "0 \<le> h" "h < 24" "0 \<le> m" "m < 60" "0 \<le> s" "s < 60"
  shows "br_gives (read_hms full) (to_bits 6 s @ to_bits 6 m @ to_bits 5 h @ ys) (h, m, s) ys"
  unfolding read_hms_def using assms by (simp, intro br_gives_rules) auto

lemma br_gives_time_code_loop:
  assumes "tc_range tc" "0 \<le> ct" "ct < 32"
  shows "br_gives (time_code_loop (Suc n)) (to_bits 1 1 @ to_bits 1 0 @ to_bits 5 ct @ to_bits 1 1 @ to_bits 1 0 @
     to_bits 1 (of_bool (c_drop_frame tc)) @ to_bits 9 (c_frames tc) @ to_bits 6 (c_seconds tc) @
     to_bits 6 (c_minutes tc) @ to_bits 5 (c_hours tc) @ to_bits 5 0 @ ys) (Some tc) ys"
  unfolding time_code_loop.simps Let_def
  by (intro br_gives_rules br_gives_bind [OF br_gives_read_hms])
     (use assms in \<open>auto simp: tc_range_def plausible_def\<close>)

lemma br_gives_time_code:
  assumes "tc_range tc" "0 \<le> ct" "ct < 32"
  shows "br_gives time_code_fields (hevc_time_code_bits ct tc @ ys) (Some tc) ys"
proof -
  have "br_gives (time_code_loop (nat 1)) (to_bits 1 1 @ to_bits 1 0 @ to_bits 5 ct @ to_bits 1 1 @ to_bits 1 0 @
     to_bits 1 (of_bool (c_drop_frame tc)) @ to_bits 9 (c_frames tc) @ to_bits 6 (c_seconds tc) @
     to_bits 6 (c_minutes tc) @ to_bits 5 (c_hours tc) @ to_bits 5 0 @ ys) (Some tc) ys"
    using br_gives_time_code_loop [OF assms, of 0] by simp
  thus ?thesis unfolding time_code_fields_def hevc_time_code_bits_def append_assoc
    by (intro br_gives_bind [OF br_gives_u]) auto
qed

text \<open>An H.264 pic_timing payload (pic_struct 0, one full time stamp) under an SPS without HRD delays.\<close>

definition h264_pic_timing_bits :: "int \<Rightarrow> int \<Rightarrow> nat \<Rightarrow> clock_timestamp \<Rightarrow> int list" where
  "h264_pic_timing_bits ct_type counting_type off_len tc =
     to_bits 4 0 @ to_bits 1 1 @ to_bits 2 ct_type @ to_bits 1 0 @ to_bits 5 counting_type @ to_bits 1 1 @
     to_bits 1 0 @ to_bits 1 (of_bool (c_drop_frame tc)) @ to_bits 8 (c_frames tc) @ to_bits 6 (c_seconds tc) @
     to_bits 6 (c_minutes tc) @ to_bits 5 (c_hours tc) @ to_bits off_len 0"

lemma br_gives_i:
  assumes "n = int k" "0 < k" "k \<le> 31"
  shows "br_gives (br_i n) (to_bits k 0 @ ys) 0 ys"
  unfolding br_i_def by (intro br_gives_rules) (use assms in auto)

lemma br_gives_then: "c \<Longrightarrow> br_gives m bs a cs \<Longrightarrow> br_gives (if c then m else n) bs a cs"
  by simp

lemma br_gives_pic_timing_loop:
  assumes "tc_range tc" "c_frames tc < 256" "0 \<le> ct" "ct < 4" "0 \<le> ct2" "ct2 < 32" "0 < k" "k \<le> 31"
  shows "br_gives (pic_timing_loop (Suc n) (int k)) (to_bits 1 1 @ to_bits 2 ct @ to_bits 1 0 @ to_bits 5 ct2 @
     to_bits 1 1 @ to_bits 1 0 @ to_bits 1 (of_bool (c_drop_frame tc)) @ to_bits 8 (c_frames tc) @
     to_bits 6 (c_seconds tc) @ to_bits 6 (c_minutes tc) @ to_bits 5 (c_hours tc) @ to_bits k 0 @ ys) (Some tc) ys"
  unfolding pic_timing_loop.simps Let_def
  by (intro br_gives_bind [OF br_gives_u] br_gives_bind [OF br_gives_failed]
        br_gives_bind [OF br_gives_then [OF _ br_gives_i]] br_gives_else br_gives_value
        br_gives_bind [OF br_gives_read_hms])
     (use assms in \<open>auto simp: tc_range_def plausible_def\<close>)

lemma br_gives_pic_timing:
  assumes "tc_range tc" "c_frames tc < 256" "0 \<le> ct" "ct < 4" "0 \<le> ct2" "ct2 < 32"
    and "\<not> cpb_dpb_delays_present st" "time_offset_length st = int k" "0 < k" "k \<le> 31"
  shows "br_gives (pic_timing_fields st) (h264_pic_timing_bits ct ct2 k tc @ ys) (Some tc) ys"
proof -
  have "br_gives (pic_timing_loop (num_clock_ts ! nat 0) (time_offset_length st))
     (to_bits 1 1 @ to_bits 2 ct @ to_bits 1 0 @ to_bits 5 ct2 @
     to_bits 1 1 @ to_bits 1 0 @ to_bits 1 (of_bool (c_drop_frame tc)) @ to_bits 8 (c_frames tc) @
     to_bits 6 (c_seconds tc) @ to_bits 6 (c_minutes tc) @ to_bits 5 (c_hours tc) @ to_bits k 0 @ ys) (Some tc) ys"
    using br_gives_pic_timing_loop [OF assms(1-6,9,10), of 0] assms(8) by (simp add: num_clock_ts_def)
  thus ?thesis unfolding pic_timing_fields_def h264_pic_timing_bits_def append_assoc
    by (intro br_gives_bind [OF br_gives_else [OF assms(7) br_gives_return]] br_gives_bind [OF br_gives_u]
        br_gives_bind [OF br_gives_failed] br_gives_else) auto
qed

lemma br_gives_bit: "br_gives (br_u 1) (b # ys) b ys"
  using br_gives_bits [of 1 "[b]" ys] by (simp add: bits_val_def)

lemma br_gives_zeros:
  "z + k \<le> 31 \<Longrightarrow> br_gives (br_zeros z) (replicate k 0 @ 1 # ys) (z + k) ys"
proof (induction k arbitrary: z)
  case 0
  have "br_gives (br_zeros z) (1 # ys) z ys"
    by (subst br_zeros.simps, rule br_gives_bind [OF br_gives_failed], simp only: if_False,
        rule br_gives_bind [OF br_gives_bit]) (simp add: br_gives_return)
  thus ?case by simp
next
  case (Suc k)
  have "br_gives (br_zeros (z + 1)) (replicate k 0 @ 1 # ys) (z + Suc k) ys" using Suc by (metis add.assoc plus_1_eq_Suc)
  thus ?case using Suc.prems by (subst br_zeros.simps, simp)
      (intro br_gives_bind [OF br_gives_failed], simp, intro br_gives_bind [OF br_gives_bit], simp)
qed

text \<open>Exp-Golomb (H.264 9.1): z zeros, a one, and z bits of the offset in its group.\<close>

definition ue_bits :: "nat \<Rightarrow> int \<Rightarrow> int list" where
  "ue_bits z x = replicate z 0 @ [1] @ to_bits z x"

lemma br_gives_ue:
  assumes "z \<le> 31" "0 \<le> x" "x < 2 ^ z"
  shows "br_gives br_ue (ue_bits z x @ ys) (2 ^ z - 1 + x) ys"
proof (cases "z = 0")
  case True
  have "br_gives (br_zeros 0) (replicate 0 0 @ 1 # ys) (0 + 0) ys" by (rule br_gives_zeros) simp
  hence "br_gives br_ue (1 # ys) 0 ys" unfolding br_ue_def
    by (simp, intro br_gives_bind) (auto intro: br_gives_failed br_gives_return)
  moreover have "x = 0" using True assms by simp
  ultimately show ?thesis using True by (simp add: ue_bits_def to_bits_def)
next
  case False
  have "(2 :: int) ^ z \<le> 2 ^ 31" using assms by (intro power_increasing) auto
  hence m: "(2 ^ z - 1 + x) mod 2 ^ 32 = 2 ^ z - 1 + x" using assms by (intro mod_pos_pos_trivial) auto
  have "br_gives (br_zeros 0) (replicate z 0 @ 1 # to_bits z x @ ys) z (to_bits z x @ ys)"
    using br_gives_zeros [of 0 z "to_bits z x @ ys"] assms by simp
  moreover have "br_gives (State_Monad.bind (br_u (int z)) (\<lambda>v. State_Monad.return ((2 ^ z - 1 + v) mod 2 ^ 32)))
      (to_bits z x @ ys) (2 ^ z - 1 + x) ys"
    by (rule br_gives_bind [OF br_gives_u]) (use assms False m in \<open>auto intro!: br_gives_value\<close>)
  ultimately have "br_gives br_ue (replicate z 0 @ 1 # to_bits z x @ ys) (2 ^ z - 1 + x) ys" unfolding br_ue_def
    by (intro br_gives_bind [of "br_zeros 0"] br_gives_bind [OF br_gives_failed] br_gives_else) (use False in auto)
  thus ?thesis by (simp add: ue_bits_def)
qed

lemma br_rem_start: "br_rem (br_start b (int (length b))) (bits_of b)"
  by (simp add: br_rem_def br_start_def br_ok_def)

lemma and_0E: "0 \<le> k \<Longrightarrow> k < 8 \<Longrightarrow> (0x21 + 2 * k) AND 0x0E = 2 * k" for k :: int
proof -
  assume "0 \<le> k" "k < 8"
  hence "k \<in> {0, 1, 2, 3, 4, 5, 6, 7}" by auto
  thus ?thesis by auto
qed

lemma and_FE: "x AND 0xFE = 2 * (x div 2 mod 128)" for x :: int
proof -
  have "x AND 0xFE = 2 * (x div 2 AND 0x7F)" by (subst and_int_rec) simp
  thus ?thesis by (simp add: int_and_mask)
qed

lemma read_pts_field_aux:
  fixes k b1 y b3 z :: int
  assumes "0 \<le> k" "k < 8" "0 \<le> b1" "b1 < 256" "0 \<le> y" "y < 128" "0 \<le> b3" "b3 < 256" "0 \<le> z" "z < 128"
  shows "(((push_bit 29 (2 * k) OR push_bit 22 b1) OR push_bit 14 (2 * y)) OR push_bit 7 b3) OR z =
     k * 2 ^ 30 + b1 * 2 ^ 22 + y * 2 ^ 15 + b3 * 2 ^ 7 + z"
proof -
  have "push_bit 29 (2 * k) OR push_bit 22 b1 = push_bit 30 k OR (b1 * 2 ^ 22)"
    by (simp add: push_bit_eq_mult mult.commute)
  also have "\<dots> = k * 2 ^ 30 + b1 * 2 ^ 22" using assms by (intro push_bit_or_add) auto
  also have "\<dots> = push_bit 22 (k * 2 ^ 8 + b1)" by (simp add: push_bit_eq_mult algebra_simps)
  finally have 1: "push_bit 29 (2 * k) OR push_bit 22 b1 = push_bit 22 (k * 2 ^ 8 + b1)" .
  have "push_bit 22 (k * 2 ^ 8 + b1) OR push_bit 14 (2 * y) = (k * 2 ^ 8 + b1) * 2 ^ 22 + y * 2 ^ 15"
    using push_bit_or_add [of "y * 2 ^ 15" 22 "k * 2 ^ 8 + b1"] assms by (simp add: push_bit_eq_mult mult.commute)
  also have "\<dots> = push_bit 15 ((k * 2 ^ 8 + b1) * 2 ^ 7 + y)" by (simp add: push_bit_eq_mult algebra_simps)
  finally have 2: "push_bit 22 (k * 2 ^ 8 + b1) OR push_bit 14 (2 * y) = push_bit 15 ((k * 2 ^ 8 + b1) * 2 ^ 7 + y)" .
  let ?q = "(k * 2 ^ 8 + b1) * 2 ^ 7 + y"
  have "push_bit 15 ?q OR push_bit 7 b3 = ?q * 2 ^ 15 + b3 * 2 ^ 7"
    using push_bit_or_add [of "b3 * 2 ^ 7" 15 ?q] assms by (simp add: push_bit_eq_mult mult.commute)
  also have "\<dots> = push_bit 7 (?q * 2 ^ 8 + b3)" by (simp add: push_bit_eq_mult algebra_simps)
  finally have 3: "push_bit 15 ?q OR push_bit 7 b3 = push_bit 7 (?q * 2 ^ 8 + b3)" .
  have "push_bit 7 (?q * 2 ^ 8 + b3) OR z = (?q * 2 ^ 8 + b3) * 2 ^ 7 + z"
    using assms by (intro push_bit_or_add) auto
  thus ?thesis unfolding 1 2 3 by simp
qed

lemma pts_digits:
  fixes p :: int
  assumes "0 \<le> p" "p < 2 ^ 33"
  shows "p div 2 ^ 30 mod 8 * 2 ^ 30 + p div 2 ^ 22 mod 256 * 2 ^ 22 + p div 2 ^ 15 mod 128 * 2 ^ 15 +
     p div 2 ^ 7 mod 256 * 2 ^ 7 + p mod 128 = p"
proof -
  define a b c where "a = p div 128" and "b = a div 256" and "c = b div 128"
  have d: "p div 1073741824 = c div 256" "p div 4194304 = c" "p div 32768 = b"
    using zdiv_zmult2_eq [of 256 p 4194304] zdiv_zmult2_eq [of 128 p 32768] zdiv_zmult2_eq [of 256 p 128]
    by (simp_all add: a_def b_def c_def)
  have m: "p div 1073741824 mod 8 = c div 256" using assms d(1) by simp
  have "d * 1073741824 + r3 * 4194304 + r2 * 32768 + r1 * 128 + r0 = q"
    if "q = 128 * x + r0" "x = 256 * y + r1" "y = 128 * z + r2" "z = 256 * d + r3" for d r3 r2 r1 r0 x y z q :: int
    using that by simp
  moreover have "p = 128 * a + p mod 128" unfolding a_def by simp
  moreover have "a = 256 * b + a mod 256" unfolding b_def by simp
  moreover have "b = 128 * c + b mod 128" unfolding c_def by simp
  moreover have "c = 256 * (c div 256) + c mod 256" by simp
  ultimately have eq: "c div 256 * 1073741824 + c mod 256 * 4194304 + b mod 128 * 32768 + a mod 256 * 128 + p mod 128 = p"
    by blast
  have pw: "(2 :: int) ^ 30 = 1073741824" "(2 :: int) ^ 22 = 4194304" "(2 :: int) ^ 15 = 32768" "(2 :: int) ^ 7 = 128"
    by simp_all
  show ?thesis unfolding pw m d(2,3) a_def [symmetric] by (rule eq)
qed

section \<open>Properties\<close>

text \<open>C32. For every chunk and every state in range, the timecode scan ends without reading outside of the
  chunk, adds exactly the number it returns (at most two per packet) to the update counter, and keeps
  the state in range: at most 8192 buffered bytes, and a decoded clock below 24:60:60 with fewer than
  512 frames.\<close>

theorem ts_scan_timecode_total:
  assumes "m \<le> length data"
  shows "\<exists>n st'. sls_ts_scan_timecode (Some data) (int m) (Some st) = Some (n, Some st') \<and>
     0 \<le> n \<and> n \<le> 2 * int (m div 188) \<and> updates st' = updates st + n \<and> (tc_ok st \<longrightarrow> tc_ok st')"
  using scan_loop_step [OF assms, of 0 st 0] by (auto simp: sls_ts_scan_timecode_def tc_step_def)

theorem ts_scan_timecode_total_witness:
  "\<exists>n st'. sls_ts_scan_timecode (Some one_packet) 188
     (sls_init_ts_timecode_state (Some undefined)) = Some (n, Some st') \<and> n \<le> 2 \<and> tc_ok st'"
proof -
  have "tc_ok (the (sls_init_ts_timecode_state (Some undefined)))"
    by (simp add: tc_ok_def sls_init_ts_timecode_state_def)
  thus ?thesis
    using ts_scan_timecode_total [of 188 one_packet "the (sls_init_ts_timecode_state (Some undefined))"]
    by (auto simp: one_packet_def sls_init_ts_timecode_state_def)
qed

text \<open>The parsers of parameter sets and SEI payloads never fetch a bit outside of their buffer, whatever the
  widths the stream declares: SPS, H.264 pic_timing under any SPS context, HEVC time_code.\<close>

theorem bit_parsers_stay_inside:
  "\<not> br_oob (snd (run_state sps_fields (br_start b (int (length b))))) \<and>
   \<not> br_oob (snd (run_state (pic_timing_fields st) (br_start b (int (length b))))) \<and>
   \<not> br_oob (snd (run_state time_code_fields (br_start b (int (length b)))))"
  using br_spec_sps br_spec_pic_timing [of st] br_spec_time_code br_start_ok [of b]
  unfolding br_spec_def br_ok_def by blast

text \<open>rbsp_unescape inverts the emulation prevention of the standards whenever the payload fits.\<close>

theorem rbsp_unescape_escape:
  assumes "length xs \<le> cap"
  shows "rbsp_unescape (rbsp_escape_from 0 xs) cap = xs"
  using assms by (simp add: rbsp_unescape_def rbsp_unescape_escape_from)

theorem rbsp_unescape_escape_witness: "rbsp_unescape [0, 0, 3, 1, 0, 0, 3, 3] 8192 = [0, 0, 1, 0, 0, 3]"
  using rbsp_unescape_escape [of "[0, 0, 1, 0, 0, 3]" 8192] by simp



text \<open>An H.264 pic_timing payload under an SPS that announces pic_struct and no HRD delays decodes to the
  clock it carries; before such an SPS was seen nothing is decoded.\<close>

theorem h264_pic_timing_roundtrip:
  assumes "tc_range tc" "c_frames tc < 256" "0 \<le> ct" "ct < 4" "0 \<le> ct2" "ct2 < 32"
    and "\<not> cpb_dpb_delays_present st" "time_offset_length st = int k" "0 < k" "k \<le> 31"
    and "bits_of payload = h264_pic_timing_bits ct ct2 k tc @ pad"
  shows "parse_pic_timing_h264 payload st = (if sps_valid st \<and> pic_struct_present st then Some tc else None)"
  using br_gives_pic_timing [OF assms(1-10), of pad] br_rem_start [of payload] assms(11)
  unfolding br_gives_def parse_pic_timing_h264_def by force

definition no_hrd_state :: ts_timecode_state where
  "no_hrd_state = (the (sls_init_ts_timecode_state (Some undefined)))\<lparr> sps_valid := True, pic_struct_present := True \<rparr>"

theorem h264_pic_timing_roundtrip_witness:
  "parse_pic_timing_h264 [0x08, 0x04, 0x04, 0x0C, 0x20, 0x80, 0x00, 0x00, 0x00] no_hrd_state =
     Some \<lparr> c_hours = 1, c_minutes = 2, c_seconds = 3, c_frames = 4, c_drop_frame = False \<rparr>"
proof -
  have "bits_of [0x08, 0x04, 0x04, 0x0C, 0x20, 0x80, 0x00, 0x00, 0x00] =
      h264_pic_timing_bits 0 0 24 \<lparr> c_hours = 1, c_minutes = 2, c_seconds = 3, c_frames = 4, c_drop_frame = False \<rparr> @
      replicate 7 0" by code_simp
  thus ?thesis
    using h264_pic_timing_roundtrip [of "\<lparr> c_hours = 1, c_minutes = 2, c_seconds = 3, c_frames = 4, c_drop_frame = False \<rparr>"
        0 0 no_hrd_state 24 "[0x08, 0x04, 0x04, 0x0C, 0x20, 0x80, 0x00, 0x00, 0x00]" "replicate 7 0"]
    by (simp add: tc_range_def no_hrd_state_def sls_init_ts_timecode_state_def)
qed

text \<open>br_ue reads every Exp-Golomb code of at most 31 leading zeros.\<close>

theorem br_ue_roundtrip:
  assumes "z \<le> 31" "0 \<le> x" "x < 2 ^ z" "bits_of b = ue_bits z x @ pad"
  shows "fst (run_state br_ue (br_start b (int (length b)))) = 2 ^ z - 1 + x"
  using br_gives_ue [OF assms(1-3), of pad] br_rem_start [of b] assms(4) unfolding br_gives_def by force

theorem br_ue_roundtrip_witness: "fst (run_state br_ue (br_start [0x28] 1)) = 4"
proof -
  have "bits_of [0x28] = ue_bits 2 1 @ [0, 0, 0]" by code_simp
  thus ?thesis using br_ue_roundtrip [of 2 1 "[0x28]" "[0, 0, 0]"] by simp
qed

text \<open>The scanner's own PTS reader recovers every 33 bit time stamp.\<close>

theorem read_pts_roundtrip:
  assumes "0 \<le> p" "p < 2 ^ 33"
  shows "read_pts (pes_pts_field p) = Some p"
proof -
  let ?k = "p div 2 ^ 30 mod 8" and ?b1 = "p div 2 ^ 22 mod 256" and ?y = "p div 2 ^ 15 mod 128"
    and ?b3 = "p div 2 ^ 7 mod 256" and ?z = "p mod 128"
  have r: "byte_at (pes_pts_field p) 0 = Some (0x21 + 2 * ?k)" "byte_at (pes_pts_field p) 1 = Some ?b1"
      "byte_at (pes_pts_field p) 2 = Some (2 * ?y + 1)" "byte_at (pes_pts_field p) 3 = Some ?b3"
      "byte_at (pes_pts_field p) 4 = Some (2 * ?z + 1)"
    by (simp_all add: pes_pts_field_def byte_at_def uint_of_int_byte del: of_int_add of_int_mult)
  have a: "(0x21 + 2 * ?k) AND 0x0E = 2 * ?k" by (rule and_0E) auto
  have f: "(2 * ?y + 1) AND 0xFE = 2 * ?y" "drop_bit 1 ((2 * ?z + 1) AND 0xFE) = ?z"
    unfolding and_FE by (simp_all add: drop_bit_int_def)
  have "(((push_bit 29 (2 * ?k) OR push_bit 22 ?b1) OR push_bit 14 (2 * ?y)) OR push_bit 7 ?b3) OR ?z = p"
    by (rule trans [OF read_pts_field_aux pts_digits [OF assms]]) simp_all
  thus ?thesis unfolding read_pts_def r bind.bind_lunit a f by (rule arg_cong)
qed

theorem read_pts_roundtrip_witness: "read_pts (pes_pts_field 8589934591) = Some 8589934591"
  using read_pts_roundtrip [of 8589934591] by simp

lemma dec_digits_small: "n < 1000 \<Longrightarrow> length (dec_digits n) \<le> 3"
  using dec_digits.simps [of n] dec_digits.simps [of "n div 10"] dec_digits.simps [of "n div 10 div 10"]
  by (auto split: if_splits)

lemma dec_digits_two: "n < 100 \<Longrightarrow> length (dec_digits n) \<le> 2"
  using dec_digits.simps [of n] dec_digits.simps [of "n div 10"] by (auto split: if_splits)

text \<open>The printed timecode of a state in range fits the documented twelve characters, so a buffer of
  thirteen bytes is never truncated.\<close>

theorem sls_format_timecode_fits:
  assumes "tc_ok st" "13 \<le> n"
  shows "\<exists>s. sls_format_timecode (Some st) n = Some s \<and> length s \<le> 12 \<and>
     (tc_valid st \<longrightarrow> s = format_02d (hours st) @ '':'' @ format_02d (minutes st) @ '':'' @ format_02d (seconds st) @
        (if drop_frame st then '';'' else '':'') @ format_02d (frames st))"
proof (cases "tc_valid st")
  case True
  hence "nat (hours st) < 100" "nat (minutes st) < 100" "nat (seconds st) < 100" "nat (frames st) < 1000"
    using assms(1) by (auto simp: tc_ok_def)
  hence "length (format_02d (hours st)) \<le> 2" "length (format_02d (minutes st)) \<le> 2"
      "length (format_02d (seconds st)) \<le> 2" "length (format_02d (frames st)) \<le> 3"
    using dec_digits_two dec_digits_small by (auto simp: format_02d_def Let_def)
  thus ?thesis using True assms(2) by (simp add: sls_format_timecode_def)
qed (use assms in \<open>simp add: sls_format_timecode_def\<close>)

theorem sls_format_timecode_fits_witness:
  "\<exists>s. sls_format_timecode (Some (no_hrd_state\<lparr> tc_valid := True, hours := 1, frames := 29 \<rparr>)) 16 = Some s \<and> length s \<le> 12"
  using sls_format_timecode_fits [of "no_hrd_state\<lparr> tc_valid := True, hours := 1, frames := 29 \<rparr>" 16]
  by (auto simp: tc_ok_def no_hrd_state_def sls_init_ts_timecode_state_def)

end
