(* ===== verification/Map_Data.thy ===== *)
theory Map_Data
  imports Recycle_Array Timecode_Correct
begin

text \<open>The table of live streams, \<^verbatim>\<open>src/core/SLSMapData.cpp\<close>: one ring, one continuity tracker and, for
  streams that opted in, one timecode scanner per stream key, under a global budget of streams and
  ring bytes. A \<^verbatim>\<open>std::map\<close> is an association list with distinct keys; the maps never hold null
  pointers (only \<open>add\<close> and \<open>set_timecode_scan\<close> store, and what they store is fresh). The process-wide
  generation counter is the field \<open>next_gen\<close>.\<close>

section \<open>State and operations\<close>

record CSLSMapData =
  m_map_array :: "(string \<times> CSLSRecycleArray) list"
  m_map_cc_state :: "(string \<times> ts_cc_state) list"
  m_map_tc_state :: "(string \<times> ts_timecode_state) list"
  m_stream_count :: int
  m_total_ring_bytes :: int
  m_max_streams :: int
  m_max_total_ring_bytes :: int
  next_gen :: nat

definition MAX_RING_BYTES :: int where
  "MAX_RING_BYTES = 32 * 1024 * 1024"

definition map_data_init :: CSLSMapData where
  "map_data_init = \<lparr> m_map_array = [], m_map_cc_state = [], m_map_tc_state = [], m_stream_count = 0,
     m_total_ring_bytes = 0, m_max_streams = 0, m_max_total_ring_bytes = 0, next_gen = s_next_generation_init \<rparr>"

definition set_caps :: "int \<Rightarrow> int \<Rightarrow> CSLSMapData \<Rightarrow> CSLSMapData" where
  "set_caps max_streams max_total M = M\<lparr> m_max_streams := max_streams, m_max_total_ring_bytes := max_total \<rparr>"

definition intended_ring_size :: "int \<Rightarrow> int \<Rightarrow> int \<Rightarrow> int" where
  "intended_ring_size dflt max_bitrate_kbps latency_ms =
     (if max_bitrate_kbps > 0 \<and> latency_ms > 0 then
        let bytes_per_sec = max_bitrate_kbps * 1000 div 8;
            w = latency_ms div 1000;
            window_secs = (if w < 1 then 1 else w);
            t = bytes_per_sec * window_secs;
            target_bytes = (if t > MAX_RING_BYTES then MAX_RING_BYTES else t)
        in if target_bytes > dflt then target_bytes else dflt
      else dflt)"

definition fresh_cc_state :: ts_cc_state where
  "fresh_cc_state = the (sls_init_ts_cc_state (Some
     \<lparr> n_pids = 0, pid = replicate TS_CC_MAX_PIDS 0, last_cc = replicate TS_CC_MAX_PIDS 0 \<rparr>))"

definition map_add :: "time_ms \<Rightarrow> string \<Rightarrow> int \<Rightarrow> int \<Rightarrow> CSLSMapData \<Rightarrow> (int \<times> CSLSMapData) option" where
  "map_add now key max_bitrate_kbps latency_ms M =
     (case map_of (m_map_array M) key of
        Some r \<Rightarrow> Some (SLS_OK, M)
      | None \<Rightarrow>
        if m_max_streams M > 0 \<and> m_stream_count M \<ge> m_max_streams M then Some (SLS_ERROR, M)
        else case ring_new (next_gen M) now of (r0, g0) \<Rightarrow>
          let intended = intended_ring_size (m_nDataSize r0) max_bitrate_kbps latency_ms in
          if m_max_total_ring_bytes M > 0 \<and> m_total_ring_bytes M + intended > m_max_total_ring_bytes M
          then Some (SLS_ERROR, M\<lparr> next_gen := g0 \<rparr>)
          else do {
            (r, g) \<leftarrow> (if intended > m_nDataSize r0 then setSize intended r0 g0 else Some (r0, g0));
            Some (SLS_OK, M\<lparr>
              m_map_array := AList.update key r (m_map_array M),
              m_stream_count := m_stream_count M + 1,
              m_total_ring_bytes := m_total_ring_bytes M + m_nDataSize r,
              m_map_cc_state := (if map_of (m_map_cc_state M) key = None
                                 then AList.update key fresh_cc_state (m_map_cc_state M)
                                 else m_map_cc_state M),
              next_gen := g \<rparr>)
          })"

definition map_remove :: "string \<Rightarrow> CSLSMapData \<Rightarrow> int \<times> CSLSMapData" where
  "map_remove key M =
     (let M1 = M\<lparr> m_map_cc_state := AList.delete key (m_map_cc_state M),
                  m_map_tc_state := AList.delete key (m_map_tc_state M) \<rparr>
      in case map_of (m_map_array M) key of
           None \<Rightarrow> (SLS_ERROR, M1)
         | Some r \<Rightarrow> (SLS_OK, M1\<lparr> m_stream_count := m_stream_count M - 1,
                                  m_total_ring_bytes := m_total_ring_bytes M - m_nDataSize r,
                                  m_map_array := AList.delete key (m_map_array M) \<rparr>))"

definition map_clear :: "CSLSMapData \<Rightarrow> CSLSMapData" where
  "map_clear M =
     (case fold (\<lambda>(k, r) (c, b). (c - 1, b - m_nDataSize r)) (m_map_array M) (m_stream_count M, m_total_ring_bytes M) of
        (c, b) \<Rightarrow> M\<lparr> m_stream_count := c, m_total_ring_bytes := b, m_map_array := [], m_map_cc_state := [],
                     m_map_tc_state := [] \<rparr>)"

definition map_is_exist :: "string \<Rightarrow> CSLSMapData \<Rightarrow> bool" where
  "map_is_exist key M = (map_of (m_map_array M) key \<noteq> None)"

text \<open>The second component is what is written to \<^verbatim>\<open>*last_read_time\<close>.\<close>

definition map_put ::
  "string \<Rightarrow> buffer option \<Rightarrow> int \<Rightarrow> CSLSMapData \<Rightarrow> (int \<times> time_ms option \<times> CSLSMapData) option" where
  "map_put key data len M =
     (case map_of (m_map_array M) key of
        None \<Rightarrow> Some (SLS_ERROR, None, M)
      | Some r \<Rightarrow> do {
          (r1, cc) \<leftarrow> (case map_of (m_map_cc_state M) key of
              None \<Rightarrow> Some (r, m_map_cc_state M)
            | Some st \<Rightarrow> do {
                (breaks, st') \<leftarrow> sls_ts_check_continuity data len (Some st);
                Some (if breaks > 0 then note_ingest_discontinuity r else r,
                      case st' of None \<Rightarrow> m_map_cc_state M | Some s \<Rightarrow> AList.update key s (m_map_cc_state M))
              });
          tc \<leftarrow> (case map_of (m_map_tc_state M) key of
              None \<Rightarrow> Some (m_map_tc_state M)
            | Some st \<Rightarrow> do {
                (n, st') \<leftarrow> sls_ts_scan_timecode data len (Some st);
                Some (case st' of None \<Rightarrow> m_map_tc_state M | Some s \<Rightarrow> AList.update key s (m_map_tc_state M))
              });
          (ret, r2) \<leftarrow> ring_put data len r1;
          Some (ret, Some (m_last_read_time r),
                M\<lparr> m_map_array := AList.update key r2 (m_map_array M), m_map_cc_state := cc, m_map_tc_state := tc \<rparr>)
        })"

definition map_get ::
  "time_ms \<Rightarrow> string \<Rightarrow> buffer \<Rightarrow> int \<Rightarrow> SLSRecycleArrayID option \<Rightarrow> int \<Rightarrow> CSLSMapData \<Rightarrow>
   (int \<times> buffer \<times> SLSRecycleArrayID option \<times> CSLSMapData) option" where
  "map_get now key dst len read_id aligned M =
     (case map_of (m_map_array M) key of
        None \<Rightarrow> Some (SLS_ERROR, dst, read_id, M)
      | Some r \<Rightarrow> do {
          (ret, dst', rid', r') \<leftarrow> ring_get now dst len read_id aligned r;
          Some (ret, dst', rid', M\<lparr> m_map_array := AList.update key r' (m_map_array M) \<rparr>)
        })"

text \<open>The gauges forward to the ring of the key; an unknown or null key reads as -1.\<close>

definition map_gauge :: "(CSLSRecycleArray \<Rightarrow> int \<times> CSLSRecycleArray) \<Rightarrow> string option \<Rightarrow> CSLSMapData \<Rightarrow> int \<times> CSLSMapData" where
  "map_gauge f key M =
     (case key of None \<Rightarrow> (-1, M)
      | Some k \<Rightarrow> (case map_of (m_map_array M) k of None \<Rightarrow> (-1, M)
         | Some r \<Rightarrow> (case f r of (v, r') \<Rightarrow> (v, M\<lparr> m_map_array := AList.update k r' (m_map_array M) \<rparr>))))"

definition map_report :: "(CSLSRecycleArray \<Rightarrow> CSLSRecycleArray) \<Rightarrow> string option \<Rightarrow> CSLSMapData \<Rightarrow> CSLSMapData" where
  "map_report f key M = snd (map_gauge (\<lambda>r. (0, f r)) key M)"

definition map_get_overrun_count :: "string option \<Rightarrow> CSLSMapData \<Rightarrow> int" where
  "map_get_overrun_count key M = fst (map_gauge (\<lambda>r. (m_overrun_count r, r)) key M)"

definition map_get_max_reader_backlog :: "string option \<Rightarrow> bool \<Rightarrow> CSLSMapData \<Rightarrow> int \<times> CSLSMapData" where
  "map_get_max_reader_backlog key clear M = map_gauge (get_max_reader_backlog clear) key M"

definition map_report_viewer_backpressure :: "string option \<Rightarrow> CSLSMapData \<Rightarrow> CSLSMapData" where
  "map_report_viewer_backpressure key M = map_report report_viewer_backpressure key M"

definition map_get_viewer_backpressure_events :: "string option \<Rightarrow> bool \<Rightarrow> CSLSMapData \<Rightarrow> int \<times> CSLSMapData" where
  "map_get_viewer_backpressure_events key clear M = map_gauge (get_viewer_backpressure_events clear) key M"

definition map_report_viewer_snd_drops :: "string option \<Rightarrow> int \<Rightarrow> CSLSMapData \<Rightarrow> CSLSMapData" where
  "map_report_viewer_snd_drops key c M = (if c \<le> 0 then M else map_report (report_viewer_snd_drops c) key M)"

definition map_get_viewer_snd_drops :: "string option \<Rightarrow> bool \<Rightarrow> CSLSMapData \<Rightarrow> int \<times> CSLSMapData" where
  "map_get_viewer_snd_drops key clear M = map_gauge (get_viewer_snd_drops clear) key M"

definition map_get_ingest_discontinuities :: "string option \<Rightarrow> bool \<Rightarrow> CSLSMapData \<Rightarrow> int \<times> CSLSMapData" where
  "map_get_ingest_discontinuities key clear M = map_gauge (get_ingest_discontinuities clear) key M"

definition fresh_tc_state :: ts_timecode_state where
  "fresh_tc_state = \<lparr> tc_pmt_pid = INVALID_PID, tc_video_pid = INVALID_PID, tc_codec = SLS_TC_CODEC_NONE,
     sps_valid = False, cpb_dpb_delays_present = False, cpb_removal_delay_length = 0,
     dpb_output_delay_length = 0, pic_struct_present = False, time_offset_length = 24,
     au = [], au_open = False, au_pts = INVALID_DTS_PTS,
     tc_valid = False, hours = 0, minutes = 0, seconds = 0, frames = 0, drop_frame = False,
     tc_pts = INVALID_DTS_PTS, updates = 0 \<rparr>"

definition set_timecode_scan :: "string option \<Rightarrow> bool \<Rightarrow> CSLSMapData \<Rightarrow> CSLSMapData" where
  "set_timecode_scan key enabled M =
     (case key of None \<Rightarrow> M
      | Some k \<Rightarrow>
        if \<not> enabled then M\<lparr> m_map_tc_state := AList.delete k (m_map_tc_state M) \<rparr>
        else if map_of (m_map_tc_state M) k \<noteq> None then M
        else M\<lparr> m_map_tc_state := AList.update k fresh_tc_state (m_map_tc_state M) \<rparr>)"

record TimecodeStats =
  ts_enabled :: bool
  ts_valid :: bool
  ts_codec :: sls_tc_codec
  ts_video_pid :: int
  ts_timecode :: string
  ts_drop_frame :: bool
  ts_pts :: int
  ts_updates :: int

definition no_timecode_stats :: TimecodeStats where
  "no_timecode_stats = \<lparr> ts_enabled = False, ts_valid = False, ts_codec = SLS_TC_CODEC_NONE, ts_video_pid = INVALID_PID,
     ts_timecode = [], ts_drop_frame = False, ts_pts = INVALID_DTS_PTS, ts_updates = 0 \<rparr>"

definition get_timecode_stats :: "string option \<Rightarrow> bool \<Rightarrow> CSLSMapData \<Rightarrow> bool \<times> TimecodeStats \<times> CSLSMapData" where
  "get_timecode_stats key clear M =
     (case key of None \<Rightarrow> (False, no_timecode_stats, M)
      | Some k \<Rightarrow> (case map_of (m_map_tc_state M) k of None \<Rightarrow> (False, no_timecode_stats, M)
         | Some tc \<Rightarrow>
            (True,
             \<lparr> ts_enabled = True, ts_valid = tc_valid tc, ts_codec = tc_codec tc, ts_video_pid = tc_video_pid tc,
               ts_timecode = (case sls_format_timecode (Some tc) 16 of None \<Rightarrow> [] | Some s \<Rightarrow> s),
               ts_drop_frame = drop_frame tc, ts_pts = tc_pts tc, ts_updates = updates tc \<rparr>,
             if clear then M\<lparr> m_map_tc_state := AList.update k (tc\<lparr> updates := 0 \<rparr>) (m_map_tc_state M) \<rparr> else M)))"

section \<open>Budget and per-stream invariants\<close>

definition ring_live :: "nat \<Rightarrow> CSLSRecycleArray \<Rightarrow> bool" where
  "ring_live g r \<longleftrightarrow> (\<exists>h. ring_rep r h) \<and> m_nDataSize r \<le> MAX_RING_BYTES \<and> m_nGeneration r < g"

definition map_ok :: "CSLSMapData \<Rightarrow> bool" where
  "map_ok M \<longleftrightarrow>
     distinct (map fst (m_map_array M)) \<and> distinct (map fst (m_map_cc_state M)) \<and>
     distinct (map fst (m_map_tc_state M)) \<and>
     m_stream_count M = int (length (m_map_array M)) \<and>
     m_total_ring_bytes M = sum_list (map (\<lambda>x. m_nDataSize (snd x)) (m_map_array M)) \<and>
     (\<forall>(k, r) \<in> set (m_map_array M). ring_live (next_gen M) r) \<and>
     (\<forall>(k, s) \<in> set (m_map_cc_state M). cc_ok s) \<and> (\<forall>(k, s) \<in> set (m_map_tc_state M). tc_ok s) \<and>
     set (map fst (m_map_cc_state M)) = set (map fst (m_map_array M))"

definition map_within_caps :: "CSLSMapData \<Rightarrow> bool" where
  "map_within_caps M \<longleftrightarrow>
     (m_max_streams M > 0 \<longrightarrow> m_stream_count M \<le> m_max_streams M) \<and>
     (m_max_total_ring_bytes M > 0 \<longrightarrow> m_total_ring_bytes M \<le> m_max_total_ring_bytes M)"

lemma intended_ring_size_bounds:
  "DEFAULT_MAX_DATA_SIZE \<le> intended_ring_size DEFAULT_MAX_DATA_SIZE b l \<and>
   intended_ring_size DEFAULT_MAX_DATA_SIZE b l \<le> MAX_RING_BYTES"
  by (simp add: intended_ring_size_def DEFAULT_MAX_DATA_SIZE_def MAX_RING_BYTES_def Let_def)

lemma ring_new_rep:
  assumes "ring_new g now = (r, g')"
  shows "ring_rep r []" "m_nDataSize r = DEFAULT_MAX_DATA_SIZE" "m_nGeneration r = g" "g' = Suc g"
proof -
  have "0 < DEFAULT_MAX_DATA_SIZE" by (simp add: DEFAULT_MAX_DATA_SIZE_def)
  thus "ring_rep r []" "m_nDataSize r = DEFAULT_MAX_DATA_SIZE" "m_nGeneration r = g" "g' = Suc g"
    using assms by (auto simp: ring_new_def ring_rep_def circ_def)
qed

lemma ring_live_mono: "ring_live g r \<Longrightarrow> g \<le> g' \<Longrightarrow> ring_live g' r"
  by (auto simp: ring_live_def)

lemma fresh_cc_state_ok: "cc_ok fresh_cc_state"
  by (simp add: fresh_cc_state_def sls_init_ts_cc_state_def cc_ok_def TS_CC_MAX_PIDS_def)

text \<open>Room in the budget for one more ring of \<open>n\<close> bytes; a cap of zero is no cap.\<close>

definition map_fits :: "int \<Rightarrow> CSLSMapData \<Rightarrow> bool" where
  "map_fits n M \<longleftrightarrow> (m_max_streams M > 0 \<longrightarrow> m_stream_count M < m_max_streams M) \<and>
     (m_max_total_ring_bytes M > 0 \<longrightarrow> m_total_ring_bytes M + n \<le> m_max_total_ring_bytes M)"

text \<open>What \<open>add\<close> does: nothing for a known key, refusal over a cap, or one fresh empty ring.\<close>

lemma map_add_cases:
  assumes "map_add now key b l M = Some (ret, M')"
  obtains (known) r where "map_of (m_map_array M) key = Some r" "ret = SLS_OK" "M' = M"
  | (refused) g where "map_of (m_map_array M) key = None" "ret = SLS_ERROR" "M' = M\<lparr> next_gen := g \<rparr>" "next_gen M \<le> g"
      "\<not> map_fits (intended_ring_size DEFAULT_MAX_DATA_SIZE b l) M"
  | (fresh) r g where "map_of (m_map_array M) key = None" "ret = SLS_OK" "ring_rep r []"
      "m_nDataSize r = intended_ring_size DEFAULT_MAX_DATA_SIZE b l" "next_gen M \<le> m_nGeneration r" "m_nGeneration r < g"
      "map_fits (m_nDataSize r) M"
      "M' = M\<lparr> m_map_array := m_map_array M @ [(key, r)], m_stream_count := m_stream_count M + 1,
               m_total_ring_bytes := m_total_ring_bytes M + m_nDataSize r,
               m_map_cc_state := (if map_of (m_map_cc_state M) key = None
                                  then m_map_cc_state M @ [(key, fresh_cc_state)] else m_map_cc_state M),
               next_gen := g \<rparr>"
proof (cases "map_of (m_map_array M) key")
  case (Some r)
  hence "ret = SLS_OK" "M' = M" using assms by (simp_all add: map_add_def)
  thus thesis using known Some by blast
next
  case None
  obtain r0 g0 where n: "ring_new (next_gen M) now = (r0, g0)" by fastforce
  note r0 = ring_new_rep [OF n]
  let ?i = "intended_ring_size DEFAULT_MAX_DATA_SIZE b l"
  consider "m_max_streams M > 0 \<and> m_stream_count M \<ge> m_max_streams M"
    | "\<not> (m_max_streams M > 0 \<and> m_stream_count M \<ge> m_max_streams M)"
      "m_max_total_ring_bytes M > 0 \<and> m_total_ring_bytes M + ?i > m_max_total_ring_bytes M"
    | "\<not> (m_max_streams M > 0 \<and> m_stream_count M \<ge> m_max_streams M)"
      "\<not> (m_max_total_ring_bytes M > 0 \<and> m_total_ring_bytes M + ?i > m_max_total_ring_bytes M)" by blast
  thus thesis
  proof cases
    case 1
    hence "ret = SLS_ERROR" "M' = M\<lparr> next_gen := next_gen M \<rparr>" using assms None by (simp_all add: map_add_def)
    thus thesis using None 1 by (intro refused) (auto simp: map_fits_def)
  next
    case 2
    hence "ret = SLS_ERROR" "M' = M\<lparr> next_gen := g0 \<rparr>" using assms None n r0 by (auto simp: map_add_def)
    thus thesis using None r0(4) 2 by (intro refused) (auto simp: map_fits_def)
  next
    case 3
    let ?m = "if ?i > m_nDataSize r0 then setSize ?i r0 g0 else Some (r0, g0)"
    have ipos: "0 < ?i"
      by (rule less_le_trans [of _ DEFAULT_MAX_DATA_SIZE])
         (use intended_ring_size_bounds [of b l] in \<open>auto simp: DEFAULT_MAX_DATA_SIZE_def\<close>)
    have "\<exists>r g. ?m = Some (r, g)" using ipos by (simp add: setSize_def)
    then obtain r g where m: "?m = Some (r, g)" by blast
    have r: "ring_rep r []" "m_nDataSize r = ?i" "next_gen M \<le> m_nGeneration r" "m_nGeneration r < g"
      using m setSize_rep [OF ipos, of r0 g0 r g] intended_ring_size_bounds [of b l] r0
      by (auto split: if_splits)
    have "map_add now key b l M = Some (SLS_OK, M\<lparr> m_map_array := m_map_array M @ [(key, r)],
        m_stream_count := m_stream_count M + 1, m_total_ring_bytes := m_total_ring_bytes M + m_nDataSize r,
        m_map_cc_state := (if map_of (m_map_cc_state M) key = None
                           then m_map_cc_state M @ [(key, fresh_cc_state)] else m_map_cc_state M),
        next_gen := g \<rparr>)"
      unfolding map_add_def None option.case n prod.case r0(2) Let_def m [unfolded r0(2)]
      by (simp only: 3 if_False bind.bind_lunit prod.case alist_update_new [OF None])
         (simp add: alist_update_new)
    hence e: "ret = SLS_OK" "M' = M\<lparr> m_map_array := m_map_array M @ [(key, r)],
        m_stream_count := m_stream_count M + 1, m_total_ring_bytes := m_total_ring_bytes M + m_nDataSize r,
        m_map_cc_state := (if map_of (m_map_cc_state M) key = None
                           then m_map_cc_state M @ [(key, fresh_cc_state)] else m_map_cc_state M),
        next_gen := g \<rparr>" using assms by simp_all
    show thesis by (rule fresh [OF None e(1) r _ e(2)]) (use 3 r(2) in \<open>auto simp: map_fits_def\<close>)
  qed
qed

lemma map_init_ok: "map_ok map_data_init"
  by (simp add: map_ok_def map_data_init_def)

lemma map_add_total: "\<exists>ret M'. map_add now key b l M = Some (ret, M')"
proof -
  obtain r0 g0 where n: "ring_new (next_gen M) now = (r0, g0)" by fastforce
  have "0 \<le> intended_ring_size (m_nDataSize r0) b l"
    unfolding ring_new_rep(2) [OF n] using intended_ring_size_bounds [of b l]
    by (rule conjE) (simp add: DEFAULT_MAX_DATA_SIZE_def)
  thus ?thesis by (simp add: map_add_def n Let_def setSize_def split: option.split)
qed

lemma map_add_ok [sls_inv]:
  assumes ok: "map_ok M" and add: "map_add now key b l M = Some (ret, M')"
  shows "map_ok M'" "map_within_caps M \<Longrightarrow> map_within_caps M'" "next_gen M \<le> next_gen M'"
    "m_max_streams M' = m_max_streams M" "m_max_total_ring_bytes M' = m_max_total_ring_bytes M"
proof -
  have "map_ok M' \<and> (map_within_caps M \<longrightarrow> map_within_caps M') \<and> next_gen M \<le> next_gen M' \<and>
      m_max_streams M' = m_max_streams M \<and> m_max_total_ring_bytes M' = m_max_total_ring_bytes M"
    using add
  proof (cases rule: map_add_cases)
    case (fresh r g)
    have "ring_live g r" using fresh intended_ring_size_bounds [of b l] by (auto simp: ring_live_def)
    moreover have "key \<notin> set (map fst (m_map_array M))" "key \<notin> set (map fst (m_map_cc_state M))"
      using fresh(1) ok by (auto simp: map_of_eq_None_iff map_ok_def)
    moreover hence "map_of (m_map_cc_state M) key = None" by (simp add: map_of_eq_None_iff)
    moreover have "ring_live g x" if "ring_live (next_gen M) x" for x
      using that fresh(5,6) by (auto intro: ring_live_mono)
    ultimately show ?thesis using ok fresh fresh_cc_state_ok
      by (auto simp: map_ok_def map_within_caps_def map_fits_def)
  qed (use ok in \<open>auto simp: map_ok_def map_within_caps_def intro: ring_live_mono\<close>)
  thus "map_ok M'" "map_within_caps M \<Longrightarrow> map_within_caps M'" "next_gen M \<le> next_gen M'"
    "m_max_streams M' = m_max_streams M" "m_max_total_ring_bytes M' = m_max_total_ring_bytes M" by auto
qed

lemma map_remove_ok [sls_inv]:
  assumes ok: "map_ok M"
  shows "map_ok (snd (map_remove key M))" "map_within_caps M \<Longrightarrow> map_within_caps (snd (map_remove key M))"
proof -
  have sub: "set (AList.delete key (m_map_array M)) \<subseteq> set (m_map_array M)"
    "set (AList.delete key (m_map_cc_state M)) \<subseteq> set (m_map_cc_state M)"
    "set (AList.delete key (m_map_tc_state M)) \<subseteq> set (m_map_tc_state M)" by (rule alist_set_delete)+
  have keys: "fst ` set (AList.delete key al) = fst ` set al - {key}" for al :: "(string \<times> 'b) list"
    by (induction al) auto
  have dist: "distinct (map fst (AList.delete key (m_map_array M)))"
    "distinct (map fst (AList.delete key (m_map_cc_state M)))"
    "distinct (map fst (AList.delete key (m_map_tc_state M)))"
    using ok by (auto simp: map_ok_def intro: distinct_delete)
  have "map_ok (snd (map_remove key M)) \<and> (map_within_caps M \<longrightarrow> map_within_caps (snd (map_remove key M)))"
  proof (cases "map_of (m_map_array M) key")
    case None
    hence "key \<notin> fst ` set (m_map_array M)" "key \<notin> fst ` set (m_map_cc_state M)"
      using ok by (auto simp: map_of_eq_None_iff map_ok_def)
    thus ?thesis using None ok sub dist
      by (auto simp: map_remove_def map_ok_def map_within_caps_def alist_delete_other keys)
  next
    case (Some r)
    have d: "distinct (map fst (m_map_array M))" using ok by (simp add: map_ok_def)
    have "ring_live (next_gen M) r" using ok map_of_SomeD [OF Some] by (auto simp: map_ok_def)
    hence "0 \<le> m_nDataSize r" by (auto simp: ring_live_def elim: ring_repE)
    thus ?thesis using Some ok sub dist alist_delete_len [OF d Some]
        alist_delete_sum [OF d Some, of m_nDataSize]
      by (auto simp: map_remove_def map_ok_def map_within_caps_def keys)
  qed
  thus "map_ok (snd (map_remove key M))" "map_within_caps M \<Longrightarrow> map_within_caps (snd (map_remove key M))" by auto
qed

lemma map_clear_counts:
  "fold (\<lambda>(k, r) (c, b). (c - 1, b - m_nDataSize r)) al (c, b) =
     (c - int (length al), b - sum_list (map (\<lambda>x. m_nDataSize (snd x)) al))"
  by (induction al arbitrary: c b) auto

lemma map_clear_ok [sls_inv]:
  assumes "map_ok M"
  shows "map_ok (map_clear M)" "map_within_caps (map_clear M)"
    "m_stream_count (map_clear M) = 0" "m_total_ring_bytes (map_clear M) = 0"
  using assms by (auto simp: map_clear_def map_clear_counts map_ok_def map_within_caps_def)

text \<open>Replacing the ring of a key by one of the same size keeps the invariant.\<close>

lemma map_ring_update_ok:
  assumes "map_ok M" "map_of (m_map_array M) key = Some r" "ring_live (next_gen M) r'" "m_nDataSize r' = m_nDataSize r"
  shows "map_ok (M\<lparr> m_map_array := AList.update key r' (m_map_array M) \<rparr>)"
  using assms alist_set_update [of key r' "m_map_array M"]
  by (auto simp: map_ok_def alist_update_len alist_update_keys alist_update_sum [of _ _ r m_nDataSize]
      simp flip: set_map)

lemma map_tracker_update_ok:
  assumes "map_ok M" "map_of (m_map_cc_state M) key = Some s" "cc_ok s'"
  shows "map_ok (M\<lparr> m_map_cc_state := AList.update key s' (m_map_cc_state M) \<rparr>)"
  using assms alist_set_update [of key s' "m_map_cc_state M"]
  by (auto simp: map_ok_def alist_update_keys simp flip: set_map)

lemma map_scanner_update_ok:
  assumes "map_ok M" "tc_ok s'"
  shows "map_ok (M\<lparr> m_map_tc_state := AList.update key s' (m_map_tc_state M) \<rparr>)"
  using assms alist_set_update [of key s' "m_map_tc_state M"]
  by (auto simp: map_ok_def distinct_update)

lemma ring_live_keep:
  assumes "ring_live g r" "ring_rep r' h" "m_nDataSize r' = m_nDataSize r" "m_nGeneration r' = m_nGeneration r"
  shows "ring_live g r'"
  using assms by (auto simp: ring_live_def)

lemma map_okD:
  assumes "map_ok M"
  shows "\<forall>x \<in> set (m_map_array M). ring_live (next_gen M) (snd x)" "\<forall>x \<in> set (m_map_cc_state M). cc_ok (snd x)"
    "\<forall>x \<in> set (m_map_tc_state M). tc_ok (snd x)" "fst ` set (m_map_cc_state M) = fst ` set (m_map_array M)"
  using assms unfolding map_ok_def by (simp_all add: case_prod_beta)

lemma map_ok_ring: "map_ok M \<Longrightarrow> map_of (m_map_array M) key = Some r \<Longrightarrow> ring_live (next_gen M) r"
  using map_okD(1) [of M] by (metis map_of_SomeD snd_conv)

lemma map_ok_tracker: "map_ok M \<Longrightarrow> map_of (m_map_cc_state M) key = Some s \<Longrightarrow> cc_ok s"
  using map_okD(2) [of M] by (metis map_of_SomeD snd_conv)

lemma map_ok_scanner: "map_ok M \<Longrightarrow> map_of (m_map_tc_state M) key = Some s \<Longrightarrow> tc_ok s"
  using map_okD(3) [of M] by (metis map_of_SomeD snd_conv)

lemma map_ok_has_tracker:
  assumes "map_ok M" "map_of (m_map_array M) key = Some r"
  obtains s where "map_of (m_map_cc_state M) key = Some s" "cc_ok s"
proof -
  have "key \<in> fst ` set (m_map_cc_state M)"
    unfolding map_okD(4) [OF assms(1)] using map_of_SomeD [OF assms(2)] by force
  thus thesis using that map_ok_tracker [OF assms(1), of key]
    by (cases "map_of (m_map_cc_state M) key") (auto simp: map_of_eq_None_iff)
qed

lemma scan_timecode_keeps:
  assumes "0 \<le> len" "len \<le> int (length d)" "tc_ok st"
  shows "\<exists>n st'. sls_ts_scan_timecode (Some d) len (Some st) = Some (n, Some st') \<and> tc_ok st'"
proof -
  have "nat len \<le> length d" using assms(2) by linarith
  then obtain n st' where "scan_loop d (int (nat len)) (int (188 * 0)) st 0 = Some (0 + n, st')"
      "tc_step st (Some (n, st')) (2 * int (nat len div 188 - 0))"
    using scan_loop_step [of "nat len" d 0 st 0] by auto
  thus ?thesis using assms by (auto simp: sls_ts_scan_timecode_def tc_step_def)
qed

lemma check_continuity_keeps:
  assumes "0 \<le> len" "len \<le> int (length d)" "cc_ok st"
  shows "\<exists>b st'. sls_ts_check_continuity (Some d) len (Some st) = Some (b, Some st') \<and> cc_ok st'"
proof -
  have "nat len \<le> length d" using assms(2) by linarith
  thus ?thesis using check_continuity_refines [of st "nat len" d] assms by auto
qed

lemma map_put_known:
  assumes ok: "map_ok M" and r: "map_of (m_map_array M) key = Some r" "ring_rep r h"
    and len: "0 \<le> len" "len \<le> int (length d)"
  obtains ret M' r' where "map_put key (Some d) len M = Some (ret, Some (m_last_read_time r), M')" "map_ok M'"
    "m_map_array M' = AList.update key r' (m_map_array M)" "m_nDataSize r' = m_nDataSize r"
    "m_nGeneration r' = m_nGeneration r" "m_stream_count M' = m_stream_count M"
    "m_total_ring_bytes M' = m_total_ring_bytes M" "m_max_streams M' = m_max_streams M"
    "m_max_total_ring_bytes M' = m_max_total_ring_bytes M" "next_gen M' = next_gen M"
    "if 0 < len \<and> len \<le> m_nDataSize r then ret = len \<and> ring_rep r' (h @ take (nat len) d)
     else ret = SLS_ERROR \<and> ring_rep r' h"
proof -
  obtain s where s: "map_of (m_map_cc_state M) key = Some s" "cc_ok s"
    using ok r(1) by (rule map_ok_has_tracker)
  obtain b s' where cc: "sls_ts_check_continuity (Some d) len (Some s) = Some (b, Some s')" "cc_ok s'"
    using check_continuity_keeps [OF len s(2)] by blast
  define r1 where "r1 = (if b > 0 then note_ingest_discontinuity r else r)"
  have r1: "ring_rep r1 h" "m_nDataSize r1 = m_nDataSize r" "m_nGeneration r1 = m_nGeneration r"
    using r(2) by (auto simp: r1_def note_ingest_discontinuity_def)
  have "\<exists>ret r'. ring_put (Some d) len r1 = Some (ret, r') \<and> m_nDataSize r' = m_nDataSize r \<and>
      m_nGeneration r' = m_nGeneration r \<and>
      (if 0 < len \<and> len \<le> m_nDataSize r then ret = len \<and> ring_rep r' (h @ take (nat len) d)
       else ret = SLS_ERROR \<and> ring_rep r' h)"
    using ring_put_rep [OF r1(1), of len d] r1 len ring_put_rejects [of "Some d" len r1] by auto
  then obtain ret r' where p: "ring_put (Some d) len r1 = Some (ret, r')" "m_nDataSize r' = m_nDataSize r"
      "m_nGeneration r' = m_nGeneration r"
      "if 0 < len \<and> len \<le> m_nDataSize r then ret = len \<and> ring_rep r' (h @ take (nat len) d)
       else ret = SLS_ERROR \<and> ring_rep r' h" by blast
  have live: "ring_live (next_gen M) r'"
    using map_ok_ring [OF ok r(1)] p(2-4) by (auto intro: ring_live_keep split: if_splits)
  define tcs where "tcs = (case map_of (m_map_tc_state M) key of None \<Rightarrow> Some (m_map_tc_state M)
      | Some st \<Rightarrow> do { (n, st') \<leftarrow> sls_ts_scan_timecode (Some d) len (Some st);
                       Some (case st' of None \<Rightarrow> m_map_tc_state M | Some x \<Rightarrow> AList.update key x (m_map_tc_state M)) })"
  have "\<exists>tc. tcs = Some tc \<and> map_ok (M\<lparr> m_map_tc_state := tc \<rparr>)"
  proof (cases "map_of (m_map_tc_state M) key")
    case None
    thus ?thesis using ok by (simp add: tcs_def)
  next
    case (Some st)
    then obtain n st' where "sls_ts_scan_timecode (Some d) len (Some st) = Some (n, Some st')" "tc_ok st'"
      using scan_timecode_keeps [OF len] map_ok_scanner [OF ok Some] by blast
    thus ?thesis using Some map_scanner_update_ok [OF ok] by (simp add: tcs_def)
  qed
  then obtain tc where tc: "tcs = Some tc" "map_ok (M\<lparr> m_map_tc_state := tc \<rparr>)" by blast
  let ?M' = "M\<lparr> m_map_array := AList.update key r' (m_map_array M),
      m_map_cc_state := AList.update key s' (m_map_cc_state M), m_map_tc_state := tc \<rparr>"
  have "map_put key (Some d) len M = Some (ret, Some (m_last_read_time r), ?M')"
    unfolding map_put_def r(1) s(1) option.case cc(1) bind.bind_lunit prod.case tcs_def [symmetric] tc(1)
      r1_def [symmetric] p(1) ..
  moreover have eq: "?M' = M\<lparr> m_map_tc_state := tc, m_map_cc_state := AList.update key s' (m_map_cc_state M),
      m_map_array := AList.update key r' (m_map_array M) \<rparr>" by (cases M) simp
  have "map_ok ?M'" unfolding eq
    using map_ring_update_ok [OF map_tracker_update_ok [OF tc(2), of key s s'], of key r r'] s r(1) cc(2) live p(2)
    by simp
  ultimately show thesis using p by (intro that [of ret ?M' r']) simp_all
qed

lemma map_get_known:
  assumes ok: "map_ok M" and r: "map_of (m_map_array M) key = Some r"
    and g: "ring_get now dst len rid al r = Some (ret, dst', rid', r')"
    and keep: "ring_rep r' h" "m_nDataSize r' = m_nDataSize r" "m_nGeneration r' = m_nGeneration r"
  shows "map_get now key dst len rid al M =
      Some (ret, dst', rid', M\<lparr> m_map_array := AList.update key r' (m_map_array M) \<rparr>) \<and>
    map_ok (M\<lparr> m_map_array := AList.update key r' (m_map_array M) \<rparr>)"
  using assms map_ring_update_ok [OF ok r ring_live_keep [OF map_ok_ring [OF ok r] keep] keep(2)]
  by (simp add: map_get_def)

lemma ring_get_frame:
  assumes "ring_get now dst sz rid al r = Some (ret, dst', rid', r')"
  shows "m_nDataSize r' = m_nDataSize r" "m_nGeneration r' = m_nGeneration r" "ring_rep r h \<Longrightarrow> ring_rep r' h"
  using assms unfolding ring_get_def
  by (auto simp: Let_def split: option.splits if_splits prod.splits bind_splits)

lemma map_get_ok [sls_inv]:
  assumes "map_ok M" "map_get now key dst len rid al M = Some (ret, dst', rid', M')"
  shows "map_ok M'" "map_within_caps M \<Longrightarrow> map_within_caps M'"
proof -
  have "map_ok M' \<and> (map_within_caps M \<longrightarrow> map_within_caps M')"
  proof (cases "map_of (m_map_array M) key")
    case None
    thus ?thesis using assms by (simp add: map_get_def)
  next
    case (Some r)
    then obtain r' where g: "ring_get now dst len rid al r = Some (ret, dst', rid', r')"
        "M' = M\<lparr> m_map_array := AList.update key r' (m_map_array M) \<rparr>"
      using assms(2) by (auto simp: map_get_def split: bind_splits)
    obtain h where h: "ring_rep r h" using map_ok_ring [OF assms(1) Some] by (auto simp: ring_live_def)
    have "map_ok M'" using map_get_known [OF assms(1) Some g(1) ring_get_frame(3) [OF g(1) h] ring_get_frame(1,2) [OF g(1)]] g(2)
      by simp
    thus ?thesis using g(2) by (simp add: map_within_caps_def)
  qed
  thus "map_ok M'" "map_within_caps M \<Longrightarrow> map_within_caps M'" by auto
qed

lemma map_put_ok [sls_inv]:
  assumes "map_ok M" "0 \<le> len" "len \<le> int (length d)" "map_put key (Some d) len M = Some (ret, t, M')"
  shows "map_ok M'" "map_within_caps M \<Longrightarrow> map_within_caps M'"
proof -
  have "map_ok M' \<and> (map_within_caps M \<longrightarrow> map_within_caps M')"
  proof (cases "map_of (m_map_array M) key")
    case None
    thus ?thesis using assms by (simp add: map_put_def)
  next
    case (Some r)
    then obtain h where h: "ring_rep r h" using map_ok_ring [OF assms(1) Some] by (auto simp: ring_live_def)
    show ?thesis using assms(1) Some h assms(2,3)
      by (rule map_put_known) (use assms(4) in \<open>auto simp: map_within_caps_def\<close>)
  qed
  thus "map_ok M'" "map_within_caps M \<Longrightarrow> map_within_caps M'" by auto
qed

text \<open>Operations that touch only the gauges of a ring.\<close>

definition gauge_only :: "(CSLSRecycleArray \<Rightarrow> int \<times> CSLSRecycleArray) \<Rightarrow> bool" where
  "gauge_only f \<longleftrightarrow> (\<forall>r h. (ring_rep r h \<longrightarrow> ring_rep (snd (f r)) h) \<and> m_nDataSize (snd (f r)) = m_nDataSize r \<and>
     m_nGeneration (snd (f r)) = m_nGeneration r)"

lemma gauge_only_ops [simp]:
  "gauge_only (get_max_reader_backlog c)" "gauge_only (get_viewer_backpressure_events c)"
  "gauge_only (get_viewer_snd_drops c)" "gauge_only (get_ingest_discontinuities c)"
  "gauge_only (\<lambda>r. (0, report_viewer_backpressure r))" "gauge_only (\<lambda>r. (0, report_viewer_snd_drops n r))"
  by (auto simp: gauge_only_def get_max_reader_backlog_def get_viewer_backpressure_events_def get_viewer_snd_drops_def
      get_ingest_discontinuities_def report_viewer_backpressure_def report_viewer_snd_drops_def)

lemma map_gauge_ok [sls_inv]:
  assumes "map_ok M" "gauge_only f"
  shows "map_ok (snd (map_gauge f key M))" "map_within_caps M \<Longrightarrow> map_within_caps (snd (map_gauge f key M))"
proof -
  have "map_ok (snd (map_gauge f key M)) \<and> (map_within_caps M \<longrightarrow> map_within_caps (snd (map_gauge f key M)))"
  proof (cases "\<exists>k r. key = Some k \<and> map_of (m_map_array M) k = Some r")
    case True
    then obtain k r where k: "key = Some k" "map_of (m_map_array M) k = Some r" by blast
    obtain v r' where f: "f r = (v, r')" by fastforce
    obtain h where h: "ring_rep r h" using map_ok_ring [OF assms(1) k(2)] by (auto simp: ring_live_def)
    have r': "ring_rep r' h" "m_nDataSize r' = m_nDataSize r" "m_nGeneration r' = m_nGeneration r"
      using assms(2) f h by (auto simp: gauge_only_def dest: spec [of _ r])
    show ?thesis using map_ring_update_ok [OF assms(1) k(2) ring_live_keep [OF map_ok_ring [OF assms(1) k(2)] r'] r'(2)] k f
      by (simp add: map_gauge_def map_within_caps_def)
  qed (use assms(1) in \<open>auto simp: map_gauge_def split: option.split\<close>)
  thus "map_ok (snd (map_gauge f key M))" "map_within_caps M \<Longrightarrow> map_within_caps (snd (map_gauge f key M))" by auto
qed

lemma fresh_tc_state_init: "sls_init_ts_timecode_state (Some st) = Some fresh_tc_state"
  by (simp add: sls_init_ts_timecode_state_def fresh_tc_state_def)

lemma init_timecode_ok: "tc_ok fresh_tc_state"
  by (simp add: fresh_tc_state_def tc_ok_def)

lemma set_timecode_scan_ok [sls_inv]:
  assumes "map_ok M"
  shows "map_ok (set_timecode_scan key en M)" "map_within_caps M \<Longrightarrow> map_within_caps (set_timecode_scan key en M)"
proof -
  have "map_ok (M\<lparr> m_map_tc_state := AList.delete k (m_map_tc_state M) \<rparr>)" for k
    using assms alist_set_delete [of k "m_map_tc_state M"] by (auto simp: map_ok_def intro: distinct_delete)
  thus "map_ok (set_timecode_scan key en M)"
    using assms map_scanner_update_ok [OF assms init_timecode_ok] by (simp add: set_timecode_scan_def split: option.split)
  show "map_within_caps M \<Longrightarrow> map_within_caps (set_timecode_scan key en M)"
    by (auto simp: set_timecode_scan_def map_within_caps_def split: option.split)
qed

lemma get_timecode_stats_ok [sls_inv]:
  assumes "map_ok M" "get_timecode_stats key clear M = (found, s, M')"
  shows "map_ok M'" "map_within_caps M \<Longrightarrow> map_within_caps M'"
proof -
  have "map_ok (M\<lparr> m_map_tc_state := AList.update k (tc\<lparr> updates := 0 \<rparr>) (m_map_tc_state M) \<rparr>)"
    if "map_of (m_map_tc_state M) k = Some tc" for k tc
    using map_ok_scanner [OF assms(1) that] by (intro map_scanner_update_ok [OF assms(1)]) (simp add: tc_ok_def)
  thus "map_ok M'" using assms by (auto simp: get_timecode_stats_def split: option.splits if_splits)
  show "map_within_caps M \<Longrightarrow> map_within_caps M'"
    using assms(2) by (auto simp: get_timecode_stats_def map_within_caps_def split: option.splits if_splits)
qed

section \<open>The table as a transition system\<close>

text \<open>One step is one call, with any arguments; a call whose model is \<^const>\<open>None\<close> (an access outside of an
  object) is no step, and \<open>map_put_known\<close> and \<open>map_add_total\<close> show that there is none for the buffers the
  callers pass.\<close>

inductive map_step :: "CSLSMapData \<Rightarrow> CSLSMapData \<Rightarrow> bool" where
  step_add: "map_add now key b l M = Some (ret, M') \<Longrightarrow> map_step M M'"
| step_remove: "map_step M (snd (map_remove key M))"
| step_clear: "map_step M (map_clear M)"
| step_put: "0 \<le> len \<Longrightarrow> len \<le> int (length d) \<Longrightarrow> map_put key (Some d) len M = Some (ret, t, M') \<Longrightarrow> map_step M M'"
| step_get: "map_get now key dst len rid al M = Some (ret, dst', rid', M') \<Longrightarrow> map_step M M'"
| step_backlog: "map_step M (snd (map_get_max_reader_backlog k c M))"
| step_backpressure: "map_step M (map_report_viewer_backpressure k M)"
| step_backpressure_events: "map_step M (snd (map_get_viewer_backpressure_events k c M))"
| step_snd_drops: "map_step M (map_report_viewer_snd_drops k n M)"
| step_get_snd_drops: "map_step M (snd (map_get_viewer_snd_drops k c M))"
| step_discontinuities: "map_step M (snd (map_get_ingest_discontinuities k c M))"
| step_scan: "map_step M (set_timecode_scan k en M)"
| step_stats: "get_timecode_stats k c M = (found, s, M') \<Longrightarrow> map_step M M'"

inductive_cases map_stepE: "map_step M M'"

lemmas map_gauge_ops = map_get_max_reader_backlog_def map_report_viewer_backpressure_def
  map_get_viewer_backpressure_events_def map_report_viewer_snd_drops_def map_get_viewer_snd_drops_def
  map_get_ingest_discontinuities_def map_report_def

lemma map_step_ok: "map_step M M' \<Longrightarrow> map_ok M \<Longrightarrow> map_ok M' \<and> (map_within_caps M \<longrightarrow> map_within_caps M')"
proof (induction rule: map_step.induct)
  case (step_add now key b l M ret M')
  thus ?case using map_add_ok(1,2) by blast
next
  case (step_put len d key M ret t M')
  thus ?case using map_put_ok by blast
next
  case (step_get now key dst len rid al M ret dst' rid' M')
  thus ?case using map_get_ok [OF step_get(2,1)] by simp
next
  case (step_stats k c M found s M')
  thus ?case using get_timecode_stats_ok by blast
qed (simp_all add: map_gauge_ops map_remove_ok map_clear_ok map_gauge_ok set_timecode_scan_ok)

interpretation table: component "\<lambda>M. \<exists>s b. M = set_caps s b map_data_init" map_step
  "\<lambda>M. map_ok M \<and> map_within_caps M"
proof unfold_locales
  show "map_ok M \<and> map_within_caps M" if "\<exists>s b. M = set_caps s b map_data_init" for M
    using that by (auto simp: set_caps_def map_data_init_def map_ok_def map_within_caps_def)
qed (use map_step_ok in blast)

section \<open>Sessions: a ring is never mistaken for its successor\<close>

text \<open>\<open>since key g M\<close>: whatever ring \<open>key\<close> has now was created with a generation of at least \<open>g\<close>.\<close>

definition since :: "string \<Rightarrow> nat \<Rightarrow> CSLSMapData \<Rightarrow> bool" where
  "since key g M \<longleftrightarrow> g \<le> next_gen M \<and> (\<forall>r. map_of (m_map_array M) key = Some r \<longrightarrow> g \<le> m_nGeneration r)"

lemma since_ring_update:
  assumes "since key g M" "map_of (m_map_array M) k = Some r" "m_nGeneration r' = m_nGeneration r"
    "m_map_array M' = AList.update k r' (m_map_array M)" "next_gen M' = next_gen M"
  shows "since key g M'"
  using assms by (auto simp: since_def map_of_update)

lemma since_gauge:
  assumes "since key g M" "gauge_only f"
  shows "since key g (snd (map_gauge f k M))"
proof (cases "\<exists>k' r. k = Some k' \<and> map_of (m_map_array M) k' = Some r")
  case True
  then obtain k' r where k: "k = Some k'" "map_of (m_map_array M) k' = Some r" by blast
  obtain v r' where f: "f r = (v, r')" by fastforce
  hence "m_nGeneration r' = m_nGeneration r" using assms(2) by (auto simp: gauge_only_def dest: spec [of _ r])
  thus ?thesis using since_ring_update [OF assms(1) k(2)] k f by (simp add: map_gauge_def)
qed (use assms(1) in \<open>auto simp: map_gauge_def split: option.split\<close>)

lemma since_add:
  assumes "since key g M" "map_add now k b l M = Some (ret, M')"
  shows "since key g M'"
  using assms(2) by (cases rule: map_add_cases) (use assms(1) in \<open>auto simp: since_def split: if_splits option.splits\<close>)

lemma since_put:
  assumes "map_ok M" "since key g M" "0 \<le> len" "len \<le> int (length d)" "map_put k (Some d) len M = Some (ret, t, M')"
  shows "since key g M'"
proof (cases "map_of (m_map_array M) k")
  case (Some r)
  then obtain h where h: "ring_rep r h" using map_ok_ring [OF assms(1)] by (auto simp: ring_live_def)
  show ?thesis using assms(1) Some h assms(3,4)
    by (rule map_put_known) (use assms(5) since_ring_update [OF assms(2) Some] in auto)
qed (use assms in \<open>simp add: map_put_def\<close>)

lemma since_get:
  assumes "since key g M" "map_get now k dst len rid al M = Some (ret, dst', rid', M')"
  shows "since key g M'"
proof (cases "map_of (m_map_array M) k")
  case (Some r)
  then obtain r' where "ring_get now dst len rid al r = Some (ret, dst', rid', r')"
      "M' = M\<lparr> m_map_array := AList.update k r' (m_map_array M) \<rparr>"
    using assms(2) by (auto simp: map_get_def split: bind_splits)
  thus ?thesis using since_ring_update [OF assms(1) Some ring_get_frame(2)] by simp
qed (use assms in \<open>simp add: map_get_def\<close>)

lemma since_step: "map_step M M' \<Longrightarrow> map_ok M \<Longrightarrow> since key g M \<Longrightarrow> since key g M'"
proof (induction rule: map_step.induct)
  case (step_remove M k)
  thus ?case by (auto simp: since_def map_remove_def Let_def delete_conv' split: option.splits if_splits)
next
  case (step_clear M)
  thus ?case by (auto simp: since_def map_clear_def split: prod.splits)
next
  case (step_scan M k en)
  thus ?case by (auto simp: since_def set_timecode_scan_def split: option.splits)
next
  case (step_stats k c M found s M')
  thus ?case by (auto simp: since_def get_timecode_stats_def split: option.splits if_splits)
qed (auto simp: map_gauge_ops intro: since_add since_put since_get since_gauge)

lemma since_removed: "since key (next_gen M) (snd (map_remove key M))"
  by (auto simp: since_def map_remove_def Let_def delete_conv' split: option.splits)

section \<open>Properties\<close>

text \<open>A table of one small stream, and its viewer.\<close>

definition small_table :: CSLSMapData where
  "small_table = \<lparr> m_map_array = [(''a'', small_ring), (''b'', small_ring)],
     m_map_cc_state = [(''a'', fresh_cc_state), (''b'', fresh_cc_state)], m_map_tc_state = [(''a'', fresh_tc_state)],
     m_stream_count = 2, m_total_ring_bytes = 8, m_max_streams = 2, m_max_total_ring_bytes = 0, next_gen = 3 \<rparr>"

lemma small_table_ok: "map_ok small_table" "map_within_caps small_table"
proof -
  have "ring_live 3 small_ring"
    using small_ring_rep by (auto simp: ring_live_def small_ring_def MAX_RING_BYTES_def)
  thus "map_ok small_table" "map_within_caps small_table"
    by (auto simp: map_ok_def small_table_def fresh_cc_state_ok init_timecode_ok map_within_caps_def)
qed

text \<open>C18. Budget of the stream table: after any sequence of calls the two counters are exactly the number of live
  rings and the sum of their sizes, a configured cap on either is never exceeded, every ring is between one
  byte and 32 MB and holds a well-formed history, and every ring has its continuity tracker.\<close>

theorem map_budget_invariant:
  assumes "map_step\<^sup>*\<^sup>* (set_caps max_streams max_bytes map_data_init) M"
  shows "m_stream_count M = int (length (m_map_array M)) \<and>
    m_total_ring_bytes M = (\<Sum>x \<leftarrow> m_map_array M. m_nDataSize (snd x)) \<and>
    (m_max_streams M > 0 \<longrightarrow> m_stream_count M \<le> m_max_streams M) \<and>
    (m_max_total_ring_bytes M > 0 \<longrightarrow> m_total_ring_bytes M \<le> m_max_total_ring_bytes M) \<and>
    (\<forall>(k, r) \<in> set (m_map_array M). (\<exists>h. ring_rep r h) \<and> 0 < m_nDataSize r \<and> m_nDataSize r \<le> MAX_RING_BYTES) \<and>
    fst ` set (m_map_cc_state M) = fst ` set (m_map_array M) \<and> distinct (map fst (m_map_array M))"
proof -
  have ok: "map_ok M" "map_within_caps M" using table.inv_reachable [OF _ assms] by auto
  have live: "(\<exists>h. ring_rep r h) \<and> 0 < m_nDataSize r \<and> m_nDataSize r \<le> MAX_RING_BYTES" if "ring_live g r" for g r
    using that by (auto simp: ring_live_def elim: ring_repE)
  have "\<forall>x \<in> set (m_map_array M). (\<exists>h. ring_rep (snd x) h) \<and> 0 < m_nDataSize (snd x) \<and>
      m_nDataSize (snd x) \<le> MAX_RING_BYTES"
    using map_okD(1) [OF ok(1)] live by blast
  thus ?thesis using ok unfolding map_within_caps_def
    by (simp add: map_ok_def case_prod_beta)
qed

theorem map_budget_invariant_witness:
  "\<exists>ret M. map_add 0 ''a'' 8000 2000 (set_caps 4 0 map_data_init) = Some (ret, M) \<and>
     m_stream_count M = int (length (m_map_array M)) \<and> (m_max_streams M > 0 \<longrightarrow> m_stream_count M \<le> m_max_streams M)"
proof -
  obtain ret M where a: "map_add 0 ''a'' 8000 2000 (set_caps 4 0 map_data_init) = Some (ret, M)"
    using map_add_total by blast
  have "map_step\<^sup>*\<^sup>* (set_caps 4 0 map_data_init) M" using step_add [OF a] by blast
  thus ?thesis using map_budget_invariant [of 4 0 M] a by blast
qed

text \<open>add on the table: a known key is accepted with nothing changed; an unknown key is accepted exactly when
  the configured caps have room for one more ring of the size the bitrate and the latency call for (at least
  the default, at most 32 MB), and then it has an empty ring of that size which the two counters include; a
  refusal leaves every ring and both counters as they were.\<close>

theorem map_add_admission:
  "\<exists>ret M'. map_add now key b l M = Some (ret, M') \<and>
    DEFAULT_MAX_DATA_SIZE \<le> intended_ring_size DEFAULT_MAX_DATA_SIZE b l \<and> intended_ring_size DEFAULT_MAX_DATA_SIZE b l \<le> MAX_RING_BYTES \<and>
    (if map_is_exist key M then ret = SLS_OK \<and> M' = M
     else if map_fits (intended_ring_size DEFAULT_MAX_DATA_SIZE b l) M then
       ret = SLS_OK \<and> (\<exists>r. m_map_array M' = m_map_array M @ [(key, r)] \<and> ring_rep r [] \<and> m_nDataSize r = intended_ring_size DEFAULT_MAX_DATA_SIZE b l) \<and>
       m_stream_count M' = m_stream_count M + 1 \<and> m_total_ring_bytes M' = m_total_ring_bytes M + intended_ring_size DEFAULT_MAX_DATA_SIZE b l
     else ret = SLS_ERROR \<and> M' = M\<lparr> next_gen := next_gen M' \<rparr>)"
proof -
  obtain ret M' where a: "map_add now key b l M = Some (ret, M')" using map_add_total by blast
  have "if map_is_exist key M then ret = SLS_OK \<and> M' = M
     else if map_fits (intended_ring_size DEFAULT_MAX_DATA_SIZE b l) M then
       ret = SLS_OK \<and> (\<exists>r. m_map_array M' = m_map_array M @ [(key, r)] \<and> ring_rep r [] \<and> m_nDataSize r = intended_ring_size DEFAULT_MAX_DATA_SIZE b l) \<and>
       m_stream_count M' = m_stream_count M + 1 \<and> m_total_ring_bytes M' = m_total_ring_bytes M + intended_ring_size DEFAULT_MAX_DATA_SIZE b l
     else ret = SLS_ERROR \<and> M' = M\<lparr> next_gen := next_gen M' \<rparr>"
    using a by (cases rule: map_add_cases) (auto simp: map_is_exist_def)
  thus ?thesis using a intended_ring_size_bounds [of b l] by simp
qed

text \<open>C22. put on the table: an unknown key is refused with nothing changed; on a known key the bytes are appended
  to the history of that stream and of no other, a length the ring cannot hold is refused, the caller learns
  the time of the last read, and neither the budget nor any other ring changes.\<close>

theorem map_put_isolated:
  assumes "map_ok M" "0 \<le> len" "len \<le> int (length d)"
  shows "if map_is_exist key M
    then \<exists>r h ret M'. map_of (m_map_array M) key = Some r \<and> ring_rep r h \<and>
      map_put key (Some d) len M = Some (ret, Some (m_last_read_time r), M') \<and>
      (\<exists>r'. map_of (m_map_array M') key = Some r' \<and>
        (if 0 < len \<and> len \<le> m_nDataSize r then ret = len \<and> ring_rep r' (h @ take (nat len) d)
         else ret = SLS_ERROR \<and> ring_rep r' h)) \<and>
      (\<forall>k. k \<noteq> key \<longrightarrow> map_of (m_map_array M') k = map_of (m_map_array M) k) \<and>
      m_stream_count M' = m_stream_count M \<and> m_total_ring_bytes M' = m_total_ring_bytes M \<and> map_ok M'
    else map_put key (Some d) len M = Some (SLS_ERROR, None, M)"
proof (cases "map_of (m_map_array M) key")
  case None
  thus ?thesis by (simp add: map_is_exist_def map_put_def)
next
  case (Some r)
  then obtain h where h: "ring_rep r h" using map_ok_ring [OF assms(1)] by (auto simp: ring_live_def)
  obtain ret M' r' where p: "map_put key (Some d) len M = Some (ret, Some (m_last_read_time r), M')" "map_ok M'"
    "m_map_array M' = AList.update key r' (m_map_array M)" "m_stream_count M' = m_stream_count M"
    "m_total_ring_bytes M' = m_total_ring_bytes M"
    "if 0 < len \<and> len \<le> m_nDataSize r then ret = len \<and> ring_rep r' (h @ take (nat len) d)
     else ret = SLS_ERROR \<and> ring_rep r' h"
    using assms(1) Some h assms(2,3) by (rule map_put_known) blast
  have "map_of (m_map_array M') key = Some r'" "\<forall>k. k \<noteq> key \<longrightarrow> map_of (m_map_array M') k = map_of (m_map_array M) k"
    using p(3) by (auto simp: map_of_update)
  thus ?thesis using Some h p(1,2,4-6) unfolding map_is_exist_def by (simp only: if_True option.distinct HOL.simp_thms) blast
qed

theorem map_put_isolated_witness:
  "\<exists>M'. map_put ''a'' (Some [1, 2]) 2 small_table = Some (2, Some 0, M') \<and>
     map_of (m_map_array M') ''b'' = Some small_ring"
  using map_put_isolated [OF small_table_ok(1), of 2 "[1, 2]" "''a''"]
  by (auto simp: map_is_exist_def small_table_def small_ring_def)

text \<open>C20. No replay across sessions: a viewer that was reading a stream when the publisher left (its ring was
  removed) never receives a byte of the next session's backlog. Whatever calls follow, its first read of a
  new ring under the same key returns no bytes, changes nothing but its cursor, and joins at the write head.\<close>

theorem map_get_new_session:
  assumes "map_ok M" "map_of (m_map_array M) key = Some r" "\<not> bFirst rid" "nGeneration rid = m_nGeneration r"
    "map_step\<^sup>*\<^sup>* (snd (map_remove key M)) M'" "map_of (m_map_array M') key = Some r'"
  shows "m_nGeneration r < m_nGeneration r' \<and>
    (\<exists>rid' h. ring_rep r' h \<and> map_get now key dst len (Some rid) al M' = Some (SLS_OK, dst, Some rid',
        M'\<lparr> m_map_array := AList.update key r' (m_map_array M') \<rparr>) \<and> reader_at r' rid' (length h))"
proof -
  have "map_ok M' \<and> since key (next_gen M) M'"
    using assms(5)
  proof (induction rule: rtranclp_induct)
    case base
    thus ?case using assms(1) map_remove_ok(1) since_removed by blast
  next
    case (step x y)
    thus ?case using map_step_ok since_step by blast
  qed
  hence g: "next_gen M \<le> m_nGeneration r'" "map_ok M'" using assms(6) by (auto simp: since_def)
  moreover have "m_nGeneration r < next_gen M" using map_ok_ring [OF assms(1,2)] by (simp add: ring_live_def)
  ultimately have lt: "m_nGeneration r < m_nGeneration r'" by simp
  obtain h where "ring_rep r' h" using map_ok_ring [OF g(2) assms(6)] by (auto simp: ring_live_def)
  thus ?thesis using ring_get_stale [of r' h rid now dst len al] assms(3,4,6) lt by (auto simp: map_get_def)
qed

theorem map_get_new_session_witness:
  "\<exists>M' r' rid' M''. map_add 0 ''a'' 0 0 (snd (map_remove ''a'' small_table)) = Some (SLS_OK, M') \<and>
     map_of (m_map_array M') ''a'' = Some r' \<and>
     map_get 0 ''a'' [0] 1 (Some anchored_cursor) 0 M' = Some (SLS_OK, [0], Some rid', M'')"
proof -
  obtain ret M' where a: "map_add 0 ''a'' 0 0 (snd (map_remove ''a'' small_table)) = Some (ret, M')"
    using map_add_total by blast
  have "ret = SLS_OK \<and> (\<exists>r'. map_of (m_map_array M') ''a'' = Some r')"
    using a by (cases rule: map_add_cases) (auto simp: map_remove_def small_table_def map_fits_def)
  then obtain r' where r': "ret = SLS_OK" "map_of (m_map_array M') ''a'' = Some r'" by blast
  show ?thesis
    using map_get_new_session [OF small_table_ok(1), of "''a''" small_ring anchored_cursor M' r' 0 "[0]" 1 0]
      r' a step_add [OF a] by (auto simp: small_table_def small_ring_def anchored_cursor_def)
qed

end
