(* ===== verification/Stream_Id.thy ===== *)
theory Stream_Id
  imports Prelude
begin

text \<open>Strings and stream ids: the string helpers of \<^verbatim>\<open>src/core/common.cpp\<close>, \<^verbatim>\<open>src/core/common.hpp\<close> and
  \<^verbatim>\<open>src/core/util.cpp\<close>, and the stream id grammar of \<^verbatim>\<open>src/core/sls_sid.cpp\<close>. A \<^verbatim>\<open>std::string\<close> is a
  list of characters, a \<^verbatim>\<open>const char *\<close> is \<^const>\<open>None\<close> for the null pointer or its characters up to
  the terminating NUL. Plain \<^verbatim>\<open>char\<close> is signed, as on the x86-64 targets of the build.\<close>

section \<open>String helpers\<close>

abbreviation NUL :: char where
  "NUL \<equiv> CHR 0x00"

abbreviation code :: "char \<Rightarrow> nat" where
  "code c \<equiv> of_char c"

definition c_str :: "string \<Rightarrow> string" where
  "c_str s = takeWhile (\<lambda>c. c \<noteq> NUL) s"

definition toupper :: "char \<Rightarrow> char" where
  "toupper c = (if 97 \<le> code c \<and> code c \<le> 122 then char_of (code c - 32) else c)"

definition tolower :: "char \<Rightarrow> char" where
  "tolower c = (if 65 \<le> code c \<and> code c \<le> 90 then char_of (code c + 32) else c)"

definition isalnum :: "char \<Rightarrow> bool" where
  "isalnum c \<longleftrightarrow> 48 \<le> code c \<and> code c \<le> 57 \<or> 65 \<le> code c \<and> code c \<le> 90 \<or> 97 \<le> code c \<and> code c \<le> 122"

definition sls_strupper :: "string \<Rightarrow> string" where
  "sls_strupper str = map toupper str"

definition sls_strlower :: "string \<Rightarrow> string" where
  "sls_strlower str = map tolower str"

definition signed_char :: "char \<Rightarrow> int" where
  "signed_char c = (if code c < 128 then int (code c) else int (code c) - 256)"

definition sls_hash :: "32 word \<Rightarrow> char \<Rightarrow> 32 word" where
  "sls_hash key c = key * 31 + word_of_int (signed_char c)"

definition sls_hash_key :: "string \<Rightarrow> 32 word" where
  "sls_hash_key data = foldl sls_hash 0 data"

text \<open>\<^verbatim>\<open>sls_remove_marks\<close> shifts the text between a pair of equal quotes to the front of the array.\<close>

definition sls_remove_marks :: "string \<Rightarrow> string" where
  "sls_remove_marks s =
     (if length s < 2 then s
      else if hd s = CHR 0x27 \<and> last s = CHR 0x27 \<or> hd s = CHR 0x22 \<and> last s = CHR 0x22
      then take (length s - 2) (tl s) else s)"

definition safe_char :: "char \<Rightarrow> bool" where
  "safe_char p \<longleftrightarrow> p \<noteq> CHR ''/'' \<and> p \<noteq> CHR 0x5C \<and>
     \<not> (p = CHR ''#'' \<or> p = CHR ''&'' \<or> p = CHR ''%'' \<or> p = CHR '' '') \<and>
     \<not> (code p < 0x20 \<or> code p = 0x7F)"

definition sls_is_safe_name :: "string option \<Rightarrow> bool" where
  "sls_is_safe_name s =
     (case s of None \<Rightarrow> False
      | Some [] \<Rightarrow> False
      | Some x \<Rightarrow> if x = ''.'' \<or> x = ''..'' then False else list_all safe_char x)"

definition whitespace :: "char \<Rightarrow> bool" where
  "whitespace c \<longleftrightarrow> c \<in> {CHR '' '', CHR 0x09, CHR 0x0D, CHR 0x0A, CHR 0x0C, CHR 0x0B}"

definition find_first_not_of :: "(char \<Rightarrow> bool) \<Rightarrow> string \<Rightarrow> nat option" where
  "find_first_not_of P s = (if list_all P s then None else Some (length (takeWhile P s)))"

definition find_last_not_of :: "(char \<Rightarrow> bool) \<Rightarrow> string \<Rightarrow> nat option" where
  "find_last_not_of P s = (if list_all P s then None else Some (length s - 1 - length (takeWhile P (rev s))))"

definition sls_trim :: "string \<Rightarrow> string" where
  "sls_trim str =
     (case find_first_not_of whitespace str of
        None \<Rightarrow> []
      | Some i \<Rightarrow>
        (case find_last_not_of whitespace str of
           None \<Rightarrow> drop i str
         | Some j \<Rightarrow> take (j - i + 1) (drop i str)))"

text \<open>\<^verbatim>\<open>str.find (separator)\<close>: the first position where the separator starts.\<close>

fun str_find :: "string \<Rightarrow> string \<Rightarrow> nat option" where
  "str_find sep [] = (if sep = [] then Some 0 else None)"
| "str_find sep (c # cs) =
     (if take (length sep) (c # cs) = sep then Some 0 else map_option Suc (str_find sep cs))"

text \<open>The loop of \<^verbatim>\<open>sls_split_string\<close>: \<open>s\<close> is the text from \<^verbatim>\<open>lastPosition\<close> on. With an empty separator it
  need not end, so the loop is a partial function.\<close>

partial_function (option) split_loop :: "string \<Rightarrow> int \<Rightarrow> int \<Rightarrow> string \<Rightarrow> string list option" where
  "split_loop sep i count s =
     (case str_find sep s of
        None \<Rightarrow> Some [s]
      | Some p \<Rightarrow>
        if i + 1 = count then Some [take p s, drop (p + length sep) s]
        else do { rest \<leftarrow> split_loop sep (i + 1) count (drop (p + length sep) s); Some (take p s # rest) })"

declare split_loop.simps [code]

definition sls_split_string :: "string \<Rightarrow> string \<Rightarrow> int \<Rightarrow> string list option" where
  "sls_split_string str separator count = split_loop separator 0 count str"

fun sls_find_string :: "string list \<Rightarrow> string \<Rightarrow> bool \<Rightarrow> string" where
  "sls_find_string [] dst cs = []"
| "sls_find_string (x # src) dst cs =
     (let str = (if cs then x else map tolower x) in
      if str_find (if cs then dst else map tolower dst) str \<noteq> None then str else sls_find_string src dst cs)"

definition sls_redact_secret :: "string option \<Rightarrow> string" where
  "sls_redact_secret s =
     (case s of None \<Rightarrow> ''<none>'' | Some [] \<Rightarrow> ''<none>''
      | Some str \<Rightarrow> (if length str > 8 then take 8 str else str) @ ''...'')"

text \<open>\<^verbatim>\<open>strlcpy\<close> walks two pointers; \<open>d\<close> and \<open>s\<close> are their offsets. A read past the NUL of the source or a
  write outside of the destination array is \<^const>\<open>None\<close>.\<close>

definition src_at :: "string \<Rightarrow> nat \<Rightarrow> char option" where
  "src_at src s = (if s < length src then Some (src ! s) else if s = length src then Some NUL else None)"

definition dst_put :: "string \<Rightarrow> nat \<Rightarrow> char \<Rightarrow> string option" where
  "dst_put dst d c = (if d < length dst then Some (dst[d := c]) else None)"

fun strlcpy_copy :: "string \<Rightarrow> nat \<Rightarrow> string \<Rightarrow> nat \<Rightarrow> nat \<Rightarrow> (string \<times> nat \<times> nat \<times> nat) option" where
  "strlcpy_copy dst d src s 0 = Some (dst, d, s, 0)"
| "strlcpy_copy dst d src s (Suc nleft) =
     (if nleft = 0 then Some (dst, d, s, 0)
      else do {
        c \<leftarrow> src_at src s;
        dst' \<leftarrow> dst_put dst d c;
        if c = NUL then Some (dst', d + 1, s + 1, nleft)
        else strlcpy_copy dst' (d + 1) src (s + 1) nleft
      })"

function strlcpy_rest :: "string \<Rightarrow> nat \<Rightarrow> nat option" where
  "strlcpy_rest src s =
     (case src_at src s of None \<Rightarrow> None
      | Some c \<Rightarrow> if c = NUL then Some (s + 1) else strlcpy_rest src (s + 1))"
  by auto
termination
  by (relation "measure (\<lambda>(src, s). Suc (length src) - s)") (auto simp: src_at_def split: if_splits)

definition strlcpy :: "string \<Rightarrow> string \<Rightarrow> nat \<Rightarrow> (nat \<times> string) option" where
  "strlcpy dst src dsize = do {
     (dst1, d, s, nleft) \<leftarrow> strlcpy_copy dst 0 src 0 dsize;
     if nleft = 0 then do {
       dst2 \<leftarrow> (if dsize \<noteq> 0 then dst_put dst1 d NUL else Some dst1);
       s' \<leftarrow> strlcpy_rest src s;
       Some (s' - 1, dst2)
     } else Some (s - 1, dst1)
   }"

definition hex_upper :: "nat \<Rightarrow> char" where
  "hex_upper n = (if n < 10 then char_of (48 + n) else char_of (55 + n))"

definition url_plain :: "char \<Rightarrow> bool" where
  "url_plain c \<longleftrightarrow> isalnum c \<or> c = CHR ''-'' \<or> c = CHR ''_'' \<or> c = CHR ''.'' \<or> c = CHR ''~''"

definition url_escape :: "char \<Rightarrow> string" where
  "url_escape c = (if url_plain c then [c] else [CHR ''%'', hex_upper (code c div 16), hex_upper (code c mod 16)])"

definition url_encode :: "string \<Rightarrow> string" where
  "url_encode value = concat (map url_escape value)"

section \<open>The stream id grammar\<close>

definition stdhdr :: string where
  "stdhdr = ''#!::''"

text \<open>One item of the standard form: only \<open>k=v\<close> with exactly one equality sign is stored.\<close>

definition sid_item :: "string \<Rightarrow> (string \<rightharpoonup> string) \<Rightarrow> (string \<rightharpoonup> string) option" where
  "sid_item i ret = do {
     kv \<leftarrow> sls_split_string i ''='' (-1);
     Some (case kv of [k, v] \<Rightarrow> ret(sls_trim k \<mapsto> sls_trim v) | _ \<Rightarrow> ret)
   }"

fun sid_items :: "string list \<Rightarrow> (string \<rightharpoonup> string) \<Rightarrow> (string \<rightharpoonup> string) option" where
  "sid_items [] ret = Some ret"
| "sid_items (i # is) ret = do { ret' \<leftarrow> sid_item i ret; sid_items is ret' }"

definition sls_parse_streamid :: "string option \<Rightarrow> (string \<rightharpoonup> string) option" where
  "sls_parse_streamid sid =
     (case sid of None \<Rightarrow> Some Map.empty
      | Some s \<Rightarrow>
        if length s > 4 \<and> take 4 s = stdhdr then do {
          items \<leftarrow> sls_split_string (drop 4 s) '','' (-1);
          sid_items items Map.empty
        } else do {
          items \<leftarrow> sls_split_string s ''/'' (-1);
          Some (case items of
              a # b # c # _ \<Rightarrow> [''h'' \<mapsto> sls_trim a, ''sls_app'' \<mapsto> sls_trim b, ''r'' \<mapsto> sls_trim c]
            | _ \<Rightarrow> Map.empty)
        })"

definition sls_canonical_sid_key :: "string \<Rightarrow> string option" where
  "sls_canonical_sid_key streamid =
     (if streamid = [] then Some streamid
      else do {
        kv \<leftarrow> sls_parse_streamid (Some (c_str streamid));
        Some (case (kv ''h'', kv ''sls_app'', kv ''r'') of
            (Some h, Some a, Some r) \<Rightarrow> h @ ''/'' @ a @ ''/'' @ r
          | _ \<Rightarrow> streamid)
      })"

definition sls_validate_sid_format :: "string option \<Rightarrow> bool option" where
  "sls_validate_sid_format sid =
     (case sid of None \<Rightarrow> Some False
      | Some s \<Rightarrow>
        if s = [] then Some False
        else do {
          kv \<leftarrow> sls_parse_streamid (Some s);
          Some (case (kv ''h'', kv ''sls_app'', kv ''r'') of
              (Some h, Some a, Some r) \<Rightarrow>
                sls_is_safe_name (Some (c_str h)) \<and> sls_is_safe_name (Some (c_str a)) \<and> sls_is_safe_name (Some (c_str r))
            | _ \<Rightarrow> False)
        })"

section \<open>Splitting\<close>

lemma str_find_le: "str_find sep s = Some p \<Longrightarrow> p + length sep \<le> length s"
proof (induction s arbitrary: p)
  case (Cons c cs)
  have "length sep \<le> length (c # cs)" if "take (length sep) (c # cs) = sep"
    using arg_cong [OF that, of length] by simp
  thus ?case using Cons by (auto split: if_splits)
qed (simp split: if_splits)

text \<open>With a separator the split always ends.\<close>

lemma split_loop_total: "sep \<noteq> [] \<Longrightarrow> \<exists>items. split_loop sep i count s = Some items"
proof (induction s arbitrary: i rule: length_induct)
  case (1 s)
  show ?case
  proof (cases "str_find sep s")
    case None
    thus ?thesis by (simp add: split_loop.simps)
  next
    case (Some p)
    have "0 < length sep" using 1(2) by simp
    hence "length (drop (p + length sep) s) < length s" using str_find_le [OF Some] by (simp del: length_greater_0_conv)
    hence "\<exists>rest. split_loop sep (i + 1) count (drop (p + length sep) s) = Some rest" using 1 by blast
    thus ?thesis using Some by (subst split_loop.simps) auto
  qed
qed

text \<open>Reference definition for a separator of one character and no limit.\<close>

fun split_on :: "char \<Rightarrow> string \<Rightarrow> string list" where
  "split_on c [] = [[]]"
| "split_on c (x # xs) = (if x = c then [] # split_on c xs else (x # hd (split_on c xs)) # tl (split_on c xs))"

fun join_with :: "char \<Rightarrow> string list \<Rightarrow> string" where
  "join_with c [] = []"
| "join_with c [x] = x"
| "join_with c (x # y # ys) = x @ c # join_with c (y # ys)"

lemma split_on_not_Nil [simp]: "split_on c s \<noteq> []"
  by (induction s) auto

lemma str_find_char: "str_find [c] s = (if c \<in> set s then Some (length (takeWhile (\<lambda>x. x \<noteq> c) s)) else None)"
  by (induction s) auto

lemma split_on_find:
  "split_on c s = (if c \<in> set s then takeWhile (\<lambda>x. x \<noteq> c) s # split_on c (tl (dropWhile (\<lambda>x. x \<noteq> c) s)) else [s])"
  by (induction s) auto

lemma take_takeWhile: "take (length (takeWhile P s)) s = takeWhile P s"
  by (metis takeWhile_eq_take)

lemma drop_takeWhile: "drop (Suc (length (takeWhile P s))) s = tl (dropWhile P s)"
  by (simp add: dropWhile_eq_drop drop_Suc flip: tl_drop)

lemma split_loop_char: "count < 0 \<Longrightarrow> 0 \<le> i \<Longrightarrow> split_loop [c] i count s = Some (split_on c s)"
proof (induction s arbitrary: i rule: length_induct)
  case (1 s)
  show ?case
  proof (cases "c \<in> set s")
    case False
    thus ?thesis using split_on_find [of c s] by (simp add: split_loop.simps str_find_char)
  next
    case True
    hence "dropWhile (\<lambda>x. x \<noteq> c) s \<noteq> []" by (auto simp: dropWhile_eq_Nil_conv)
    hence "length (tl (dropWhile (\<lambda>x. x \<noteq> c) s)) < length (dropWhile (\<lambda>x. x \<noteq> c) s)" by simp
    hence "length (tl (dropWhile (\<lambda>x. x \<noteq> c) s)) < length s"
      using length_dropWhile_le by (rule less_le_trans)
    moreover have "i + 1 \<noteq> count" using 1(2,3) by linarith
    moreover have "split_loop [c] (i + 1) count (tl (dropWhile (\<lambda>x. x \<noteq> c) s)) =
        Some (split_on c (tl (dropWhile (\<lambda>x. x \<noteq> c) s)))" if "length (tl (dropWhile (\<lambda>x. x \<noteq> c) s)) < length s"
      using 1 that by simp
    ultimately show ?thesis using True split_on_find [of c s]
      by (subst split_loop.simps) (simp add: str_find_char take_takeWhile drop_takeWhile)
  qed
qed

lemma sls_split_string_char [simp]: "sls_split_string s [c] (-1) = Some (split_on c s)"
  by (simp add: sls_split_string_def split_loop_char)

lemma join_split: "join_with c (split_on c s) = s"
proof (induction s)
  case (Cons x xs)
  obtain y ys where "split_on c xs = y # ys" by (cases "split_on c xs") auto
  thus ?case using Cons by (cases ys) auto
qed simp

lemma split_on_free: "\<forall>x \<in> set (split_on c s). c \<notin> set x"
proof (induction s)
  case (Cons x xs)
  obtain y ys where "split_on c xs = y # ys" by (cases "split_on c xs") auto
  thus ?case using Cons by auto
qed simp

lemma split_on_append: "c \<notin> set x \<Longrightarrow> split_on c (x @ c # s) = x # split_on c s"
  by (induction x) auto

lemma split_on_none: "c \<notin> set x \<Longrightarrow> split_on c x = [x]"
  by (induction x) auto

lemma split_join:
  "xs \<noteq> [] \<Longrightarrow> \<forall>x \<in> set xs. c \<notin> set x \<Longrightarrow> split_on c (join_with c xs) = xs"
  by (induction c xs rule: join_with.induct) (auto simp: split_on_append split_on_none)

section \<open>Trimming\<close>

lemma take_rtrim: "take (length m - length (takeWhile P (rev m))) m = rev (dropWhile P (rev m))"
  unfolding dropWhile_eq_drop [of P "rev m"] by (simp add: rev_drop)

lemma sls_trim_eq: "sls_trim s = rev (dropWhile whitespace (rev (dropWhile whitespace s)))"
proof (cases "list_all whitespace s")
  case True
  hence d: "dropWhile whitespace s = []" by (simp add: list_all_iff)
  show ?thesis unfolding d by (simp add: sls_trim_def find_first_not_of_def True)
next
  case False
  let ?a = "takeWhile whitespace s" and ?m = "dropWhile whitespace s"
  let ?b = "takeWhile whitespace (rev ?m)"
  have s: "s = ?a @ ?m" by simp
  have m: "?m \<noteq> []" "\<not> whitespace (hd ?m)"
    using False by (auto simp: dropWhile_eq_Nil_conv list_all_iff hd_dropWhile)
  have tw: "takeWhile whitespace (rev s) = ?b"
  proof -
    have "takeWhile whitespace (rev ?m @ rev ?a) = ?b"
      using m by (metis hd_in_set set_rev takeWhile_append1)
    thus ?thesis using s by (metis rev_append)
  qed
  have bl: "length ?b < length ?m"
  proof -
    have "?b \<noteq> rev ?m" using m unfolding takeWhile_eq_all_conv by (metis hd_in_set set_rev)
    thus ?thesis using takeWhile_dropWhile_id [of whitespace "rev ?m"]
      by (metis append_Nil2 length_append length_greater_0_conv length_rev less_add_same_cancel1)
  qed
  have "length s = length ?a + length ?m" using s by (metis length_append)
  hence "length s - 1 - length ?b - length ?a + 1 = length ?m - length ?b" using bl by linarith
  hence "sls_trim s = take (length ?m - length ?b) (drop (length ?a) s)"
    using False tw by (simp add: sls_trim_def find_first_not_of_def find_last_not_of_def)
  also have "drop (length ?a) s = ?m" by (simp flip: dropWhile_eq_drop)
  also have "take (length ?m - length ?b) ?m = rev (dropWhile whitespace (rev ?m))"
    by (rule take_rtrim)
  finally show ?thesis .
qed

lemma sls_trim_idem:
  assumes "s = [] \<or> \<not> whitespace (hd s) \<and> \<not> whitespace (last s)"
  shows "sls_trim s = s"
proof (cases "s = []")
  case False
  hence "dropWhile whitespace s = s" "dropWhile whitespace (rev s) = rev s"
    using assms by (metis dropWhile_eq_self_iff, metis dropWhile_eq_self_iff hd_rev rev_is_Nil_conv)
  thus ?thesis by (simp add: sls_trim_eq)
qed (simp add: sls_trim_eq)

lemma set_sls_trim: "set (sls_trim s) \<subseteq> set s"
  by (auto simp: sls_trim_eq dest!: set_dropWhileD)

section \<open>Parsing\<close>

lemma sid_item_total: "\<exists>ret'. sid_item i ret = Some ret'"
  by (simp add: sid_item_def)

lemma sid_items_total: "\<exists>ret'. sid_items is ret = Some ret'"
proof (induction "is" arbitrary: ret)
  case (Cons i "is")
  thus ?case using sid_item_total [of i ret] by auto
qed simp

lemma parse_total: "\<exists>kv. sls_parse_streamid sid = Some kv"
  using sid_items_total by (simp add: sls_parse_streamid_def split: option.split)

text \<open>The three names a stream id stands for, when it has all of them.\<close>

definition sid_names :: "string \<Rightarrow> (string \<times> string \<times> string) option" where
  "sid_names s = do {
     kv \<leftarrow> sls_parse_streamid (Some s);
     h \<leftarrow> kv ''h''; a \<leftarrow> kv ''sls_app''; r \<leftarrow> kv ''r'';
     Some (h, a, r)
   }"

lemma safe_name_chars: "sls_is_safe_name (Some x) \<Longrightarrow> c \<in> set x \<Longrightarrow> safe_char c"
  by (auto simp: sls_is_safe_name_def list_all_iff split: list.splits if_splits)

lemma safe_name_not_Nil: "sls_is_safe_name (Some x) \<Longrightarrow> x \<noteq> []"
  by (auto simp: sls_is_safe_name_def)

lemma whitespace_code: "whitespace c \<Longrightarrow> c = CHR '' '' \<or> code c < (0x20 :: nat)"
  unfolding whitespace_def by auto

lemma safe_char_printable: "safe_char c \<Longrightarrow> \<not> whitespace c \<and> c \<noteq> CHR ''/'' \<and> c \<noteq> CHR ''#'' \<and> c \<noteq> NUL"
proof -
  assume s: "safe_char c"
  have n: "c \<noteq> CHR ''/''" "c \<noteq> CHR ''#''" "c \<noteq> CHR '' ''" "\<not> code c < (0x20 :: nat)"
    using s unfolding safe_char_def by blast+
  moreover have "c \<noteq> NUL" using n(4) by (rule contrapos_nn) (hypsubst, simp)
  ultimately show ?thesis using whitespace_code by blast
qed

lemma safe_name_trim: "sls_is_safe_name (Some x) \<Longrightarrow> sls_trim x = x"
  using safe_name_chars [of x "hd x"] safe_name_chars [of x "last x"] safe_char_printable [of "hd x"]
    safe_char_printable [of "last x"] safe_name_not_Nil [of x] by (intro sls_trim_idem) simp

lemma c_str_id: "NUL \<notin> set s \<Longrightarrow> c_str s = s"
  by (auto simp: c_str_def takeWhile_eq_all_conv)

lemma set_c_str: "set (c_str s) \<subseteq> set s" "NUL \<notin> set (c_str s)"
  by (auto simp: c_str_def dest: set_takeWhileD)

text \<open>Every value the parser stores is made of characters of the stream id.\<close>

lemma split_on_chars: "x \<in> set (split_on c s) \<Longrightarrow> set x \<subseteq> set s"
proof (induction s arbitrary: x)
  case (Cons a s)
  obtain y ys where y: "split_on c s = y # ys" by (cases "split_on c s") auto
  have "set y \<subseteq> set s" "\<And>z. z \<in> set ys \<Longrightarrow> set z \<subseteq> set s" using Cons.IH y by auto
  thus ?case using Cons.prems y by (fastforce split: if_splits)
qed simp

lemma sid_items_chars:
  assumes "sid_items is ret = Some kv" "kv k = Some v" "\<forall>i \<in> set is. set i \<subseteq> A" "\<forall>k v. ret k = Some v \<longrightarrow> set v \<subseteq> A"
  shows "set v \<subseteq> A"
  using assms
proof (induction "is" arbitrary: ret)
  case (Cons i "is")
  obtain ret' where r: "sid_item i ret = Some ret'" using sid_item_total by blast
  have "set (sls_trim v) \<subseteq> A" if "split_on (CHR ''='') i = [k, v]" for k v
    using split_on_chars [of v "CHR ''=''" i] set_sls_trim [of v] that Cons.prems(3) by auto
  hence "\<forall>k v. ret' k = Some v \<longrightarrow> set v \<subseteq> A"
    using r Cons.prems(4) by (fastforce simp: sid_item_def split: list.splits if_splits)
  thus ?case using Cons.IH [of ret'] Cons.prems r by simp
qed auto

lemma parse_chars:
  assumes "sls_parse_streamid (Some s) = Some kv" "kv k = Some v"
  shows "set v \<subseteq> set s"
proof (cases "length s > 4 \<and> take 4 s = stdhdr")
  case True
  hence "sid_items (split_on (CHR '','') (drop 4 s)) Map.empty = Some kv"
    using assms(1) by (simp add: sls_parse_streamid_def)
  moreover have "\<forall>i \<in> set (split_on (CHR '','') (drop 4 s)). set i \<subseteq> set s"
    using split_on_chars by (metis order_trans set_drop_subset)
  ultimately show ?thesis using sid_items_chars [of _ _ kv k v] assms(2) by simp
next
  case False
  show ?thesis
  proof (cases "\<exists>a b c d. split_on (CHR ''/'') s = a # b # c # d")
    case True
    then obtain a b c d where sp: "split_on (CHR ''/'') s = a # b # c # d" by blast
    hence "v \<in> {sls_trim a, sls_trim b, sls_trim c}"
      using assms False by (auto simp: sls_parse_streamid_def split: if_splits)
    thus ?thesis using split_on_chars [of _ "CHR ''/''" s] set_sls_trim unfolding sp by fastforce
  next
    case short: False
    hence "kv = Map.empty" using assms(1) False by (auto simp: sls_parse_streamid_def split: list.splits)
    thus ?thesis using assms(2) by simp
  qed
qed

lemma sid_names_chars:
  assumes "sid_names s = Some (h, a, r)" "NUL \<notin> set s"
  shows "NUL \<notin> set h" "NUL \<notin> set a" "NUL \<notin> set r"
  using assms parse_chars [of s] by (auto simp: sid_names_def split: bind_splits)

lemma validate_iff:
  assumes "NUL \<notin> set s"
  shows "sls_validate_sid_format (Some s) = Some True \<longleftrightarrow>
    (\<exists>h a r. s \<noteq> [] \<and> sid_names s = Some (h, a, r) \<and> sls_is_safe_name (Some h) \<and> sls_is_safe_name (Some a) \<and>
       sls_is_safe_name (Some r))"
proof -
  obtain kv where kv: "sls_parse_streamid (Some s) = Some kv" using parse_total by blast
  show ?thesis using sid_names_chars [OF _ assms]
    by (auto simp: sls_validate_sid_format_def kv sid_names_def c_str_id split: option.splits)
qed

lemma validate_total: "\<exists>b. sls_validate_sid_format sid = Some b"
proof (cases "sid = None \<or> sid = Some []")
  case False
  then obtain s where s: "sid = Some s" "s \<noteq> []" by auto
  moreover obtain kv where "sls_parse_streamid (Some s) = Some kv" using parse_total [of "Some s"] by blast
  ultimately show ?thesis by (simp add: sls_validate_sid_format_def)
qed (auto simp: sls_validate_sid_format_def)

lemma canonical_of_names:
  assumes "NUL \<notin> set s" "sid_names s = Some (h, a, r)" "s \<noteq> []"
  shows "sls_canonical_sid_key s = Some (join_with (CHR ''/'') [h, a, r])"
  using assms by (auto simp: sls_canonical_sid_key_def c_str_id sid_names_def split: bind_splits)

lemma names_of_canonical:
  assumes "sls_is_safe_name (Some h)" "sls_is_safe_name (Some a)" "sls_is_safe_name (Some r)"
  shows "sid_names (join_with (CHR ''/'') [h, a, r]) = Some (h, a, r)"
proof -
  have "\<forall>x \<in> set [h, a, r]. CHR ''/'' \<notin> set x" using assms safe_name_chars safe_char_printable by fastforce
  hence sp: "split_on (CHR ''/'') (join_with (CHR ''/'') [h, a, r]) = [h, a, r]" by (intro split_join) auto
  obtain c h' where h: "h = c # h'" using safe_name_not_Nil [OF assms(1)] by (cases h) auto
  hence "c \<noteq> CHR ''#''" using safe_name_chars [OF assms(1), of c] safe_char_printable by auto
  hence "take 4 (join_with (CHR ''/'') [h, a, r]) \<noteq> stdhdr" using h by (simp add: stdhdr_def)
  thus ?thesis using sp assms by (simp add: sid_names_def sls_parse_streamid_def safe_name_trim)
qed

section \<open>Copying and escaping\<close>

lemma strlcpy_rest_eq: "NUL \<notin> set src \<Longrightarrow> s \<le> length src \<Longrightarrow> strlcpy_rest src s = Some (length src + 1)"
proof (induction "length src - s" arbitrary: s)
  case 0
  thus ?case by (simp add: src_at_def)
next
  case (Suc n)
  hence s: "s < length src" by linarith
  hence "src ! s \<noteq> NUL" using Suc.prems(1) nth_mem by metis
  thus ?case using Suc(1) [of "s + 1"] Suc(2-) s by (simp add: src_at_def)
qed

declare strlcpy_rest.simps [simp del]

lemma strlcpy_copy_eq:
  assumes "NUL \<notin> set src" "s \<le> length src" "0 < n" "d + n \<le> length dst"
  shows "strlcpy_copy dst d src s n =
    (if length src - s < n - 1
     then Some (take d dst @ drop s src @ NUL # drop (d + (length src - s) + 1) dst, d + (length src - s) + 1,
                length src + 1, n - 1 - (length src - s))
     else Some (take d dst @ take (n - 1) (drop s src) @ drop (d + (n - 1)) dst, d + (n - 1), s + (n - 1), 0))"
  using assms
proof (induction n arbitrary: dst d s)
  case (Suc n)
  consider "n = 0" | "n \<noteq> 0" "s = length src" | "n \<noteq> 0" "s < length src" using Suc.prems(2) by linarith
  thus ?case
  proof cases
    case 2
    thus ?thesis using Suc.prems by (simp add: src_at_def dst_put_def upd_conv_take_nth_drop)
  next
    case 3
    let ?dst = "dst[d := src ! s]"
    have ch: "src ! s \<noteq> NUL" using Suc.prems(1) 3 nth_mem by metis
    have d: "d < length dst" using Suc.prems(4) 3 by simp
    have tk: "take (Suc d) ?dst = take d dst @ [src ! s]" using d by (simp add: take_Suc_conv_app_nth)
    have dr: "drop (Suc (d + k)) ?dst = drop (Suc (d + k)) dst" for k by simp
    have sr: "drop s src = src ! s # drop (Suc s) src" using 3 by (simp add: Cons_nth_drop_Suc)
    have "strlcpy_copy dst d src s (Suc n) = strlcpy_copy ?dst (Suc d) src (Suc s) n"
      using 3 ch d by (simp add: src_at_def dst_put_def)
    moreover have "n = Suc (n - 1)" using 3 by simp
    ultimately show ?thesis
      using Suc.IH [of "Suc s" "Suc d" ?dst] Suc.prems 3 tk dr sr by (auto simp: Suc_diff_Suc take_Cons')
  qed (simp add: Suc.prems)
qed simp

fun unhex :: "char \<Rightarrow> nat" where
  "unhex c = (if code c < (65 :: nat) then code c - 48 else code c - 55)"

fun url_decode :: "string \<Rightarrow> string" where
  "url_decode (c # a # b # cs) =
     (if c = CHR ''%'' then char_of (16 * unhex a + unhex b) # url_decode cs else c # url_decode (a # b # cs))"
| "url_decode (c # cs) = c # url_decode cs"
| "url_decode [] = []"

lemma unhex_hex: "n < 16 \<Longrightarrow> unhex (hex_upper n) = n"
  by (simp add: hex_upper_def of_char_of)

lemma hex_plain: "n < 16 \<Longrightarrow> url_plain (hex_upper n)"
  by (simp add: url_plain_def isalnum_def hex_upper_def of_char_of)

lemma url_decode_plain: "c \<noteq> CHR ''%'' \<Longrightarrow> url_decode (c # cs) = c # url_decode cs"
  by (cases "(c # cs)" rule: url_decode.cases) auto

lemma url_plain_not_percent: "url_plain c \<Longrightarrow> c \<noteq> CHR ''%''"
  by (auto simp: url_plain_def isalnum_def)

section \<open>Properties\<close>

text \<open>C31. Stream identity: for well-formed stream ids, in either spelling and with any extra whitespace or items,
  two ids have the same canonical key exactly when they name the same host, application and stream, so a
  negative cache entry can neither be dodged by respelling an id nor hit another stream.\<close>

theorem canonical_key_identity:
  assumes "NUL \<notin> set s" "NUL \<notin> set t"
    "sls_validate_sid_format (Some s) = Some True" "sls_validate_sid_format (Some t) = Some True"
  shows "sls_canonical_sid_key s = sls_canonical_sid_key t \<longleftrightarrow> sid_names s = sid_names t"
proof -
  obtain h a r where s: "s \<noteq> []" "sid_names s = Some (h, a, r)" "sls_is_safe_name (Some h)" "sls_is_safe_name (Some a)"
      "sls_is_safe_name (Some r)" using assms(1,3) validate_iff by blast
  obtain h' a' r' where t: "t \<noteq> []" "sid_names t = Some (h', a', r')" "sls_is_safe_name (Some h')"
      "sls_is_safe_name (Some a')" "sls_is_safe_name (Some r')" using assms(2,4) validate_iff by blast
  have "join_with (CHR ''/'') [h, a, r] = join_with (CHR ''/'') [h', a', r'] \<longleftrightarrow> (h, a, r) = (h', a', r')"
  proof
    assume e: "join_with (CHR ''/'') [h, a, r] = join_with (CHR ''/'') [h', a', r']"
    show "(h, a, r) = (h', a', r')"
      using names_of_canonical [OF s(3-5)] unfolding e names_of_canonical [OF t(3-5)] by simp
  qed simp
  thus ?thesis
    unfolding canonical_of_names [OF assms(1) s(2,1)] canonical_of_names [OF assms(2) t(2,1)] s(2) t(2) by simp
qed

theorem canonical_key_identity_witness:
  "sls_canonical_sid_key ''#!::r=cam,sls_app=live , h=a.b,m=publish'' = sls_canonical_sid_key ''a.b/live/cam '' \<longleftrightarrow>
   sid_names ''#!::r=cam,sls_app=live , h=a.b,m=publish'' = sid_names ''a.b/live/cam ''"
  by (rule canonical_key_identity; code_simp)

text \<open>The canonical key of a well-formed stream id is itself well-formed, names the same stream, is its own
  canonical key, and is a path of exactly three components: none is empty, a dot or two dots, and none has
  a separator, a backslash, a control character or one of the characters that end a URL query value.\<close>

theorem canonical_key_normal_form:
  assumes "NUL \<notin> set s" "sls_validate_sid_format (Some s) = Some True"
  shows "\<exists>k. sls_canonical_sid_key s = Some k \<and> sls_validate_sid_format (Some k) = Some True \<and>
    sid_names k = sid_names s \<and> sls_canonical_sid_key k = Some k \<and> length (split_on (CHR ''/'') k) = 3 \<and>
    (\<forall>x \<in> set (split_on (CHR ''/'') k). x \<noteq> [] \<and> x \<noteq> ''.'' \<and> x \<noteq> ''..'' \<and> list_all safe_char x)"
proof -
  obtain h a r where s: "s \<noteq> []" "sid_names s = Some (h, a, r)" "sls_is_safe_name (Some h)" "sls_is_safe_name (Some a)"
      "sls_is_safe_name (Some r)" using assms validate_iff by blast
  let ?k = "join_with (CHR ''/'') [h, a, r]"
  have safe: "\<forall>x \<in> set [h, a, r]. sls_is_safe_name (Some x)" using s by simp
  hence "\<forall>x \<in> set [h, a, r]. CHR ''/'' \<notin> set x \<and> NUL \<notin> set x"
    using safe_name_chars safe_char_printable by blast
  hence free: "\<forall>x \<in> set [h, a, r]. CHR ''/'' \<notin> set x" and nul: "NUL \<notin> set ?k" by auto
  have sp: "split_on (CHR ''/'') ?k = [h, a, r]" using free by (intro split_join) simp_all
  have nk: "sid_names ?k = Some (h, a, r)" by (rule names_of_canonical [OF s(3-5)])
  have "sls_validate_sid_format (Some ?k) = Some True"
    unfolding validate_iff [OF nul] using nk s(3-5) by auto
  moreover have "sls_canonical_sid_key ?k = Some ?k" by (rule canonical_of_names [OF nul nk]) simp
  moreover have "\<forall>x \<in> set [h, a, r]. x \<noteq> [] \<and> x \<noteq> ''.'' \<and> x \<noteq> ''..'' \<and> list_all safe_char x"
    using safe by (auto simp: sls_is_safe_name_def split: list.splits if_splits)
  ultimately show ?thesis using canonical_of_names [OF assms(1) s(2,1)] sp nk s(2)
    by (metis length_Cons list.size(3) numeral_3_eq_3)
qed

theorem canonical_key_normal_form_witness:
  "\<exists>k. sls_canonical_sid_key '' a/live/x'' = Some k \<and> sls_validate_sid_format (Some k) = Some True"
proof -
  have "sls_validate_sid_format (Some '' a/live/x'') = Some True"
    by code_simp
  thus ?thesis using canonical_key_normal_form [of "'' a/live/x''"] by auto
qed

text \<open>Splitting at a separator always ends; at a single character and without a limit the parts have no
  separator and joining them with it gives the text back.\<close>

theorem sls_split_string_roundtrip:
  "(sep \<noteq> [] \<longrightarrow> (\<exists>items. sls_split_string s sep count = Some items)) \<and>
   (\<exists>items. sls_split_string s [c] (-1) = Some items \<and> join_with c items = s \<and> (\<forall>x \<in> set items. c \<notin> set x))"
  using split_loop_total join_split split_on_free by (auto simp: sls_split_string_def [of s sep])

theorem sls_split_string_roundtrip_witness:
  "(\<exists>items. sls_split_string ''a::b'' ''::'' 1 = Some items) \<and>
   (\<exists>items. sls_split_string ''a::b'' '':'' (-1) = Some items \<and> join_with (CHR '':'') items = ''a::b'')"
  using sls_split_string_roundtrip [of "''::''" "''a::b''" 1 "CHR '':''"] by auto

text \<open>strlcpy into an array of at least dsize bytes never leaves either array, returns the length of the
  source, and leaves in the destination the source cut to dsize - 1 characters and terminated, with the rest
  of the array as it was; with dsize 0 nothing is written.\<close>

theorem strlcpy_correct:
  assumes "NUL \<notin> set src" "dsize \<le> length dst"
  shows "strlcpy dst src dsize = Some (length src,
    if dsize = 0 then dst
    else take (dsize - 1) src @ NUL # drop (length (take (dsize - 1) src) + 1) dst)"
proof (cases "dsize = 0")
  case True
  thus ?thesis using strlcpy_rest_eq [OF assms(1), of 0] by (simp add: strlcpy_def)
next
  case False
  note cp = strlcpy_copy_eq [OF assms(1), of 0 dsize 0 dst]
  show ?thesis
  proof (cases "length src < dsize - 1")
    case True
    moreover hence "\<not> dsize \<le> Suc (length src)" by linarith
    ultimately show ?thesis using cp False assms(2) by (simp add: strlcpy_def)
  next
    case long: False
    hence "dsize - 1 \<le> length src" by simp
    moreover have "(take (dsize - 1) src @ drop (dsize - 1) dst)[dsize - 1 := NUL] =
        take (dsize - 1) src @ NUL # drop dsize dst"
      using False long assms(2) by (simp add: list_update_append drop_Suc upd_conv_take_nth_drop Suc_diff_Suc)
    ultimately show ?thesis using cp False long assms(2) strlcpy_rest_eq [OF assms(1), of "dsize - 1"]
      by (simp add: strlcpy_def dst_put_def min_def)
  qed
qed

theorem strlcpy_correct_witness:
  "strlcpy ''xxxxx'' ''live'' 3 = Some (4, ''li'' @ [NUL] @ ''xx'')"
  using strlcpy_correct [of "''live''" 3 "''xxxxx''"] by simp

text \<open>Percent encoding loses nothing: decoding the encoded text gives it back, and the encoded text has only
  letters, digits, the four unreserved marks and the percent sign.\<close>

theorem url_encode_roundtrip:
  "url_decode (url_encode s) = s \<and> list_all (\<lambda>c. url_plain c \<or> c = CHR ''%'') (url_encode s)"
proof (induction s)
  case (Cons c s)
  have lt: "code c div 16 < (16 :: nat)" "code c mod 16 < (16 :: nat)"
    by (rule less_mult_imp_div_less) (simp_all add: nat_of_char_less_256)
  hence hex: "url_plain (hex_upper (code c div 16))" "url_plain (hex_upper (code c mod 16))" by (simp_all add: hex_plain)
  have dec: "16 * (code c div 16) + code c mod 16 = code c" by simp
  show ?case
  proof (cases "url_plain c")
    case True
    thus ?thesis using Cons url_decode_plain [OF url_plain_not_percent [OF True]]
      by (simp add: url_encode_def url_escape_def)
  next
    case False
    thus ?thesis using Cons hex dec unhex_hex [OF lt(1)] unhex_hex [OF lt(2)]
      by (simp add: url_encode_def url_escape_def del: unhex.simps)
  qed
qed (simp add: url_encode_def)

end
