(* ===== verification/Reject_Cache.thy ===== *)
theory Reject_Cache
  imports Stream_Id
begin

text \<open>The negative cache of failed publisher authorisations, \<^verbatim>\<open>src/core/auth_reject_cache.cpp\<close>, and the two
  handshake callbacks of \<^verbatim>\<open>src/core/sls_sid.cpp\<close> that consult it. The unordered map is an association
  list in iteration order; \<open>now\<close> is what \<^verbatim>\<open>time (nullptr)\<close> returned in the call.\<close>

section \<open>The cache\<close>

type_synonym time_s = int

record AuthRejectCache =
  m_blocked :: "(string \<times> time_s) list"
  m_ttl :: time_s
  m_last_sweep :: time_s

definition MAX_AUTH_REJECT_ENTRIES :: nat where
  "MAX_AUTH_REJECT_ENTRIES = 50000"

definition cache_new :: "time_s \<Rightarrow> AuthRejectCache" where
  "cache_new ttl_seconds = \<lparr> m_blocked = [], m_ttl = (if ttl_seconds > 0 then ttl_seconds else 30), m_last_sweep = 0 \<rparr>"

definition set_ttl :: "time_s \<Rightarrow> AuthRejectCache \<Rightarrow> AuthRejectCache" where
  "set_ttl ttl_seconds C = (if ttl_seconds \<le> 0 then C else C\<lparr> m_ttl := ttl_seconds \<rparr>)"

definition drop_expired :: "time_s \<Rightarrow> (string \<times> time_s) list \<Rightarrow> (string \<times> time_s) list" where
  "drop_expired now al = filter (\<lambda>(k, e). \<not> e \<le> now) al"

fun soonest :: "string \<times> time_s \<Rightarrow> (string \<times> time_s) list \<Rightarrow> string \<times> time_s" where
  "soonest victim [] = victim"
| "soonest victim (it # al) = soonest (if snd it < snd victim then it else victim) al"

definition evict_one :: "(string \<times> time_s) list \<Rightarrow> (string \<times> time_s) list" where
  "evict_one al = (case al of [] \<Rightarrow> [] | x # xs \<Rightarrow> AList.delete (fst (soonest x xs)) al)"

definition record_failure :: "time_s \<Rightarrow> string \<Rightarrow> AuthRejectCache \<Rightarrow> AuthRejectCache" where
  "record_failure now streamid C =
     (if streamid = [] then C
      else let C1 = (if now \<noteq> m_last_sweep C
                     then C\<lparr> m_blocked := drop_expired now (m_blocked C), m_last_sweep := now \<rparr> else C);
               C2 = (if map_of (m_blocked C1) streamid = None \<and> length (m_blocked C1) \<ge> MAX_AUTH_REJECT_ENTRIES
                     then C1\<lparr> m_blocked := evict_one (m_blocked C1) \<rparr> else C1)
           in C2\<lparr> m_blocked := AList.update streamid (now + m_ttl C) (m_blocked C2) \<rparr>)"

definition cache_size :: "AuthRejectCache \<Rightarrow> nat" where
  "cache_size C = length (m_blocked C)"

definition is_blocked :: "time_s \<Rightarrow> string \<Rightarrow> AuthRejectCache \<Rightarrow> bool" where
  "is_blocked now streamid C =
     (if streamid = [] then False
      else case map_of (m_blocked C) streamid of None \<Rightarrow> False | Some e \<Rightarrow> e > now)"

definition cache_cleanup :: "time_s \<Rightarrow> AuthRejectCache \<Rightarrow> AuthRejectCache" where
  "cache_cleanup now C = C\<lparr> m_blocked := drop_expired now (m_blocked C) \<rparr>"

section \<open>The handshake callbacks\<close>

datatype srt_reject = SRT_REJ_ROGUE | SRT_REJ_RESOURCE

text \<open>The result is the return code and the reject reason set on the socket, if any.\<close>

definition sls_publisher_listen_callback ::
  "time_s \<Rightarrow> AuthRejectCache option \<Rightarrow> string option \<Rightarrow> (int \<times> srt_reject option) option" where
  "sls_publisher_listen_callback now cache streamid = do {
     ok \<leftarrow> sls_validate_sid_format streamid;
     if \<not> ok then Some (-1, Some SRT_REJ_ROGUE)
     else do {
       key \<leftarrow> (case streamid of None \<Rightarrow> None | Some s \<Rightarrow> sls_canonical_sid_key s);
       if (case cache of None \<Rightarrow> False | Some C \<Rightarrow> is_blocked now key C) then Some (-1, Some SRT_REJ_RESOURCE)
       else Some (0, None)
     }
   }"

definition sls_player_listen_callback :: "string option \<Rightarrow> (int \<times> srt_reject option) option" where
  "sls_player_listen_callback streamid = do {
     ok \<leftarrow> sls_validate_sid_format streamid;
     Some (if \<not> ok then (-1, Some SRT_REJ_ROGUE) else (0, None))
   }"

section \<open>Entries\<close>

lemma drop_expired_lookup:
  assumes "distinct (map fst al)"
  shows "map_of (drop_expired now al) k =
    (case map_of al k of None \<Rightarrow> None | Some e \<Rightarrow> if e \<le> now then None else Some e)"
  using assms by (induction al) (auto simp: drop_expired_def map_of_eq_None_iff split: option.splits)

lemma drop_expired_ok [sls_inv]:
  "distinct (map fst al) \<Longrightarrow> distinct (map fst (drop_expired now al))" "length (drop_expired now al) \<le> length al"
  by (auto simp: drop_expired_def distinct_map_filter)

lemma soonest_min: "soonest x xs \<in> set (x # xs) \<and> (\<forall>y \<in> set (x # xs). snd (soonest x xs) \<le> snd y)"
proof (induction xs arbitrary: x)
  case (Cons a xs)
  show ?case using Cons [of "if snd a < snd x then a else x"] by (auto split: if_splits)
qed simp

lemma evict_one_lookup:
  assumes "distinct (map fst al)" "al \<noteq> []"
  obtains v e where "map_of al v = Some e" "\<forall>k e'. map_of al k = Some e' \<longrightarrow> e \<le> e'"
    "\<forall>k. map_of (evict_one al) k = (if k = v then None else map_of al k)"
    "Suc (length (evict_one al)) = length al" "distinct (map fst (evict_one al))"
proof -
  obtain x xs where al: "al = x # xs" using assms(2) by (cases al) auto
  obtain v e where v: "soonest x xs = (v, e)" by fastforce
  have ve: "(v, e) \<in> set al" and least: "\<forall>y \<in> set al. e \<le> snd y" using soonest_min [of x xs] v al by auto
  have look: "map_of al v = Some e" using ve assms(1) by simp
  moreover have "\<forall>k e'. map_of al k = Some e' \<longrightarrow> e \<le> e'" using least by (metis map_of_SomeD snd_conv)
  moreover have del: "evict_one al = AList.delete v al" using al v by (simp add: evict_one_def)
  moreover have "Suc (length (AList.delete v al)) = length al" using assms(1) look by (rule alist_delete_len)
  ultimately show thesis using assms(1) by (intro that [of v e]) (auto simp: delete_conv' intro: distinct_delete)
qed

definition cache_ok :: "AuthRejectCache \<Rightarrow> bool" where
  "cache_ok C \<longleftrightarrow> distinct (map fst (m_blocked C)) \<and> length (m_blocked C) \<le> MAX_AUTH_REJECT_ENTRIES \<and> 0 < m_ttl C"

text \<open>What a failure does to the entries: expired ones go (at most once a second), one is evicted when a new key
  finds the table full, and the key is blocked from \<open>now\<close> for the time to live.\<close>

lemma record_failure_cases:
  assumes "cache_ok C" "k \<noteq> []"
  obtains B where "B = m_blocked C \<or> B = drop_expired now (m_blocked C)"
    "map_of B k \<noteq> None \<or> length B < MAX_AUTH_REJECT_ENTRIES"
    "map_of (m_blocked (record_failure now k C)) = (map_of B)(k \<mapsto> now + m_ttl C)" "cache_ok (record_failure now k C)"
  | B v e where "B = m_blocked C \<or> B = drop_expired now (m_blocked C)" "map_of B k = None"
    "length B = MAX_AUTH_REJECT_ENTRIES" "map_of B v = Some e" "\<forall>j e'. map_of B j = Some e' \<longrightarrow> e \<le> e'"
    "map_of (m_blocked (record_failure now k C)) = ((map_of B)(v := None))(k \<mapsto> now + m_ttl C)"
    "cache_ok (record_failure now k C)"
proof -
  define B where "B = (if now \<noteq> m_last_sweep C then drop_expired now (m_blocked C) else m_blocked C)"
  have B: "B = m_blocked C \<or> B = drop_expired now (m_blocked C)" "distinct (map fst B)" "length B \<le> MAX_AUTH_REJECT_ENTRIES"
    using assms(1) drop_expired_ok(1) [of "m_blocked C" now] drop_expired_ok(2) [of now "m_blocked C"] by (auto simp: B_def cache_ok_def)
  define full where "full \<longleftrightarrow> map_of B k = None \<and> length B \<ge> MAX_AUTH_REJECT_ENTRIES"
  let ?B2 = "if full then evict_one B else B" and ?C' = "record_failure now k C"
  have r: "m_blocked ?C' = AList.update k (now + m_ttl C) ?B2" "m_ttl ?C' = m_ttl C"
    using assms(2) by (simp_all add: record_failure_def Let_def B_def full_def)
  have keep: "length (AList.update k x al) \<le> (if map_of al k = None then Suc (length al) else length al)" for x al
    by (induction al) auto
  show thesis
  proof (cases full)
    case False
    have "cache_ok ?C'" using B(2,3) False keep [of "now + m_ttl C" B] r assms(1)
      by (auto simp: cache_ok_def full_def distinct_update split: if_splits)
    thus thesis using that(1) [OF B(1)] False r by (auto simp: full_def update_conv')
  next
    case True
    hence ne: "B \<noteq> []" by (auto simp: full_def MAX_AUTH_REJECT_ENTRIES_def)
    obtain v e where v: "map_of B v = Some e" "\<forall>j e'. map_of B j = Some e' \<longrightarrow> e \<le> e'"
      "\<forall>j. map_of (evict_one B) j = (if j = v then None else map_of B j)"
      "Suc (length (evict_one B)) = length B" "distinct (map fst (evict_one B))"
      using B(2) ne by (rule evict_one_lookup)
    have new: "map_of (evict_one B) k = None" using v(3) True by (auto simp: full_def)
    have "cache_ok ?C'" using B(3) v(4,5) True keep [of "now + m_ttl C" "evict_one B"] new r assms(1)
      by (auto simp: cache_ok_def distinct_update)
    moreover have "map_of (evict_one B) = (map_of B)(v := None)" using v(3) by auto
    ultimately show thesis using that(2) [OF B(1) _ _ v(1,2)] True r B(3) by (auto simp: full_def update_conv')
  qed
qed

section \<open>The cache as a transition system\<close>

datatype cache_op = Failure time_s string | Cleanup time_s | Set_ttl time_s

fun cache_do :: "cache_op \<Rightarrow> AuthRejectCache \<Rightarrow> AuthRejectCache" where
  "cache_do (Failure now k) C = record_failure now k C"
| "cache_do (Cleanup now) C = cache_cleanup now C"
| "cache_do (Set_ttl n) C = set_ttl n C"

definition cache_step :: "AuthRejectCache \<Rightarrow> AuthRejectCache \<Rightarrow> bool" where
  "cache_step C C' \<longleftrightarrow> (\<exists>a. C' = cache_do a C)"

lemma record_failure_ok [sls_inv]: "cache_ok C \<Longrightarrow> cache_ok (record_failure now k C)"
  by (cases "k = []", simp add: record_failure_def) (rule record_failure_cases)

lemma cache_do_ok: "cache_ok C \<Longrightarrow> cache_ok (cache_do a C)"
  using drop_expired_ok(1) [of "m_blocked C"] drop_expired_ok(2) [of _ "m_blocked C"] record_failure_ok [of C]
  by (cases a) (auto simp: cache_cleanup_def set_ttl_def cache_ok_def intro: order_trans)

interpretation reject_cache: component "\<lambda>C. \<exists>ttl. C = cache_new ttl" cache_step cache_ok
proof unfold_locales
  show "cache_ok C" if "\<exists>ttl. C = cache_new ttl" for C using that by (auto simp: cache_new_def cache_ok_def)
  show "cache_ok C'" if "cache_ok C" "cache_step C C'" for C C' using that cache_do_ok by (auto simp: cache_step_def)
qed

definition cache_run :: "cache_op list \<Rightarrow> AuthRejectCache \<Rightarrow> AuthRejectCache" where
  "cache_run as C = fold cache_do as C"

lemma cache_run_ok: "cache_ok C \<Longrightarrow> cache_ok (cache_run as C)"
  unfolding cache_run_def by (induction as arbitrary: C) (auto simp: cache_do_ok)

lemma cache_do_entry:
  assumes "cache_ok C" "map_of (m_blocked (cache_do a C)) k = Some e"
  shows "map_of (m_blocked C) k = Some e \<or> (\<exists>t. a = Failure t k \<and> e = t + m_ttl C)"
proof (cases a)
  case (Failure t j)
  show ?thesis
  proof (cases "j = []")
    case True
    thus ?thesis using assms(2) Failure by (simp add: record_failure_def)
  next
    case False
    have sub: "map_of B x = Some y \<Longrightarrow> map_of (m_blocked C) x = Some y"
      if "B = m_blocked C \<or> B = drop_expired t (m_blocked C)" for B x y
      using that assms(1) by (auto simp: cache_ok_def drop_expired_lookup split: option.splits if_splits)
    show ?thesis using assms(1) False
    proof (rule record_failure_cases [of C j t])
      fix B assume B: "B = m_blocked C \<or> B = drop_expired t (m_blocked C)"
        "map_of (m_blocked (record_failure t j C)) = (map_of B)(j \<mapsto> t + m_ttl C)"
      thus ?thesis using assms(2) Failure sub [OF B(1)] by (auto split: if_splits)
    next
      fix B v e' assume B: "B = m_blocked C \<or> B = drop_expired t (m_blocked C)"
        "map_of (m_blocked (record_failure t j C)) = ((map_of B)(v := None))(j \<mapsto> t + m_ttl C)"
      thus ?thesis using assms(2) Failure sub [OF B(1)] by (auto split: if_splits)
    qed
  qed
qed (use assms in \<open>auto simp: cache_cleanup_def set_ttl_def cache_ok_def drop_expired_lookup split: option.splits if_splits\<close>)

lemma cache_run_snoc: "cache_run (as @ [a]) C = cache_do a (cache_run as C)"
  by (simp add: cache_run_def)

lemma cache_run_entry:
  "map_of (m_blocked (cache_run as (cache_new ttl))) k = Some e \<Longrightarrow>
   \<exists>bs t cs. as = bs @ Failure t k # cs \<and> e = t + m_ttl (cache_run bs (cache_new ttl))"
proof (induction as rule: rev_induct)
  case Nil
  thus ?case by (simp add: cache_run_def cache_new_def)
next
  case (snoc a as)
  have ok: "cache_ok (cache_run as (cache_new ttl))" by (rule cache_run_ok) (rule reject_cache.inv_init, blast)
  from cache_do_entry [OF ok, of a k e] snoc.prems show ?case
    unfolding cache_run_snoc using snoc.IH by fastforce
qed

section \<open>Properties\<close>

text \<open>Whatever sequence of failures, sweeps and reconfigurations happens, the cache never holds more than its
  maximum of entries, and never two for one stream.\<close>

theorem reject_cache_bounded:
  assumes "cache_step\<^sup>*\<^sup>* (cache_new ttl) C"
  shows "cache_size C \<le> MAX_AUTH_REJECT_ENTRIES \<and> distinct (map fst (m_blocked C))"
  using reject_cache.inv_reachable [OF _ assms] by (auto simp: cache_ok_def cache_size_def)

theorem reject_cache_bounded_witness:
  "cache_size (record_failure 5 ''a/b/c'' (cache_new 30)) \<le> MAX_AUTH_REJECT_ENTRIES"
proof -
  have "cache_step (cache_new 30) (record_failure 5 ''a/b/c'' (cache_new 30))"
    unfolding cache_step_def by (metis cache_do.simps(1))
  thus ?thesis using reject_cache_bounded [of 30 "record_failure 5 ''a/b/c'' (cache_new 30)"] by blast
qed

text \<open>C34. Only failures block: if a key is blocked at some time, that key failed authorisation earlier in the
  history and the time to live configured then has not yet passed.\<close>

theorem reject_cache_sound:
  assumes "is_blocked now k (cache_run as (cache_new ttl))"
  shows "\<exists>bs t cs. as = bs @ Failure t k # cs \<and> now < t + m_ttl (cache_run bs (cache_new ttl))"
  using assms cache_run_entry [of as ttl k] by (auto simp: is_blocked_def split: if_splits option.splits)

theorem reject_cache_sound_witness:
  "\<exists>bs t cs. [Failure 5 ''a/b/c'', Cleanup 7] = bs @ Failure t ''a/b/c'' # cs \<and>
     8 < t + m_ttl (cache_run bs (cache_new 30))"
  using reject_cache_sound [of 8 "''a/b/c''" "[Failure 5 ''a/b/c'', Cleanup 7]" 30]
  by (simp add: is_blocked_def cache_run_def record_failure_def cache_cleanup_def drop_expired_def cache_new_def
      MAX_AUTH_REJECT_ENTRIES_def)

text \<open>A failure blocks its key from that moment for exactly the time to live, and does not block or unblock
  any other key, except that a new key in a full table takes the place of one whose block ends the soonest.\<close>

theorem record_failure_blocks:
  assumes "cache_ok C" "k \<noteq> []" "now \<le> t"
  shows "(is_blocked t k (record_failure now k C) \<longleftrightarrow> t < now + m_ttl C) \<and>
    (\<exists>v. \<forall>j. j \<noteq> k \<longrightarrow>
      (is_blocked t j (record_failure now k C) \<longleftrightarrow> is_blocked t j C \<and>
        \<not> (v = Some j \<and> cache_size C = MAX_AUTH_REJECT_ENTRIES \<and> map_of (m_blocked C) k = None \<and>
           (\<forall>i e. map_of (m_blocked C) i = Some e \<longrightarrow> now < e \<longrightarrow> the (map_of (m_blocked C) j) \<le> e))))"
proof -
  have look: "is_blocked t j X \<longleftrightarrow> j \<noteq> [] \<and> (\<exists>e. map_of (m_blocked X) j = Some e \<and> t < e)" for j X
    by (auto simp: is_blocked_def split: option.splits)
  have d: "distinct (map fst (m_blocked C))" and len: "length (m_blocked C) \<le> MAX_AUTH_REJECT_ENTRIES"
    using assms(1) by (auto simp: cache_ok_def)
  have B: "map_of B j = Some e \<longleftrightarrow> map_of (m_blocked C) j = Some e"
    if "B = m_blocked C \<or> B = drop_expired now (m_blocked C)" "now < e" for B j e
    using that d by (auto simp: drop_expired_lookup simp del: map_of_eq_Some_iff split: option.splits if_splits)
  show ?thesis using assms(1,2)
  proof (rule record_failure_cases [of C k now])
    fix B assume b: "B = m_blocked C \<or> B = drop_expired now (m_blocked C)"
      "map_of (m_blocked (record_failure now k C)) = (map_of B)(k \<mapsto> now + m_ttl C)"
    have Bt: "(\<exists>e. map_of B j = Some e \<and> t < e) \<longleftrightarrow> (\<exists>e. map_of (m_blocked C) j = Some e \<and> t < e)" for j
      using B [OF b(1)] assms(3) by (meson le_less_trans)
    show ?thesis unfolding look b(2) using assms(2) by (intro conjI exI [of _ None]) (auto simp: Bt)
  next
    fix B v e assume b: "B = m_blocked C \<or> B = drop_expired now (m_blocked C)"
      "map_of B k = None" "length B = MAX_AUTH_REJECT_ENTRIES" "map_of B v = Some e"
      "\<forall>j e'. map_of B j = Some e' \<longrightarrow> e \<le> e'"
      "map_of (m_blocked (record_failure now k C)) = ((map_of B)(v := None))(k \<mapsto> now + m_ttl C)"
    have same: "B = m_blocked C"
      using b(1,3) len by (auto simp: drop_expired_def) (metis filter_id_conv length_filter_less nle_le not_le)
    hence v: "map_of (m_blocked C) v = Some e" "cache_size C = MAX_AUTH_REJECT_ENTRIES" "map_of (m_blocked C) k = None"
        "\<forall>i e'. map_of (m_blocked C) i = Some e' \<longrightarrow> now < e' \<longrightarrow> the (map_of (m_blocked C) v) \<le> e'"
      using b(2-5) by (auto simp: cache_size_def)
    show ?thesis unfolding look b(6) using same v assms(2,3) by (intro conjI exI [of _ "Some v"]) auto
  qed
qed

theorem record_failure_blocks_witness:
  "is_blocked 34 ''a/b/c'' (record_failure 5 ''a/b/c'' (cache_new 30)) \<and>
   \<not> is_blocked 35 ''a/b/c'' (record_failure 5 ''a/b/c'' (cache_new 30))"
proof -
  have "cache_ok (cache_new 30)" by (rule reject_cache.inv_init) blast
  thus ?thesis using record_failure_blocks [of "cache_new 30" "''a/b/c''" 5 34]
      record_failure_blocks [of "cache_new 30" "''a/b/c''" 5 35] by (simp add: cache_new_def)
qed

text \<open>The handshake gate after a failed authorisation: every spelling of the same stream is refused to a
  publisher, with the reason for a blocked stream, until the time to live is over; a player is not affected.\<close>

theorem listen_gate:
  assumes "NUL \<notin> set s" "NUL \<notin> set s'" "sls_validate_sid_format (Some s) = Some True"
    "sls_canonical_sid_key s = Some k" "sid_names s' = sid_names s" "s' \<noteq> []"
    "cache_ok C" "now \<le> t" "t < now + m_ttl C"
  shows "sls_publisher_listen_callback t (Some (record_failure now k C)) (Some s') = Some (-1, Some SRT_REJ_RESOURCE) \<and>
    sls_player_listen_callback (Some s') = Some (0, None)"
proof -
  obtain h a r where s: "s \<noteq> []" "sid_names s = Some (h, a, r)" "sls_is_safe_name (Some h)" "sls_is_safe_name (Some a)"
      "sls_is_safe_name (Some r)" using assms(1,3) validate_iff by blast
  have k: "k = join_with (CHR ''/'') [h, a, r]" using assms(4) canonical_of_names [OF assms(1) s(2,1)] by simp
  have v': "sls_validate_sid_format (Some s') = Some True"
    using validate_iff [OF assms(2)] s assms(5,6) by auto
  have "k \<noteq> []" using k by simp
  hence "is_blocked t k (record_failure now k C)"
    using assms(7,8,9) by (rule_tac record_failure_cases [of C k now]) (auto simp: is_blocked_def)
  thus ?thesis using v' canonical_of_names [OF assms(2) _ assms(6), of h a r] s(2) assms(5) k
    by (simp add: sls_publisher_listen_callback_def sls_player_listen_callback_def)
qed

theorem listen_gate_witness:
  "sls_publisher_listen_callback 30 (Some (record_failure 5 ''a/live/x'' (cache_new 30))) (Some ''#!::r=x,h=a,sls_app=live'')
     = Some (-1, Some SRT_REJ_RESOURCE)"
proof -
  have ok: "cache_ok (cache_new 30)" by (rule reject_cache.inv_init) blast
  have "sls_validate_sid_format (Some ''a/live/x'') = Some True" "sls_canonical_sid_key ''a/live/x'' = Some ''a/live/x''"
    "sid_names ''#!::r=x,h=a,sls_app=live'' = sid_names ''a/live/x''" by code_simp+
  thus ?thesis using listen_gate [of "''a/live/x''" "''#!::r=x,h=a,sls_app=live''" "''a/live/x''" "cache_new 30" 5 30] ok
    by (simp add: cache_new_def)
qed

text \<open>The handshake gate on a malformed or missing stream id: both callbacks refuse it as rogue data,
  without a lookup in the cache; and both callbacks return on every input.\<close>

theorem listen_gate_malformed:
  "(\<exists>r. sls_publisher_listen_callback t cache sid = Some r) \<and> (\<exists>r. sls_player_listen_callback sid = Some r) \<and>
   (sls_validate_sid_format sid = Some False \<longrightarrow>
      sls_publisher_listen_callback t cache sid = Some (-1, Some SRT_REJ_ROGUE) \<and>
      sls_player_listen_callback sid = Some (-1, Some SRT_REJ_ROGUE))"
proof -
  have key: "\<exists>k. sls_canonical_sid_key s = Some k" for s
    using parse_total [of "Some (c_str s)"] by (auto simp: sls_canonical_sid_key_def)
  obtain b where b: "sls_validate_sid_format sid = Some b" using validate_total by blast
  have "b \<Longrightarrow> sid \<noteq> None" using b by (cases sid) (auto simp: sls_validate_sid_format_def)
  moreover obtain k where "sid \<noteq> None \<longrightarrow> sls_canonical_sid_key (the sid) = Some k" using key [of "the sid"] by blast
  ultimately show ?thesis using b
    by (cases sid) (auto simp: sls_publisher_listen_callback_def sls_player_listen_callback_def)
qed

theorem listen_gate_malformed_witness:
  "sls_player_listen_callback (Some ''live/cam'') = Some (-1, Some SRT_REJ_ROGUE)"
proof -
  have "sls_validate_sid_format (Some ''live/cam'') = Some False" by code_simp
  thus ?thesis using listen_gate_malformed [of 0 None "Some ''live/cam''"] by blast
qed

end
