(* ===== verification/Log_Limiter.thy ===== *)
theory Log_Limiter
  imports Prelude
begin

text \<open>The log rate limiter, \<^verbatim>\<open>src/core/SLSLogRateLimiter.cpp\<close>. The counter that triggers the clean-up is a
  function-local static, shared by all limiters, so it is passed in and out. \<open>now\<close> is the clock of the
  call. Counters are unbounded.\<close>

section \<open>State and operations\<close>

record EventStats =
  first_timestamp_ms :: time_ms
  last_timestamp_ms :: time_ms
  last_logged_ms :: time_ms
  ev_count :: int
  total_suppressed :: int

record CSLSLogRateLimiter =
  m_window_ms :: time_ms
  m_threshold :: int
  m_min_interval_ms :: time_ms
  m_events :: "(string \<times> EventStats) list"

definition limiter_new :: "time_ms \<Rightarrow> int \<Rightarrow> time_ms \<Rightarrow> CSLSLogRateLimiter" where
  "limiter_new window_ms threshold min_interval_ms =
     \<lparr> m_window_ms = window_ms, m_threshold = threshold, m_min_interval_ms = min_interval_ms, m_events = [] \<rparr>"

definition cleanup_old_entries :: "time_ms \<Rightarrow> CSLSLogRateLimiter \<Rightarrow> CSLSLogRateLimiter" where
  "cleanup_old_entries now L =
     L\<lparr> m_events := filter (\<lambda>(k, s). \<not> last_timestamp_ms s < now - m_window_ms L * 10) (m_events L) \<rparr>"

definition fresh_stats :: "time_ms \<Rightarrow> EventStats" where
  "fresh_stats now = \<lparr> first_timestamp_ms = now, last_timestamp_ms = now, last_logged_ms = now, ev_count = 1,
     total_suppressed = 0 \<rparr>"

definition should_log ::
  "time_ms \<Rightarrow> string \<Rightarrow> int \<Rightarrow> CSLSLogRateLimiter \<Rightarrow> bool \<times> EventStats \<times> int \<times> CSLSLogRateLimiter" where
  "should_log now key cleanup_counter L =
     (let cc = cleanup_counter + 1;
          (cc, L) = (if cc \<ge> 100 then (0, cleanup_old_entries now L) else (cc, L))
      in case map_of (m_events L) key of
           None \<Rightarrow> (True, fresh_stats now, cc, L\<lparr> m_events := AList.update key (fresh_stats now) (m_events L) \<rparr>)
         | Some s \<Rightarrow>
           if now - first_timestamp_ms s > m_window_ms L
           then (True, fresh_stats now, cc, L\<lparr> m_events := AList.update key (fresh_stats now) (m_events L) \<rparr>)
           else let s1 = s\<lparr> ev_count := ev_count s + 1, last_timestamp_ms := now \<rparr> in
                if ev_count s1 \<le> m_threshold L \<or> now - last_logged_ms s1 \<ge> m_min_interval_ms L
                then let s2 = s1\<lparr> last_logged_ms := now \<rparr> in
                     (True, s2, cc, L\<lparr> m_events := AList.update key (s2\<lparr> total_suppressed := 0 \<rparr>) (m_events L) \<rparr>)
                else let s2 = s1\<lparr> total_suppressed := total_suppressed s1 + 1 \<rparr> in
                     (False, s2, cc, L\<lparr> m_events := AList.update key s2 (m_events L) \<rparr>))"

definition limiter_clear :: "CSLSLogRateLimiter \<Rightarrow> CSLSLogRateLimiter" where
  "limiter_clear L = L\<lparr> m_events := [] \<rparr>"

definition set_window_ms :: "time_ms \<Rightarrow> CSLSLogRateLimiter \<Rightarrow> CSLSLogRateLimiter" where
  "set_window_ms w L = L\<lparr> m_window_ms := w \<rparr>"

definition set_threshold :: "int \<Rightarrow> CSLSLogRateLimiter \<Rightarrow> CSLSLogRateLimiter" where
  "set_threshold n L = L\<lparr> m_threshold := n \<rparr>"

section \<open>One key on its own\<close>

text \<open>What the limiter does for one key, without the table: the abstract machine that the table implements.\<close>

definition key_step :: "CSLSLogRateLimiter \<Rightarrow> EventStats option \<Rightarrow> time_ms \<Rightarrow> bool \<times> EventStats \<times> EventStats" where
  "key_step L st now =
     (case st of
        None \<Rightarrow> (True, fresh_stats now, fresh_stats now)
      | Some s \<Rightarrow>
        if now - first_timestamp_ms s > m_window_ms L then (True, fresh_stats now, fresh_stats now)
        else let s1 = s\<lparr> ev_count := ev_count s + 1, last_timestamp_ms := now \<rparr> in
             if ev_count s + 1 \<le> m_threshold L \<or> now - last_logged_ms s \<ge> m_min_interval_ms L
             then (True, s1\<lparr> last_logged_ms := now \<rparr>, s1\<lparr> last_logged_ms := now, total_suppressed := 0 \<rparr>)
             else (False, s1\<lparr> total_suppressed := total_suppressed s + 1 \<rparr>, s1\<lparr> total_suppressed := total_suppressed s + 1 \<rparr>))"

definition same_config :: "CSLSLogRateLimiter \<Rightarrow> CSLSLogRateLimiter \<Rightarrow> bool" where
  "same_config L L' \<longleftrightarrow> m_window_ms L' = m_window_ms L \<and> m_threshold L' = m_threshold L \<and>
     m_min_interval_ms L' = m_min_interval_ms L"

text \<open>An entry in which the first event is not after the last one.\<close>

definition stats_ok :: "time_ms \<Rightarrow> EventStats \<Rightarrow> bool" where
  "stats_ok now s \<longleftrightarrow> first_timestamp_ms s \<le> last_logged_ms s \<and> last_logged_ms s \<le> last_timestamp_ms s \<and>
     last_timestamp_ms s \<le> now \<and> 1 \<le> ev_count s"

definition limiter_ok :: "time_ms \<Rightarrow> CSLSLogRateLimiter \<Rightarrow> bool" where
  "limiter_ok now L \<longleftrightarrow> 0 \<le> m_window_ms L \<and> distinct (map fst (m_events L)) \<and>
     (\<forall>(k, s) \<in> set (m_events L). stats_ok now s)"

lemma limiter_ok_mono: "limiter_ok now L \<Longrightarrow> now \<le> now' \<Longrightarrow> limiter_ok now' L"
  by (fastforce simp: limiter_ok_def stats_ok_def)

lemma filter_lookup:
  assumes "distinct (map fst al)"
  shows "map_of (filter (\<lambda>(k, s). P s) al) k = (case map_of al k of None \<Rightarrow> None | Some s \<Rightarrow> if P s then Some s else None)"
  using assms by (induction al) (auto simp: map_of_eq_None_iff split: option.splits)

text \<open>The clean-up never changes what the limiter answers: an entry it drops would have been reset anyway.\<close>

lemma cleanup_invisible:
  assumes "limiter_ok now L" "now \<le> t"
  shows "key_step L (map_of (m_events (cleanup_old_entries now L)) k) t = key_step L (map_of (m_events L) k) t"
proof -
  have d: "distinct (map fst (m_events L))" and w: "0 \<le> m_window_ms L" using assms by (auto simp: limiter_ok_def)
  have look: "map_of (m_events (cleanup_old_entries now L)) k =
      (case map_of (m_events L) k of None \<Rightarrow> None
       | Some s \<Rightarrow> if \<not> last_timestamp_ms s < now - m_window_ms L * 10 then Some s else None)"
    unfolding cleanup_old_entries_def by (simp add: filter_lookup [OF d])
  show ?thesis
  proof (cases "map_of (m_events L) k")
    case (Some s)
    hence "stats_ok now s" using assms(1) by (auto simp: limiter_ok_def dest!: map_of_SomeD)
    hence "t - first_timestamp_ms s > m_window_ms L" if "last_timestamp_ms s < now - m_window_ms L * 10"
      using that w assms(2) by (auto simp: stats_ok_def)
    thus ?thesis unfolding look using Some by (auto simp: key_step_def)
  qed (simp add: look)
qed

lemma cleanup_ok:
  assumes "limiter_ok now L"
  shows "limiter_ok now (cleanup_old_entries now L)" "same_config L (cleanup_old_entries now L)"
  using assms by (auto simp: limiter_ok_def cleanup_old_entries_def distinct_map_filter same_config_def)

lemma key_step_ok:
  assumes "key_step L st now = (b, out, s')" "\<forall>s. st = Some s \<longrightarrow> stats_ok now s"
  shows "stats_ok now s'"
  using assms by (auto simp: key_step_def fresh_stats_def stats_ok_def Let_def split: option.splits if_splits)

lemma key_step_config: "same_config L L' \<Longrightarrow> key_step L' st now = key_step L st now"
  by (auto simp: same_config_def key_step_def Let_def split: option.split)

lemma should_log_table:
  "\<exists>L1. (L1 = L \<or> L1 = cleanup_old_entries now L) \<and>
     (case key_step L1 (map_of (m_events L1) key) now of (b, out, s') \<Rightarrow>
        \<exists>cc'. should_log now key cc L = (b, out, cc', L1\<lparr> m_events := AList.update key s' (m_events L1) \<rparr>))"
proof (cases "cc + 1 \<ge> 100")
  case True
  show ?thesis by (rule exI [of _ "cleanup_old_entries now L"])
    (use True in \<open>auto simp: should_log_def key_step_def Let_def split: option.splits\<close>)
next
  case False
  show ?thesis by (rule exI [of _ L])
    (use False in \<open>auto simp: should_log_def key_step_def Let_def split: option.splits\<close>)
qed

text \<open>The table refines the per-key machine: the call answers for its key what the machine answers, stores the
  machine's new state, and other keys cannot tell that the call happened.\<close>

lemma should_log_refines:
  assumes "limiter_ok now L" "should_log now key cc L = (b, out, cc', L')"
    "key_step L (map_of (m_events L) key) now = (b', out', s')"
  shows "b = b' \<and> out = out' \<and> map_of (m_events L') key = Some s' \<and> same_config L L' \<and> limiter_ok now L' \<and>
    (\<forall>k t. k \<noteq> key \<longrightarrow> now \<le> t \<longrightarrow> key_step L (map_of (m_events L') k) t = key_step L (map_of (m_events L) k) t)"
proof -
  obtain L1 where L1: "L1 = L \<or> L1 = cleanup_old_entries now L"
    "case key_step L1 (map_of (m_events L1) key) now of (b, out, s') \<Rightarrow>
       \<exists>cc'. should_log now key cc L = (b, out, cc', L1\<lparr> m_events := AList.update key s' (m_events L1) \<rparr>)"
    using should_log_table [of L now key cc] by (elim exE conjE)
  have ok: "limiter_ok now L1" "same_config L L1" using L1(1) assms(1) cleanup_ok [OF assms(1)] by (auto simp: same_config_def)
  have obs: "key_step L (map_of (m_events L1) k) t = key_step L (map_of (m_events L) k) t" if "now \<le> t" for k t
    using L1(1) cleanup_invisible [OF assms(1) that] by auto
  have ks: "key_step L1 (map_of (m_events L1) key) now = (b', out', s')"
    using obs [of now key] assms(3) key_step_config [OF ok(2)] by simp
  have L': "b = b'" "out = out'" "L' = L1\<lparr> m_events := AList.update key s' (m_events L1) \<rparr>"
    using L1(2) ks assms(2) by auto
  have "\<forall>s. map_of (m_events L1) key = Some s \<longrightarrow> stats_ok now s"
    using ok(1) by (auto simp: limiter_ok_def dest!: map_of_SomeD)
  hence "stats_ok now s'" by (rule key_step_ok [OF ks])
  hence "limiter_ok now L'"
    using ok(1) alist_set_update [of key s' "m_events L1"] by (auto simp: L'(3) limiter_ok_def distinct_update)
  thus ?thesis using L' ok(2) obs by (auto simp: map_of_update same_config_def)
qed

section \<open>How many lines a key can log\<close>

fun key_lines :: "CSLSLogRateLimiter \<Rightarrow> EventStats option \<Rightarrow> time_ms list \<Rightarrow> int" where
  "key_lines L st [] = 0"
| "key_lines L st (t # ts) =
     (case key_step L st t of (b, out, s') \<Rightarrow> (if b then 1 else 0) + key_lines L (Some s') ts)"

lemma div_step: "0 < m \<Longrightarrow> m \<le> t - l \<Longrightarrow> 1 + (T - t) div m \<le> (T - l) div (m :: int)"
  using zdiv_mono1 [of "T - t + m" "T - l" m] by (simp add: div_add_self2)

lemma key_lines_window:
  assumes "0 < m_min_interval_ms L" "stats_ok now s" "sorted (now # ts)" "\<forall>t \<in> set ts. t \<le> T"
    "last_logged_ms s \<le> T" "T \<le> first_timestamp_ms s + m_window_ms L"
  shows "key_lines L (Some s) ts \<le> max 0 (m_threshold L - ev_count s) + (T - last_logged_ms s) div m_min_interval_ms L"
  using assms
proof (induction ts arbitrary: s now)
  case Nil
  thus ?case by (simp add: pos_imp_zdiv_nonneg_iff)
next
  case (Cons t ts)
  let ?mi = "m_min_interval_ms L"
  obtain b out s' where k: "key_step L (Some s) t = (b, out, s')" by (metis prod_cases3)
  have t: "now \<le> t" "t \<le> T" "last_logged_ms s \<le> t" "\<not> m_window_ms L < t - first_timestamp_ms s"
    using Cons.prems by (auto simp: stats_ok_def)
  have ok: "stats_ok t s'" using key_step_ok [OF k] Cons.prems(2) t(1) by (auto simp: stats_ok_def)
  have s': "first_timestamp_ms s' = first_timestamp_ms s" "ev_count s' = ev_count s + 1"
    "last_logged_ms s' = (if b then t else last_logged_ms s)"
    "b \<longleftrightarrow> ev_count s + 1 \<le> m_threshold L \<or> t - last_logged_ms s \<ge> ?mi"
    using k t(4) by (auto simp: key_step_def Let_def split: if_splits)
  have "key_lines L (Some s') ts \<le> max 0 (m_threshold L - ev_count s') + (T - last_logged_ms s') div ?mi"
    using Cons.prems ok s' t by (intro Cons.IH [of t]) auto
  moreover have "(T - t) div ?mi \<le> (T - last_logged_ms s) div ?mi"
    using t(3) Cons.prems(1) by (intro zdiv_mono1) auto
  moreover have "1 + (T - t) div ?mi \<le> (T - last_logged_ms s) div ?mi" if "t - last_logged_ms s \<ge> ?mi"
    using div_step [OF Cons.prems(1) that] .
  ultimately show ?case using k s' by (auto simp: max_def split: if_splits)
qed

lemma key_lines_cong:
  "(\<And>t. t \<in> set ts \<Longrightarrow> key_step L st t = key_step L st' t) \<Longrightarrow> key_lines L st ts = key_lines L st' ts"
  by (cases ts) auto

lemma key_lines_config: "same_config L L' \<Longrightarrow> key_lines L' st ts = key_lines L st ts"
  by (induction ts arbitrary: st) (auto simp: key_step_config split: prod.split)

text \<open>A run of the limiter over events of any keys.\<close>

fun log_run :: "(string \<times> time_ms) list \<Rightarrow> int \<Rightarrow> CSLSLogRateLimiter \<Rightarrow> (string \<times> bool) list" where
  "log_run [] cc L = []"
| "log_run ((k, t) # evs) cc L =
     (case should_log t k cc L of (b, out, cc', L') \<Rightarrow> (k, b) # log_run evs cc' L')"

definition lines_of :: "string \<Rightarrow> (string \<times> bool) list \<Rightarrow> int" where
  "lines_of k out = int (length (filter (\<lambda>x. x = (k, True)) out))"

lemma log_run_lines:
  assumes "limiter_ok now L" "sorted (now # map snd evs)"
  shows "lines_of k (log_run evs cc L) = key_lines L (map_of (m_events L) k) (map snd (filter (\<lambda>e. fst e = k) evs))"
  using assms
proof (induction evs arbitrary: now cc L)
  case Nil
  thus ?case by (simp add: lines_of_def)
next
  case (Cons ev evs)
  obtain j t where ev: "ev = (j, t)" by fastforce
  obtain b out cc' L' where sl: "should_log t j cc L = (b, out, cc', L')" by (metis prod_cases4)
  obtain b' out' s' where ks: "key_step L (map_of (m_events L) j) t = (b', out', s')" by (metis prod_cases3)
  have ok: "limiter_ok t L" using Cons.prems ev by (auto intro: limiter_ok_mono)
  note r = should_log_refines [OF ok sl ks]
  have IH: "lines_of k (log_run evs cc' L') = key_lines L (map_of (m_events L') k) (map snd (filter (\<lambda>e. fst e = k) evs))"
    using Cons.IH [of t L' cc'] Cons.prems(2) ev r key_lines_config [of L L'] by auto
  have later: "\<forall>x \<in> set (map snd (filter (\<lambda>e. fst e = k) evs)). t \<le> x" using Cons.prems(2) ev by auto
  show ?case
  proof (cases "j = k")
    case True
    thus ?thesis using IH ev sl ks r by (simp add: lines_of_def)
  next
    case False
    hence "key_lines L (map_of (m_events L') k) (map snd (filter (\<lambda>e. fst e = k) evs)) =
        key_lines L (map_of (m_events L) k) (map snd (filter (\<lambda>e. fst e = k) evs))"
      using r later by (intro key_lines_cong) auto
    thus ?thesis using IH ev sl False by (simp add: lines_of_def)
  qed
qed

section \<open>Properties\<close>

text \<open>Bounded log volume: whatever else is logged and whenever the table is cleaned up, events of one key that
  fall within one window of its first occurrence produce at most the threshold (at least one line) plus one
  line per minimum interval, however many events there are.\<close>

theorem log_volume_bounded:
  assumes "limiter_ok now L" "sorted (now # map snd evs)" "0 < m_min_interval_ms L" "map_of (m_events L) k = None"
    "\<forall>(j, t) \<in> set evs. t \<le> now + m_window_ms L"
  shows "lines_of k (log_run evs cc L) \<le> max 1 (m_threshold L) + m_window_ms L div m_min_interval_ms L"
proof -
  let ?ts = "map snd (filter (\<lambda>e. fst e = k) evs)" and ?mi = "m_min_interval_ms L"
  have w: "0 \<le> m_window_ms L" using assms(1) by (simp add: limiter_ok_def)
  have bound: "\<forall>t \<in> set ?ts. now \<le> t \<and> t \<le> now + m_window_ms L" using assms(2,5) by auto
  have "key_lines L None ?ts \<le> max 1 (m_threshold L) + m_window_ms L div ?mi"
  proof (cases ?ts)
    case Nil
    thus ?thesis using w assms(3) by (simp add: pos_imp_zdiv_nonneg_iff)
  next
    case (Cons t ts)
    have s: "sorted (t # ts)" using Cons assms(2) by (metis sorted_filter sorted_simps(2))
    have "key_lines L (Some (fresh_stats t)) ts \<le>
        max 0 (m_threshold L - 1) + (now + m_window_ms L - t) div ?mi"
      using key_lines_window [OF assms(3), of t "fresh_stats t" ts "now + m_window_ms L"] s bound Cons
      by (auto simp: fresh_stats_def stats_ok_def)
    moreover have "(now + m_window_ms L - t) div ?mi \<le> m_window_ms L div ?mi"
      using bound Cons assms(3) by (intro zdiv_mono1) auto
    ultimately show ?thesis using Cons by (auto simp: key_step_def max_def)
  qed
  thus ?thesis using log_run_lines [OF assms(1,2)] assms(4) by simp
qed

theorem log_volume_bounded_witness:
  "lines_of ''a'' (log_run [(''a'', 1), (''b'', 2), (''a'', 3), (''a'', 50)] 98 (limiter_new 60 1 20)) \<le> 4"
  using log_volume_bounded [of 0 "limiter_new 60 1 20" "[(''a'', 1), (''b'', 2), (''a'', 3), (''a'', 50)]" "''a''" 98]
  by (simp add: limiter_new_def limiter_ok_def)

end
