(* ===== verification/Bitrate_Limit.thy ===== *)
theory Bitrate_Limit
  imports Prelude
begin

text \<open>The publisher's bitrate limiter, \<^verbatim>\<open>src/core/SLSBitrateLimit.cpp\<close>: a queue of recent reads, their sum, and
  the state of the current violation. The tolerance is a C++ \<^verbatim>\<open>float\<close>; a non-negative float is a pair
  \<open>(m, e)\<close> that stands for \<open>m * 2 ^ e\<close>, and products are rounded to 24 bits, ties to even. Sums of
  bytes are unbounded; the bitrate is narrowed to 32 bits where the code narrows it. The configuration bounds
  (at most 1000000 kbps, 300 seconds, 500 percent) keep the two other \<^verbatim>\<open>int\<close> products in range.\<close>

section \<open>Single precision\<close>

type_synonym f32 = "nat \<times> int"

fun bit_length :: "nat \<Rightarrow> nat" where
  "bit_length n = (if n = 0 then 0 else Suc (bit_length (n div 2)))"

declare bit_length.simps [simp del]

definition round_half_even :: "nat \<Rightarrow> nat \<Rightarrow> nat" where
  "round_half_even n k =
     (let q = n div 2 ^ k; r = n mod 2 ^ k in
      if 2 * r > 2 ^ k \<or> 2 * r = 2 ^ k \<and> odd q then q + 1 else q)"

definition f32_round :: "f32 \<Rightarrow> f32" where
  "f32_round x =
     (case x of (m, e) \<Rightarrow>
        if m < 2 ^ 24 then (m, e)
        else let k = bit_length m - 24 in (round_half_even m k, e + int k))"

definition f32_of_int :: "int \<Rightarrow> f32" where
  "f32_of_int n = f32_round (nat n, 0)"

definition f32_mult :: "f32 \<Rightarrow> f32 \<Rightarrow> f32" where
  "f32_mult x y = f32_round (fst x * fst y, snd x + snd y)"

definition f32_to_int :: "f32 \<Rightarrow> int" where
  "f32_to_int x =
     (case x of (m, e) \<Rightarrow> if 0 \<le> e then int (m * 2 ^ nat e) else int (m div 2 ^ nat (- e)))"

definition f32_less_one :: "f32 \<Rightarrow> bool" where
  "f32_less_one x = (case x of (m, e) \<Rightarrow> if 0 \<le> e then m = 0 else m < 2 ^ nat (- e))"

section \<open>State and operations\<close>

record DataPoint =
  timestamp_ms :: time_ms
  bytes :: int

datatype BitrateCheckResult = BITRATE_OK | BITRATE_VIOLATION | BITRATE_DISCONNECT

record CSLSBitrateLimit =
  m_max_bitrate_kbps :: int
  m_window_ms :: time_ms
  m_spike_tolerance :: f32
  m_violation_threshold_ms :: time_ms
  m_data_window :: "DataPoint list"
  m_total_bytes_in_window :: int
  m_in_violation :: bool
  m_violation_start_time :: time_ms
  m_last_violation_log_time :: time_ms
  m_total_bytes_received :: int
  m_total_bytes_dropped :: int
  m_last_cleanup_time :: time_ms

definition limit_new :: CSLSBitrateLimit where
  "limit_new = \<lparr> m_max_bitrate_kbps = 0, m_window_ms = 5000, m_spike_tolerance = (2, 0),
     m_violation_threshold_ms = 30000, m_data_window = [], m_total_bytes_in_window = 0, m_in_violation = False,
     m_violation_start_time = 0, m_last_violation_log_time = 0, m_total_bytes_received = 0,
     m_total_bytes_dropped = 0, m_last_cleanup_time = 0 \<rparr>"

definition reset_stats :: "time_ms \<Rightarrow> CSLSBitrateLimit \<Rightarrow> CSLSBitrateLimit" where
  "reset_stats now B = B\<lparr> m_total_bytes_received := 0, m_total_bytes_dropped := 0, m_in_violation := False,
     m_violation_start_time := 0, m_last_violation_log_time := 0, m_last_cleanup_time := now \<rparr>"

definition limit_init ::
  "time_ms \<Rightarrow> int \<Rightarrow> int \<Rightarrow> int \<Rightarrow> f32 \<Rightarrow> CSLSBitrateLimit \<Rightarrow> int \<times> CSLSBitrateLimit" where
  "limit_init now max_bitrate_kbps violation_timeout_seconds window_ms spike_tolerance B =
     (if max_bitrate_kbps < 0 \<or> violation_timeout_seconds \<le> 0 \<or> window_ms \<le> 0 \<or> f32_less_one spike_tolerance
      then (SLS_ERROR, B)
      else (SLS_OK, reset_stats now (B\<lparr> m_max_bitrate_kbps := max_bitrate_kbps,
              m_violation_threshold_ms := violation_timeout_seconds * 1000, m_window_ms := window_ms,
              m_spike_tolerance := spike_tolerance, m_data_window := [], m_total_bytes_in_window := 0 \<rparr>)))"

fun drop_older :: "time_ms \<Rightarrow> DataPoint list \<Rightarrow> int \<Rightarrow> DataPoint list \<times> int" where
  "drop_older cutoff [] tot = ([], tot)"
| "drop_older cutoff (p # ps) tot =
     (if timestamp_ms p < cutoff then drop_older cutoff ps (tot - bytes p) else (p # ps, tot))"

definition cleanup_old_data :: "time_ms \<Rightarrow> CSLSBitrateLimit \<Rightarrow> CSLSBitrateLimit" where
  "cleanup_old_data now B =
     (case drop_older (now - m_window_ms B) (m_data_window B) (m_total_bytes_in_window B) of
        (w, tot) \<Rightarrow> B\<lparr> m_data_window := w, m_total_bytes_in_window := tot \<rparr>)"

definition cdiv :: "int \<Rightarrow> int \<Rightarrow> int" where
  "cdiv a b = sgn a * sgn b * (\<bar>a\<bar> div \<bar>b\<bar>)"

definition kbps_of :: "int \<Rightarrow> time_ms \<Rightarrow> int" where
  "kbps_of tot window = signed_take_bit 31 (cdiv (cdiv (tot * 8 * 1000) window) 1000)"

definition effective_window :: "time_ms \<Rightarrow> CSLSBitrateLimit \<Rightarrow> time_ms" where
  "effective_window now B =
     (case m_data_window B of [] \<Rightarrow> m_window_ms B
      | p # ps \<Rightarrow> let actual = now - timestamp_ms p in if actual < m_window_ms B then max 1000 actual else m_window_ms B)"

definition spike_limit :: "CSLSBitrateLimit \<Rightarrow> int" where
  "spike_limit B = f32_to_int (f32_mult (f32_of_int (m_max_bitrate_kbps B)) (m_spike_tolerance B))"

definition check_data_bitrate ::
  "int \<Rightarrow> time_ms \<Rightarrow> CSLSBitrateLimit \<Rightarrow> BitrateCheckResult \<times> CSLSBitrateLimit" where
  "check_data_bitrate data_bytes now B =
     (let B1 = B\<lparr> m_total_bytes_received := m_total_bytes_received B + data_bytes,
                  m_data_window := m_data_window B @ [\<lparr> timestamp_ms = now, bytes = data_bytes \<rparr>],
                  m_total_bytes_in_window := m_total_bytes_in_window B + data_bytes \<rparr>
      in if m_max_bitrate_kbps B1 = 0 then (BITRATE_OK, cleanup_old_data now B1)
         else let B2 = (if now - m_last_cleanup_time B1 > 1000
                        then (cleanup_old_data now B1)\<lparr> m_last_cleanup_time := now \<rparr> else B1);
                  current = kbps_of (m_total_bytes_in_window B2) (effective_window now B2)
              in if current > spike_limit B2
                 then let B3 = (if \<not> m_in_violation B2
                                then B2\<lparr> m_in_violation := True, m_violation_start_time := now,
                                         m_last_violation_log_time := now \<rparr>
                                else if now - m_last_violation_log_time B2 > 2000
                                then B2\<lparr> m_last_violation_log_time := now \<rparr> else B2)
                      in (if now - m_violation_start_time B3 \<ge> m_violation_threshold_ms B3
                          then BITRATE_DISCONNECT else BITRATE_VIOLATION, B3)
                 else (BITRATE_OK, if m_in_violation B2
                                   then B2\<lparr> m_in_violation := False, m_violation_start_time := 0 \<rparr> else B2))"

definition calculate_current_bitrate_kbps :: "time_ms \<Rightarrow> CSLSBitrateLimit \<Rightarrow> int" where
  "calculate_current_bitrate_kbps now B =
     (case m_data_window B of [] \<Rightarrow> 0
      | p # ps \<Rightarrow>
        let actual = now - max (now - m_window_ms B) (timestamp_ms p) in
        if actual \<le> 0 then 0 else kbps_of (m_total_bytes_in_window B) actual)"

record BitrateStats =
  total_bytes_received :: int
  total_bytes_dropped :: int
  current_bitrate_kbps :: int
  average_bitrate_kbps :: int
  is_limiting_active :: bool
  is_in_violation :: bool
  violation_duration_ms :: time_ms

definition limit_get_stats :: "time_ms \<Rightarrow> CSLSBitrateLimit \<Rightarrow> BitrateStats" where
  "limit_get_stats now B =
     (let cur = calculate_current_bitrate_kbps now B in
      \<lparr> total_bytes_received = m_total_bytes_received B, total_bytes_dropped = m_total_bytes_dropped B,
        current_bitrate_kbps = cur, average_bitrate_kbps = cur,
        is_limiting_active = (m_max_bitrate_kbps B > 0 \<and> cur > m_max_bitrate_kbps B),
        is_in_violation = m_in_violation B,
        violation_duration_ms = (if m_in_violation B then now - m_violation_start_time B else 0) \<rparr>)"

section \<open>Runs\<close>

fun limit_run ::
  "(int \<times> time_ms) list \<Rightarrow> CSLSBitrateLimit \<Rightarrow> (BitrateCheckResult \<times> time_ms) list \<times> CSLSBitrateLimit" where
  "limit_run [] B = ([], B)"
| "limit_run ((n, t) # cs) B =
     (case check_data_bitrate n t B of (r, B1) \<Rightarrow> case limit_run cs B1 of (h, B2) \<Rightarrow> ((r, t) # h, B2))"

text \<open>The time of the first call of the unbroken series of violations that ends the history.\<close>

definition violation_began :: "(BitrateCheckResult \<times> time_ms) list \<Rightarrow> time_ms option" where
  "violation_began h =
     (case takeWhile (\<lambda>x. fst x \<noteq> BITRATE_OK) (rev h) of [] \<Rightarrow> None | x # xs \<Rightarrow> Some (snd (last (x # xs))))"

lemma violation_began_snoc:
  "violation_began (h @ [(r, t)]) =
     (if r = BITRATE_OK then None else case violation_began h of None \<Rightarrow> Some t | Some s \<Rightarrow> Some s)"
  by (auto simp: violation_began_def split: list.splits)

lemma cleanup_frame:
  "m_max_bitrate_kbps (cleanup_old_data now B) = m_max_bitrate_kbps B" "m_window_ms (cleanup_old_data now B) = m_window_ms B"
  "m_spike_tolerance (cleanup_old_data now B) = m_spike_tolerance B" "m_in_violation (cleanup_old_data now B) = m_in_violation B"
  "m_violation_threshold_ms (cleanup_old_data now B) = m_violation_threshold_ms B"
  "m_violation_start_time (cleanup_old_data now B) = m_violation_start_time B"
  "m_last_cleanup_time (cleanup_old_data now B) = m_last_cleanup_time B"
  by (simp_all add: cleanup_old_data_def split: prod.split)

text \<open>The violation state of the limiter mirrors the history.\<close>

definition violation_ok :: "(BitrateCheckResult \<times> time_ms) list \<Rightarrow> CSLSBitrateLimit \<Rightarrow> bool" where
  "violation_ok h B \<longleftrightarrow> violation_began h = (if m_in_violation B then Some (m_violation_start_time B) else None)"

definition same_limits :: "CSLSBitrateLimit \<Rightarrow> CSLSBitrateLimit \<Rightarrow> bool" where
  "same_limits B B' \<longleftrightarrow> m_max_bitrate_kbps B' = m_max_bitrate_kbps B \<and> m_window_ms B' = m_window_ms B \<and>
     m_spike_tolerance B' = m_spike_tolerance B \<and> m_violation_threshold_ms B' = m_violation_threshold_ms B"

definition verdict :: "time_ms \<Rightarrow> (BitrateCheckResult \<times> time_ms) list \<Rightarrow> time_ms \<Rightarrow> BitrateCheckResult" where
  "verdict threshold h t =
     (case violation_began h of None \<Rightarrow> BITRATE_OK
      | Some s \<Rightarrow> if threshold \<le> t - s then BITRATE_DISCONNECT else BITRATE_VIOLATION)"

lemma check_violation:
  assumes "check_data_bitrate n t B = (r, B')" "violation_ok h B" "m_max_bitrate_kbps B \<noteq> 0"
  shows "violation_ok (h @ [(r, t)]) B'" "same_limits B B'"
    "r = verdict (m_violation_threshold_ms B) (h @ [(r, t)]) t"
  using assms
  by (auto simp: check_data_bitrate_def Let_def cleanup_frame violation_ok_def violation_began_snoc same_limits_def
      verdict_def split: if_splits)

lemma limit_run_verdict:
  assumes "violation_ok h0 B" "m_max_bitrate_kbps B \<noteq> 0" "fst (limit_run cs B) = h @ (r, t) # h'"
  shows "r = verdict (m_violation_threshold_ms B) (h0 @ h @ [(r, t)]) t"
  using assms
proof (induction cs arbitrary: B h0 h)
  case (Cons c cs)
  obtain n u where c: "c = (n, u)" by fastforce
  obtain q B1 where k: "check_data_bitrate n u B = (q, B1)" by fastforce
  note v = check_violation [OF k Cons.prems(1,2)]
  obtain hs B2 where run: "limit_run cs B1 = (hs, B2)" by fastforce
  have eq: "(q, u) # hs = h @ (r, t) # h'" using Cons.prems(3) c k run by simp
  show ?case
  proof (cases h)
    case Nil
    thus ?thesis using eq v(3) by simp
  next
    case (Cons x xs)
    have "m_max_bitrate_kbps B1 \<noteq> 0" "m_violation_threshold_ms B1 = m_violation_threshold_ms B"
      using v(2) Cons.prems(2) by (auto simp: same_limits_def)
    thus ?thesis using Cons.IH [OF v(1), of xs] eq run Cons by simp
  qed
qed simp

section \<open>The window\<close>

definition points :: "(int \<times> time_ms) list \<Rightarrow> DataPoint list" where
  "points cs = map (\<lambda>(n, t). \<lparr> timestamp_ms = t, bytes = n \<rparr>) cs"

lemma drop_older_spec:
  assumes "drop_older c ps tot = (w, tot')"
  shows "w = dropWhile (\<lambda>p. timestamp_ms p < c) ps" "tot' - sum_list (map bytes w) = tot - sum_list (map bytes ps)"
  using assms by (induction c ps tot arbitrary: w tot' rule: drop_older.induct) (auto split: if_splits)

text \<open>The queue is the end of the sequence of calls; what left it is older than the window, what is in it is not
  older than the window was at the last clean-up; the sum is exact.\<close>

definition window_ok :: "(int \<times> time_ms) list \<Rightarrow> time_ms \<Rightarrow> CSLSBitrateLimit \<Rightarrow> bool" where
  "window_ok cs now B \<longleftrightarrow>
     (\<exists>old. points cs = old @ m_data_window B \<and> (\<forall>p \<in> set old. timestamp_ms p < now - m_window_ms B)) \<and>
     m_total_bytes_in_window B = sum_list (map bytes (m_data_window B)) \<and>
     (\<forall>p \<in> set (m_data_window B). m_last_cleanup_time B - m_window_ms B \<le> timestamp_ms p) \<and>
     m_last_cleanup_time B \<le> now \<and> sorted (map snd cs) \<and> (\<forall>x \<in> set cs. snd x \<le> now) \<and> 0 < m_window_ms B"

lemma window_cong:
  assumes "window_ok cs now B" "m_data_window B' = m_data_window B" "m_window_ms B' = m_window_ms B"
    "m_total_bytes_in_window B' = m_total_bytes_in_window B" "m_last_cleanup_time B' = m_last_cleanup_time B"
  shows "window_ok cs now B'"
  using assms by (simp add: window_ok_def)

lemma window_append:
  assumes "window_ok cs now B" "now \<le> t" "m_data_window B' = m_data_window B @ [\<lparr> timestamp_ms = t, bytes = n \<rparr>]"
    "m_window_ms B' = m_window_ms B" "m_total_bytes_in_window B' = m_total_bytes_in_window B + n"
    "m_last_cleanup_time B' = m_last_cleanup_time B"
  shows "window_ok (cs @ [(n, t)]) t B'"
proof -
  obtain old where "points cs = old @ m_data_window B" "\<forall>p \<in> set old. timestamp_ms p < now - m_window_ms B"
    using assms(1) by (auto simp: window_ok_def)
  hence "points (cs @ [(n, t)]) = old @ m_data_window B'" "\<forall>p \<in> set old. timestamp_ms p < t - m_window_ms B'"
    using assms(2-4) by (auto simp: points_def)
  thus ?thesis using assms by (fastforce simp: window_ok_def sorted_append)
qed

lemma dropWhile_sorted_all:
  assumes "sorted (map f ps)" "p \<in> set (dropWhile (\<lambda>x. f x < c) ps)"
  shows "c \<le> (f p :: int)"
  using assms by (induction ps) (auto split: if_splits)

lemma window_cleanup:
  assumes "window_ok cs t B"
  shows "window_ok cs t ((cleanup_old_data t B)\<lparr> m_last_cleanup_time := t \<rparr>)"
proof -
  obtain w tot where d: "drop_older (t - m_window_ms B) (m_data_window B) (m_total_bytes_in_window B) = (w, tot)" by fastforce
  obtain old where old: "points cs = old @ m_data_window B" "\<forall>p \<in> set old. timestamp_ms p < t - m_window_ms B"
    using assms by (auto simp: window_ok_def)
  let ?P = "\<lambda>p. timestamp_ms p < t - m_window_ms B"
  have w: "w = dropWhile ?P (m_data_window B)" "tot = sum_list (map bytes w)"
    using drop_older_spec [OF d] assms by (auto simp: window_ok_def)
  have "map timestamp_ms (points cs) = map snd cs" by (auto simp: points_def)
  hence "sorted (map timestamp_ms old @ map timestamp_ms (m_data_window B))"
    using assms old(1) by (simp add: window_ok_def)
  hence "sorted (map timestamp_ms (m_data_window B))" by (simp only: sorted_append)
  hence young: "\<forall>p \<in> set w. t - m_window_ms B \<le> timestamp_ms p" using w(1) dropWhile_sorted_all by metis
  have "points cs = (old @ takeWhile ?P (m_data_window B)) @ w" using old(1) w(1) by simp
  moreover have "\<forall>p \<in> set (old @ takeWhile ?P (m_data_window B)). timestamp_ms p < t - m_window_ms B"
    using old(2) by (auto dest: set_takeWhileD)
  ultimately show ?thesis using young w(2) assms d
    by (auto simp: window_ok_def cleanup_old_data_def)
qed

text \<open>A check of a configured limiter: the read joins the window, old reads may leave, and the verdict compares the
  window's bitrate with the limit.\<close>

lemma check_frame:
  assumes "check_data_bitrate n t B = (r, B')" "m_max_bitrate_kbps B \<noteq> 0"
  obtains B1 B2 where "m_data_window B1 = m_data_window B @ [\<lparr> timestamp_ms = t, bytes = n \<rparr>]"
    "m_window_ms B1 = m_window_ms B" "m_total_bytes_in_window B1 = m_total_bytes_in_window B + n"
    "m_last_cleanup_time B1 = m_last_cleanup_time B" "same_limits B B1"
    "B2 = (if t - m_last_cleanup_time B > 1000 then (cleanup_old_data t B1)\<lparr> m_last_cleanup_time := t \<rparr> else B1)"
    "m_data_window B' = m_data_window B2" "m_window_ms B' = m_window_ms B2"
    "m_total_bytes_in_window B' = m_total_bytes_in_window B2" "m_last_cleanup_time B' = m_last_cleanup_time B2"
    "r \<noteq> BITRATE_OK \<longleftrightarrow> kbps_of (m_total_bytes_in_window B2) (effective_window t B2) > spike_limit B2"
proof -
  define B1 where "B1 = B\<lparr> m_total_bytes_received := m_total_bytes_received B + n,
      m_data_window := m_data_window B @ [\<lparr> timestamp_ms = t, bytes = n \<rparr>],
      m_total_bytes_in_window := m_total_bytes_in_window B + n \<rparr>"
  define B2 where "B2 = (if t - m_last_cleanup_time B1 > 1000
      then (cleanup_old_data t B1)\<lparr> m_last_cleanup_time := t \<rparr> else B1)"
  have "m_data_window B' = m_data_window B2" "m_window_ms B' = m_window_ms B2"
      "m_total_bytes_in_window B' = m_total_bytes_in_window B2" "m_last_cleanup_time B' = m_last_cleanup_time B2"
      "r \<noteq> BITRATE_OK \<longleftrightarrow> kbps_of (m_total_bytes_in_window B2) (effective_window t B2) > spike_limit B2"
    using assms unfolding check_data_bitrate_def Let_def B1_def [symmetric] B2_def [symmetric]
    by (auto simp: B1_def split: if_splits)
  thus thesis by (intro that [of B1 B2]) (simp_all add: B1_def B2_def same_limits_def)
qed

lemma check_window:
  assumes "window_ok cs now B" "now \<le> t" "check_data_bitrate n t B = (r, B')" "m_max_bitrate_kbps B \<noteq> 0"
  shows "window_ok (cs @ [(n, t)]) t B' \<and> t - m_last_cleanup_time B' \<le> 1000"
  using assms(3,4)
proof (rule check_frame)
  fix B1 B2
  assume B1: "m_data_window B1 = m_data_window B @ [\<lparr> timestamp_ms = t, bytes = n \<rparr>]" "m_window_ms B1 = m_window_ms B"
      "m_total_bytes_in_window B1 = m_total_bytes_in_window B + n" "m_last_cleanup_time B1 = m_last_cleanup_time B"
    and B2: "B2 = (if t - m_last_cleanup_time B > 1000 then (cleanup_old_data t B1)\<lparr> m_last_cleanup_time := t \<rparr> else B1)"
    and B': "m_data_window B' = m_data_window B2" "m_window_ms B' = m_window_ms B2"
      "m_total_bytes_in_window B' = m_total_bytes_in_window B2" "m_last_cleanup_time B' = m_last_cleanup_time B2"
  have "window_ok (cs @ [(n, t)]) t B1" using assms(1,2) B1 by (rule window_append)
  hence "window_ok (cs @ [(n, t)]) t B2" "t - m_last_cleanup_time B2 \<le> 1000"
    using window_cleanup B1(4) by (auto simp: B2)
  thus ?thesis using window_cong [of "cs @ [(n, t)]" t B2 B'] B' by simp
qed

lemma limit_run_window:
  assumes "window_ok cs0 now B" "sorted (now # map snd cs)" "m_max_bitrate_kbps B \<noteq> 0" "cs \<noteq> []" "limit_run cs B = (h, B')"
  shows "window_ok (cs0 @ cs) (snd (last cs)) B' \<and> snd (last cs) - m_last_cleanup_time B' \<le> 1000 \<and> same_limits B B'"
  using assms
proof (induction cs arbitrary: cs0 now B h)
  case (Cons c cs)
  obtain n t where c: "c = (n, t)" by fastforce
  obtain r B1 where k: "check_data_bitrate n t B = (r, B1)" by fastforce
  have lim: "same_limits B B1"
    using k by (auto simp: check_data_bitrate_def Let_def cleanup_frame same_limits_def split: if_splits)
  have w: "window_ok (cs0 @ [(n, t)]) t B1 \<and> t - m_last_cleanup_time B1 \<le> 1000"
    using check_window [OF Cons.prems(1) _ k Cons.prems(3)] Cons.prems(2) c by simp
  obtain h1 B2 where run: "limit_run cs B1 = (h1, B2)" by fastforce
  have B': "B' = B2" using Cons.prems(5) c k run by simp
  show ?case
  proof (cases "cs = []")
    case True
    thus ?thesis using w lim run B' c by simp
  next
    case False
    thus ?thesis using Cons.IH [of "cs0 @ [(n, t)]" t B1 h1] w lim run B' c Cons.prems(2,3)
      by (auto simp: same_limits_def)
  qed
qed simp

lemma limit_init_ok:
  assumes "limit_init now kbps secs win tol B0 = (SLS_OK, B)"
  shows "window_ok [] now B" "violation_ok [] B" "m_max_bitrate_kbps B = kbps" "m_window_ms B = win" "0 < win"
    "m_violation_threshold_ms B = secs * 1000" "0 \<le> kbps" "m_spike_tolerance B = tol" "\<not> f32_less_one tol"
  using assms
  by (auto simp: limit_init_def reset_stats_def window_ok_def violation_ok_def violation_began_def points_def sls_codes
      split: if_splits)

section \<open>Rounding\<close>

lemma bit_length_bounds: "0 < n \<Longrightarrow> 2 ^ (bit_length n - 1) \<le> n \<and> n < 2 ^ bit_length n"
proof (induction n rule: bit_length.induct)
  case (1 n)
  show ?case
  proof (cases "n div 2 = 0")
    case True
    thus ?thesis using 1(2) by (simp add: bit_length.simps [of n] bit_length.simps [of 0] div_eq_0_iff)
  next
    case False
    hence b: "2 ^ (bit_length (n div 2) - 1) \<le> n div 2" "n div 2 < 2 ^ bit_length (n div 2)" using 1 by auto
    obtain k where k: "bit_length (n div 2) = Suc k" using False by (simp add: bit_length.simps [of "n div 2"])
    have "bit_length n = Suc (Suc k)" using 1(2) k by (simp add: bit_length.simps [of n])
    thus ?thesis using b k by (simp, linarith)
  qed
qed

text \<open>Rounding to 24 bits never goes below an integer of less than 24 bits that the exact value reaches.\<close>

lemma f32_round_ge:
  assumes "k < 2 ^ 24" "int k \<le> f32_to_int (m, e)"
  shows "int k \<le> f32_to_int (f32_round (m, e))"
proof (cases "m < 2 ^ 24")
  case False
  define j where "j = bit_length m - 24"
  have bl: "2 ^ (bit_length m - 1) \<le> m" "m < 2 ^ bit_length m" using bit_length_bounds [of m] False by auto
  have "(2 :: nat) ^ 24 < 2 ^ bit_length m" using False bl(2) by (meson le_less_trans linorder_not_less)
  hence "24 < bit_length m" by (rule power_less_imp_less_exp [rotated]) simp
  hence j: "bit_length m - 1 = 23 + j" unfolding j_def by simp
  have q0: "m div 2 ^ j \<le> round_half_even m j" by (simp add: round_half_even_def Let_def)
  have r: "f32_round (m, e) = (round_half_even m j, e + int j)" using False by (simp add: f32_round_def j_def Let_def)
  have big: "2 ^ 23 \<le> m div 2 ^ j"
  proof -
    have "(2 :: nat) ^ 23 = 2 ^ (23 + j) div 2 ^ j" unfolding power_add by (rule nonzero_mult_div_cancel_right [symmetric]) simp
    also have "\<dots> \<le> m div 2 ^ j" using bl(1) unfolding j by (rule div_le_mono)
    finally show ?thesis .
  qed
  show ?thesis
  proof (cases "e + int j \<le> 0")
    case neg: True
    hence e: "nat (- e) = nat (- (e + int j)) + j" "e \<le> 0" by auto
    have k: "k \<le> m div 2 ^ nat (- e)" using assms(2) e(2) by (cases "e = 0") (auto simp: f32_to_int_def)
    also have "\<dots> = m div 2 ^ j div 2 ^ nat (- (e + int j))"
      unfolding e(1) by (simp add: power_add div_mult2_eq mult.commute)
    also have "\<dots> \<le> round_half_even m j div 2 ^ nat (- (e + int j))" using q0 by (rule div_le_mono)
    finally show ?thesis unfolding r using neg by (cases "e + int j = 0") (auto simp: f32_to_int_def)
  next
    case False
    hence "(2 :: nat) ^ 1 \<le> 2 ^ nat (e + int j)" by (intro power_increasing) auto
    hence "2 ^ 23 * 2 \<le> round_half_even m j * 2 ^ nat (e + int j)"
      using big q0 by (intro mult_le_mono) auto
    hence "k \<le> round_half_even m j * 2 ^ nat (e + int j)" using assms(1) by simp
    hence le: "int k \<le> int (round_half_even m j * 2 ^ nat (e + int j))" by (simp only: of_nat_le_iff)
    have pos: "0 \<le> e + int j" using False by simp
    show ?thesis unfolding r f32_to_int_def prod.case if_P [OF pos] by (rule le)
  qed
qed (use assms in \<open>simp add: f32_round_def\<close>)

lemma spike_limit_ge:
  assumes "0 \<le> m_max_bitrate_kbps B" "m_max_bitrate_kbps B < 2 ^ 24" "\<not> f32_less_one (m_spike_tolerance B)"
  shows "m_max_bitrate_kbps B \<le> spike_limit B"
proof -
  obtain m e where t: "m_spike_tolerance B = (m, e)" by fastforce
  let ?k = "nat (m_max_bitrate_kbps B)"
  have k: "?k < 2 ^ 24" using assms(1,2) by (simp add: nat_less_iff)
  have conv: "f32_of_int (m_max_bitrate_kbps B) = (?k, 0)" using k by (simp add: f32_of_int_def f32_round_def)
  have "int ?k \<le> f32_to_int (?k * m, e)"
  proof (cases "0 \<le> e")
    case True
    hence "1 \<le> m * 2 ^ nat e" using assms(3) t by (simp add: f32_less_one_def)
    hence "?k * 1 \<le> ?k * (m * 2 ^ nat e)" by (rule mult_le_mono2)
    hence "int ?k \<le> int (?k * m * 2 ^ nat e)" by (simp only: of_nat_le_iff mult.assoc mult_1_right)
    thus ?thesis unfolding f32_to_int_def prod.case if_P [OF True] .
  next
    case False
    hence m: "2 ^ nat (- e) \<le> m" using assms(3) t by (simp add: f32_less_one_def)
    have "?k = ?k * 2 ^ nat (- e) div 2 ^ nat (- e)" by simp
    also have "\<dots> \<le> ?k * m div 2 ^ nat (- e)" using m by (intro div_le_mono mult_le_mono2)
    finally show ?thesis unfolding f32_to_int_def prod.case if_not_P [OF False] by (simp only: of_nat_le_iff)
  qed
  hence "int ?k \<le> f32_to_int (f32_round (?k * m, e))" by (rule f32_round_ge [OF k])
  thus ?thesis using assms(1) unfolding spike_limit_def conv t f32_mult_def by simp
qed

section \<open>Properties\<close>

lemmas limit_eval = check_data_bitrate_def limit_init_def limit_new_def reset_stats_def cleanup_old_data_def Let_def
  kbps_of_def effective_window_def spike_limit_def f32_mult_def f32_of_int_def f32_round_def f32_to_int_def
  f32_less_one_def cdiv_def signed_take_bit_eq_if_positive

text \<open>C25. Disconnection is exact: in every run of a configured limiter, a read is answered OK when it ends no
  violation, and otherwise DISCONNECT precisely when the unbroken series of violations it belongs to began at
  least the configured timeout ago; one read within the limit starts the clock anew.\<close>

theorem limit_disconnect_exact:
  assumes "limit_init t0 kbps secs win tol B0 = (SLS_OK, B)" "0 < kbps" "fst (limit_run cs B) = h @ (r, t) # h'"
  shows "r = (case violation_began (h @ [(r, t)]) of None \<Rightarrow> BITRATE_OK
     | Some s \<Rightarrow> if secs * 1000 \<le> t - s then BITRATE_DISCONNECT else BITRATE_VIOLATION)"
  using limit_run_verdict [OF limit_init_ok(2) [OF assms(1)], of cs h r t h'] limit_init_ok(3,6) [OF assms(1)] assms(2,3)
  by (simp add: verdict_def)

theorem limit_disconnect_exact_witness:
  "fst (limit_run [(500000, 1000), (500000, 1500), (10, 3100)] (snd (limit_init 0 1000 2 5000 (1, 0) limit_new))) =
     [(BITRATE_VIOLATION, 1000), (BITRATE_VIOLATION, 1500), (BITRATE_DISCONNECT, 3100)] \<and>
   BITRATE_DISCONNECT = (if 2 * 1000 \<le> 3100 - (1000 :: int) then BITRATE_DISCONNECT else BITRATE_VIOLATION)"
proof -
  have run: "fst (limit_run [(500000, 1000), (500000, 1500), (10, 3100)] (snd (limit_init 0 1000 2 5000 (1, 0) limit_new))) =
     [(BITRATE_VIOLATION, 1000), (BITRATE_VIOLATION, 1500), (BITRATE_DISCONNECT, 3100)]"
    by (simp add: limit_eval)
  have "limit_init 0 1000 2 5000 (1, 0) limit_new = (SLS_OK, snd (limit_init 0 1000 2 5000 (1, 0) limit_new))"
    by (simp add: limit_init_def f32_less_one_def)
  from limit_disconnect_exact [OF this, of "[(500000, 1000), (500000, 1500), (10, 3100)]"
      "[(BITRATE_VIOLATION, 1000), (BITRATE_VIOLATION, 1500)]" BITRATE_DISCONNECT 3100 "[]"] run
  show ?thesis by (simp add: violation_began_def)
qed

text \<open>The averaging window: after any run of calls in time order the queue is an end segment of the reads, it
  has every read of the last window and none older than one second more, and the running sum is exactly the
  sum of its bytes.\<close>

theorem limit_window_exact:
  assumes "limit_init t0 kbps secs win tol B0 = (SLS_OK, B)" "0 < kbps" "limit_run cs B = (h, B')" "cs \<noteq> []"
    "sorted (t0 # map snd cs)"
  shows "\<exists>old. points cs = old @ m_data_window B' \<and>
    (\<forall>p \<in> set old. timestamp_ms p < snd (last cs) - win) \<and>
    (\<forall>p \<in> set (m_data_window B'). snd (last cs) - win - 1000 \<le> timestamp_ms p) \<and>
    m_total_bytes_in_window B' = sum_list (map bytes (m_data_window B'))"
proof -
  note i = limit_init_ok [OF assms(1)]
  have "window_ok ([] @ cs) (snd (last cs)) B' \<and> snd (last cs) - m_last_cleanup_time B' \<le> 1000 \<and> same_limits B B'"
    using i(1,3) assms by (intro limit_run_window [of "[]" t0]) auto
  thus ?thesis using i(4) by (fastforce simp: window_ok_def same_limits_def)
qed

theorem limit_window_exact_witness:
  "\<exists>old. points [(500, 1000), (400, 3000), (10, 9000)] = old @
     m_data_window (snd (limit_run [(500, 1000), (400, 3000), (10, 9000)] (snd (limit_init 0 1000 2 5000 (1, 0) limit_new))))"
proof -
  let ?B = "snd (limit_init 0 1000 2 5000 (1, 0) limit_new)" and ?cs = "[(500, 1000), (400, 3000), (10, 9000)]"
  have "limit_init 0 1000 2 5000 (1, 0) limit_new = (SLS_OK, ?B)" by (simp add: limit_init_def f32_less_one_def)
  from limit_window_exact [OF this _ prod.collapse [symmetric], of ?cs] show ?thesis by auto
qed

text \<open>Fairness of the limit: the rounded product with the tolerance is never below the configured bitrate (for
  bitrates below 2 to the 24 kbps, far above the configurable maximum), so a read is a violation only when the
  measured bitrate exceeds the configured one; and with no limit configured every read is OK.\<close>

theorem limit_never_punishes_compliance:
  assumes "limit_init t0 kbps secs win tol B0 = (SLS_OK, B)" "kbps < 2 ^ 24"
    "same_limits B X" "check_data_bitrate n t X = (r, X')"
    "kbps_of (m_total_bytes_in_window X') (effective_window t X') \<le> kbps \<or> kbps = 0"
  shows "r = BITRATE_OK"
proof -
  note i = limit_init_ok [OF assms(1)]
  have X: "m_max_bitrate_kbps X = kbps" "m_spike_tolerance X = tol" using i(3,8) assms(3) by (auto simp: same_limits_def)
  have le: "m_max_bitrate_kbps Y \<le> spike_limit Y" if "m_max_bitrate_kbps Y = kbps" "m_spike_tolerance Y = tol" for Y
    using spike_limit_ge [of Y] that i(7,9) assms(2) by simp
  show ?thesis
  proof (cases "kbps = 0")
    case True
    thus ?thesis using assms(4) X(1) by (simp add: check_data_bitrate_def Let_def)
  next
    case False
    hence "m_max_bitrate_kbps X \<noteq> 0" using X(1) by simp
    with assms(4) show ?thesis
    proof (rule check_frame)
      fix B1 B2
      assume B: "same_limits X B1"
          "B2 = (if t - m_last_cleanup_time X > 1000 then (cleanup_old_data t B1)\<lparr> m_last_cleanup_time := t \<rparr> else B1)"
        and X': "m_data_window X' = m_data_window B2" "m_window_ms X' = m_window_ms B2"
          "m_total_bytes_in_window X' = m_total_bytes_in_window B2"
        and r: "r \<noteq> BITRATE_OK \<longleftrightarrow> kbps_of (m_total_bytes_in_window B2) (effective_window t B2) > spike_limit B2"
      have "effective_window t B2 = effective_window t X'" unfolding effective_window_def X' ..
      moreover have "kbps \<le> spike_limit B2"
        using le [of B2] B X by (simp add: same_limits_def cleanup_frame)
      ultimately show ?thesis using r X'(3) assms(5) False by (metis not_le order_trans)
    qed
  qed
qed

theorem limit_never_punishes_compliance_witness:
  "fst (check_data_bitrate 100 10 (snd (limit_init 0 1000 2 5000 (1, 0) limit_new))) = BITRATE_OK"
proof -
  let ?B = "snd (limit_init 0 1000 2 5000 (1, 0) limit_new)"
  have "limit_init 0 1000 2 5000 (1, 0) limit_new = (SLS_OK, ?B)" by (simp add: limit_init_def f32_less_one_def)
  from limit_never_punishes_compliance [OF this _ _ prod.collapse [symmetric], of ?B 100 10] show ?thesis
    by (simp add: same_limits_def limit_eval)
qed

end
