(* ===== verification/Sls_Array.thy ===== *)
theory Sls_Array
  imports Recycle_Array
begin

text \<open>The growing byte queue of the file reader, \<^verbatim>\<open>src/core/SLSArray.cpp\<close>. \<^verbatim>\<open>new uint8_t[n]\<close> has unspecified
  contents, so allocation is a parameter \<open>alloc\<close>, of which only the length of its result is used. A copy
  outside of its objects is the result \<^const>\<open>None\<close>.\<close>

section \<open>State and operations\<close>

record CSLSArray =
  arr_data :: "buffer option"
  arr_size :: int
  arr_count :: int
  arr_wpos :: int
  arr_rpos :: int

definition ARRAY_DEFAULT_SIZE :: int where
  "ARRAY_DEFAULT_SIZE = 4096"

definition array_new :: "(nat \<Rightarrow> buffer) \<Rightarrow> CSLSArray" where
  "array_new alloc = \<lparr> arr_data = Some (alloc (nat ARRAY_DEFAULT_SIZE)), arr_size = ARRAY_DEFAULT_SIZE,
     arr_count = 0, arr_wpos = 0, arr_rpos = 0 \<rparr>"

definition array_delete :: "CSLSArray \<Rightarrow> CSLSArray" where
  "array_delete A = A\<lparr> arr_data := None \<rparr>"

definition array_setSize :: "(nat \<Rightarrow> buffer) \<Rightarrow> int \<Rightarrow> CSLSArray \<Rightarrow> CSLSArray option" where
  "array_setSize alloc n A =
     (if n < 0 then None
      else Some (A\<lparr> arr_size := n, arr_wpos := 0, arr_rpos := 0, arr_count := 0, arr_data := Some (alloc (nat n)) \<rparr>))"

definition array_clear :: "CSLSArray \<Rightarrow> CSLSArray" where
  "array_clear A = A\<lparr> arr_wpos := 0, arr_rpos := 0, arr_count := 0 \<rparr>"

definition array_get_inline :: "buffer \<Rightarrow> int \<Rightarrow> CSLSArray \<Rightarrow> (int \<times> buffer \<times> CSLSArray) option" where
  "array_get_inline data sz A =
     (case arr_data A of
        None \<Rightarrow> Some (SLS_ERROR, data, A)
      | Some arr \<Rightarrow>
        if arr_count A = 0 then Some (SLS_OK, data, A)
        else do {
          (n, data', rpos) \<leftarrow>
            (if arr_rpos A < arr_wpos A then do {
               let ready = arr_wpos A - arr_rpos A;
               let n = (if ready \<le> sz then ready else sz);
               d \<leftarrow> memcpy data 0 arr (arr_rpos A) n;
               Some (n, d, arr_rpos A + n)
             } else do {
               let ready = arr_size A - arr_rpos A + arr_wpos A;
               let n = (if ready \<le> sz then ready else sz);
               if arr_size A - arr_rpos A \<ge> n then do {
                 d \<leftarrow> memcpy data 0 arr (arr_rpos A) n;
                 Some (n, d, arr_rpos A + n)
               } else do {
                 d \<leftarrow> memcpy data 0 arr (arr_rpos A) (arr_size A - arr_rpos A);
                 e \<leftarrow> memcpy d (arr_size A - arr_rpos A) arr 0 (n - (arr_size A - arr_rpos A));
                 Some (n, e, n - (arr_size A - arr_rpos A))
               }
             });
          let rpos = (if rpos = arr_size A then 0 else rpos);
          let rpos = (if rpos > arr_size A then 0 else rpos);
          Some (n, data', A\<lparr> arr_rpos := rpos, arr_count := arr_count A - n \<rparr>)
        })"

definition array_get :: "buffer \<Rightarrow> int \<Rightarrow> CSLSArray \<Rightarrow> (int \<times> buffer \<times> CSLSArray) option" where
  "array_get data sz A = array_get_inline data sz A"

definition array_put :: "(nat \<Rightarrow> buffer) \<Rightarrow> buffer option \<Rightarrow> int \<Rightarrow> CSLSArray \<Rightarrow> (int \<times> CSLSArray) option" where
  "array_put alloc data len A =
     (if data = None \<or> len \<le> 0 then Some (SLS_ERROR, A)
      else do {
        src \<leftarrow> data;
        if len > arr_size A - arr_count A then do {
          let ext_len = arr_size A + (if ARRAY_DEFAULT_SIZE \<ge> len then ARRAY_DEFAULT_SIZE else len);
          (re, ext, A1) \<leftarrow> array_get_inline (alloc (nat ext_len)) (arr_count A) A;
          ext' \<leftarrow> memcpy ext re src 0 len;
          Some (len, A1\<lparr> arr_data := Some ext', arr_size := ext_len, arr_wpos := 0, arr_rpos := 0,
                         arr_count := re + len \<rparr>)
        } else do {
          arr \<leftarrow> arr_data A;
          (arr', wpos) \<leftarrow>
            (if arr_size A - arr_wpos A \<ge> len then do {
               a \<leftarrow> memcpy arr (arr_wpos A) src 0 len;
               Some (a, arr_wpos A + len)
             } else do {
               let first_len = arr_size A - arr_wpos A;
               a \<leftarrow> memcpy arr (arr_wpos A) src 0 first_len;
               b \<leftarrow> memcpy a 0 src first_len (len - first_len);
               Some (b, len - first_len)
             });
          let wpos' = (if wpos = arr_size A then 0 else wpos);
          Some (len, A\<lparr> arr_data := Some arr', arr_wpos := wpos', arr_count := arr_count A + len \<rparr>)
        }
      })"

section \<open>The queue it holds\<close>

text \<open>\<open>array_rep A h c\<close>: the bytes \<open>h\<close> were written since the array was empty and the first \<open>c\<close> of them were read.\<close>

definition array_rep :: "CSLSArray \<Rightarrow> buffer \<Rightarrow> nat \<Rightarrow> bool" where
  "array_rep A h c \<longleftrightarrow>
     (case arr_data A of None \<Rightarrow> False
      | Some a \<Rightarrow> arr_size A = int (length a) \<and> c \<le> length h \<and> length h - c \<le> length a \<and>
          arr_count A = int (length h - c) \<and> arr_wpos A = int (length h mod length a) \<and>
          arr_rpos A = int (c mod length a) \<and> circ a h)"

text \<open>The two copies are those of the broadcast ring.\<close>

definition as_ring :: "CSLSArray \<Rightarrow> buffer \<Rightarrow> CSLSRecycleArray" where
  "as_ring A h = small_ring\<lparr> m_arrayData := arr_data A, m_nDataSize := arr_size A, m_nDataCount := int (length h),
     m_nWritePos := arr_wpos A \<rparr>"

definition as_cursor :: "CSLSArray \<Rightarrow> SLSRecycleArrayID" where
  "as_cursor A = anchored_cursor\<lparr> nReadPos := arr_rpos A \<rparr>"

lemma array_put_as_ring:
  assumes "0 < len" "len \<le> arr_size A - arr_count A" "arr_count A \<ge> 0" "ring_put (Some src) len (as_ring A h) = Some (n, r')"
  shows "array_put alloc (Some src) len A = Some (len, A\<lparr> arr_data := m_arrayData r', arr_wpos := m_nWritePos r',
    arr_count := arr_count A + len \<rparr>)"
  using assms by (auto simp: array_put_def ring_put_def as_ring_def Let_def split: if_splits bind_splits)

lemma array_put_rep:
  assumes rep: "array_rep A h c" and len: "0 < len" "len \<le> int (length src)" "len \<le> arr_size A - arr_count A"
  shows "\<exists>A'. array_put alloc (Some src) len A = Some (len, A') \<and> array_rep A' (h @ take (nat len) src) c \<and>
    arr_size A' = arr_size A"
proof -
  obtain a where a: "arr_data A = Some a" "arr_size A = int (length a)" "c \<le> length h" "length h - c \<le> length a"
      "arr_count A = int (length h - c)" "arr_wpos A = int (length h mod length a)" "arr_rpos A = int (c mod length a)"
      "circ a h" using rep by (auto simp: array_rep_def split: option.splits)
  have rr: "ring_rep (as_ring A h) h" using a by (simp add: ring_rep_def as_ring_def)
  have size: "m_nDataSize (as_ring A h) = arr_size A" by (simp add: as_ring_def)
  have "len \<le> m_nDataSize (as_ring A h)" using len(3) a(5) by (simp add: size)
  from ring_put_rep [OF rr len(1,2) this] obtain r' where
    r': "ring_put (Some src) len (as_ring A h) = Some (len, r')" "ring_rep r' (h @ take (nat len) src)"
      "m_nDataSize r' = arr_size A" by (auto simp: size)
  let ?A' = "A\<lparr> arr_data := m_arrayData r', arr_wpos := m_nWritePos r', arr_count := arr_count A + len \<rparr>"
  have "array_put alloc (Some src) len A = Some (len, ?A')"
    using array_put_as_ring [OF len(1,3) _ r'(1)] a(5) by simp
  moreover have "array_rep ?A' (h @ take (nat len) src) c"
  proof -
    obtain b where b: "m_arrayData r' = Some b" "m_nDataSize r' = int (length b)"
      "m_nWritePos r' = int (length (h @ take (nat len) src) mod length b)" "circ b (h @ take (nat len) src)"
      using r'(2) by (rule ring_repE)
    have lb: "length b = length a" using b(2) r'(3) a(2) by simp
    have n: "length (take (nat len) src) = nat len" using len(2) by simp
    have "int (length h - c) + len = int (length h + nat len - c)" using a(3) len(1) by simp
    moreover have "length h + nat len - c \<le> length a" using len(3) a(2,3,5) len(1) by linarith
    ultimately show ?thesis using a b lb n by (simp add: array_rep_def)
  qed
  ultimately show ?thesis by auto
qed

lemma array_ready:
  assumes "circ a h" "c < length h" "length h - c \<le> length a"
  shows "(if int (c mod length a) < int (length h mod length a)
          then int (length h mod length a) - int (c mod length a)
          else int (length a) - int (c mod length a) + int (length h mod length a)) = int (length h - c)"
proof (cases "length h - c = length a")
  case True
  hence "length h = c + length a" using assms(2) by linarith
  thus ?thesis using True by simp
next
  case False
  define r rid where "r = small_ring\<lparr> m_nDataSize := int (length a), m_nWritePos := int (length h mod length a) \<rparr>"
    and "rid = anchored_cursor\<lparr> nReadPos := int (c mod length a) \<rparr>"
  have f: "m_nDataSize r = int (length a)" "m_nWritePos r = int (length h mod length a)" "nReadPos rid = int (c mod length a)"
    by (simp_all add: r_def rid_def)
  have "ready_data_len r rid = int (length h - c)"
    using assms False by (intro ready_data_len_eq [OF f]) auto
  thus ?thesis unfolding ready_data_len_def f .
qed

lemma array_get_as_ring:
  assumes "arr_data A = Some a" "arr_count A \<noteq> 0" "0 < k" "k = min (arr_count A) sz"
    "(if arr_rpos A < arr_wpos A then arr_wpos A - arr_rpos A else arr_size A - arr_rpos A + arr_wpos A) = arr_count A"
    "ring_copy_out dst k (as_ring A h) (as_cursor A) a = Some (d, p)"
  shows "array_get dst sz A = Some (k, d, A\<lparr> arr_rpos := (if p = arr_size A \<or> p > arr_size A then 0 else p),
    arr_count := arr_count A - k \<rparr>)"
proof -
  have n: "(if arr_count A \<le> sz then arr_count A else sz) = k" using assms(4) by (simp add: min_def)
  show ?thesis
  proof (cases "arr_rpos A < arr_wpos A")
    case True
    hence r: "arr_wpos A - arr_rpos A = arr_count A" using assms(5) by simp
    show ?thesis using True assms(2,3,6) n unfolding array_get_def array_get_inline_def assms(1)
      by (auto simp: ring_copy_out_def as_ring_def as_cursor_def Let_def r split: bind_splits)
  next
    case False
    hence r: "arr_size A - arr_rpos A + arr_wpos A = arr_count A" using assms(5) by simp
    have F: "\<not> k \<le> 0" using assms(3) by simp
    show ?thesis
    proof (cases "arr_size A - arr_rpos A \<ge> k")
      case True
      hence "memcpy dst 0 a (arr_rpos A) k = Some d" "p = arr_rpos A + k"
        using assms(6) False F by (auto simp: ring_copy_out_def as_ring_def as_cursor_def split: bind_splits)
      thus ?thesis unfolding array_get_def array_get_inline_def assms(1) option.case Let_def r n
        using assms(2) False True by simp
    next
      case wrap: False
      then obtain d0 where "memcpy dst 0 a (arr_rpos A) (arr_size A - arr_rpos A) = Some d0"
          "memcpy d0 (arr_size A - arr_rpos A) a 0 (k - (arr_size A - arr_rpos A)) = Some d"
          "p = k - (arr_size A - arr_rpos A)"
        using assms(6) False F by (auto simp: ring_copy_out_def as_ring_def as_cursor_def split: bind_splits)
      thus ?thesis unfolding array_get_def array_get_inline_def assms(1) option.case Let_def r n
        using assms(2) False wrap by simp
    qed
  qed
qed

lemma array_get_rep:
  assumes rep: "array_rep A h c" and sz: "0 \<le> sz" "sz \<le> int (length dst)"
  shows "\<exists>A'. array_get dst sz A =
      Some (min (arr_count A) sz, take (nat (min (arr_count A) sz)) (drop c h) @ drop (nat (min (arr_count A) sz)) dst, A') \<and>
    array_rep A' h (c + nat (min (arr_count A) sz)) \<and> arr_size A' = arr_size A"
proof -
  obtain a where a: "arr_data A = Some a" "arr_size A = int (length a)" "c \<le> length h" "length h - c \<le> length a"
      "arr_count A = int (length h - c)" "arr_wpos A = int (length h mod length a)" "arr_rpos A = int (c mod length a)"
      "circ a h" using rep by (auto simp: array_rep_def split: option.splits)
  show ?thesis
  proof (cases "arr_count A = 0")
    case True
    thus ?thesis using rep sz by (simp add: array_get_def array_get_inline_def sls_codes a(1))
  next
    case False
    define k where "k = nat (min (arr_count A) sz)"
    have k: "int k = min (arr_count A) sz" "c + k \<le> length h" "k \<le> length dst" using a(3,5) sz by (auto simp: k_def)
    obtain p where p: "ring_copy_out dst (int k) (as_ring A h) (as_cursor A) a = Some (take k (drop c h) @ drop k dst, int p)"
        "p \<le> length a" "(if p = length a then 0 else p) = (c + k) mod length a"
      using ring_copy_out_slice [OF a(8), of "as_ring A h" "as_cursor A" c k dst] k a
      by (auto simp: as_ring_def as_cursor_def)
    have ready: "(if arr_rpos A < arr_wpos A then arr_wpos A - arr_rpos A else arr_size A - arr_rpos A + arr_wpos A) =
        arr_count A" unfolding a(2,5-7) using False a by (intro array_ready) auto
    show ?thesis
    proof (cases "k = 0")
      case True
      hence "sz = 0" "c mod length a < length a" using k(1) False a(5,8) by (auto simp: circ_def min_def split: if_splits)
      hence "array_get dst sz A = Some (0, dst, A)"
        using a(1,2,6,7) False ready
        by (auto simp: array_get_def array_get_inline_def memcpy_def Let_def split: if_splits)
      thus ?thesis using True rep k(1) by (auto simp flip: k(1))
    next
      case pos: False
      let ?A' = "A\<lparr> arr_rpos := (if int p = arr_size A \<or> int p > arr_size A then 0 else int p), arr_count := arr_count A - int k \<rparr>"
      have "array_get dst sz A = Some (int k, take k (drop c h) @ drop k dst, ?A')"
        using array_get_as_ring [OF a(1) False _ k(1) ready p(1)] pos by simp
      moreover have "array_rep ?A' h (c + k)"
        using a k(1,2) p(2,3) by (auto simp: array_rep_def split: if_splits)
      ultimately show ?thesis unfolding k(1) [symmetric] by simp
    qed
  qed
qed

section \<open>The contract of a bounded byte queue\<close>

datatype queue_op = Put buffer | Get nat

text \<open>A run that never exceeds the capacity, what it reads and what it writes.\<close>

fun queue_run :: "('s \<Rightarrow> buffer \<Rightarrow> 's) \<Rightarrow> ('s \<Rightarrow> nat \<Rightarrow> buffer \<times> 's) \<Rightarrow> 's \<Rightarrow> queue_op list \<Rightarrow> buffer \<times> 's" where
  "queue_run put get s [] = ([], s)"
| "queue_run put get s (Put d # ops) = queue_run put get (put s d) ops"
| "queue_run put get s (Get n # ops) =
     (case get s n of (d, s') \<Rightarrow> case queue_run put get s' ops of (ds, t) \<Rightarrow> (d @ ds, t))"

fun queue_fits :: "nat \<Rightarrow> nat \<Rightarrow> queue_op list \<Rightarrow> bool" where
  "queue_fits c used [] = True"
| "queue_fits c used (Put d # ops) = (d \<noteq> [] \<and> used + length d \<le> c \<and> queue_fits c (used + length d) ops)"
| "queue_fits c used (Get n # ops) = queue_fits c (used - n) ops"

fun queue_written :: "queue_op list \<Rightarrow> buffer" where
  "queue_written [] = []"
| "queue_written (Put d # ops) = d @ queue_written ops"
| "queue_written (Get n # ops) = queue_written ops"

locale byte_queue =
  fixes rep :: "'s \<Rightarrow> buffer \<Rightarrow> bool" and cap :: "'s \<Rightarrow> nat"
    and put :: "'s \<Rightarrow> buffer \<Rightarrow> 's" and get :: "'s \<Rightarrow> nat \<Rightarrow> buffer \<times> 's"
  assumes put_law: "rep s q \<Longrightarrow> d \<noteq> [] \<Longrightarrow> length q + length d \<le> cap s \<Longrightarrow> rep (put s d) (q @ d) \<and> cap (put s d) = cap s"
    and get_law: "rep s q \<Longrightarrow> get s n = (d, s') \<Longrightarrow> d = take n q \<and> rep s' (drop n q) \<and> cap s' = cap s"
begin

lemma fifo:
  "rep s q \<Longrightarrow> queue_fits (cap s) (length q) ops \<Longrightarrow> queue_run put get s ops = (ds, t) \<Longrightarrow>
   \<exists>q'. rep t q' \<and> ds @ q' = q @ queue_written ops"
proof (induction ops arbitrary: s q ds)
  case (Cons x ops)
  show ?case
  proof (cases x)
    case (Put d)
    hence "rep (put s d) (q @ d)" "cap (put s d) = cap s" using put_law [of s q d] Cons.prems by auto
    thus ?thesis using Cons.IH [of "put s d" "q @ d" ds] Cons.prems Put by auto
  next
    case (Get n)
    obtain d s' where g: "get s n = (d, s')" by fastforce
    obtain es where r: "queue_run put get s' ops = (es, t)" "ds = d @ es"
      using Cons.prems(3) Get g by (auto split: prod.splits)
    have law: "d = take n q" "rep s' (drop n q)" "cap s' = cap s" using get_law [OF Cons.prems(1) g] by auto
    obtain q' where "rep t q'" "es @ q' = drop n q @ queue_written ops"
      using Cons.IH [OF law(2) _ r(1)] Cons.prems(2) Get law(3) by auto
    moreover have "take n q @ drop n q @ queue_written ops = q @ queue_written ops"
      by (simp only: append_assoc [symmetric] append_take_drop_id)
    ultimately show ?thesis using r(2) law(1) Get by (intro exI [of _ q']) simp
  qed
qed simp

end

definition array_write :: "(nat \<Rightarrow> buffer) \<Rightarrow> CSLSArray \<Rightarrow> buffer \<Rightarrow> CSLSArray" where
  "array_write alloc A d = (case array_put alloc (Some d) (int (length d)) A of None \<Rightarrow> A | Some (n, A') \<Rightarrow> A')"

definition array_read :: "CSLSArray \<Rightarrow> nat \<Rightarrow> buffer \<times> CSLSArray" where
  "array_read A n =
     (case array_get (replicate n 0) (int n) A of None \<Rightarrow> ([], A) | Some (k, d, A') \<Rightarrow> (take (nat k) d, A'))"

definition array_holds :: "CSLSArray \<Rightarrow> buffer \<Rightarrow> bool" where
  "array_holds A q \<longleftrightarrow> (\<exists>h c. array_rep A h c \<and> q = drop c h)"

lemma array_rep_count: "array_rep A h c \<Longrightarrow> arr_count A = int (length (drop c h)) \<and> c \<le> length h"
  by (auto simp: array_rep_def split: option.splits)

interpretation file_queue: byte_queue array_holds "\<lambda>A. nat (arr_size A)" "array_write alloc" array_read
proof unfold_locales
  fix A and q d :: buffer assume A: "array_holds A q" and d: "d \<noteq> []" "length q + length d \<le> nat (arr_size A)"
  obtain h c where h: "array_rep A h c" "q = drop c h" using A by (auto simp: array_holds_def)
  have "arr_count A = int (length q)" using array_rep_count [OF h(1)] h(2) by simp
  moreover have "int (length q + length d) \<le> arr_size A" using d
    by (cases "0 \<le> arr_size A") (simp_all add: le_nat_iff)
  ultimately have "int (length d) \<le> arr_size A - arr_count A" by simp
  then obtain A' where "array_put alloc (Some d) (int (length d)) A = Some (int (length d), A')"
      "array_rep A' (h @ d) c" "arr_size A' = arr_size A"
    using array_put_rep [OF h(1), of "int (length d)" d alloc] d(1) by auto
  thus "array_holds (array_write alloc A d) (q @ d) \<and> nat (arr_size (array_write alloc A d)) = nat (arr_size A)"
    using array_rep_count [OF h(1)] h(2) by (auto simp: array_write_def array_holds_def intro!: exI [of _ "h @ d"] exI [of _ c])
next
  fix A q n d A' assume A: "array_holds A q" and g: "array_read A n = (d, A')"
  obtain h c where h: "array_rep A h c" "q = drop c h" using A by (auto simp: array_holds_def)
  let ?k = "nat (min (arr_count A) (int n))"
  obtain A1 where a: "array_get (replicate n 0) (int n) A =
        Some (min (arr_count A) (int n), take ?k (drop c h) @ drop ?k (replicate n 0), A1)"
      "array_rep A1 h (c + ?k)" "arr_size A1 = arr_size A"
    using array_get_rep [OF h(1), of "int n" "replicate n 0"] by auto
  have k: "?k = min (length q) n" using array_rep_count [OF h(1)] h(2) by simp
  have "d = take n q" "A' = A1" using g a(1) k h(2) by (auto simp: array_read_def min_def split: if_splits)
  moreover have "array_holds A1 (drop n q)"
    using a(2) k h(2) by (auto simp: array_holds_def min_def add.commute intro!: exI [of _ h] exI [of _ "c + ?k"])
  ultimately show "d = take n q \<and> array_holds A' (drop n q) \<and> nat (arr_size A') = nat (arr_size A)" using a(3) by simp
qed

lemma array_new_holds:
  assumes "length (alloc 4096) = 4096"
  shows "array_holds (array_new alloc) []"
  unfolding array_holds_def array_new_def ARRAY_DEFAULT_SIZE_def
  using assms by (intro exI [of _ "[]"] exI [of _ 0]) (simp add: array_rep_def circ_def)

section \<open>Properties\<close>

text \<open>C39. As long as the queued bytes fit, the array is a queue: over any sequence of writes and reads the bytes read,
  followed by those still queued, are the bytes that were queued before followed by those written.\<close>

theorem array_fifo:
  assumes "array_holds A q" "queue_fits (nat (arr_size A)) (length q) ops"
    "queue_run (array_write alloc) array_read A ops = (ds, A')"
  shows "\<exists>q'. array_holds A' q' \<and> ds @ q' = q @ queue_written ops"
  using assms by (rule file_queue.fifo)

theorem array_fifo_witness:
  "\<exists>q' A'. array_holds A' q' \<and>
     fst (queue_run (array_write (\<lambda>n. replicate n 0)) array_read (array_new (\<lambda>n. replicate n 0))
       [Put [1, 2, 3], Get 2, Put [4], Get 9]) @ q' = [1, 2, 3, 4]"
  using array_fifo [OF array_new_holds, of "\<lambda>n. replicate n 0" "[Put [1, 2, 3], Get 2, Put [4], Get 9]"
      "\<lambda>n. replicate n 0", OF _ _ prod.collapse [symmetric]]
  by (simp add: array_new_def ARRAY_DEFAULT_SIZE_def) blast

text \<open>Growing the array breaks the queue: a put that needs more room keeps all queued bytes and the new ones and
  counts them, but leaves both positions at the start of the larger array, so the next read hands out the whole
  array, unwritten bytes included, and the count of the remaining bytes is wrong by the difference.\<close>

theorem array_grow_overreads:
  assumes "array_rep A h c" "\<And>n. length (alloc n) = n" "0 < len" "len \<le> int (length src)"
    "arr_size A - arr_count A < len" "ext = arr_size A + max ARRAY_DEFAULT_SIZE len" "ext \<le> int (length dst)"
  shows "\<exists>A' d' A''. array_put alloc (Some src) len A = Some (len, A') \<and> arr_count A' = arr_count A + len \<and>
    array_get dst (int (length dst)) A' = Some (ext, d', A'') \<and>
    take (nat (arr_count A')) d' = drop c h @ take (nat len) src \<and> arr_count A'' = arr_count A' - ext \<and>
    (arr_count A + len < ext \<or> arr_count A = arr_size A \<and> ARRAY_DEFAULT_SIZE \<le> len)"
proof -
  obtain a where a: "arr_data A = Some a" "arr_size A = int (length a)" "c \<le> length h" "arr_count A = int (length h - c)"
      "length h - c \<le> length a"
    using assms(1) by (auto simp: array_rep_def split: option.splits)
  define n m where "n = length h - c" and "m = nat len"
  have nm: "arr_count A = int n" "len = int m" "m \<le> length src" "int n + int m \<le> ext" "0 \<le> ext"
    using a assms(3-6) by (auto simp: n_def m_def max_def ARRAY_DEFAULT_SIZE_def)
  have al: "length (alloc (nat ext)) = nat ext" by (rule assms(2))
  obtain A1 where g: "array_get_inline (alloc (nat ext)) (int n) A = Some (int n, drop c h @ drop n (alloc (nat ext)), A1)"
    using array_get_rep [OF assms(1), of "int n" "alloc (nat ext)"] al nm n_def by (auto simp: array_get_def)
  have le: "n + m \<le> length (drop c h @ drop n (alloc (nat ext)))" using al nm by (simp add: n_def)
  let ?e = "drop c h @ take m src @ drop (n + m) (alloc (nat ext))"
  have cp: "memcpy (drop c h @ drop n (alloc (nat ext))) (int n) src 0 (int m) = Some ?e"
    using memcpy_nat [OF le, of 0 src] nm(3) by (simp add: n_def add.commute)
  let ?A' = "A1\<lparr> arr_data := Some ?e, arr_size := ext, arr_wpos := 0, arr_rpos := 0, arr_count := int n + int m \<rparr>"
  have ext: "arr_size A + (if ARRAY_DEFAULT_SIZE \<ge> len then ARRAY_DEFAULT_SIZE else len) = ext" using assms(6) by (simp add: max_def)
  have put: "array_put alloc (Some src) len A = Some (len, ?A')"
    unfolding array_put_def Let_def ext nm(1) bind.bind_lunit using assms(3,5) nm(1) g cp nm(2) by simp
  have elen: "length ?e = nat ext" using al nm by (simp add: n_def)
  have "memcpy dst 0 e 0 ext = Some (e @ drop (nat ext) dst)" if "length e = nat ext" for e
    using memcpy_nat [of 0 "nat ext" dst 0 e] that assms(7) nm(5) by simp
  from this [OF elen] have get: "array_get dst (int (length dst)) ?A' =
      Some (ext, ?e @ drop (nat ext) dst, ?A'\<lparr> arr_rpos := 0, arr_count := int n + int m - ext \<rparr>)"
    using assms(3,7) nm(2) by (simp add: array_get_def array_get_inline_def)
  have "take (n + m) (?e @ drop (nat ext) dst) = drop c h @ take m src" using nm by (simp add: n_def)
  hence tk: "take (nat (int n + int m)) (?e @ drop (nat ext) dst) = drop c h @ take m src"
    by (simp only: nat_int flip: of_nat_add)
  have strict: "arr_count A + len < ext \<or> arr_count A = arr_size A \<and> ARRAY_DEFAULT_SIZE \<le> len"
    using assms(6) a(2,4,5) by (auto simp: max_def)
  show ?thesis using put get tk nm(1,2) strict
    by (intro exI [of _ ?A'] exI [of _ "?e @ drop (nat ext) dst"]
        exI [of _ "?A'\<lparr> arr_rpos := 0, arr_count := int n + int m - ext \<rparr>"]) simp
qed

text \<open>The smallest instance: 5000 bytes into a new array.\<close>

theorem array_grow_overreads_witness:
  "\<exists>A' d' A''. array_put (\<lambda>n. replicate n 0) (Some (replicate 5000 1)) 5000 (array_new (\<lambda>n. replicate n 0)) = Some (5000, A') \<and>
     array_get (replicate 9096 2) 9096 A' = Some (9096, d', A'') \<and> arr_count A'' = - 4096"
proof -
  have "array_rep (array_new (\<lambda>n. replicate n 0)) [] 0"
    by (simp add: array_new_def array_rep_def circ_def ARRAY_DEFAULT_SIZE_def)
  from array_grow_overreads [OF this, of "\<lambda>n. replicate n 0" 5000 "replicate 5000 1" 9096 "replicate 9096 2"]
  obtain A' d' A'' where "array_put (\<lambda>n. replicate n 0) (Some (replicate 5000 1)) 5000 (array_new (\<lambda>n. replicate n 0)) =
      Some (5000, A')" "arr_count A' = 5000" "array_get (replicate 9096 2) 9096 A' = Some (9096, d', A'')"
      "arr_count A'' = arr_count A' - 9096"
    by (auto simp: array_new_def ARRAY_DEFAULT_SIZE_def)
  thus ?thesis by (intro exI [of _ A'] exI [of _ d'] exI [of _ A'']) simp
qed

end
