(* ===== verification/Registries.thy ===== *)
theory Registries
  imports Prelude
begin

text \<open>The registries the server shares between its threads: the publisher table
  \<^verbatim>\<open>src/core/SLSMapPublisher.cpp\<close>, the hand-off list between listeners and workers
  \<^verbatim>\<open>src/core/SLSRoleList.cpp\<close>, and the player registry \<^verbatim>\<open>src/core/SLSPlayerRegistry.cpp\<close>. Every call holds
  the registry's lock, so a call is one step. A role object is named by a number; what a registry reads of
  it is passed as a function of that number.\<close>

section \<open>Ordered maps\<close>

text \<open>A \<^verbatim>\<open>std::map\<close> with string keys: an association list kept in the order of \<^verbatim>\<open>std::string\<close>.\<close>

fun str_less :: "string \<Rightarrow> string \<Rightarrow> bool" where
  "str_less xs [] = False"
| "str_less [] (y # ys) = True"
| "str_less (x # xs) (y # ys) =
     (if (of_char x :: nat) = of_char y then str_less xs ys else (of_char x :: nat) < of_char y)"

fun std_put :: "string \<Rightarrow> 'v \<Rightarrow> (string \<times> 'v) list \<Rightarrow> (string \<times> 'v) list" where
  "std_put k v [] = [(k, v)]"
| "std_put k v ((j, w) # m) =
     (if k = j then (k, v) # m else if str_less k j then (k, v) # (j, w) # m else (j, w) # std_put k v m)"

lemma str_less_irrefl: "\<not> str_less x x"
  by (induction x) auto

lemma str_less_trans: "str_less x y \<Longrightarrow> str_less y z \<Longrightarrow> str_less x z"
proof (induction x y arbitrary: z rule: str_less.induct)
  case (2 y ys)
  thus ?case by (cases z) auto
next
  case (3 x xs y ys)
  thus ?case by (cases z) (auto split: if_splits)
qed simp

lemma str_less_total: "str_less x y \<or> x = y \<or> str_less y x"
proof (induction x y rule: str_less.induct)
  case (1 xs)
  thus ?case by (cases xs) auto
next
  case (3 x xs y ys)
  thus ?case using linorder_less_linear [of "of_char x :: nat" "of_char y"] by (auto simp: of_char_eq_iff)
qed simp

text \<open>A list is a map when its keys ascend.\<close>

fun ascending :: "(string \<times> 'v) list \<Rightarrow> bool" where
  "ascending [] = True"
| "ascending ((k, v) # m) = ((\<forall>x \<in> set m. str_less k (fst x)) \<and> ascending m)"

lemma std_put_keys: "fst ` set (std_put k v m) = insert k (fst ` set m)"
  by (induction k v m rule: std_put.induct) auto

lemma std_put_ascending [sls_inv]: "ascending m \<Longrightarrow> ascending (std_put k v m)"
proof (induction k v m rule: std_put.induct)
  case (2 k v j w m)
  have keys: "fst x = k \<or> fst x \<in> fst ` set m" if "x \<in> set (std_put k v m)" for x
    using std_put_keys [of k v m] that by blast
  have "str_less j (fst x)" if "x \<in> set (std_put k v m)" "str_less j k" for x
    using keys [OF that(1)] that(2) 2(2) by auto
  thus ?case using 2 str_less_total [of k j] by (auto intro: str_less_trans)
qed simp

lemma std_put_lookup: "map_of (std_put k v m) j = (if j = k then Some v else map_of m j)"
  by (induction k v m rule: std_put.induct) auto

lemma ascending_distinct: "ascending m \<Longrightarrow> distinct (map fst m)"
  by (induction m rule: ascending.induct) (auto simp: str_less_irrefl)

lemma ascending_filter: "ascending m \<Longrightarrow> ascending (filter P m)"
  by (induction m rule: ascending.induct) auto

section \<open>The publisher table\<close>

type_synonym role_id = nat

record 'ca CSLSMapPublisher =
  m_map_uplive_2_conf :: "(string \<times> 'ca) list"
  m_map_live_2_uplive :: "(string \<times> string) list"
  m_map_push_2_publisher :: "(string \<times> role_id) list"

definition map_publisher_new :: "'ca CSLSMapPublisher" where
  "map_publisher_new = \<lparr> m_map_uplive_2_conf = [], m_map_live_2_uplive = [], m_map_push_2_publisher = [] \<rparr>"

definition set_conf :: "string \<Rightarrow> 'ca \<Rightarrow> 'ca CSLSMapPublisher \<Rightarrow> int \<times> 'ca CSLSMapPublisher" where
  "set_conf key ca P =
     (if map_of (m_map_uplive_2_conf P) key \<noteq> None then (SLS_ERROR, P)
      else (SLS_OK, P\<lparr> m_map_uplive_2_conf := std_put key ca (m_map_uplive_2_conf P) \<rparr>))"

definition set_live_2_uplive :: "string \<Rightarrow> string \<Rightarrow> 'ca CSLSMapPublisher \<Rightarrow> int \<times> 'ca CSLSMapPublisher" where
  "set_live_2_uplive strLive strUplive P =
     (if map_of (m_map_live_2_uplive P) strLive \<noteq> None then (SLS_ERROR, P)
      else (SLS_OK, P\<lparr> m_map_live_2_uplive := std_put strLive strUplive (m_map_live_2_uplive P) \<rparr>))"

definition set_push_2_publisher :: "string \<Rightarrow> role_id \<Rightarrow> 'ca CSLSMapPublisher \<Rightarrow> int \<times> 'ca CSLSMapPublisher" where
  "set_push_2_publisher app_streamname role P =
     (case map_of (m_map_push_2_publisher P) app_streamname of
        Some cur_role \<Rightarrow> (SLS_ERROR, P)
      | None \<Rightarrow> (SLS_OK, P\<lparr> m_map_push_2_publisher := std_put app_streamname role (m_map_push_2_publisher P) \<rparr>))"

definition get_uplive :: "string \<Rightarrow> 'ca CSLSMapPublisher \<Rightarrow> string" where
  "get_uplive key_app P = (case map_of (m_map_live_2_uplive P) key_app of None \<Rightarrow> [] | Some u \<Rightarrow> u)"

definition get_ca :: "string \<Rightarrow> 'ca CSLSMapPublisher \<Rightarrow> 'ca option" where
  "get_ca key_app P = map_of (m_map_uplive_2_conf P) key_app"

definition get_publisher :: "string \<Rightarrow> 'ca CSLSMapPublisher \<Rightarrow> role_id option" where
  "get_publisher name P = map_of (m_map_push_2_publisher P) name"

definition get_publisher_names :: "'ca CSLSMapPublisher \<Rightarrow> string list" where
  "get_publisher_names P = map fst (m_map_push_2_publisher P)"

definition get_publishers :: "'ca CSLSMapPublisher \<Rightarrow> (string \<times> role_id) list" where
  "get_publishers P = m_map_push_2_publisher P"

fun erase_role :: "role_id \<Rightarrow> (string \<times> role_id) list \<Rightarrow> (string \<times> role_id) list option" where
  "erase_role role [] = None"
| "erase_role role ((k, r) # m) =
     (if role = r then Some m else map_option ((#) (k, r)) (erase_role role m))"

definition publisher_remove :: "role_id \<Rightarrow> 'ca CSLSMapPublisher \<Rightarrow> int \<times> 'ca CSLSMapPublisher" where
  "publisher_remove role P =
     (case erase_role role (m_map_push_2_publisher P) of
        None \<Rightarrow> (SLS_ERROR, P)
      | Some m \<Rightarrow> (SLS_OK, P\<lparr> m_map_push_2_publisher := m \<rparr>))"

definition publisher_clear :: "'ca CSLSMapPublisher \<Rightarrow> 'ca CSLSMapPublisher" where
  "publisher_clear P = P\<lparr> m_map_push_2_publisher := [], m_map_live_2_uplive := [], m_map_uplive_2_conf := [] \<rparr>"

section \<open>The hand-off list\<close>

text \<open>\<open>info r\<close> is the name and the start time of role \<open>r\<close>.\<close>

type_synonym role_info = "role_id \<Rightarrow> string option \<times> time_ms"

definition role_push :: "role_id option \<Rightarrow> role_id list \<Rightarrow> int \<times> role_id list" where
  "role_push role l = (0, case role of None \<Rightarrow> l | Some r \<Rightarrow> l @ [r])"

definition role_pop :: "role_id list \<Rightarrow> role_id option \<times> role_id list" where
  "role_pop l = (case l of [] \<Rightarrow> (None, []) | r # rs \<Rightarrow> (Some r, rs))"

text \<open>\<open>role_erase\<close> also returns the roles whose \<^verbatim>\<open>uninit\<close> it called, in order.\<close>

definition role_erase :: "role_id list \<Rightarrow> role_id list \<times> role_id list" where
  "role_erase l = (l, [])"

definition role_size :: "role_id list \<Rightarrow> int" where
  "role_size l = int (length l)"

definition role_stale :: "role_info \<Rightarrow> time_ms \<Rightarrow> time_ms \<Rightarrow> role_id \<Rightarrow> bool" where
  "role_stale info now ttl r =
     (case info r of (name, start) \<Rightarrow>
        \<not> (case name of None \<Rightarrow> False | Some s \<Rightarrow> take 8 s = ''listener'') \<and> now - start > ttl)"

fun reap_loop :: "role_info \<Rightarrow> time_ms \<Rightarrow> time_ms \<Rightarrow> role_id list \<Rightarrow> role_id list \<times> role_id list" where
  "reap_loop info now ttl [] = ([], [])"
| "reap_loop info now ttl (r # rs) =
     (case reap_loop info now ttl rs of (stale, kept) \<Rightarrow>
        if role_stale info now ttl r then (r # stale, kept) else (stale, r # kept))"

definition reap_unadopted ::
  "role_info \<Rightarrow> time_ms \<Rightarrow> time_ms \<Rightarrow> role_id list \<Rightarrow> int \<times> role_id list \<times> role_id list" where
  "reap_unadopted info now ttl l =
     (case reap_loop info now ttl l of (stale, kept) \<Rightarrow> (int (length stale), stale, kept))"

section \<open>The player registry\<close>

text \<open>Floating-point statistics are only copied, so they are their 64 bits.\<close>

type_synonym double = "64 word"

record PlayerStatsSnapshot =
  snap_rtt_ms :: double
  snap_mbps_send_rate :: double
  snap_pkt_snd_drop_total :: int
  snap_pkt_retrans_total :: int
  snap_closed :: bool

record PlayerRegistration =
  stream_key :: string
  client_id :: string
  player_key_id :: string
  connected_at_ms :: time_ms
  latency_ms :: int
  liveness :: role_id
  snapshot :: "nat option"

record PlayerView =
  view_client_id :: string
  view_player_key_id :: string
  view_uptime_s :: int
  view_latency_ms :: int
  view_rtt_ms :: double
  view_mbps_send_rate :: double
  view_pkt_snd_drop_total :: int
  view_pkt_retrans_total :: int

text \<open>What the registry sees of the roles and their snapshots when a call runs.\<close>

record world =
  role_freed :: "role_id \<Rightarrow> bool"
  snapshot_at :: "nat \<Rightarrow> PlayerStatsSnapshot"

type_synonym player_registry = "(string \<times> PlayerRegistration list) list"

definition player_gone :: "world \<Rightarrow> PlayerRegistration \<Rightarrow> bool" where
  "player_gone W p = (role_freed W (liveness p) \<or>
     (case snapshot p of None \<Rightarrow> False | Some s \<Rightarrow> snap_closed (snapshot_at W s)))"

definition prune_locked :: "world \<Rightarrow> string \<Rightarrow> player_registry \<Rightarrow> player_registry" where
  "prune_locked W key R =
     (case map_of R key of None \<Rightarrow> R
      | Some players \<Rightarrow>
        let rest = filter (\<lambda>p. \<not> player_gone W p) players in
        if rest = [] then AList.delete key R else AList.update key rest R)"

definition players_of :: "string \<Rightarrow> player_registry \<Rightarrow> PlayerRegistration list" where
  "players_of key R = (case map_of R key of None \<Rightarrow> [] | Some ps \<Rightarrow> ps)"

definition registry_add :: "world \<Rightarrow> PlayerRegistration \<Rightarrow> player_registry \<Rightarrow> player_registry" where
  "registry_add W reg R =
     (let key = stream_key reg; R1 = prune_locked W key R in AList.update key (players_of key R1 @ [reg]) R1)"

definition registry_count :: "world \<Rightarrow> string \<Rightarrow> player_registry \<Rightarrow> int \<times> player_registry" where
  "registry_count W key R =
     (let R1 = prune_locked W key R in
      (case map_of R1 key of None \<Rightarrow> 0 | Some ps \<Rightarrow> int (length ps), R1))"

definition player_view :: "world \<Rightarrow> time_ms \<Rightarrow> PlayerRegistration \<Rightarrow> PlayerView" where
  "player_view W now p =
     (let v = \<lparr> view_client_id = client_id p, view_player_key_id = player_key_id p,
                view_uptime_s = max 0 (if now - connected_at_ms p \<ge> 0 then (now - connected_at_ms p) div 1000
                                       else - ((connected_at_ms p - now) div 1000)),
                view_latency_ms = latency_ms p, view_rtt_ms = 0, view_mbps_send_rate = 0,
                view_pkt_snd_drop_total = 0, view_pkt_retrans_total = 0 \<rparr>
      in case snapshot p of None \<Rightarrow> v
         | Some i \<Rightarrow> let s = snapshot_at W i in
             v\<lparr> view_rtt_ms := snap_rtt_ms s, view_mbps_send_rate := snap_mbps_send_rate s,
                view_pkt_snd_drop_total := snap_pkt_snd_drop_total s,
                view_pkt_retrans_total := snap_pkt_retrans_total s \<rparr>)"

definition registry_list :: "world \<Rightarrow> string \<Rightarrow> time_ms \<Rightarrow> player_registry \<Rightarrow> PlayerView list \<times> player_registry" where
  "registry_list W key now R =
     (let R1 = prune_locked W key R in
      (case map_of R1 key of None \<Rightarrow> [] | Some ps \<Rightarrow> map (player_view W now) ps, R1))"

section \<open>The contract of an exclusive claim\<close>

datatype 'k claim_op = Claim 'k role_id | Release role_id

fun claim_run :: "('k \<Rightarrow> role_id \<Rightarrow> 's \<Rightarrow> int \<times> 's) \<Rightarrow> (role_id \<Rightarrow> 's \<Rightarrow> int \<times> 's) \<Rightarrow> 'k claim_op list \<Rightarrow> 's \<Rightarrow> 's" where
  "claim_run claim release [] s = s"
| "claim_run claim release (Claim k r # ops) s = claim_run claim release ops (snd (claim k r s))"
| "claim_run claim release (Release r # ops) s = claim_run claim release ops (snd (release r s))"

locale exclusive_claims =
  fixes owner :: "'k \<Rightarrow> 's \<Rightarrow> role_id option" and inv :: "'s \<Rightarrow> bool"
    and claim :: "'k \<Rightarrow> role_id \<Rightarrow> 's \<Rightarrow> int \<times> 's" and release :: "role_id \<Rightarrow> 's \<Rightarrow> int \<times> 's"
  assumes claim_law: "inv s \<Longrightarrow> claim k r s = (ret, s') \<Longrightarrow> inv s' \<and> (\<forall>j. j \<noteq> k \<longrightarrow> owner j s' = owner j s) \<and>
      (if owner k s = None then ret = SLS_OK \<and> owner k s' = Some r else ret = SLS_ERROR \<and> s' = s)"
    and release_law: "inv s \<Longrightarrow> release r s = (ret, s') \<Longrightarrow> inv s' \<and>
      (\<forall>k. owner k s' = owner k s \<or> owner k s = Some r \<and> owner k s' = None)"
begin

text \<open>A claim stands until its owner gives it up, and while it stands every other claim is refused.\<close>

lemma owner_kept:
  "inv s \<Longrightarrow> owner k s = Some r \<Longrightarrow> Release r \<notin> set ops \<Longrightarrow>
   inv (claim_run claim release ops s) \<and> owner k (claim_run claim release ops s) = Some r"
proof (induction ops arbitrary: s)
  case (Cons x ops)
  show ?case
  proof (cases x)
    case (Claim j q)
    obtain ret s' where c: "claim j q s = (ret, s')" by fastforce
    have "inv s'" "owner k s' = Some r"
      using claim_law [OF Cons.prems(1) c] Cons.prems(2) by (cases "j = k"; auto split: if_splits)+
    thus ?thesis using Cons Claim c by simp
  next
    case (Release q)
    obtain ret s' where c: "release q s = (ret, s')" by fastforce
    have "inv s'" "owner k s' = owner k s \<or> owner k s = Some q" using release_law [OF Cons.prems(1) c] by auto
    hence "inv s'" "owner k s' = Some r" using Cons.prems(2,3) Release by auto
    thus ?thesis using Cons Release c by simp
  qed
qed simp

lemma second_claim_refused:
  assumes "inv s" "owner k s = Some r" "Release r \<notin> set ops"
  shows "fst (claim k q (claim_run claim release ops s)) = SLS_ERROR"
  using owner_kept [OF assms] claim_law [of "claim_run claim release ops s" k q] by (metis option.distinct(1) prod.collapse)

end

definition publisher_ok :: "'ca CSLSMapPublisher \<Rightarrow> bool" where
  "publisher_ok P \<longleftrightarrow> ascending (m_map_push_2_publisher P)"

lemma erase_role_lookup:
  "erase_role r m = Some m' \<Longrightarrow> ascending m \<Longrightarrow> ascending m' \<and>
     (\<exists>k. map_of m k = Some r \<and> map_of m' = (map_of m)(k := None)) \<and> set m' \<subseteq> set m"
proof (induction r m arbitrary: m' rule: erase_role.induct)
  case (2 role k r m)
  show ?case
  proof (cases "role = r")
    case True
    have "k \<notin> fst ` set m" using ascending_distinct [OF 2(3)] by simp
    hence "map_of m k = None" by (simp add: map_of_eq_None_iff)
    hence e: "map_of m = (map_of ((k, r) # m))(k := None)" by (simp add: fun_eq_iff)
    have m': "m' = m" using 2(2) True by simp
    show ?thesis using 2(3) True unfolding m' by (intro conjI exI [of _ k] e) auto
  next
    case False
    then obtain n where n: "erase_role role m = Some n" "m' = (k, r) # n" using 2(2) by auto
    have "ascending m" using 2(3) by simp
    then obtain j where j: "ascending n" "map_of m j = Some role" "map_of n = (map_of m)(j := None)" "set n \<subseteq> set m"
      using 2(1) [OF False n(1)] by blast
    have "j \<noteq> k" using map_of_SomeD [OF j(2)] ascending_distinct [OF 2(3)] by force
    thus ?thesis using j n 2(3) by (auto simp: fun_eq_iff intro!: exI [of _ j])
  qed
qed simp

interpretation publishers: exclusive_claims get_publisher publisher_ok set_push_2_publisher publisher_remove
proof unfold_locales
  fix P :: "'a CSLSMapPublisher" and k r ret P'
  assume "publisher_ok P" "set_push_2_publisher k r P = (ret, P')"
  thus "publisher_ok P' \<and> (\<forall>j. j \<noteq> k \<longrightarrow> get_publisher j P' = get_publisher j P) \<and>
      (if get_publisher k P = None then ret = SLS_OK \<and> get_publisher k P' = Some r else ret = SLS_ERROR \<and> P' = P)"
    by (auto simp: publisher_ok_def set_push_2_publisher_def get_publisher_def std_put_ascending std_put_lookup
        split: option.splits)
next
  fix P :: "'a CSLSMapPublisher" and r ret P'
  assume P: "publisher_ok P" "publisher_remove r P = (ret, P')"
  show "publisher_ok P' \<and> (\<forall>k. get_publisher k P' = get_publisher k P \<or> get_publisher k P = Some r \<and> get_publisher k P' = None)"
  proof (cases "erase_role r (m_map_push_2_publisher P)")
    case (Some m)
    thus ?thesis using P erase_role_lookup [OF Some]
      by (auto simp: publisher_ok_def publisher_remove_def get_publisher_def split: if_splits)
  qed (use P in \<open>auto simp: publisher_remove_def\<close>)
qed

section \<open>Reaping\<close>

lemma reap_unadopted_eq:
  "reap_unadopted info now ttl l =
     (int (length (filter (role_stale info now ttl) l)), filter (role_stale info now ttl) l,
      filter (\<lambda>r. \<not> role_stale info now ttl r) l)"
proof -
  have "reap_loop info now ttl l = (filter (role_stale info now ttl) l, filter (\<lambda>r. \<not> role_stale info now ttl r) l)"
    by (induction l) auto
  thus ?thesis by (simp add: reap_unadopted_def)
qed

section \<open>Counting players\<close>

datatype registry_op = Add PlayerRegistration | Count string | List string time_ms

fun registry_do :: "world \<Rightarrow> registry_op \<Rightarrow> player_registry \<Rightarrow> player_registry" where
  "registry_do W (Add reg) R = registry_add W reg R"
| "registry_do W (Count key) R = snd (registry_count W key R)"
| "registry_do W (List key now) R = snd (registry_list W key now R)"

fun registry_run :: "(world \<times> registry_op) list \<Rightarrow> player_registry \<Rightarrow> player_registry" where
  "registry_run [] R = R"
| "registry_run ((W, a) # ops) R = registry_run ops (registry_do W a R)"

text \<open>Players leave for good: \<open>later W W'\<close> when everyone gone in \<open>W\<close> is gone in \<open>W'\<close>.\<close>

definition later :: "world \<Rightarrow> world \<Rightarrow> bool" where
  "later W W' \<longleftrightarrow> (\<forall>p. player_gone W p \<longrightarrow> player_gone W' p)"

fun chain :: "world list \<Rightarrow> bool" where
  "chain [] = True"
| "chain (W # Ws) = ((\<forall>V \<in> set Ws. later W V) \<and> chain Ws)"

fun added :: "string \<Rightarrow> (world \<times> registry_op) list \<Rightarrow> PlayerRegistration list" where
  "added key [] = []"
| "added key ((W, Add reg) # ops) = (if stream_key reg = key then [reg] else []) @ added key ops"
| "added key (x # ops) = added key ops"

abbreviation present :: "world \<Rightarrow> PlayerRegistration list \<Rightarrow> PlayerRegistration list" where
  "present W ps \<equiv> filter (\<lambda>p. \<not> player_gone W p) ps"

lemma prune_players:
  "distinct (map fst R) \<Longrightarrow>
   players_of k (prune_locked W key R) = (if k = key then present W (players_of key R) else players_of k R) \<and>
   distinct (map fst (prune_locked W key R))"
  by (cases "map_of R key")
     (auto simp: prune_locked_def players_of_def Let_def delete_conv' map_of_update distinct_update distinct_delete
      simp del: map_of_eq_Some_iff)

lemma present_twice: "later W V \<Longrightarrow> present V (present W ps) = present V ps"
  by (auto simp: later_def intro: filter_cong)

lemma registry_do_players:
  assumes "distinct (map fst R)" "later W V"
  shows "present V (players_of k (registry_do W a R)) = present V (players_of k R) @ present V (added k [(W, a)]) \<and>
    distinct (map fst (registry_do W a R))"
proof (cases a)
  case (Add reg)
  let ?R1 = "prune_locked W (stream_key reg) R"
  have "players_of k (registry_add W reg R) = (if k = stream_key reg then players_of k ?R1 @ [reg] else players_of k ?R1)"
    by (auto simp: registry_add_def Let_def players_of_def map_of_update)
  thus ?thesis using prune_players [OF assms(1), of k W "stream_key reg"] present_twice [OF assms(2)] Add
    by (auto simp: registry_add_def Let_def distinct_update)
next
  case (Count key)
  thus ?thesis using prune_players [OF assms(1), of k W key] present_twice [OF assms(2)]
    by (auto simp: registry_count_def Let_def)
next
  case (List key now)
  thus ?thesis using prune_players [OF assms(1), of k W key] present_twice [OF assms(2)]
    by (auto simp: registry_list_def Let_def)
qed

lemma added_Cons: "added key (x # ops) = added key [x] @ added key ops"
  by (cases x; cases "snd x") auto

lemma registry_run_players:
  "chain (map fst ops @ [V]) \<Longrightarrow> distinct (map fst R) \<Longrightarrow>
   present V (players_of k (registry_run ops R)) = present V (players_of k R) @ present V (added k ops) \<and>
   distinct (map fst (registry_run ops R))"
proof (induction ops arbitrary: R)
  case (Cons x ops)
  obtain W a where x: "x = (W, a)" by fastforce
  have "later W V" using Cons.prems(1) x by simp
  from registry_do_players [OF Cons.prems(2) this, of k a] show ?case
    using Cons x added_Cons [of k x ops] by simp
qed simp

section \<open>Properties\<close>

text \<open>C26. One publisher per stream: once a role is registered for a stream, then through any sequence of
  registrations and removals of other roles it stays registered, and every attempt to register a second
  publisher for the stream is refused and changes nothing.\<close>

theorem publisher_exclusive:
  assumes "publisher_ok P" "get_publisher k P = Some r" "Release r \<notin> set ops"
    "P' = claim_run set_push_2_publisher publisher_remove ops P"
  shows "get_publisher k P' = Some r \<and> set_push_2_publisher k q P' = (SLS_ERROR, P')"
proof -
  have "publisher_ok P'" "get_publisher k P' = Some r" using publishers.owner_kept [OF assms(1-3)] assms(4) by auto
  thus ?thesis by (simp add: set_push_2_publisher_def get_publisher_def)
qed

theorem publisher_exclusive_witness:
  "set_push_2_publisher ''live/a'' 9
     (claim_run set_push_2_publisher publisher_remove [Claim ''live/b'' 2, Release 2, Claim ''live/a'' 3, Release 3]
       (snd (set_push_2_publisher ''live/a'' 1 (map_publisher_new :: unit CSLSMapPublisher)))) =
   (SLS_ERROR, claim_run set_push_2_publisher publisher_remove [Claim ''live/b'' 2, Release 2, Claim ''live/a'' 3, Release 3]
       (snd (set_push_2_publisher ''live/a'' 1 map_publisher_new)))"
  using publisher_exclusive [of "snd (set_push_2_publisher ''live/a'' 1 (map_publisher_new :: unit CSLSMapPublisher))"
      "''live/a''" 1 "[Claim ''live/b'' 2, Release 2, Claim ''live/a'' 3, Release 3]", OF _ _ _ refl, of 9]
  by (simp add: publisher_ok_def set_push_2_publisher_def map_publisher_new_def get_publisher_def)

text \<open>The player count is exact: over any history of registrations and queries, in which players that left stay
  gone, the count for a stream is the number of players ever registered for it that are still there, and the
  listing has one entry for each of them in the order they joined.\<close>

theorem registry_counts_present:
  assumes "chain (map fst ops @ [W])"
  shows "fst (registry_count W key (registry_run ops [])) = int (length (present W (added key ops))) \<and>
    fst (registry_list W key now (registry_run ops [])) = map (player_view W now) (present W (added key ops))"
proof -
  let ?R = "registry_run ops []"
  have p: "present W (players_of key ?R) = present W (added key ops)" "distinct (map fst ?R)"
    using registry_run_players [OF assms, of "[]" key] by (auto simp: players_of_def)
  have "players_of key (prune_locked W key ?R) = present W (added key ops)"
    using prune_players [OF p(2), of key W key] p(1) by simp
  thus ?thesis by (auto simp: registry_count_def registry_list_def players_of_def Let_def split: option.splits)
qed

definition open_world :: world where
  "open_world = \<lparr> role_freed = (\<lambda>r. False), snapshot_at = (\<lambda>i. \<lparr> snap_rtt_ms = 0, snap_mbps_send_rate = 0,
     snap_pkt_snd_drop_total = 0, snap_pkt_retrans_total = 0, snap_closed = False \<rparr>) \<rparr>"

definition some_player :: "role_id \<Rightarrow> PlayerRegistration" where
  "some_player r = \<lparr> stream_key = ''live/a'', client_id = ''c'', player_key_id = [], connected_at_ms = 5, latency_ms = 120,
     liveness = r, snapshot = None \<rparr>"

theorem registry_counts_present_witness:
  "fst (registry_count (open_world\<lparr> role_freed := (\<lambda>r. r = 1) \<rparr>) ''live/a''
     (registry_run [(open_world, Add (some_player 1)), (open_world, Add (some_player 2))] [])) = 1"
  using registry_counts_present [of "[(open_world, Add (some_player 1)), (open_world, Add (some_player 2))]"
      "open_world\<lparr> role_freed := (\<lambda>r. r = 1) \<rparr>" "''live/a''"]
  by (simp add: later_def player_gone_def open_world_def some_player_def split: option.splits)

end
