(* ===== verification/C_Text.thy ===== *)
theory C_Text
  imports Stream_Id
begin

text \<open>The C and C++ text routines the configuration, the relays and the validator call: \<^verbatim>\<open>strtol\<close> and
  \<^verbatim>\<open>std::stoi\<close> with their failure modes, the \<^verbatim>\<open>strtok\<close> loop of \<^verbatim>\<open>sls_conf_string_split\<close>
  (\<^verbatim>\<open>src/core/conf.cpp\<close>), \<^verbatim>\<open>inet_pton\<close> for IPv4 and the bounded \<^verbatim>\<open>snprintf\<close>.\<close>

section \<open>Numbers\<close>

definition isdigit :: "char \<Rightarrow> bool" where
  "isdigit c \<longleftrightarrow> 48 \<le> code c \<and> code c \<le> (57 :: nat)"

definition digits_value :: "string \<Rightarrow> int" where
  "digits_value ds = foldl (\<lambda>n c. 10 * n + (int (code c) - 48)) 0 ds"

text \<open>\<^verbatim>\<open>strtol (s, &end, 10)\<close> with a 64-bit \<^verbatim>\<open>long\<close>: the value, whether errno is ERANGE, and the text from \<open>end\<close>
  on, \<^const>\<open>None\<close> when there is no conversion (\<open>end\<close> is then \<open>s\<close> itself).\<close>

definition strtol :: "string \<Rightarrow> (int \<times> bool \<times> string) option" where
  "strtol s =
     (let t = dropWhile whitespace s;
          neg = (t \<noteq> [] \<and> hd t = CHR ''-'');
          u = (if t \<noteq> [] \<and> (hd t = CHR ''-'' \<or> hd t = CHR ''+'') then tl t else t);
          ds = takeWhile isdigit u;
          v = (if neg then - digits_value ds else digits_value ds)
      in if ds = [] then None
         else Some (max (- (2 ^ 63)) (min (2 ^ 63 - 1) v), v < - (2 ^ 63) \<or> 2 ^ 63 - 1 < v, dropWhile isdigit u))"

text \<open>The exceptions of \<^verbatim>\<open>std::stoi\<close> and \<^verbatim>\<open>std::stoll\<close>.\<close>

datatype exn = Invalid_argument | Out_of_range

definition stoi :: "string \<Rightarrow> exn + int" where
  "stoi s =
     (case strtol s of
        None \<Rightarrow> Inl Invalid_argument
      | Some (v, erange, _) \<Rightarrow>
          if erange \<or> v < - (2 ^ 31) \<or> 2 ^ 31 - 1 < v then Inl Out_of_range else Inr v)"

definition stoll :: "string \<Rightarrow> exn + int" where
  "stoll s =
     (case strtol s of
        None \<Rightarrow> Inl Invalid_argument
      | Some (v, erange, _) \<Rightarrow> if erange then Inl Out_of_range else Inr v)"

section \<open>Tokens and bounded text\<close>

text \<open>The \<^verbatim>\<open>strtok\<close> loop: the maximal runs of characters that are no delimiter.\<close>

function strtok_loop :: "string \<Rightarrow> string \<Rightarrow> string list" where
  "strtok_loop delim s =
     (let t = dropWhile (\<lambda>c. c \<in> set delim) s in
      if t = [] then []
      else takeWhile (\<lambda>c. c \<notin> set delim) t # strtok_loop delim (dropWhile (\<lambda>c. c \<notin> set delim) t))"
  by auto
termination
proof (relation "measure (\<lambda>(delim, s). length s)", simp)
  fix delim s t :: string
  assume t: "t = dropWhile (\<lambda>c. c \<in> set delim) s" "t \<noteq> []"
  hence "hd t \<notin> set delim" using hd_dropWhile [of "\<lambda>c. c \<in> set delim" s] by simp
  hence "dropWhile (\<lambda>c. c \<notin> set delim) t = dropWhile (\<lambda>c. c \<notin> set delim) (tl t)" using t(2) by (cases t) auto
  moreover have "length (tl t) < length t" "length t \<le> length s"
    using t by (simp_all add: length_dropWhile_le)
  ultimately have "length (dropWhile (\<lambda>c. c \<notin> set delim) t) < length s"
    by (metis le_less_trans length_dropWhile_le less_le_trans)
  thus "((delim, dropWhile (\<lambda>c. c \<notin> set delim) t), delim, s) \<in> measure (\<lambda>(delim, s). length s)" by simp
qed

declare strtok_loop.simps [simp del]

definition sls_conf_string_split :: "string \<Rightarrow> string \<Rightarrow> string list" where
  "sls_conf_string_split str delim = (if str = [] then [] else strtok_loop delim str)"

text \<open>\<^verbatim>\<open>snprintf (buf, n, \<dots>)\<close> of a text that is used only when it fits with its NUL.\<close>

definition snprintf_fits :: "nat \<Rightarrow> string \<Rightarrow> string option" where
  "snprintf_fits n s = (if length s < n then Some s else None)"

text \<open>\<^verbatim>\<open>inet_pton (AF_INET, \<dots>)\<close>: four decimal numbers up to 255, without leading zeros, between dots; the
  address in host byte order.\<close>

definition octet :: "string \<Rightarrow> int option" where
  "octet s = (if s \<noteq> [] \<and> list_all isdigit s \<and> length s \<le> 3 \<and> (hd s = CHR ''0'' \<longrightarrow> length s = 1) \<and> digits_value s \<le> 255
     then Some (digits_value s) else None)"

definition inet_pton4 :: "string \<Rightarrow> 32 word option" where
  "inet_pton4 s =
     (case map octet (split_on (CHR ''.'') s) of
        [Some a, Some b, Some c, Some d] \<Rightarrow> Some (word_of_int (((a * 256 + b) * 256 + c) * 256 + d))
      | _ \<Rightarrow> None)"

section \<open>What the routines give\<close>

lemma dec_digits_nonempty [simp]: "dec_digits n \<noteq> []"
  by (subst dec_digits.simps) auto

lemma digits_value_snoc: "digits_value (ds @ [c]) = 10 * digits_value ds + (int (code c) - 48)"
  by (simp add: digits_value_def)

lemma digit_char: "n < 10 \<Longrightarrow> isdigit (char_of (48 + n))" "n < 10 \<Longrightarrow> code (char_of (48 + n) :: char) = 48 + n"
  by (simp_all add: isdigit_def of_char_of)

lemma dec_digits_isdigit: "list_all isdigit (dec_digits n)"
proof (induction n rule: dec_digits.induct)
  case (1 n)
  show ?case using 1 by (subst dec_digits.simps) (simp add: digit_char)
qed

lemma dec_digits_value: "digits_value (dec_digits n) = int n"
proof (induction n rule: dec_digits.induct)
  case (1 n)
  show ?case
  proof (cases "n < 10")
    case True
    thus ?thesis by (subst dec_digits.simps) (simp add: digits_value_def digit_char)
  next
    case False
    moreover have "10 * int (n div 10) + int (n mod 10) = int n" by (simp add: zdiv_int zmod_int)
    ultimately show ?thesis using 1 by (subst dec_digits.simps) (simp add: digits_value_snoc digit_char)
  qed
qed

lemma isdigit_not_space: "isdigit c \<Longrightarrow> \<not> whitespace c \<and> c \<noteq> CHR ''-'' \<and> c \<noteq> CHR ''+'' \<and> c \<noteq> CHR '','' \<and> c \<noteq> NUL"
  by (auto simp: isdigit_def whitespace_def)

text \<open>A printed number is read back, whatever follows it, as long as no digit does.\<close>

lemma strtol_dec:
  assumes "n < 2 ^ 63" "rest = [] \<or> \<not> isdigit (hd rest)"
  shows "strtol (dec_digits n @ rest) = Some (int n, False, rest)"
proof -
  let ?d = "dec_digits n"
  have d: "\<And>c. c \<in> set ?d \<Longrightarrow> isdigit c" using dec_digits_isdigit [of n] by (simp add: list_all_iff)
  obtain c cs where c: "?d = c # cs" "isdigit c" using dec_digits_nonempty [of n] d by (cases ?d) auto
  have tw: "takeWhile isdigit (?d @ rest) = ?d" "dropWhile isdigit (?d @ rest) = rest"
    using d assms(2) by (cases rest; simp add: takeWhile_append dropWhile_append)+
  have dw: "dropWhile whitespace (?d @ rest) = ?d @ rest" using c isdigit_not_space [OF c(2)] by simp
  have hd: "hd (?d @ rest) \<noteq> CHR ''-''" "hd (?d @ rest) \<noteq> CHR ''+''" using c isdigit_not_space [OF c(2)] by auto
  have "int n < 2 ^ 63" using assms(1) by (metis of_nat_less_iff of_nat_numeral of_nat_power)
  thus ?thesis using tw hd by (simp add: strtol_def dw dec_digits_value Let_def)
qed

lemma strtol_range: "strtol s = Some (v, e, r) \<Longrightarrow> - (2 ^ 63) \<le> v \<and> v \<le> 2 ^ 63 - 1"
  by (auto simp: strtol_def Let_def split: if_splits)

lemma stoi_range: "stoi s = Inr v \<Longrightarrow> - (2 ^ 31) \<le> v \<and> v \<le> 2 ^ 31 - 1"
  by (auto simp: stoi_def split: option.splits if_splits)

lemma strtok_tokens: "t \<in> set (strtok_loop delim s) \<Longrightarrow> t \<noteq> [] \<and> set t \<inter> set delim = {} \<and> set t \<subseteq> set s"
proof (induction delim s arbitrary: t rule: strtok_loop.induct)
  case (1 delim s)
  let ?t = "dropWhile (\<lambda>c. c \<in> set delim) s"
  show ?case
  proof (cases "?t = []")
    case True
    thus ?thesis using 1(2) by (simp add: strtok_loop.simps Let_def)
  next
    case False
    have h: "hd ?t \<notin> set delim" using hd_dropWhile [of "\<lambda>c. c \<in> set delim" s] False by simp
    have "strtok_loop delim s = takeWhile (\<lambda>c. c \<notin> set delim) ?t # strtok_loop delim (dropWhile (\<lambda>c. c \<notin> set delim) ?t)"
      by (subst strtok_loop.simps) (simp only: Let_def False if_False)
    with 1(2) consider "t = takeWhile (\<lambda>c. c \<notin> set delim) ?t" | "t \<in> set (strtok_loop delim (dropWhile (\<lambda>c. c \<notin> set delim) ?t))"
      by auto
    thus ?thesis
    proof cases
      case 1
      have "t \<noteq> []" using h False unfolding 1 by (cases ?t) auto
      thus ?thesis unfolding 1 by (auto dest: set_takeWhileD set_dropWhileD)
    next
      case 2
      from 1(1) [OF refl False 2] show ?thesis by (meson dual_order.trans set_dropWhileD subsetI)
    qed
  qed
qed

text \<open>Joining tokens with one delimiter and splitting again gives the tokens back.\<close>

lemma strtok_single: "t \<noteq> [] \<Longrightarrow> d \<notin> set t \<Longrightarrow> strtok_loop [d] t = [t]"
proof -
  assume a: "t \<noteq> []" "d \<notin> set t"
  have "dropWhile (\<lambda>c. c = d) t = t" using a by (cases t) auto
  moreover have "takeWhile (\<lambda>c. c \<noteq> d) t = t" "dropWhile (\<lambda>c. c \<noteq> d) t = []" using a(2) by (auto simp: takeWhile_eq_all_conv)
  moreover have "strtok_loop [d] [] = []" by (simp add: strtok_loop.simps)
  ultimately show ?thesis using a(1) by (subst strtok_loop.simps) (simp del: dropWhile_eq_Nil_conv)
qed

lemma strtok_join_step:
  assumes "t \<noteq> []" "d \<notin> set t"
  shows "strtok_loop [d] (t @ d # rest) = t # strtok_loop [d] rest"
proof -
  have "dropWhile (\<lambda>c. c = d) (t @ d # rest) = t @ d # rest" using assms by (cases t) auto
  moreover have "takeWhile (\<lambda>c. c \<noteq> d) (t @ d # rest) = t" "dropWhile (\<lambda>c. c \<noteq> d) (t @ d # rest) = d # rest"
    using assms(2) by (auto simp: takeWhile_append dropWhile_append)
  moreover have "strtok_loop [d] (d # rest) = strtok_loop [d] rest"
    by (subst (1 2) strtok_loop.simps) simp
  ultimately show ?thesis using assms(1) by (subst strtok_loop.simps) simp
qed

lemma strtok_join:
  "list_all (\<lambda>t. t \<noteq> [] \<and> d \<notin> set t) ts \<Longrightarrow> ts \<noteq> [] \<Longrightarrow> strtok_loop [d] (join_with d ts) = ts"
proof (induction ts)
  case (Cons t ts)
  show ?case
  proof (cases ts)
    case Nil
    thus ?thesis using Cons.prems strtok_single by simp
  next
    case (Cons u us)
    hence "join_with d (t # ts) = t @ d # join_with d ts" by simp
    thus ?thesis using Cons.IH Cons.prems Cons strtok_join_step [of t d "join_with d ts"] by simp
  qed
qed simp

end
