(* ===== verification/Conf.thy ===== *)
theory Conf
  imports C_Text
begin

text \<open>The configuration: directive tables, setters, the block parser and the reference-counted generations of
  \<^verbatim>\<open>src/core/conf.cpp\<close>. A block of the configuration tree is a cell of a store, \<^const>\<open>None\<close> once it is
  deleted; cell 0 is the static \<^verbatim>\<open>sls_first_conf\<close>. A field of a block is a variable of a fixed kind;
  a write past a character array, and a use of a deleted block, is the value \<^const>\<open>None\<close>. IPv6 literals
  are read by a parameter \<open>pton6\<close> (\<^verbatim>\<open>inet_pton (AF_INET6, \<dots>)\<close>).\<close>

section \<open>Directives\<close>

datatype conf_setter =
  Set_int | Set_portlist | Set_ipset | Set_string | Set_upstreams | Set_bool | Set_string_list

record sls_conf_cmd_t =
  cmd_name :: string
  cmd_target :: string
  cmd_set :: conf_setter
  cmd_min :: int
  cmd_max :: int
  cmd_cap :: int

datatype sls_access_action = ACCEPT | DENY
datatype sls_ip_family = WILDCARD | V4 | V6

record sls_ip_access_t =
  ip_address :: int
  ip_address6 :: "byte list"
  ip_family :: sls_ip_family
  ip_action :: sls_access_action

record sls_ip_acl_t =
  acl_play :: "sls_ip_access_t list"
  acl_publish :: "sls_ip_access_t list"

datatype conf_value = VInt int | VStr string | VBool bool | VAcl sls_ip_acl_t | VList "string list"

type_synonym conf_vars = "(string \<times> conf_value) list"

datatype conf_ret = CONF_OK | CONF_OUT_RANGE | CONF_WRONG_TYPE

fun sls_conf_find :: "string \<Rightarrow> sls_conf_cmd_t list \<Rightarrow> sls_conf_cmd_t option" where
  "sls_conf_find n [] = None"
| "sls_conf_find n (cmd # cmds) = (if n = cmd_name cmd then Some cmd else sls_conf_find n cmds)"

definition sls_conf_set_int :: "string \<Rightarrow> sls_conf_cmd_t \<Rightarrow> conf_vars \<Rightarrow> conf_ret \<times> conf_vars" where
  "sls_conf_set_int v cmd conf =
     (if v = [] then (CONF_WRONG_TYPE, conf)
      else case strtol v of
        None \<Rightarrow> (CONF_WRONG_TYPE, conf)
      | Some (lv, erange, end) \<Rightarrow>
          if end \<noteq> [] \<or> erange \<or> lv < - (2 ^ 31) \<or> lv > 2 ^ 31 - 1 then (CONF_WRONG_TYPE, conf)
          else if lv < cmd_min cmd \<or> lv > cmd_max cmd then (CONF_OUT_RANGE, conf)
          else (CONF_OK, AList.update (cmd_target cmd) (VInt lv) conf))"

subsection \<open>Port lists\<close>

definition sls_parse_single_port :: "string \<Rightarrow> int option" where
  "sls_parse_single_port s =
     (if s = [] then None
      else case strtol s of
        None \<Rightarrow> None
      | Some (p, erange, end) \<Rightarrow> if end \<noteq> [] \<or> erange \<or> p < 1 \<or> p > 65535 then None else Some p)"

definition blank :: "char \<Rightarrow> bool" where
  "blank c \<longleftrightarrow> c = CHR '' '' \<or> c = CHR 0x09"

definition trim_local :: "string \<Rightarrow> string" where
  "trim_local s =
     (case find_first_not_of blank s of
        None \<Rightarrow> []
      | Some a \<Rightarrow> (case find_last_not_of blank s of None \<Rightarrow> drop a s | Some b \<Rightarrow> take (b - a + 1) (drop a s)))"

definition push_unique :: "int list \<Rightarrow> int \<Rightarrow> int list" where
  "push_unique out port = (if port \<in> set out then out else out @ [port])"

text \<open>One entry of the list: \<^const>\<open>None\<close> for a malformed one, else the ports of the entry in order.\<close>

definition port_entry :: "string \<Rightarrow> int list option" where
  "port_entry tok =
     (case str_find ''-'' tok of
        None \<Rightarrow> map_option (\<lambda>p. [p]) (sls_parse_single_port tok)
      | Some dash \<Rightarrow>
          (case (sls_parse_single_port (trim_local (take dash tok)), sls_parse_single_port (trim_local (drop (dash + 1) tok))) of
             (Some lo, Some hi) \<Rightarrow> if lo > hi then None else Some [lo..hi]
           | _ \<Rightarrow> None))"

fun port_tokens :: "string list \<Rightarrow> int list \<Rightarrow> int \<times> int list" where
  "port_tokens [] out = (int (length out), out)"
| "port_tokens (raw # tokens) out =
     (let tok = trim_local raw in
      if tok = [] then port_tokens tokens out
      else case port_entry tok of
        None \<Rightarrow> (-1, out)
      | Some ps \<Rightarrow> port_tokens tokens (foldl push_unique out ps))"

definition sls_parse_port_list :: "string option \<Rightarrow> int \<times> int list" where
  "sls_parse_port_list spec =
     (case spec of None \<Rightarrow> (0, []) | Some [] \<Rightarrow> (0, [])
      | Some s \<Rightarrow> port_tokens (sls_conf_string_split s '','') [])"

subsection \<open>Text fields\<close>

text \<open>\<^verbatim>\<open>memcpy (np, v, len); np[len] = 0\<close> into a character array of \<open>cmd_cap\<close> bytes.\<close>

definition store_text :: "sls_conf_cmd_t \<Rightarrow> string \<Rightarrow> conf_vars \<Rightarrow> conf_vars option" where
  "store_text cmd v conf =
     (if int (length v) + 1 \<le> cmd_cap cmd then Some (AList.update (cmd_target cmd) (VStr v) conf) else None)"

definition sls_conf_set_portlist :: "string \<Rightarrow> sls_conf_cmd_t \<Rightarrow> conf_vars \<Rightarrow> (conf_ret \<times> conf_vars) option" where
  "sls_conf_set_portlist v cmd conf =
     (if v = [] then Some (CONF_WRONG_TYPE, conf)
      else if int (length v) < cmd_min cmd \<or> int (length v) > cmd_max cmd then Some (CONF_OUT_RANGE, conf)
      else case sls_parse_port_list (Some v) of (n, ports) \<Rightarrow>
        if n < 0 \<or> ports = [] then Some (CONF_WRONG_TYPE, conf)
        else map_option (Pair CONF_OK) (store_text cmd v conf))"

text \<open>A single pair of surrounding quotes is stripped.\<close>

definition unquote :: "string \<Rightarrow> string" where
  "unquote v = (if length v \<ge> 2 \<and> (hd v = CHR 0x22 \<or> hd v = CHR 0x27) \<and> last v = hd v
     then take (length v - 2) (tl v) else v)"

definition sls_conf_set_string :: "string \<Rightarrow> sls_conf_cmd_t \<Rightarrow> conf_vars \<Rightarrow> (conf_ret \<times> conf_vars) option" where
  "sls_conf_set_string v0 cmd conf =
     (let v = unquote v0 in
      if int (length v) < cmd_min cmd \<or> int (length v) > cmd_max cmd then Some (CONF_OUT_RANGE, conf)
      else map_option (Pair CONF_OK) (store_text cmd v conf))"

text \<open>Reading a field of a block: the block is zeroed when it is made.\<close>

definition var_text :: "string \<Rightarrow> conf_vars \<Rightarrow> string" where
  "var_text x conf = (case map_of conf x of Some (VStr s) \<Rightarrow> s | _ \<Rightarrow> [])"

definition var_int :: "string \<Rightarrow> conf_vars \<Rightarrow> int" where
  "var_int x conf = (case map_of conf x of Some (VInt i) \<Rightarrow> i | _ \<Rightarrow> 0)"

definition var_bool :: "string \<Rightarrow> conf_vars \<Rightarrow> bool" where
  "var_bool x conf = (case map_of conf x of Some (VBool b) \<Rightarrow> b | _ \<Rightarrow> False)"

definition sls_conf_set_upstreams :: "string \<Rightarrow> sls_conf_cmd_t \<Rightarrow> conf_vars \<Rightarrow> (conf_ret \<times> conf_vars) option" where
  "sls_conf_set_upstreams v cmd conf =
     (case sls_conf_set_string v cmd conf of
        None \<Rightarrow> None
      | Some (r, conf') \<Rightarrow>
          if r \<noteq> CONF_OK then Some (r, conf')
          else if sls_conf_string_split (var_text (cmd_target cmd) conf') '' '' = [] then Some (CONF_WRONG_TYPE, conf')
          else Some (CONF_OK, conf'))"

definition sls_conf_set_bool :: "string \<Rightarrow> sls_conf_cmd_t \<Rightarrow> conf_vars \<Rightarrow> conf_ret \<times> conf_vars" where
  "sls_conf_set_bool v cmd conf =
     (if v = ''true'' then (CONF_OK, AList.update (cmd_target cmd) (VBool True) conf)
      else if v = ''false'' then (CONF_OK, AList.update (cmd_target cmd) (VBool False) conf)
      else (CONF_WRONG_TYPE, conf))"

text \<open>\<^verbatim>\<open>trim_whitespace\<close> keeps a text of blanks as it is.\<close>

definition trim_whitespace :: "string \<Rightarrow> string" where
  "trim_whitespace s =
     (case find_first_not_of blank s of
        None \<Rightarrow> s
      | Some a \<Rightarrow> (case find_last_not_of blank s of None \<Rightarrow> drop a s | Some b \<Rightarrow> take (b - a + 1) (drop a s)))"

definition sls_conf_set_string_list :: "string \<Rightarrow> sls_conf_cmd_t \<Rightarrow> conf_vars \<Rightarrow> conf_ret \<times> conf_vars" where
  "sls_conf_set_string_list v cmd conf =
     (let l = filter (\<lambda>t. t \<noteq> []) (map trim_whitespace (sls_conf_string_split v '',''));
          conf' = AList.update (cmd_target cmd) (VList l) conf
      in if int (length l) < cmd_min cmd \<or> int (length l) > cmd_max cmd then (CONF_OUT_RANGE, conf') else (CONF_OK, conf'))"

subsection \<open>Address rules\<close>

definition var_acl :: "string \<Rightarrow> conf_vars \<Rightarrow> sls_ip_acl_t" where
  "var_acl x conf = (case map_of conf x of Some (VAcl a) \<Rightarrow> a | _ \<Rightarrow> \<lparr> acl_play = [], acl_publish = [] \<rparr>)"

definition zero_ip6 :: "byte list" where
  "zero_ip6 = replicate 16 0"

definition acl_address :: "(string \<Rightarrow> byte list option) \<Rightarrow> string \<Rightarrow> (sls_ip_family \<times> int \<times> byte list) option" where
  "acl_address pton6 s =
     (if s = ''all'' then Some (WILDCARD, 0, zero_ip6)
      else case inet_pton4 s of
        Some a \<Rightarrow> Some (V4, uint a, zero_ip6)
      | None \<Rightarrow> (case pton6 s of Some a \<Rightarrow> Some (V6, 0, a) | None \<Rightarrow> None))"

definition acl_action :: "string \<Rightarrow> sls_access_action option" where
  "acl_action n = (if n = ''allow'' then Some ACCEPT else if n = ''deny'' then Some DENY else None)"

definition acl_add :: "string \<Rightarrow> sls_ip_access_t \<Rightarrow> sls_ip_acl_t \<Rightarrow> sls_ip_acl_t" where
  "acl_add which e acl =
     (if which = ''play'' then acl\<lparr> acl_play := acl_play acl @ [e] \<rparr> else acl\<lparr> acl_publish := acl_publish acl @ [e] \<rparr>)"

definition sls_conf_set_ipset ::
  "(string \<Rightarrow> byte list option) \<Rightarrow> string \<Rightarrow> sls_conf_cmd_t \<Rightarrow> conf_vars \<Rightarrow> conf_ret \<times> conf_vars" where
  "sls_conf_set_ipset pton6 conf_line cmd conf =
     (if int (length conf_line) < cmd_min cmd \<or> int (length conf_line) > cmd_max cmd then (CONF_OUT_RANGE, conf)
      else case sls_conf_string_split conf_line [CHR 0x09, CHR '' ''] of
        [which, addr] \<Rightarrow>
          if which \<noteq> ''play'' \<and> which \<noteq> ''publish'' then (CONF_WRONG_TYPE, conf)
          else (case (acl_address pton6 addr, acl_action (cmd_name cmd)) of
              (Some (fam, a4, a6), Some act) \<Rightarrow>
                let e = \<lparr> ip_address = a4, ip_address6 = a6, ip_family = fam, ip_action = act \<rparr> in
                (CONF_OK, AList.update (cmd_target cmd) (VAcl (acl_add which e (var_acl (cmd_target cmd) conf))) conf)
            | _ \<Rightarrow> (CONF_WRONG_TYPE, conf))
      | _ \<Rightarrow> (CONF_WRONG_TYPE, conf))"

text \<open>\<^verbatim>\<open>it->set (v, it, b)\<close>.\<close>

definition conf_set ::
  "(string \<Rightarrow> byte list option) \<Rightarrow> string \<Rightarrow> sls_conf_cmd_t \<Rightarrow> conf_vars \<Rightarrow> (conf_ret \<times> conf_vars) option" where
  "conf_set pton6 v cmd conf =
     (case cmd_set cmd of
        Set_int \<Rightarrow> Some (sls_conf_set_int v cmd conf)
      | Set_portlist \<Rightarrow> sls_conf_set_portlist v cmd conf
      | Set_ipset \<Rightarrow> Some (sls_conf_set_ipset pton6 v cmd conf)
      | Set_string \<Rightarrow> sls_conf_set_string v cmd conf
      | Set_upstreams \<Rightarrow> sls_conf_set_upstreams v cmd conf
      | Set_bool \<Rightarrow> Some (sls_conf_set_bool v cmd conf)
      | Set_string_list \<Rightarrow> Some (sls_conf_set_string_list v cmd conf))"

section \<open>Lines\<close>

text \<open>The position of the first \<open>#\<close> outside quotes; the flags are \<^verbatim>\<open>in_squote\<close> and \<^verbatim>\<open>in_dquote\<close>.\<close>

fun strip_comment :: "bool \<Rightarrow> bool \<Rightarrow> string \<Rightarrow> string" where
  "strip_comment sq dq [] = []"
| "strip_comment sq dq (c # cs) =
     (if c = CHR 0x27 \<and> \<not> dq then c # strip_comment (\<not> sq) dq cs
      else if c = CHR 0x22 \<and> \<not> sq then c # strip_comment sq (\<not> dq) cs
      else if c = CHR ''#'' \<and> \<not> sq \<and> \<not> dq then []
      else c # strip_comment sq dq cs)"

text \<open>\<^verbatim>\<open>replace_all\<close> searches from the start again after every replacement; it need not end.\<close>

partial_function (option) replace_all :: "string \<Rightarrow> string \<Rightarrow> string \<Rightarrow> string option" where
  "replace_all str old_value new_value =
     (case str_find old_value str of
        None \<Rightarrow> Some str
      | Some pos \<Rightarrow> replace_all (take pos str @ new_value @ drop (pos + length old_value) str) old_value new_value)"

declare replace_all.simps [code]

definition trim :: "string \<Rightarrow> string" where
  "trim s =
     (if s = [] then s
      else let t = (case find_first_not_of (\<lambda>c. c = CHR '' '') s of None \<Rightarrow> [] | Some i \<Rightarrow> drop i s)
           in case find_last_not_of (\<lambda>c. c = CHR '' '') t of None \<Rightarrow> [] | Some j \<Rightarrow> take (j + 1) t)"

definition tab :: string where
  "tab = [CHR 0x09]"

definition no_tabs_trim :: "string \<Rightarrow> string option" where
  "no_tabs_trim s = map_option trim (replace_all s tab [])"

datatype conf_line = Blank_line | Setting_line string string string | Open_line string | Close_line | Bad_line

definition conf_line_of :: "string \<Rightarrow> conf_line option" where
  "conf_line_of raw = do {
     s \<leftarrow> no_tabs_trim (strip_comment False False raw);
     if s = [] then Some Blank_line
     else if last s = CHR '';'' then do {
       t \<leftarrow> no_tabs_trim (butlast s);
       Some (case str_find '' '' t of
          None \<Rightarrow> Bad_line
        | Some i \<Rightarrow> Setting_line t (take i t) (trim (drop (i + 1) t)))
     }
     else if last s = CHR ''{'' then map_option Open_line (no_tabs_trim (butlast s))
     else if last s = CHR ''}'' then Some (if s \<noteq> ''}'' then Bad_line else Close_line)
     else Some Bad_line
   }"

section \<open>Blocks\<close>

record sls_runtime_conf_t =
  rt_name :: string
  rt_cmds :: "sls_conf_cmd_t list"

record sls_conf_base_t =
  b_name :: string
  b_vars :: conf_vars
  b_child :: "nat option"
  b_sibling :: "nat option"

type_synonym conf_store = "sls_conf_base_t option list"

definition node_at :: "conf_store \<Rightarrow> nat \<Rightarrow> sls_conf_base_t option" where
  "node_at H i = (if i < length H then H ! i else None)"

fun sls_conf_create_block_by_name :: "string \<Rightarrow> sls_runtime_conf_t list \<Rightarrow> sls_runtime_conf_t option" where
  "sls_conf_create_block_by_name n [] = None"
| "sls_conf_create_block_by_name n (rt # rts) = (if n = rt_name rt then Some rt else sls_conf_create_block_by_name n rts)"

definition fresh_block :: "string \<Rightarrow> sls_conf_base_t" where
  "fresh_block n = \<lparr> b_name = n, b_vars = [], b_child = None, b_sibling = None \<rparr>"

text \<open>A new block, linked below or beside the current one.\<close>

definition link_block :: "conf_store \<Rightarrow> nat \<Rightarrow> bool \<Rightarrow> string \<Rightarrow> conf_store option" where
  "link_block H b child n = do {
     node \<leftarrow> node_at H b;
     let node' = (if child then node\<lparr> b_child := Some (length H) \<rparr> else node\<lparr> b_sibling := Some (length H) \<rparr>);
     Some (H[b := Some node'] @ [Some (fresh_block n)])
   }"

text \<open>One directive in the current block: \<open>(ok, store)\<close>.\<close>

definition block_set ::
  "(string \<Rightarrow> byte list option) \<Rightarrow> sls_runtime_conf_t option \<Rightarrow> int \<Rightarrow> conf_store \<Rightarrow> nat \<Rightarrow> string \<Rightarrow> string \<Rightarrow> (bool \<times> conf_store) option" where
  "block_set pton6 rt layers H b n v =
     (case rt of None \<Rightarrow> Some (False, H)
      | Some r \<Rightarrow>
        if layers = 0 then Some (False, H)
        else case sls_conf_find (c_str n) (rt_cmds r) of
            None \<Rightarrow> Some (False, H)
          | Some cmd \<Rightarrow> do {
              node \<leftarrow> node_at H b;
              (ret, vars) \<leftarrow> conf_set pton6 (c_str v) cmd (b_vars node);
              Some (ret = CONF_OK, H[b := Some (node\<lparr> b_vars := vars \<rparr>)])
            })"

text \<open>\<^verbatim>\<open>sls_conf_parse_block\<close>: \<open>lines\<close> is what is left of the file, \<open>child\<close> is passed by reference, \<open>last_line\<close> is
  \<^verbatim>\<open>str_line_last\<close>. The current block and its table stay those of the block just closed.\<close>

function sls_conf_parse_block ::
  "(string \<Rightarrow> byte list option) \<Rightarrow> sls_runtime_conf_t list \<Rightarrow> string list \<Rightarrow> conf_store \<Rightarrow> nat \<Rightarrow> bool \<Rightarrow>
   sls_runtime_conf_t option \<Rightarrow> int \<Rightarrow> string \<Rightarrow> int \<Rightarrow> (int \<times> string list \<times> conf_store \<times> bool) option" where
  "sls_conf_parse_block pton6 rts [] H b child rt layers last_line ret = Some (ret, [], H, child)"
| "sls_conf_parse_block pton6 rts (raw # lines) H b child rt layers last_line ret =
     (case conf_line_of raw of
        None \<Rightarrow> None
      | Some Blank_line \<Rightarrow> sls_conf_parse_block pton6 rts lines H b child rt layers last_line ret
      | Some Bad_line \<Rightarrow> Some (SLS_ERROR, lines, H, child)
      | Some Close_line \<Rightarrow> Some (SLS_OK, lines, H, False)
      | Some (Setting_line t n v) \<Rightarrow>
          (case block_set pton6 rt layers H b n v of
             None \<Rightarrow> None
           | Some (ok, H1) \<Rightarrow>
               if \<not> ok then Some (SLS_ERROR, lines, H1, child)
               else sls_conf_parse_block pton6 rts lines H1 b child rt layers t ret)
      | Some (Open_line s) \<Rightarrow>
          (let n = (if s = [] then last_line else s) in
           if n = [] then Some (SLS_ERROR, lines, H, child)
           else case sls_conf_create_block_by_name (c_str n) rts of
             None \<Rightarrow> Some (SLS_ERROR, lines, H, child)
           | Some rt1 \<Rightarrow>
               (case link_block H b child (rt_name rt1) of
                  None \<Rightarrow> None
                | Some H1 \<Rightarrow>
                    (case sls_conf_parse_block pton6 rts lines H1 (length H) True (Some rt1) (layers + 1) [] SLS_ERROR of
                       None \<Rightarrow> None
                     | Some (ret1, lines1, H2, child1) \<Rightarrow>
                         if ret1 \<noteq> SLS_OK then Some (SLS_ERROR, lines1, H2, child1)
                         else sls_conf_parse_block pton6 rts lines1 H2 (length H) child1 (Some rt1) (layers + 1) s ret1))))"
  by pat_completeness auto

lemma parse_block_lines:
  "sls_conf_parse_block_dom (pton6, rts, ls, H, b, child, rt, layers, lst, ret) \<Longrightarrow>
   sls_conf_parse_block pton6 rts ls H b child rt layers lst ret = Some (r, ls', H', c') \<Longrightarrow> length ls' \<le> length ls"
proof (induction pton6 rts ls H b child rt layers lst ret arbitrary: r ls' H' c' rule: sls_conf_parse_block.pinduct)
  case (1 pton6 rts H b child rt layers lst ret)
  thus ?case by (simp add: sls_conf_parse_block.psimps)
next
  case (2 pton6 rts raw ls H b child rt layers lst ret)
  note eq = sls_conf_parse_block.psimps(2) [OF 2(1)]
  note IH = 2(2-5) and res = 2(6) [unfolded eq]
  from res obtain l where l: "conf_line_of raw = Some l" by (auto split: option.splits)
  show ?case
  proof (cases l)
    case Blank_line
    thus ?thesis using IH(1) [OF l Blank_line] res l by fastforce
  next
    case (Setting_line t n v)
    with res l obtain ok H1 where s: "block_set pton6 rt layers H b n v = Some (ok, H1)" by (auto split: option.splits)
    thus ?thesis using IH(2) [OF l Setting_line s refl] res l Setting_line by (fastforce split: if_splits)
  next
    case (Open_line s)
    let ?n = "if s = [] then lst else s"
    show ?thesis
    proof (cases "?n = [] \<or> sls_conf_create_block_by_name (c_str ?n) rts = None")
      case True
      hence "ls' = ls" using res l Open_line by (cases "?n = []") (auto simp: Let_def)
      thus ?thesis by simp
    next
      case False
      then obtain rt1 where rt1: "?n \<noteq> []" "sls_conf_create_block_by_name (c_str ?n) rts = Some rt1" by auto
      note r = res [unfolded l Open_line, simplified option.case conf_line.case Let_def if_not_P [OF rt1(1)] rt1(2)]
      from r obtain H1 where H1: "link_block H b child (rt_name rt1) = Some H1" by (auto split: option.splits)
      note r = r [unfolded H1 option.case]
      from r obtain q where q: "sls_conf_parse_block pton6 rts ls H1 (length H) True (Some rt1) (layers + 1) [] SLS_ERROR = Some q"
        by (auto split: option.splits)
      obtain r1 l1 H2 c1 where q': "q = (r1, l1, H2, c1)" by (cases q)
      note IH3 = IH(3) [OF l Open_line refl rt1 H1, unfolded q q', OF refl]
      show ?thesis
      proof (cases "r1 = SLS_OK")
        case True
        from IH(4) [OF l Open_line refl rt1 H1 q q' [symmetric] refl refl] True r q q' IH3 show ?thesis by fastforce
      qed (use r q q' IH3 in auto)
    qed
  qed (use res l in auto)
qed

termination sls_conf_parse_block
proof (relation "measure (\<lambda>(pton6, rts, ls, H, b, child, rt, layers, lst, ret). length ls)", goal_cases)
  case (5 pton6 rts raw ls H b child rt layers lst ret l s n rt1 H1 q r1 y l1 z H2 c1)
  thus ?case using parse_block_lines by fastforce
qed auto

section \<open>Generations\<close>

text \<open>The process state: the store, the \<^verbatim>\<open>shared_ptr\<close> \<^verbatim>\<open>g_current_conf\<close> and the copies of it that managers hold
  (\<^verbatim>\<open>sls_conf_get_root_shared\<close>), one entry per copy. A handle is a control block and the tree it owns; every
  \<^verbatim>\<open>shared_ptr\<close> made from a raw pointer has a control block of its own.\<close>

type_synonym conf_handle = "nat \<times> nat option"

record conf_state =
  cs_store :: conf_store
  cs_current :: "conf_handle option"
  cs_managers :: "conf_handle list"
  cs_next :: nat

definition conf_init :: conf_state where
  "conf_init = \<lparr> cs_store = [Some (fresh_block [])], cs_current = None, cs_managers = [], cs_next = 0 \<rparr>"

text \<open>\<^verbatim>\<open>sls_conf_release\<close>: the children, then the siblings, then the block itself.\<close>

partial_function (option) sls_conf_release :: "conf_store \<Rightarrow> nat option \<Rightarrow> conf_store option" where
  "sls_conf_release H c =
     (case c of None \<Rightarrow> Some H
      | Some i \<Rightarrow> do {
          node \<leftarrow> node_at H i;
          H1 \<leftarrow> (if b_child node \<noteq> None then sls_conf_release H (b_child node) else Some H);
          node1 \<leftarrow> node_at H1 i;
          let H2 = H1[i := Some (node1\<lparr> b_child := None \<rparr>)];
          H3 \<leftarrow> (if b_sibling node1 \<noteq> None then sls_conf_release H2 (b_sibling node1) else Some H2);
          _ \<leftarrow> node_at H3 i;
          Some (H3[i := None])
        })"

declare sls_conf_release.simps [code]

text \<open>A \<^verbatim>\<open>shared_ptr\<close> to a generation is dropped: the last one releases the tree.\<close>

definition drop_handle :: "conf_handle option \<Rightarrow> conf_state \<Rightarrow> conf_state option" where
  "drop_handle g S =
     (case g of None \<Rightarrow> Some S
      | Some (k, c) \<Rightarrow>
        if k \<in> fst ` (set_option (cs_current S) \<union> set (cs_managers S)) then Some S
        else do { H \<leftarrow> sls_conf_release (cs_store S) c; Some (S\<lparr> cs_store := H \<rparr>) })"

definition root_child :: "conf_store \<Rightarrow> nat option" where
  "root_child H = (case node_at H 0 of None \<Rightarrow> None | Some n \<Rightarrow> b_child n)"

definition set_root_child :: "conf_store \<Rightarrow> nat option \<Rightarrow> conf_store" where
  "set_root_child H c = (case node_at H 0 of None \<Rightarrow> H | Some n \<Rightarrow> H[0 := Some (n\<lparr> b_child := c \<rparr>)])"

text \<open>\<^verbatim>\<open>sls_conf_open\<close>: the file as its lines, \<^const>\<open>None\<close> when it cannot be opened.\<close>

definition sls_conf_open ::
  "(string \<Rightarrow> byte list option) \<Rightarrow> sls_runtime_conf_t list \<Rightarrow> string list option \<Rightarrow> conf_state \<Rightarrow> (int \<times> conf_state) option" where
  "sls_conf_open pton6 rts conf_file S =
     (case conf_file of
        None \<Rightarrow> Some (SLS_ERROR, S)
      | Some lines \<Rightarrow> do {
          (ret, _, H, _) \<leftarrow> sls_conf_parse_block pton6 rts lines (cs_store S) 0 True None 0 [] SLS_ERROR;
          if ret \<noteq> SLS_OK then do {
            H1 \<leftarrow> sls_conf_release (set_root_child H None) (root_child H);
            Some (ret, S\<lparr> cs_store := H1 \<rparr>)
          } else do {
            S1 \<leftarrow> drop_handle (cs_current S)
              (S\<lparr> cs_store := H, cs_current := Some (cs_next S, root_child H), cs_next := Suc (cs_next S) \<rparr>);
            Some (ret, S1)
          }
        })"

definition sls_conf_close :: "conf_state \<Rightarrow> conf_state option" where
  "sls_conf_close S = do {
     S1 \<leftarrow> drop_handle (cs_current S) (S\<lparr> cs_current := None \<rparr>);
     Some (S1\<lparr> cs_store := set_root_child (cs_store S1) None \<rparr>)
   }"

definition sls_conf_get_root_conf :: "conf_state \<Rightarrow> nat option" where
  "sls_conf_get_root_conf S = root_child (cs_store S)"

text \<open>\<^verbatim>\<open>sls_conf_get_root_shared\<close> copied by a manager, and the manager's end.\<close>

definition manager_start :: "conf_state \<Rightarrow> conf_state" where
  "manager_start S = (case cs_current S of None \<Rightarrow> S | Some h \<Rightarrow> S\<lparr> cs_managers := h # cs_managers S \<rparr>)"

definition manager_end :: "conf_handle \<Rightarrow> conf_state \<Rightarrow> conf_state option" where
  "manager_end h S = drop_handle (Some h) (S\<lparr> cs_managers := remove1 h (cs_managers S) \<rparr>)"

text \<open>\<^verbatim>\<open>sls_conf_get_conf_count\<close> follows the sibling links.\<close>

partial_function (option) sls_conf_get_conf_count :: "conf_store \<Rightarrow> nat option \<Rightarrow> int option" where
  "sls_conf_get_conf_count H c =
     (case c of None \<Rightarrow> Some 0
      | Some i \<Rightarrow> do { node \<leftarrow> node_at H i; n \<leftarrow> sls_conf_get_conf_count H (b_sibling node); Some (n + 1) })"

declare sls_conf_get_conf_count.simps [code]

section \<open>The command line\<close>

text \<open>A \<^verbatim>\<open>char[256]\<close> filled by \<^verbatim>\<open>strlcpy\<close> holds the first 255 characters.\<close>

definition clip256 :: "string \<Rightarrow> string" where
  "clip256 s = take 255 s"

function argv_loop ::
  "(string \<Rightarrow> byte list option) \<Rightarrow> string list \<Rightarrow> nat \<Rightarrow> sls_conf_cmd_t list \<Rightarrow> conf_vars \<Rightarrow> (int \<times> conf_vars) option" where
  "argv_loop pton6 argv i cmds opt =
     (if \<not> i < length argv then Some (SLS_OK, opt)
      else let temp0 = clip256 (argv ! i); temp = sls_remove_marks temp0 in
        if temp0 = [] then Some (SLS_ERROR, opt)
        else if temp = [] \<or> hd temp \<noteq> CHR ''-'' then Some (SLS_ERROR, opt)
        else case sls_conf_find (tl temp) cmds of
          None \<Rightarrow> Some (SLS_ERROR, opt)
        | Some it \<Rightarrow>
            if i + 1 \<ge> length argv then Some (SLS_ERROR, opt)
            else case conf_set pton6 (sls_remove_marks (clip256 (argv ! (i + 1)))) it opt of
              None \<Rightarrow> None
            | Some (r, opt1) \<Rightarrow>
                if r \<noteq> CONF_OK then Some (SLS_ERROR, opt1) else argv_loop pton6 argv (i + 2) cmds opt1)"
  by auto
termination
  by (relation "measure (\<lambda>(pton6, argv, i, cmds, opt). length argv - i)") auto

declare argv_loop.simps [simp del]

definition sls_parse_argv ::
  "(string \<Rightarrow> byte list option) \<Rightarrow> string list \<Rightarrow> sls_conf_cmd_t list \<Rightarrow> conf_vars \<Rightarrow> (int \<times> conf_vars) option" where
  "sls_parse_argv pton6 argv cmds opt =
     (if length argv = 2 then Some (SLS_ERROR, opt) else argv_loop pton6 argv 1 cmds opt)"

end
