(* ===== verification/Conf_Ports.thy ===== *)
theory Conf_Ports
  imports Conf
begin

text \<open>The port lists of \<^verbatim>\<open>src/core/conf.cpp\<close> expand as \<^verbatim>\<open>conf.hpp\<close> documents: the ports of all entries, in
  the order of their first occurrence, without repetition and within 1 to 65535.\<close>

section \<open>Trimming\<close>

lemma blank_split:
  assumes "list_all blank a" "list_all blank b" "s \<noteq> []" "\<not> blank (hd s)" "\<not> blank (last s)"
  shows "trim_local (a @ s @ b) = s"
proof -
  have nb: "\<not> list_all blank (a @ s @ b)" using assms(3,4) by (cases s) auto
  have tw: "takeWhile blank (a @ s @ b) = a" using assms(1,3,4) by (cases s) (auto simp: takeWhile_append list_all_iff)
  have "takeWhile blank (rev b @ rev s @ rev a) = rev b"
    using assms(2,3,5) by (cases s rule: rev_cases) (auto simp: takeWhile_append list_all_iff)
  hence lt: "length (takeWhile blank (rev (a @ s @ b))) = length b" by simp
  have "0 < length s" using assms(3) by simp
  hence "length (a @ s @ b) - 1 - length b - length a + 1 = length s" by simp
  thus ?thesis using nb tw lt by (auto simp: trim_local_def find_first_not_of_def find_last_not_of_def)
qed

section \<open>The reference\<close>

text \<open>The first occurrences of a list, in order.\<close>

definition first_seen :: "int list \<Rightarrow> int list" where
  "first_seen xs = rev (remdups (rev xs))"

lemma push_unique_first_seen: "foldl push_unique (first_seen xs) ys = first_seen (xs @ ys)"
proof (induction ys arbitrary: xs)
  case (Cons y ys)
  have "push_unique (first_seen xs) y = first_seen (xs @ [y])" by (simp add: push_unique_def first_seen_def)
  thus ?case using Cons [of "xs @ [y]"] by simp
qed simp

text \<open>An entry is a range, printed as one port when it has one, with blanks before and after.\<close>

type_synonym port_range = "string \<times> nat \<times> nat \<times> string"

fun range_ok :: "port_range \<Rightarrow> bool" where
  "range_ok (a, lo, hi, b) = (list_all blank a \<and> list_all blank b \<and> 1 \<le> lo \<and> lo \<le> hi \<and> hi \<le> 65535)"

fun range_body :: "nat \<Rightarrow> nat \<Rightarrow> string" where
  "range_body lo hi = (if lo = hi then dec_digits lo else dec_digits lo @ CHR ''-'' # dec_digits hi)"

fun range_text :: "port_range \<Rightarrow> string" where
  "range_text (a, lo, hi, b) = a @ range_body lo hi @ b"

fun range_ports :: "port_range \<Rightarrow> int list" where
  "range_ports (a, lo, hi, b) = [int lo..int hi]"

lemma dec_chars: "c \<in> set (dec_digits n) \<Longrightarrow> isdigit c"
  using dec_digits_isdigit [of n] by (simp add: list_all_iff)

lemma digit_no_dash: "c \<in> set (dec_digits n) \<Longrightarrow> \<not> blank c \<and> c \<noteq> CHR ''-'' \<and> c \<noteq> CHR '',''"
  using isdigit_not_space [OF dec_chars] by (auto simp: blank_def whitespace_def)

lemma digit_ends: "\<not> blank (hd (dec_digits n))" "\<not> blank (last (dec_digits n))"
  using digit_no_dash hd_in_set last_in_set dec_digits_nonempty by blast+

lemma trim_dec [simp]: "trim_local (dec_digits n) = dec_digits n"
  using blank_split [of "[]" "[]" "dec_digits n"] digit_ends [of n] by simp

lemma single_port_dec: "1 \<le> n \<Longrightarrow> n \<le> 65535 \<Longrightarrow> sls_parse_single_port (dec_digits n) = Some (int n)"
  using strtol_dec [of n "[]"] by (simp add: sls_parse_single_port_def)

lemma port_entry_body:
  assumes "1 \<le> lo" "lo \<le> hi" "hi \<le> 65535"
  shows "port_entry (range_body lo hi) = Some [int lo..int hi]"
proof (cases "lo = hi")
  case True
  have "str_find ''-'' (dec_digits hi) = None" using digit_no_dash by (auto simp: str_find_char)
  thus ?thesis using True assms by (simp add: port_entry_def single_port_dec)
next
  case False
  have n: "CHR ''-'' \<notin> set (dec_digits lo)" using digit_no_dash by blast
  have "str_find ''-'' (dec_digits lo @ CHR ''-'' # dec_digits hi) = Some (length (dec_digits lo))"
    using n by (auto simp: str_find_char takeWhile_append)
  thus ?thesis using False assms by (simp add: port_entry_def single_port_dec)
qed

lemma body_ends:
  "range_body lo hi \<noteq> []" "\<not> blank (hd (range_body lo hi))" "\<not> blank (last (range_body lo hi))" "CHR '','' \<notin> set (range_body lo hi)"
  using digit_ends digit_no_dash by (auto simp: hd_append)

lemma trim_range: "range_ok (a, lo, hi, b) \<Longrightarrow> trim_local (range_text (a, lo, hi, b)) = range_body lo hi"
  using blank_split [of a b "range_body lo hi"] body_ends [of lo hi] by simp

lemma port_tokens_ranges:
  "list_all range_ok es \<Longrightarrow> port_tokens (map range_text es) (first_seen xs) =
     (int (length (first_seen (xs @ concat (map range_ports es)))), first_seen (xs @ concat (map range_ports es)))"
proof (induction es arbitrary: xs)
  case (Cons e es)
  obtain a lo hi b where e: "e = (a, lo, hi, b)" by (cases e)
  have t: "trim_local (range_text e) = range_body lo hi" using Cons.prems trim_range e by simp
  have p: "port_entry (range_body lo hi) = Some (range_ports e)" using Cons.prems e port_entry_body by simp
  have "range_body lo hi \<noteq> []" by (rule body_ends(1))
  thus ?case using Cons.IH [of "xs @ range_ports e"] Cons.prems t p
    by (simp add: push_unique_first_seen del: range_body.simps)
qed simp

section \<open>Properties\<close>

text \<open>A port specification expands as documented: any non-empty list of single ports and ranges within 1 to
  65535, with blanks around the entries, gives every port of every entry, duplicates collapsed to their first
  occurrence, and its count; every port of the result is in range and none is repeated.\<close>

theorem port_list_expands:
  assumes "list_all range_ok es" "es \<noteq> []"
  shows "sls_parse_port_list (Some (join_with (CHR '','') (map range_text es))) =
      (int (length (first_seen (concat (map range_ports es)))), first_seen (concat (map range_ports es))) \<and>
    distinct (first_seen (concat (map range_ports es))) \<and>
    list_all (\<lambda>p. 1 \<le> p \<and> p \<le> 65535) (first_seen (concat (map range_ports es)))"
proof -
  have "range_text e \<noteq> [] \<and> CHR '','' \<notin> set (range_text e)" if "e \<in> set es" for e
  proof -
    obtain a lo hi b where e: "e = (a, lo, hi, b)" by (cases e)
    have "CHR '','' \<notin> set a \<and> CHR '','' \<notin> set b" using assms(1) that e by (fastforce simp: list_all_iff blank_def)
    thus ?thesis using body_ends [of lo hi] unfolding e by (simp del: range_body.simps)
  qed
  hence tok: "list_all (\<lambda>t. t \<noteq> [] \<and> CHR '','' \<notin> set t) (map range_text es)" by (simp add: list_all_iff)
  let ?j = "join_with (CHR '','') (map range_text es)"
  have s: "strtok_loop '','' ?j = map range_text es" using strtok_join [OF tok] assms(2) by simp
  have "strtok_loop '','' [] = []" by (simp add: strtok_loop.simps)
  hence j: "?j \<noteq> []" using s assms(2) by auto
  have split: "sls_conf_string_split ?j '','' = map range_text es" using s j by (simp add: sls_conf_string_split_def)
  have "sls_parse_port_list (Some ?j) = port_tokens (map range_text es) (first_seen [])"
    using j split by (cases ?j) (simp_all add: sls_parse_port_list_def first_seen_def)
  moreover have "1 \<le> p \<and> p \<le> 65535" if "p \<in> set (concat (map range_ports es))" for p
    using that assms(1) by (fastforce simp: list_all_iff)
  ultimately show ?thesis using port_tokens_ranges [OF assms(1), of "[]"] by (auto simp: first_seen_def list_all_iff)
qed

theorem port_list_expands_witness:
  "sls_parse_port_list (Some ''80, 90-92,80'') = (4, [80, 90, 91, 92])"
proof -
  let ?es = "[([], 80, 80, []), ('' '', 90, 92, []), ([], 80, 80, [])] :: port_range list"
  have t: "join_with (CHR '','') (map range_text ?es) = ''80, 90-92,80''" by code_simp
  have f: "first_seen (concat (map range_ports ?es)) = [80, 90, 91, 92]" by code_simp
  show ?thesis using port_list_expands [of ?es] unfolding t f by (simp add: blank_def)
qed

end
