(* ===== verification/Conf_Tables.thy ===== *)
theory Conf_Tables
  imports Conf
begin

text \<open>The directive tables: \<^verbatim>\<open>srt\<close> (\<^verbatim>\<open>src/core/SLSManager.hpp\<close>), \<^verbatim>\<open>server\<close> (\<^verbatim>\<open>src/core/SLSListener.hpp\<close>),
  \<^verbatim>\<open>app\<close> (\<^verbatim>\<open>src/core/SLSPublisher.hpp\<close>), \<^verbatim>\<open>relay\<close> (\<^verbatim>\<open>src/core/SLSRelay.hpp\<close>) and the command line
  (\<^verbatim>\<open>src/srt-live-server.cpp\<close>). Each entry names the directive, the field it fills, its setter, the bounds of
  the value (or of its length) and, for a character array, the bytes of the array.\<close>

definition directive :: "string \<Rightarrow> string \<Rightarrow> conf_setter \<Rightarrow> int \<Rightarrow> int \<Rightarrow> int \<Rightarrow> sls_conf_cmd_t" where
  "directive n tgt setter lo hi cap =
     \<lparr> cmd_name = n, cmd_target = tgt, cmd_set = setter, cmd_min = lo, cmd_max = hi, cmd_cap = cap \<rparr>"

definition conf_cmd_srt :: "sls_conf_cmd_t list" where
  "conf_cmd_srt =
    [directive ''log_file'' ''log_file'' Set_string 1 2047 2048,
     directive ''log_level'' ''log_level'' Set_string 1 2047 2048,
     directive ''pidfile'' ''pidfile'' Set_string 1 2047 2048,
     directive ''worker_threads'' ''worker_threads'' Set_int 0 100 0,
     directive ''worker_connections'' ''worker_connections'' Set_int 1 1024 0,
     directive ''stat_post_url'' ''stat_post_url'' Set_string 1 2047 2048,
     directive ''stat_post_interval'' ''stat_post_interval'' Set_int 1 60 0,
     directive ''user'' ''user'' Set_string 1 255 256,
     directive ''group'' ''group'' Set_string 1 255 256,
     directive ''http_port'' ''http_port'' Set_int 1 65535 0,
     directive ''http_bind_addr'' ''http_bind_addr'' Set_string 1 2047 2048,
     directive ''cors_header'' ''cors_header'' Set_string 1 2047 2048,
     directive ''api_keys'' ''api_keys'' Set_string_list 0 10240 0,
     directive ''log_rate_limit_enabled'' ''log_rate_limit_enabled'' Set_int 0 1 0,
     directive ''log_rate_limit_window'' ''log_rate_limit_window'' Set_int 1 3600 0,
     directive ''log_rate_limit_threshold'' ''log_rate_limit_threshold'' Set_int 1 1000 0,
     directive ''log_summary_enabled'' ''log_summary_enabled'' Set_int 0 1 0,
     directive ''log_summary_interval'' ''log_summary_interval'' Set_int 1 3600 0,
     directive ''log_session_ids'' ''log_session_ids'' Set_int 0 1 0,
     directive ''log_format'' ''log_format'' Set_string 1 31 32,
     directive ''log_level_connection'' ''log_level_connection'' Set_string 1 31 32,
     directive ''log_level_listener'' ''log_level_listener'' Set_string 1 31 32,
     directive ''log_level_stream'' ''log_level_stream'' Set_string 1 31 32,
     directive ''log_level_data'' ''log_level_data'' Set_string 1 31 32,
     directive ''log_level_relay'' ''log_level_relay'' Set_string 1 31 32,
     directive ''log_level_http'' ''log_level_http'' Set_string 1 31 32,
     directive ''log_level_auth'' ''log_level_auth'' Set_string 1 31 32,
     directive ''log_level_system'' ''log_level_system'' Set_string 1 31 32,
     directive ''push_url_dns_timeout_ms'' ''push_url_dns_timeout_ms'' Set_int 0 60000 0,
     directive ''rcv_buf_mb'' ''rcv_buf_mb'' Set_int 0 1024 0,
     directive ''rcv_sizing_max_bitrate_kbps'' ''rcv_sizing_max_bitrate_kbps'' Set_int 0 1000000 0,
     directive ''rcv_sizing_max_latency_ms'' ''rcv_sizing_max_latency_ms'' Set_int 0 60000 0,
     directive ''max_streams'' ''max_streams'' Set_int 0 100000 0,
     directive ''max_total_ring_mb'' ''max_total_ring_mb'' Set_int 0 1048576 0,
     directive ''nofile_limit'' ''nofile_limit'' Set_int 0 1048576 0]"

definition conf_cmd_server :: "sls_conf_cmd_t list" where
  "conf_cmd_server =
    [directive ''domain_player'' ''domain_player'' Set_string 1 2047 2048,
     directive ''domain_publisher'' ''domain_publisher'' Set_string 1 2047 2048,
     directive ''listen'' ''listen'' Set_int 1 65535 0,
     directive ''listen_publisher'' ''listen_publisher'' Set_portlist 1 255 256,
     directive ''listen_publisher_srtla'' ''listen_publisher_srtla'' Set_portlist 1 255 256,
     directive ''listen_player'' ''listen_player'' Set_portlist 1 255 256,
     directive ''backlog'' ''backlog'' Set_int 1 1024 0,
     directive ''latency_min'' ''latency_min'' Set_int 0 5000 0,
     directive ''latency_max'' ''latency_max'' Set_int 0 10000 0,
     directive ''idle_streams_timeout'' ''idle_streams_timeout'' Set_int (-1) 86400 0,
     directive ''player_idle_streams_timeout'' ''player_idle_streams_timeout'' Set_int (-1) 86400 0,
     directive ''publisher_first_data_grace'' ''publisher_first_data_grace'' Set_int (-1) 60000 0,
     directive ''on_event_url'' ''on_event_url'' Set_string 1 2047 2048,
     directive ''player_key_auth_url'' ''player_key_auth_url'' Set_string 1 2047 2048,
     directive ''player_key_auth_timeout'' ''player_key_auth_timeout'' Set_int 1 30000 0,
     directive ''player_key_cache_duration'' ''player_key_cache_duration'' Set_int 1 300000 0,
     directive ''player_key_rate_limit_requests'' ''player_key_rate_limit_requests'' Set_int (-1) 1000 0,
     directive ''player_key_rate_limit_window'' ''player_key_rate_limit_window'' Set_int 1000 3600000 0,
     directive ''player_key_max_length'' ''player_key_max_length'' Set_int 1 256 0,
     directive ''player_key_min_length'' ''player_key_min_length'' Set_int 1 64 0,
     directive ''default_sid'' ''default_sid'' Set_string 1 2047 2048,
     directive ''srt_passphrase'' ''srt_passphrase'' Set_string 0 79 80,
     directive ''srt_pbkeylen'' ''srt_pbkeylen'' Set_int 0 32 0,
     directive ''peer_idle_timeout'' ''peer_idle_timeout'' Set_int 0 60000 0,
     directive ''auth_reject_cache_ttl'' ''auth_reject_cache_ttl'' Set_int 0 3600 0]"

definition conf_cmd_app :: "sls_conf_cmd_t list" where
  "conf_cmd_app =
    [directive ''app_player'' ''app_player'' Set_string 1 2047 2048,
     directive ''app_publisher'' ''app_publisher'' Set_string 1 2047 2048,
     directive ''publisher_exit_delay'' ''publisher_exit_delay'' Set_int 1 300 0,
     directive ''max_input_bitrate_kbps'' ''max_input_bitrate_kbps'' Set_int 0 1000000 0,
     directive ''max_input_bitrate_violation_timeout'' ''max_input_bitrate_violation_timeout'' Set_int 1 300 0,
     directive ''max_input_bitrate_spike_tolerance'' ''max_input_bitrate_spike_tolerance'' Set_int 100 500 0,
     directive ''max_players_per_stream'' ''max_players_per_stream'' Set_int (-1) 10000 0,
     directive ''allow'' ''ip_actions'' Set_ipset 1 256 0,
     directive ''deny'' ''ip_actions'' Set_ipset 1 256 0,
     directive ''push_destination_max'' ''push_destination_max'' Set_int 0 16 0,
     directive ''push_destination_allow_internal'' ''push_destination_allow_internal'' Set_bool 0 0 0,
     directive ''push_destination_allow_self'' ''push_destination_allow_self'' Set_bool 0 0 0,
     directive ''push_destination_allow_schemes'' ''push_destination_allow_schemes'' Set_string 0 2047 2048,
     directive ''push_destination_max_url_len'' ''push_destination_max_url_len'' Set_int 0 4096 0,
     directive ''timecode_sei'' ''timecode_sei'' Set_bool 0 0 0]"

definition conf_cmd_relay :: "sls_conf_cmd_t list" where
  "conf_cmd_relay =
    [directive ''type'' ''type'' Set_string 1 31 32,
     directive ''mode'' ''mode'' Set_string 1 31 32,
     directive ''upstreams'' ''upstreams'' Set_upstreams 1 1023 1024,
     directive ''reconnect_interval'' ''reconnect_interval'' Set_int 1 3600 0,
     directive ''idle_streams_timeout'' ''idle_streams_timeout'' Set_int (-1) 3600 0]"

definition conf_cmd_opt :: "sls_conf_cmd_t list" where
  "conf_cmd_opt =
    [directive ''c'' ''conf_file_name'' Set_string 1 1023 1024,
     directive ''s'' ''c_cmd'' Set_string 1 1023 256,
     directive ''l'' ''log_level'' Set_string 1 1023 256]"

text \<open>The registered block kinds.\<close>

definition sls_runtimes :: "sls_runtime_conf_t list" where
  "sls_runtimes =
    [\<lparr> rt_name = ''srt'', rt_cmds = conf_cmd_srt \<rparr>, \<lparr> rt_name = ''server'', rt_cmds = conf_cmd_server \<rparr>,
     \<lparr> rt_name = ''app'', rt_cmds = conf_cmd_app \<rparr>, \<lparr> rt_name = ''relay'', rt_cmds = conf_cmd_relay \<rparr>]"

end
