(* ===== verification/Conf_Correct.thy ===== *)
theory Conf_Correct
  imports Conf_Tables
begin

text \<open>What the configuration code guarantees: the parser always returns and never writes outside a field, every
  value it stores is admissible for its directive, port lists expand as documented, and a reload leaves the
  generation that managers still hold alone; and the cases in which it does not.\<close>

section \<open>Lines\<close>

lemma replace_char:
  "replace_all s [c] [] = Some (filter (\<lambda>x. x \<noteq> c) s)"
proof (induction s rule: length_induct)
  case (1 s)
  show ?case
  proof (cases "c \<in> set s")
    case False
    hence "filter (\<lambda>x. x \<noteq> c) s = s" by (auto simp: filter_id_conv)
    thus ?thesis using False by (subst replace_all.simps) (simp add: str_find_char)
  next
    case True
    then obtain ys zs where s: "s = ys @ c # zs" "c \<notin> set ys" by (meson split_list_first)
    have tw: "takeWhile (\<lambda>x. x \<noteq> c) s = ys" using s by (auto simp: takeWhile_append)
    have "replace_all (ys @ zs) [c] [] = Some (filter (\<lambda>x. x \<noteq> c) (ys @ zs))" using 1 s by simp
    thus ?thesis using s tw by (subst replace_all.simps) (simp add: str_find_char)
  qed
qed

lemma no_tabs_trim_eq: "no_tabs_trim s = Some (trim (filter (\<lambda>x. x \<noteq> CHR 0x09) s))"
  by (simp add: no_tabs_trim_def tab_def replace_char)

lemma conf_line_total: "\<exists>l. conf_line_of raw = Some l"
  by (auto simp: conf_line_of_def no_tabs_trim_eq Let_def)

section \<open>Walking the parser\<close>

text \<open>Blocks are only ever added, and keep their names.\<close>

definition grows :: "conf_store \<Rightarrow> conf_store \<Rightarrow> bool" where
  "grows H H' \<longleftrightarrow> length H \<le> length H' \<and> (\<forall>i < length H. map_option b_name (H' ! i) = map_option b_name (H ! i))"

lemma grows_refl: "grows H H"
  by (simp add: grows_def)

lemma grows_trans: "grows H H' \<Longrightarrow> grows H' H'' \<Longrightarrow> grows H H''"
  by (auto simp: grows_def)

text \<open>The current block is there, and the current table is the one of its kind.\<close>

definition current :: "sls_runtime_conf_t list \<Rightarrow> conf_store \<Rightarrow> nat \<Rightarrow> sls_runtime_conf_t option \<Rightarrow> bool" where
  "current rts H b rt \<longleftrightarrow> b < length H \<and> (case H ! b of None \<Rightarrow> False | Some node \<Rightarrow>
     (case rt of None \<Rightarrow> True | Some r \<Rightarrow> sls_conf_create_block_by_name (b_name node) rts = Some r))"

lemma current_grows: "current rts H b rt \<Longrightarrow> grows H H' \<Longrightarrow> current rts H' b rt"
proof -
  assume a: "current rts H b rt" "grows H H'"
  have b: "b < length H" "b < length H'" "map_option b_name (H' ! b) = map_option b_name (H ! b)"
    using a by (auto simp: current_def grows_def)
  obtain node where n: "H ! b = Some node" using a(1) by (auto simp: current_def split: option.splits)
  then obtain node' where "H' ! b = Some node'" "b_name node' = b_name node" using b(3) by (cases "H' ! b") auto
  thus ?thesis using a(1) n b by (simp add: current_def split: option.splits)
qed

lemma node_current: "current rts H b rt \<Longrightarrow> \<exists>node. node_at H b = Some node \<and> H ! b = Some node"
  by (auto simp: current_def node_at_def split: option.splits)

lemma create_name: "sls_conf_create_block_by_name n rts = Some rt \<Longrightarrow> rt_name rt = n \<and> rt \<in> set rts"
  by (induction rts) (auto split: if_splits)

lemma update_grows: "H ! b = Some node \<Longrightarrow> b_name node' = b_name node \<Longrightarrow> grows H (H[b := Some node'])"
  unfolding grows_def by (metis length_list_update nth_list_update_eq nth_list_update_neq option.map(2) order_refl)

lemma block_set_grows:
  assumes "block_set pton6 rt layers H b n v = Some (ok, H1)"
  shows "grows H H1"
proof (cases "H1 = H")
  case False
  obtain r cmd where r: "rt = Some r" "layers \<noteq> 0" "sls_conf_find (c_str n) (rt_cmds r) = Some cmd"
    using assms False by (auto simp: block_set_def split: option.splits if_splits)
  then obtain node q where "node_at H b = Some node" "conf_set pton6 (c_str v) cmd (b_vars node) = Some q"
      "H1 = H[b := Some (node\<lparr> b_vars := snd q \<rparr>)]"
    using assms by (auto simp: block_set_def bind_eq_Some_conv)
  thus ?thesis by (auto simp: node_at_def split: if_splits intro: update_grows)
qed (simp add: grows_refl)

lemma link_block_at:
  assumes "current rts H b rt"
  shows "\<exists>node node'. H ! b = Some node \<and> b_name node' = b_name node \<and> b_vars node' = b_vars node \<and>
    link_block H b child n = Some (H[b := Some node'] @ [Some (fresh_block n)])"
proof -
  obtain node where n: "node_at H b = Some node" "H ! b = Some node" using node_current [OF assms] by blast
  show ?thesis
    by (intro exI [of _ node] exI [of _ "if child then node\<lparr> b_child := Some (length H) \<rparr> else node\<lparr> b_sibling := Some (length H) \<rparr>"])
       (simp add: link_block_def Let_def n)
qed

lemma link_block_grows:
  assumes "current rts H b rt" "link_block H b child n = Some H1"
  shows "grows H H1" "length H < length H1" "H1 ! length H = Some (fresh_block n)"
proof -
  obtain node node' where n: "H ! b = Some node" "b_name node' = b_name node"
      "H1 = H[b := Some node'] @ [Some (fresh_block n)]" using link_block_at [OF assms(1), of child n] assms(2) by auto
  show "grows H H1" "length H < length H1" "H1 ! length H = Some (fresh_block n)"
    using update_grows [OF n(1,2)] unfolding n(3) by (auto simp: grows_def nth_append)
qed

text \<open>The rule the invariants below are proved with: \<open>P\<close> holds of the store as long as the parse goes on, \<open>Q\<close>
  says which blocks may be current. Directives and new blocks must keep both and have a result.\<close>

definition walk_ok ::
  "(string \<Rightarrow> byte list option) \<Rightarrow> sls_runtime_conf_t list \<Rightarrow> (conf_store \<Rightarrow> bool) \<Rightarrow> (nat \<Rightarrow> bool) \<Rightarrow> bool" where
  "walk_ok pton6 rts P Q \<longleftrightarrow>
     (\<forall>H b rt layers n v. P H \<longrightarrow> current rts H b rt \<longrightarrow> Q b \<longrightarrow>
        (\<exists>ok H1. block_set pton6 rt layers H b n v = Some (ok, H1) \<and> (ok \<longrightarrow> P H1))) \<and>
     (\<forall>H H1 b rt child r. P H \<longrightarrow> current rts H b rt \<longrightarrow> Q b \<longrightarrow> sls_conf_create_block_by_name (rt_name r) rts = Some r \<longrightarrow>
        link_block H b child (rt_name r) = Some H1 \<longrightarrow> P H1 \<and> Q (length H))"

lemma walk_okD:
  assumes "walk_ok pton6 rts P Q" "P H" "current rts H b rt" "Q b"
  shows "\<exists>ok H1. block_set pton6 rt layers H b n v = Some (ok, H1) \<and> (ok \<longrightarrow> P H1)"
    "sls_conf_create_block_by_name (rt_name r) rts = Some r \<Longrightarrow> link_block H b child (rt_name r) = Some H1 \<Longrightarrow> P H1 \<and> Q (length H)"
  using assms unfolding walk_ok_def by blast+

lemma parse_block_rule:
  assumes "walk_ok pton6 rts P Q" "P H" "current rts H b rt" "Q b"
  shows "\<exists>r ls' H' c'. sls_conf_parse_block pton6 rts ls H b child rt layers lst ret = Some (r, ls', H', c') \<and>
      grows H H' \<and> (r = SLS_OK \<longrightarrow> P H')"
  using assms
proof (induction pton6 rts ls H b child rt layers lst ret rule: sls_conf_parse_block.induct)
  case (1 pton6 rts H b child rt layers lst ret)
  thus ?case by (simp add: grows_refl)
next
  case (2 pton6 rts raw ls H b child rt layers lst ret)
  note IH = 2(1-4) and W = 2(5) and P = 2(6) and cur = 2(7) and Q = 2(8)
  obtain l where l: "conf_line_of raw = Some l" using conf_line_total by blast
  show ?case
  proof (cases l)
    case Blank_line
    thus ?thesis using IH(1) [OF l Blank_line W P cur Q] l by simp
  next
    case (Setting_line t n v)
    obtain ok H1 where s: "block_set pton6 rt layers H b n v = Some (ok, H1)" "ok \<longrightarrow> P H1"
      using walk_okD(1) [OF W P cur Q] by blast
    note g = block_set_grows [OF s(1)]
    show ?thesis
    proof (cases ok)
      case True
      hence "\<not> \<not> ok" by simp
      from IH(2) [OF l Setting_line s(1) refl this W _ current_grows [OF cur g] Q] s(2) True
      obtain r ls' H' c' where "sls_conf_parse_block pton6 rts ls H1 b child rt layers t ret = Some (r, ls', H', c')"
          "grows H1 H'" "r = SLS_OK \<longrightarrow> P H'" by blast
      thus ?thesis using True l Setting_line s(1) grows_trans [OF g] by simp
    qed (use g l Setting_line s(1) in \<open>simp add: sls_codes\<close>)
  next
    case (Open_line s)
    let ?n = "if s = [] then lst else s"
    show ?thesis
    proof (cases "?n = [] \<or> sls_conf_create_block_by_name (c_str ?n) rts = None")
      case True
      thus ?thesis using l Open_line by (cases "?n = []") (simp_all add: Let_def grows_refl sls_codes)
    next
      case False
      then obtain rt1 where rt1: "?n \<noteq> []" "sls_conf_create_block_by_name (c_str ?n) rts = Some rt1" by auto
      have name: "rt_name rt1 = c_str ?n" using create_name [OF rt1(2)] by simp
      obtain H1 where H1: "link_block H b child (rt_name rt1) = Some H1" using link_block_at [OF cur] by blast
      note g1 = link_block_grows [OF cur H1]
      have P1: "P H1" "Q (length H)" using walk_okD(2) [OF W P cur Q _ H1] rt1(2) name by simp_all
      have cur1: "current rts H1 (length H) (Some rt1)"
        using g1 rt1(2) name by (simp add: current_def fresh_block_def)
      obtain r1 l1 H2 c1 where q: "sls_conf_parse_block pton6 rts ls H1 (length H) True (Some rt1) (layers + 1) [] SLS_ERROR =
          Some (r1, l1, H2, c1)" "grows H1 H2" "r1 = SLS_OK \<longrightarrow> P H2"
        using IH(3) [OF l Open_line refl rt1 H1 W P1(1) cur1 P1(2)] by blast
      note eq = l Open_line rt1 H1 q(1)
      show ?thesis
      proof (cases "r1 = SLS_OK")
        case True
        hence "\<not> r1 \<noteq> SLS_OK" by simp
        from IH(4) [OF l Open_line refl rt1 H1 q(1) refl refl refl this W _ current_grows [OF cur1 q(2)] P1(2)] True q(3)
        obtain r ls' H' c' where "sls_conf_parse_block pton6 rts l1 H2 (length H) c1 (Some rt1) (layers + 1) s r1 = Some (r, ls', H', c')"
          "grows H2 H'" "r = SLS_OK \<longrightarrow> P H'" by blast
        thus ?thesis using eq True grows_trans [OF g1(1) grows_trans [OF q(2)]] by (simp add: Let_def)
      qed (use eq grows_trans [OF g1(1) q(2)] in \<open>simp add: Let_def sls_codes\<close>)
    qed
  qed (use l P in \<open>auto simp: grows_refl sls_codes\<close>)
qed

section \<open>Admissible values\<close>

text \<open>What a directive may leave in its field.\<close>

fun value_ok :: "sls_conf_cmd_t \<Rightarrow> conf_value \<Rightarrow> bool" where
  "value_ok cmd (VInt i) = (cmd_set cmd = Set_int \<and> cmd_min cmd \<le> i \<and> i \<le> cmd_max cmd)"
| "value_ok cmd (VStr s) = (cmd_min cmd \<le> int (length s) \<and> int (length s) \<le> cmd_max cmd \<and> int (length s) < cmd_cap cmd \<and>
     (cmd_set cmd = Set_string \<or>
      cmd_set cmd = Set_upstreams \<and> sls_conf_string_split s '' '' \<noteq> [] \<or>
      cmd_set cmd = Set_portlist \<and> 0 < fst (sls_parse_port_list (Some s))))"
| "value_ok cmd (VBool b) = (cmd_set cmd = Set_bool)"
| "value_ok cmd (VAcl a) = (cmd_set cmd = Set_ipset \<and> (\<forall>e \<in> set (acl_play a) \<union> set (acl_publish a). 0 \<le> ip_address e \<and> ip_address e < 2 ^ 32))"
| "value_ok cmd (VList l) = (cmd_set cmd = Set_string_list \<and> cmd_min cmd \<le> int (length l) \<and> int (length l) \<le> cmd_max cmd \<and> [] \<notin> set l)"

definition vars_ok :: "sls_conf_cmd_t list \<Rightarrow> conf_vars \<Rightarrow> bool" where
  "vars_ok cmds vars \<longleftrightarrow> (\<forall>(x, v) \<in> set vars. \<exists>cmd \<in> set cmds. cmd_target cmd = x \<and> value_ok cmd v)"

text \<open>A table whose text directives fit their arrays, and whose fields have one type each.\<close>

definition fits :: "sls_conf_cmd_t \<Rightarrow> bool" where
  "fits cmd \<longleftrightarrow> (cmd_set cmd \<in> {Set_string, Set_upstreams, Set_portlist} \<longrightarrow> cmd_max cmd < cmd_cap cmd)"

definition table_ok :: "sls_conf_cmd_t list \<Rightarrow> bool" where
  "table_ok cmds \<longleftrightarrow> (\<forall>cmd \<in> set cmds. fits cmd \<and> (\<forall>c \<in> set cmds. cmd_target c = cmd_target cmd \<longrightarrow> cmd_set c = cmd_set cmd))"

lemma vars_ok_update:
  assumes "vars_ok cmds vars" "cmd \<in> set cmds" "value_ok cmd v"
  shows "vars_ok cmds (AList.update (cmd_target cmd) v vars)"
proof -
  have "set (AList.update (cmd_target cmd) v vars) \<subseteq> insert (cmd_target cmd, v) (set vars)" by (rule alist_set_update)
  thus ?thesis using assms unfolding vars_ok_def by fast
qed

lemma port_tokens_count: "port_tokens ts out = (n, ps) \<Longrightarrow> n = -1 \<or> n = int (length ps)"
  by (induction ts out rule: port_tokens.induct) (auto simp: Let_def split: if_splits option.splits)

lemma port_list_count: "sls_parse_port_list s = (n, ps) \<Longrightarrow> n \<ge> 0 \<Longrightarrow> n = int (length ps)"
  by (auto simp: sls_parse_port_list_def split: option.splits list.splits dest: port_tokens_count)

lemma store_text_fits:
  "int (length v) \<le> cmd_max cmd \<Longrightarrow> cmd_max cmd < cmd_cap cmd \<Longrightarrow>
   store_text cmd v conf = Some (AList.update (cmd_target cmd) (VStr v) conf)"
  by (simp add: store_text_def)

lemma var_text_update [simp]: "var_text x (AList.update x (VStr s) conf) = s"
  by (simp add: var_text_def map_of_update)

lemma set_string_ok:
  assumes "cmd_max cmd < cmd_cap cmd"
  shows "sls_conf_set_string v cmd conf = Some (CONF_OUT_RANGE, conf) \<or>
    sls_conf_set_string v cmd conf = Some (CONF_OK, AList.update (cmd_target cmd) (VStr (unquote v)) conf) \<and>
      cmd_min cmd \<le> int (length (unquote v)) \<and> int (length (unquote v)) \<le> cmd_max cmd"
  using store_text_fits [OF _ assms] by (auto simp: sls_conf_set_string_def Let_def)

lemma acl_address_range: "acl_address pton6 s = Some (fam, a4, a6) \<Longrightarrow> 0 \<le> a4 \<and> a4 < 2 ^ 32"
  using uint_bounded [where 'a = 32] by (auto simp: acl_address_def split: if_splits option.splits)

text \<open>A setter of an admissible table has a result, and what it stores with success is admissible.\<close>

lemma var_acl_ok:
  assumes "vars_ok cmds vars" "cmd \<in> set cmds" "table_ok cmds" "cmd_set cmd = Set_ipset"
  shows "value_ok cmd (VAcl (var_acl (cmd_target cmd) vars))"
proof (cases "map_of vars (cmd_target cmd)")
  case (Some v)
  then obtain c where "c \<in> set cmds" "cmd_target c = cmd_target cmd" "value_ok c v"
    using assms(1) by (auto simp: vars_ok_def dest!: map_of_SomeD)
  moreover from this have "cmd_set c = Set_ipset" using assms(2-4) unfolding table_ok_def by metis
  ultimately show ?thesis using assms(4) Some by (cases v) (auto simp: var_acl_def)
qed (simp add: var_acl_def assms(4))

lemma set_ipset_ok:
  assumes "sls_conf_set_ipset pton6 v cmd vars = (CONF_OK, vars')" "vars_ok cmds vars" "cmd \<in> set cmds" "table_ok cmds"
    "cmd_set cmd = Set_ipset"
  shows "vars_ok cmds vars'"
proof -
  obtain which addr fam a4 a6 act where a: "acl_address pton6 addr = Some (fam, a4, a6)"
    and v: "vars' = AList.update (cmd_target cmd) (VAcl (acl_add which
      \<lparr> ip_address = a4, ip_address6 = a6, ip_family = fam, ip_action = act \<rparr> (var_acl (cmd_target cmd) vars))) vars"
    using assms(1) by (auto simp: sls_conf_set_ipset_def Let_def split: if_splits list.splits option.splits)
  have "value_ok cmd (VAcl (var_acl (cmd_target cmd) vars))" by (rule var_acl_ok [OF assms(2,3,4,5)])
  thus ?thesis unfolding v using acl_address_range [OF a] by (intro vars_ok_update [OF assms(2,3)]) (auto simp: acl_add_def)
qed

lemma conf_set_ok:
  assumes "vars_ok cmds vars" "cmd \<in> set cmds" "table_ok cmds"
  shows "\<exists>r vars'. conf_set pton6 v cmd vars = Some (r, vars') \<and> (r = CONF_OK \<longrightarrow> vars_ok cmds vars')"
proof -
  have fit: "cmd_max cmd < cmd_cap cmd" if "cmd_set cmd \<in> {Set_string, Set_upstreams, Set_portlist}"
    using assms(2,3) that unfolding table_ok_def fits_def by blast
  note up = vars_ok_update [OF assms(1,2)]
  show ?thesis
  proof (cases "cmd_set cmd")
    case Set_int
    thus ?thesis by (auto simp: conf_set_def sls_conf_set_int_def intro!: up split: option.splits)
  next
    case Set_portlist
    have s: "store_text cmd v vars = Some (AList.update (cmd_target cmd) (VStr v) vars)" if "\<not> cmd_max cmd < int (length v)"
      using store_text_fits fit Set_portlist that by force
    obtain n ps where n: "sls_parse_port_list (Some v) = (n, ps)" by fastforce
    have "value_ok cmd (VStr v)" if "\<not> n < 0" "ps \<noteq> []" "\<not> int (length v) < cmd_min cmd" "\<not> int (length v) > cmd_max cmd"
      using that Set_portlist n port_list_count [OF n] fit by force
    thus ?thesis using Set_portlist n s up by (auto simp: conf_set_def sls_conf_set_portlist_def)
  next
    case Set_ipset
    thus ?thesis using set_ipset_ok [OF _ assms Set_ipset] by (cases "sls_conf_set_ipset pton6 v cmd vars") (auto simp: conf_set_def)
  next
    case Set_string
    hence f: "cmd_max cmd < cmd_cap cmd" using fit by simp
    show ?thesis using set_string_ok [OF f, of v vars] Set_string f by (auto simp: conf_set_def intro!: up)
  next
    case Set_upstreams
    hence f: "cmd_max cmd < cmd_cap cmd" using fit by simp
    show ?thesis using set_string_ok [OF f, of v vars] Set_upstreams f
      by (auto simp: conf_set_def sls_conf_set_upstreams_def intro!: up)
  next
    case Set_bool
    thus ?thesis by (auto simp: conf_set_def sls_conf_set_bool_def intro!: up)
  next
    case Set_string_list
    thus ?thesis by (auto simp: conf_set_def sls_conf_set_string_list_def Let_def intro!: up)
  qed
qed

section \<open>The store stays admissible\<close>

definition node_ok :: "sls_runtime_conf_t list \<Rightarrow> sls_conf_base_t \<Rightarrow> bool" where
  "node_ok rts node = (case sls_conf_create_block_by_name (b_name node) rts of
      None \<Rightarrow> b_vars node = [] | Some r \<Rightarrow> vars_ok (rt_cmds r) (b_vars node))"

definition store_ok :: "sls_runtime_conf_t list \<Rightarrow> conf_store \<Rightarrow> bool" where
  "store_ok rts H \<longleftrightarrow> (\<forall>node. Some node \<in> set H \<longrightarrow> node_ok rts node)"

definition tables_ok :: "sls_runtime_conf_t list \<Rightarrow> bool" where
  "tables_ok rts \<longleftrightarrow> (\<forall>r \<in> set rts. table_ok (rt_cmds r))"

lemma sls_tables_ok: "tables_ok sls_runtimes"
  by code_simp

lemma find_mem: "sls_conf_find n cmds = Some cmd \<Longrightarrow> cmd \<in> set cmds"
  by (induction cmds) (auto split: if_splits)

lemma store_ok_update: "store_ok rts H \<Longrightarrow> node_ok rts node \<Longrightarrow> store_ok rts (H[b := Some node])"
  unfolding store_ok_def using set_update_subset_insert [of H b "Some node"] by blast

lemma block_set_ok:
  assumes "tables_ok rts" "store_ok rts H" "current rts H b rt"
  shows "\<exists>ok H1. block_set pton6 rt layers H b n v = Some (ok, H1) \<and> (ok \<longrightarrow> store_ok rts H1)"
proof -
  obtain node where node: "node_at H b = Some node" "H ! b = Some node" using node_current [OF assms(3)] by blast
  show ?thesis
  proof (cases "\<exists>r cmd. rt = Some r \<and> layers \<noteq> 0 \<and> sls_conf_find (c_str n) (rt_cmds r) = Some cmd")
    case True
    then obtain r cmd where r: "rt = Some r" "layers \<noteq> 0" "sls_conf_find (c_str n) (rt_cmds r) = Some cmd" by blast
    have c: "sls_conf_create_block_by_name (b_name node) rts = Some r" "b < length H"
      using assms(3) node r by (auto simp: current_def)
    have "Some node \<in> set H" using node(2) c(2) by (metis nth_mem)
    hence v: "vars_ok (rt_cmds r) (b_vars node)" using assms(2) c unfolding store_ok_def node_ok_def by force
    have "table_ok (rt_cmds r)" using assms(1) create_name [OF c(1)] by (auto simp: tables_ok_def)
    then obtain q vars where q: "conf_set pton6 (c_str v) cmd (b_vars node) = Some (q, vars)" "q = CONF_OK \<longrightarrow> vars_ok (rt_cmds r) vars"
      using conf_set_ok [OF v find_mem [OF r(3)]] by blast
    have "q = CONF_OK \<longrightarrow> store_ok rts (H[b := Some (node\<lparr> b_vars := vars \<rparr>)])"
      using q(2) c by (auto intro!: store_ok_update [OF assms(2)] simp: node_ok_def)
    thus ?thesis using q r node by (simp add: block_set_def)
  qed (auto simp: block_set_def split: option.splits)
qed

lemma walk_store_ok: "tables_ok rts \<Longrightarrow> walk_ok pton6 rts (store_ok rts) (\<lambda>b. True)"
proof -
  assume t: "tables_ok rts"
  have "store_ok rts H1" if H: "store_ok rts H" "current rts H b rt" "sls_conf_create_block_by_name (rt_name r) rts = Some r"
      "link_block H b child (rt_name r) = Some H1" for H H1 b rt child r
  proof -
    obtain node node' where n: "H ! b = Some node" "b_name node' = b_name node" "b_vars node' = b_vars node"
      "H1 = H[b := Some node'] @ [Some (fresh_block (rt_name r))]" using link_block_at [OF H(2), of child "rt_name r"] H(4) by auto
    have "Some node \<in> set H" using n(1) H(2) unfolding current_def by (metis nth_mem)
    hence "node_ok rts node" using H(1) unfolding store_ok_def by blast
    hence "node_ok rts node'" unfolding node_ok_def n(2,3) .
    moreover have "node_ok rts (fresh_block (rt_name r))" using H(3) by (simp add: node_ok_def fresh_block_def vars_ok_def)
    ultimately show ?thesis using store_ok_update [OF H(1)] unfolding n(4) store_ok_def by force
  qed
  thus ?thesis unfolding walk_ok_def using block_set_ok [OF t] by blast
qed

section \<open>Reloading\<close>

text \<open>A parse that starts at the root leaves every other block of the store alone.\<close>

definition untouched :: "conf_store \<Rightarrow> conf_store \<Rightarrow> bool" where
  "untouched H0 H \<longleftrightarrow> length H0 \<le> length H \<and> (\<forall>i. 0 < i \<longrightarrow> i < length H0 \<longrightarrow> H ! i = H0 ! i)"

lemma walk_untouched:
  assumes "tables_ok rts"
  shows "walk_ok pton6 rts (\<lambda>H. store_ok rts H \<and> untouched H0 H) (\<lambda>b. b = 0 \<or> length H0 \<le> b)"
proof -
  have upd: "untouched H0 (H[b := x])" if "untouched H0 H" "b = 0 \<or> length H0 \<le> b" for H b x
    using that by (auto simp: untouched_def nth_list_update)
  have app: "untouched H0 (H @ [x])" if "untouched H0 H" for H x using that by (auto simp: untouched_def nth_append)
  note W = walk_store_ok [OF assms, unfolded walk_ok_def, of pton6]
  have set_: "untouched H0 H1" if "untouched H0 H" "b = 0 \<or> length H0 \<le> b" "block_set pton6 rt layers H b n v = Some (ok, H1)"
    for H H1 b rt layers n v ok
    using that by (auto simp: block_set_def bind_eq_Some_conv upd split: option.splits if_splits)
  have link_: "untouched H0 H1 \<and> length H0 \<le> length H" if "untouched H0 H" "b = 0 \<or> length H0 \<le> b" "current rts H b rt"
      "link_block H b child n = Some H1" for H H1 b rt child n
  proof
    show "length H0 \<le> length H" using that(1) by (simp add: untouched_def)
    show "untouched H0 H1" using link_block_at [OF that(3), of child n] that by (auto simp: upd app)
  qed
  show ?thesis unfolding walk_ok_def
  proof (intro conjI allI impI)
    fix H b rt layers n v assume a: "store_ok rts H \<and> untouched H0 H" "current rts H b rt" "b = 0 \<or> length H0 \<le> b"
    obtain ok H1 where "block_set pton6 rt layers H b n v = Some (ok, H1)" "ok \<longrightarrow> store_ok rts H1" using W a by blast
    thus "\<exists>ok H1. block_set pton6 rt layers H b n v = Some (ok, H1) \<and> (ok \<longrightarrow> store_ok rts H1 \<and> untouched H0 H1)"
      using set_ a by blast
  next
    fix H H1 b rt child r assume a: "store_ok rts H \<and> untouched H0 H" "current rts H b rt" "b = 0 \<or> length H0 \<le> b"
      "sls_conf_create_block_by_name (rt_name r) rts = Some r" "link_block H b child (rt_name r) = Some H1"
    thus "store_ok rts H1" using W by blast
    show "untouched H0 H1" "length H = 0 \<or> length H0 \<le> length H" using link_ [OF _ a(3,2,5)] a(1) by auto
  qed
qed

lemma fresh_store_ok: "store_ok sls_runtimes [Some (fresh_block [])]"
  by (simp add: store_ok_def node_ok_def fresh_block_def sls_runtimes_def)

lemma fresh_current: "current rts [Some (fresh_block [])] 0 None"
  by (simp add: current_def)

text \<open>Any store with a live root can be parsed into.\<close>

lemma parse_from_root:
  assumes "store_ok sls_runtimes H" "node_at H 0 = Some root"
  shows "\<exists>ret ls' H' c'. sls_conf_parse_block pton6 sls_runtimes ls H 0 True None 0 [] SLS_ERROR = Some (ret, ls', H', c') \<and>
    grows H H' \<and> (ret = SLS_OK \<longrightarrow> store_ok sls_runtimes H' \<and> untouched H H')"
  by (rule parse_block_rule [OF walk_untouched [OF sls_tables_ok]])
     (use assms in \<open>auto simp: untouched_def current_def node_at_def split: if_splits\<close>)

lemma release_frees:
  assumes "sls_conf_release H (Some i) = Some H'"
  shows "node_at H' i = None"
proof -
  obtain H3 x where "node_at H3 i = Some x" "H' = H3[i := None]"
    using assms by (subst (asm) sls_conf_release.simps) (auto simp: bind_eq_Some_conv Let_def)
  thus ?thesis by (auto simp: node_at_def split: if_splits)
qed

section \<open>Properties\<close>

text \<open>C35. Loading a configuration is safe and typed: on any text whatsoever the parser returns, no directive writes
  past the field it fills, and when the file is accepted every value stored in a block is one its directive
  admits (numbers within their bounds, texts within their arrays, port lists that expand, upstream lists that
  are not empty, IPv4 addresses of 32 bits).\<close>

theorem conf_load_typed:
  "\<exists>ret ls' H c. sls_conf_parse_block pton6 sls_runtimes conf_text [Some (fresh_block [])] 0 True None 0 [] SLS_ERROR =
       Some (ret, ls', H, c) \<and> (if ret = SLS_OK then store_ok sls_runtimes H else True)"
  using parse_block_rule [OF walk_store_ok [OF sls_tables_ok] fresh_store_ok fresh_current TrueI] by fastforce

text \<open>C36. A successful reload leaves the running configuration alone: while some manager still holds the old
  generation, every block of it is the same after the new file has been read.\<close>

theorem conf_reload_keeps_old:
  assumes "store_ok sls_runtimes (cs_store S)" "node_at (cs_store S) 0 = Some root"
    "cs_current S = Some h" "h \<in> set (cs_managers S)"
    "sls_conf_open pton6 sls_runtimes (Some conf_text) S = Some (SLS_OK, S')"
    "0 < i" "i < length (cs_store S)"
  shows "node_at (cs_store S') i = node_at (cs_store S) i \<and> h \<in> set (cs_managers S')"
proof -
  obtain ret ls' H c where p: "sls_conf_parse_block pton6 sls_runtimes conf_text (cs_store S) 0 True None 0 [] SLS_ERROR = Some (ret, ls', H, c)"
      "ret = SLS_OK \<longrightarrow> untouched (cs_store S) H" using parse_from_root [OF assms(1,2), of pton6 conf_text] by blast
  have ret: "ret = SLS_OK" using assms(5) p(1) by (auto simp: sls_conf_open_def bind_eq_Some_conv split: if_splits)
  have "fst h \<in> fst ` (insert x (set (cs_managers S)))" for x using assms(4) by blast
  hence "cs_store S' = H \<and> cs_managers S' = cs_managers S"
    using assms(3,5) p(1) ret by (auto simp: sls_conf_open_def drop_handle_def split: prod.splits if_splits)
  thus ?thesis using p(2) ret assms(4,6,7) by (auto simp: untouched_def node_at_def)
qed

text \<open>The state after a first load of a small file by a manager.\<close>

definition loaded :: conf_state where
  "loaded = \<lparr> cs_store = [Some \<lparr> b_name = [], b_vars = [], b_child = Some 1, b_sibling = None \<rparr>,
       Some \<lparr> b_name = ''srt'', b_vars = [(''worker_threads'', VInt 3)], b_child = None, b_sibling = None \<rparr>],
     cs_current = Some (0, Some 1), cs_managers = [(0, Some 1)], cs_next = 1 \<rparr>"

lemma loaded_eq:
  "map_option (\<lambda>(r, S). (r, manager_start S)) (sls_conf_open (\<lambda>s. None) sls_runtimes (Some [''srt {'', ''worker_threads 3;'', ''}'']) conf_init) =
     Some (SLS_OK, loaded)"
  by code_simp

definition reloaded :: conf_state where
  "reloaded = loaded\<lparr> cs_store := [Some \<lparr> b_name = [], b_vars = [], b_child = Some 2, b_sibling = None \<rparr>,
       Some \<lparr> b_name = ''srt'', b_vars = [(''worker_threads'', VInt 3)], b_child = None, b_sibling = None \<rparr>,
       Some \<lparr> b_name = ''srt'', b_vars = [], b_child = None, b_sibling = None \<rparr>],
     cs_current := Some (1, Some 2), cs_next := 2 \<rparr>"

lemma reloaded_eq: "sls_conf_open (\<lambda>s. None) sls_runtimes (Some [''srt {'', ''}'']) loaded = Some (SLS_OK, reloaded)"
  by code_simp

lemma loaded_ok: "store_ok sls_runtimes (cs_store loaded)"
  using conf_set_ok [of conf_cmd_srt "[]" "directive ''worker_threads'' ''worker_threads'' Set_int 0 100 0" "\<lambda>s. None" "''3''"]
  by (auto simp: store_ok_def node_ok_def loaded_def sls_runtimes_def vars_ok_def conf_cmd_srt_def directive_def)

theorem conf_reload_keeps_old_witness:
  "node_at (cs_store reloaded) 1 = node_at (cs_store loaded) 1 \<and> (0, Some 1) \<in> set (cs_managers reloaded)"
  using conf_reload_keeps_old [OF loaded_ok _ _ _ reloaded_eq, of _ "(0, Some 1)" 1]
  by (simp add: loaded_def node_at_def)

text \<open>A failed reload can free the running configuration: when the first significant line of the new file is
  already malformed, the pointer that is released is still that of the old generation, so its root block is
  deleted although the process and its managers go on holding it.\<close>

theorem conf_failed_reload_frees_current:
  assumes "conf_line_of l = Some Bad_line" "cs_current S = Some (k, Some g)" "root_child (cs_store S) = Some g"
    "sls_conf_open pton6 rts (Some (l # conf_text)) S = Some (ret, S')"
  shows "ret = SLS_ERROR \<and> cs_current S' = Some (k, Some g) \<and> cs_managers S' = cs_managers S \<and> node_at (cs_store S') g = None"
proof -
  have "SLS_ERROR \<noteq> SLS_OK" by (simp add: sls_codes)
  then obtain H where "sls_conf_release (set_root_child (cs_store S) None) (Some g) = Some H" "ret = SLS_ERROR" "S' = S\<lparr> cs_store := H \<rparr>"
    using assms(1,3,4) by (auto simp: sls_conf_open_def bind_eq_Some_conv)
  thus ?thesis using release_frees assms(2) by simp
qed

definition broken :: conf_state where
  "broken = loaded\<lparr> cs_store := [Some \<lparr> b_name = [], b_vars = [], b_child = None, b_sibling = None \<rparr>, None] \<rparr>"

lemma broken_eq: "sls_conf_open (\<lambda>s. None) sls_runtimes (Some [''worker_threads 4'']) loaded = Some (SLS_ERROR, broken)"
  by code_simp

theorem conf_failed_reload_frees_current_witness:
  "(0, Some 1) \<in> set (cs_managers broken) \<and> node_at (cs_store broken) 1 = None"
proof -
  have "conf_line_of ''worker_threads 4'' = Some Bad_line" by code_simp
  moreover have "cs_current loaded = Some (0, Some 1)" "root_child (cs_store loaded) = Some 1"
    by (simp_all add: loaded_def root_child_def node_at_def)
  ultimately show ?thesis using conf_failed_reload_frees_current [OF _ _ _ broken_eq, of 0 1] by (simp add: loaded_def)
qed

text \<open>Two more files the parser accepts against its own intent: a block that is never closed, and a directive after a
  nested block, which is applied to the nested block.\<close>

lemma conf_missing_brace_accepted:
  "map_option fst (sls_conf_open (\<lambda>s. None) sls_runtimes (Some [''srt {'', ''server {'', ''}'']) conf_init) = Some SLS_OK"
  by code_simp

lemma conf_directive_after_block:
  "map_option (\<lambda>(r, S). (r, map (map_option b_vars) (cs_store S)))
     (sls_conf_open (\<lambda>s. None) sls_runtimes
       (Some [''srt {'', ''server {'', ''app {'', ''max_players_per_stream 5;'', ''}'', ''max_players_per_stream 7;'', ''}'', ''}'']) conf_init) =
   Some (SLS_OK, [Some [], Some [], Some [], Some [(''max_players_per_stream'', VInt 7)]])"
  by code_simp

section \<open>The command line\<close>

text \<open>Two of the options have smaller arrays than their bound admits; what protects them is the 256-byte copy of
  the argument.\<close>

lemma remove_marks_length: "length (sls_remove_marks s) \<le> length s"
  by (auto simp: sls_remove_marks_def)

lemma opt_set_total:
  assumes "cmd \<in> set conf_cmd_opt" "length v \<le> 255"
  shows "\<exists>r opt1. conf_set pton6 v cmd opt = Some (r, opt1)"
proof -
  have "length (unquote v) \<le> 255" using assms(2) by (auto simp: unquote_def)
  hence "store_text cmd (unquote v) opt \<noteq> None" using assms(1)
    by (auto simp: store_text_def conf_cmd_opt_def directive_def)
  moreover have "cmd_set cmd = Set_string" using assms(1) by (auto simp: conf_cmd_opt_def directive_def)
  ultimately show ?thesis by (auto simp: conf_set_def sls_conf_set_string_def Let_def)
qed

lemma argv_loop_total: "\<exists>r opt1. argv_loop pton6 argv i conf_cmd_opt opt = Some (r, opt1)"
proof (induction pton6 argv i "conf_cmd_opt" opt rule: argv_loop.induct)
  case (1 pton6 argv i opt)
  show ?case
  proof (cases "sls_conf_find (tl (sls_remove_marks (clip256 (argv ! i)))) conf_cmd_opt")
    case (Some it)
    have "length (sls_remove_marks (clip256 (argv ! (i + 1)))) \<le> 255"
      using remove_marks_length [of "clip256 (argv ! (i + 1))"] by (simp add: clip256_def)
    then obtain r o1 where "conf_set pton6 (sls_remove_marks (clip256 (argv ! (i + 1)))) it opt = Some (r, o1)"
      using opt_set_total [OF find_mem [OF Some]] by blast
    thus ?thesis using 1 [OF _ refl refl _ _ Some] Some by (subst argv_loop.simps) (simp add: Let_def)
  qed (subst argv_loop.simps, simp add: Let_def)
qed

text \<open>The command line is read safely: whatever the arguments are, the options are parsed to an end and no option
  text is written past its array, although the table admits texts four times as long as two of the arrays.\<close>

theorem argv_safe: "\<exists>r opt1. sls_parse_argv pton6 argv conf_cmd_opt opt = Some (r, opt1)"
  using argv_loop_total by (simp add: sls_parse_argv_def)

end
