(* ===== verification/Push_Url.thy ===== *)
theory Push_Url
  imports Conf
begin

text \<open>The push destination validator \<^verbatim>\<open>src/core/SLSPushUrlValidator.cpp\<close>. What it calls outside is a parameter
  \<open>push_env\<close>: the URL parser (\<^verbatim>\<open>CxxUrl\<close>), the two resolver calls (the numeric one, and the one on a
  thread with a deadline) with the addresses they return, and the printing of an address.\<close>

section \<open>Addresses\<close>

datatype sockaddr = AF_INET "32 word" int | AF_INET6 "byte list" int | AF_OTHER

record Url =
  url_scheme :: string
  url_host :: string
  url_port :: string
  url_query :: "(string \<times> string) list"

text \<open>An entry of an \<^verbatim>\<open>addrinfo\<close> list: the address, if any, and its length.\<close>

type_synonym addrinfo = "sockaddr option \<times> nat"

record push_env =
  pe_url :: "string \<Rightarrow> Url option"
  pe_numeric :: "string \<Rightarrow> string option \<Rightarrow> int \<times> addrinfo list"
  pe_resolve :: "string \<Rightarrow> string option \<Rightarrow> int \<Rightarrow> (int \<times> addrinfo list) option"
  pe_ntop :: "sockaddr \<Rightarrow> string"

definition scheme_allowed :: "string \<Rightarrow> string \<Rightarrow> bool" where
  "scheme_allowed scheme allow_list =
     (if allow_list = [] then scheme = ''srt''
      else scheme \<in> set (strtok_loop [CHR '' '', CHR 0x09, CHR '','', CHR '';''] allow_list))"

definition ipv4_in_cidr :: "32 word \<Rightarrow> string \<Rightarrow> nat \<Rightarrow> bool" where
  "ipv4_in_cidr addr base prefix =
     (case inet_pton4 base of
        None \<Rightarrow> False
      | Some base_host \<Rightarrow>
          let mask = (if prefix = 0 then 0 else push_bit (32 - prefix) (- 1)) in (addr AND mask) = (base_host AND mask))"

definition is_loopback_v4 :: "32 word \<Rightarrow> bool" where
  "is_loopback_v4 addr = ipv4_in_cidr addr ''127.0.0.0'' 8"

definition is_link_local_v4 :: "32 word \<Rightarrow> bool" where
  "is_link_local_v4 addr = ipv4_in_cidr addr ''169.254.0.0'' 16"

definition is_private_v4 :: "32 word \<Rightarrow> bool" where
  "is_private_v4 addr = (ipv4_in_cidr addr ''10.0.0.0'' 8 \<or> ipv4_in_cidr addr ''172.16.0.0'' 12 \<or> ipv4_in_cidr addr ''192.168.0.0'' 16)"

definition is_loopback_v6 :: "byte list \<Rightarrow> bool" where
  "is_loopback_v6 a \<longleftrightarrow> a = replicate 15 0 @ [1]"

definition is_link_local_v6 :: "byte list \<Rightarrow> bool" where
  "is_link_local_v6 a \<longleftrightarrow> a ! 0 = 0xFE \<and> (a ! 1) AND 0xC0 = 0x80"

definition is_ula_v6 :: "byte list \<Rightarrow> bool" where
  "is_ula_v6 a \<longleftrightarrow> (a ! 0) AND 0xFE = 0xFC"

record AddrCategory =
  loopback :: bool
  link_local :: bool
  privnet :: bool

definition categorize_addr :: "sockaddr \<Rightarrow> AddrCategory" where
  "categorize_addr sa =
     (case sa of
        AF_INET v _ \<Rightarrow> \<lparr> loopback = is_loopback_v4 v, link_local = is_link_local_v4 v, privnet = is_private_v4 v \<rparr>
      | AF_INET6 a _ \<Rightarrow> \<lparr> loopback = is_loopback_v6 a, link_local = is_link_local_v6 a, privnet = is_ula_v6 a \<rparr>
      | AF_OTHER \<Rightarrow> \<lparr> loopback = False, link_local = False, privnet = False \<rparr>)"

text \<open>\<^verbatim>\<open>discover_self_addresses\<close>: the interface addresses (\<^const>\<open>None\<close> when \<^verbatim>\<open>getifaddrs\<close> fails), each with its
  address if it has one.\<close>

fun self_addresses :: "(sockaddr \<Rightarrow> string) \<Rightarrow> sockaddr option list \<Rightarrow> string list" where
  "self_addresses ntop [] = []"
| "self_addresses ntop (None # ifs) = self_addresses ntop ifs"
| "self_addresses ntop (Some sa # ifs) =
     (if sa = AF_OTHER then self_addresses ntop ifs
      else if loopback (categorize_addr sa) then self_addresses ntop ifs
      else ntop sa # self_addresses ntop ifs)"

definition discover_self_addresses :: "(sockaddr \<Rightarrow> string) \<Rightarrow> sockaddr option list option \<Rightarrow> string list" where
  "discover_self_addresses ntop ifaddr = (case ifaddr of None \<Rightarrow> [] | Some ifs \<Rightarrow> self_addresses ntop ifs)"

definition addr_matches_any :: "(sockaddr \<Rightarrow> string) \<Rightarrow> sockaddr \<Rightarrow> string list \<Rightarrow> bool" where
  "addr_matches_any ntop sa list = (if list = [] then False else ntop sa \<in> set list)"

section \<open>The template\<close>

definition kPushUrlStreamNameToken :: string where
  "kPushUrlStreamNameToken = ''{stream_name}''"

function sls_substitute_stream_name :: "string \<Rightarrow> string \<Rightarrow> string" where
  "sls_substitute_stream_name url_template stream_name =
     (case str_find kPushUrlStreamNameToken url_template of
        None \<Rightarrow> url_template
      | Some hit \<Rightarrow> take hit url_template @ stream_name @
          sls_substitute_stream_name (drop (hit + length kPushUrlStreamNameToken) url_template) stream_name)"
  by auto
termination
  by (relation "measure (\<lambda>(t, n). length t)") (auto simp: kPushUrlStreamNameToken_def dest: str_find_le)

declare sls_substitute_stream_name.simps [simp del]

definition has_stray_brace :: "string \<Rightarrow> bool" where
  "has_stray_brace url =
     (let stripped = sls_substitute_stream_name url [] in
      str_find ''{'' stripped \<noteq> None \<or> str_find ''}'' stripped \<noteq> None)"

section \<open>Resolution\<close>

fun collect_addrinfo :: "addrinfo list \<Rightarrow> sockaddr list" where
  "collect_addrinfo [] = []"
| "collect_addrinfo ((a, len) # r) =
     (case a of None \<Rightarrow> collect_addrinfo r
      | Some sa \<Rightarrow> if len = 0 then collect_addrinfo r else sa # collect_addrinfo r)"

definition resolve_numeric :: "push_env \<Rightarrow> string \<Rightarrow> string option \<Rightarrow> int \<times> sockaddr list" where
  "resolve_numeric env host service =
     (case pe_numeric env host service of (gai, results) \<Rightarrow> (gai, if gai = 0 then collect_addrinfo results else []))"

text \<open>The thread's result, or \<^const>\<open>None\<close> past the deadline.\<close>

definition resolve_with_timeout :: "push_env \<Rightarrow> string \<Rightarrow> string \<Rightarrow> int \<Rightarrow> (int \<times> sockaddr list) option" where
  "resolve_with_timeout env host service timeout_ms =
     (case pe_resolve env host (if service = [] then None else Some service) timeout_ms of
        None \<Rightarrow> None
      | Some (gai, results) \<Rightarrow> Some (gai, if gai = 0 then collect_addrinfo results else []))"

definition push_url_dns_timeout_ms :: "conf_vars option \<Rightarrow> int" where
  "push_url_dns_timeout_ms root =
     (case root of
        Some srt \<Rightarrow> if var_int ''push_url_dns_timeout_ms'' srt > 0 then var_int ''push_url_dns_timeout_ms'' srt else 5000
      | None \<Rightarrow> 5000)"

section \<open>The verdict\<close>

datatype PushUrlReject =
  Ok | TooLong | InvalidUrl | WrongScheme | MissingHost | MissingStreamid | DnsFailure | DenyInternal | DenySelf | BadPlaceholder

fun push_url_reject_reason :: "PushUrlReject \<Rightarrow> string" where
  "push_url_reject_reason Ok = ''ok''"
| "push_url_reject_reason TooLong = ''too_long''"
| "push_url_reject_reason InvalidUrl = ''invalid_url''"
| "push_url_reject_reason WrongScheme = ''wrong_scheme''"
| "push_url_reject_reason MissingHost = ''missing_host''"
| "push_url_reject_reason MissingStreamid = ''missing_streamid''"
| "push_url_reject_reason DnsFailure = ''dns_failure''"
| "push_url_reject_reason DenyInternal = ''deny_internal''"
| "push_url_reject_reason DenySelf = ''deny_self''"
| "push_url_reject_reason BadPlaceholder = ''bad_placeholder''"

definition internal :: "sockaddr \<Rightarrow> bool" where
  "internal sa = (let c = categorize_addr sa in loopback c \<or> link_local c \<or> privnet c)"

fun addrs_verdict :: "push_env \<Rightarrow> conf_vars \<Rightarrow> string list \<Rightarrow> sockaddr list \<Rightarrow> PushUrlReject" where
  "addrs_verdict env app bind_addresses [] = Ok"
| "addrs_verdict env app bind_addresses (sa # r) =
     (if \<not> var_bool ''push_destination_allow_internal'' app \<and> internal sa then DenyInternal
      else if \<not> var_bool ''push_destination_allow_self'' app \<and> addr_matches_any (pe_ntop env) sa bind_addresses then DenySelf
      else addrs_verdict env app bind_addresses r)"

definition max_url_len :: "conf_vars \<Rightarrow> int" where
  "max_url_len app = (if var_int ''push_destination_max_url_len'' app > 0 then var_int ''push_destination_max_url_len'' app else 1024)"

text \<open>The addresses of the host: a literal at once, else the thread's answer within the deadline.\<close>

definition push_addrs :: "push_env \<Rightarrow> conf_vars option \<Rightarrow> string \<Rightarrow> string \<Rightarrow> sockaddr list option" where
  "push_addrs env root host port_str =
     (case resolve_numeric env host (if port_str = [] then None else Some port_str) of (gai, addrs) \<Rightarrow>
        if gai \<noteq> 0 \<or> addrs = [] then
          (case resolve_with_timeout env host port_str (push_url_dns_timeout_ms root) of
             None \<Rightarrow> None
           | Some (gai2, addrs2) \<Rightarrow> if gai2 \<noteq> 0 \<or> addrs2 = [] then None else Some addrs2)
        else Some addrs)"

definition validate_push_url ::
  "push_env \<Rightarrow> conf_vars option \<Rightarrow> string \<Rightarrow> conf_vars \<Rightarrow> string list \<Rightarrow> PushUrlReject \<times> sockaddr option" where
  "validate_push_url env root url app bind_addresses =
     (if url = [] then (InvalidUrl, None)
      else if int (length url) > max_url_len app then (TooLong, None)
      else if has_stray_brace url then (BadPlaceholder, None)
      else case pe_url env (sls_substitute_stream_name url ''streamname'') of
        None \<Rightarrow> (InvalidUrl, None)
      | Some u \<Rightarrow>
          let allow_schemes = (if var_text ''push_destination_allow_schemes'' app \<noteq> [] then var_text ''push_destination_allow_schemes'' app else ''srt'')
          in if \<not> scheme_allowed (url_scheme u) allow_schemes then (WrongScheme, None)
             else if url_host u = [] then (MissingHost, None)
             else if \<not> list_ex (\<lambda>(k, v). k = ''streamid'' \<and> v \<noteq> []) (url_query u) then (MissingStreamid, None)
             else case push_addrs env root (url_host u) (url_port u) of
               None \<Rightarrow> (DnsFailure, None)
             | Some addrs \<Rightarrow>
                 let verdict = addrs_verdict env app bind_addresses addrs in
                 (verdict, if verdict = Ok \<and> addrs \<noteq> [] then Some (hd addrs) else None))"

section \<open>What the categories are\<close>

lemma mask_eq_div:
  fixes a b :: "32 word"
  assumes "p < 32"
  shows "(a AND push_bit p (- 1)) = (b AND push_bit p (- 1)) \<longleftrightarrow> uint a div 2 ^ p = uint b div 2 ^ p"
proof -
  have m: "x AND push_bit p (- 1) = push_bit p (drop_bit p x)" for x :: "32 word"
    by (rule bit_eqI) (auto simp: bit_simps)
  have u: "uint (drop_bit p x) = uint x div 2 ^ p" for x :: "32 word" using uint_bounded [of x] by (subst unsigned_drop_bit_eq) (simp add: drop_bit_eq_div take_bit_int_eq_self)
  have i: "push_bit p (drop_bit p a) = push_bit p (drop_bit p b) \<Longrightarrow> drop_bit p a = drop_bit p b" for a b :: "32 word"
  proof -
    assume e: "push_bit p (drop_bit p a) = push_bit p (drop_bit p b)"
    have "drop_bit p (push_bit p (drop_bit p x)) = drop_bit p x" for x :: "32 word"
      using bit_imp_le_length [of x] by (auto intro!: bit_eqI simp: bit_simps)
    thus ?thesis using e by metis
  qed
  show ?thesis unfolding m using i u by (metis word_uint_eq_iff)
qed

lemma cidr_div:
  assumes "inet_pton4 base = Some h" "0 < prefix" "prefix \<le> 32"
  shows "ipv4_in_cidr v base prefix \<longleftrightarrow> uint v div 2 ^ (32 - prefix) = uint h div 2 ^ (32 - prefix)"
  using assms mask_eq_div [of "32 - prefix" v h] by (simp add: ipv4_in_cidr_def Let_def)

lemma cidr_bases:
  "inet_pton4 ''127.0.0.0'' = Some 0x7F000000" "inet_pton4 ''169.254.0.0'' = Some 0xA9FE0000" "inet_pton4 ''10.0.0.0'' = Some 0x0A000000"
  "inet_pton4 ''172.16.0.0'' = Some 0xAC100000" "inet_pton4 ''192.168.0.0'' = Some 0xC0A80000"
  by code_simp+

text \<open>The IPv4 categories as ranges of the leading octets.\<close>

lemma internal_v4:
  "internal (AF_INET v p) \<longleftrightarrow> uint v div 2 ^ 24 \<in> {10, 127} \<or> uint v div 2 ^ 20 = 172 * 16 + 1 \<or>
     uint v div 2 ^ 16 \<in> {169 * 256 + 254, 192 * 256 + 168}"
  using cidr_div [OF cidr_bases(1), of 8 v] cidr_div [OF cidr_bases(2), of 16 v] cidr_div [OF cidr_bases(3), of 8 v]
    cidr_div [OF cidr_bases(4), of 12 v] cidr_div [OF cidr_bases(5), of 16 v]
  by (auto simp: internal_def categorize_addr_def is_loopback_v4_def is_link_local_v4_def is_private_v4_def Let_def)

section \<open>What a verdict means\<close>

lemma addrs_verdict_Ok:
  "addrs_verdict env app self addrs = Ok \<longleftrightarrow>
     (\<forall>sa \<in> set addrs. (var_bool ''push_destination_allow_internal'' app \<or> \<not> internal sa) \<and>
        (var_bool ''push_destination_allow_self'' app \<or> pe_ntop env sa \<notin> set self))"
  by (induction addrs) (auto simp: addr_matches_any_def)

lemma push_addrs_nonempty: "push_addrs env root h p = Some addrs \<Longrightarrow> addrs \<noteq> []"
  by (auto simp: push_addrs_def split: prod.splits if_splits option.splits)

lemma stray_brace: "has_stray_brace url \<longleftrightarrow> CHR ''{'' \<in> set (sls_substitute_stream_name url []) \<or> CHR ''}'' \<in> set (sls_substitute_stream_name url [])"
  by (simp add: has_stray_brace_def Let_def str_find_char)

text \<open>A substitution copies everything outside the tokens.\<close>

lemma str_find_split: "str_find sep s = Some p \<Longrightarrow> s = take p s @ sep @ drop (p + length sep) s"
proof (induction s arbitrary: p)
  case (Cons c cs)
  show ?case
  proof (cases "take (length sep) (c # cs) = sep")
    case True
    hence "p = 0" using Cons.prems by simp
    thus ?thesis using append_take_drop_id [of "length sep" "c # cs"] unfolding True by simp
  next
    case False
    then obtain q where "str_find sep cs = Some q" "p = Suc q" using Cons.prems by auto
    thus ?thesis using Cons.IH by simp
  qed
qed (simp split: if_splits)

lemma substitute_filter:
  assumes "list_all (\<lambda>c. \<not> P c) kPushUrlStreamNameToken" "list_all (\<lambda>c. \<not> P c) name"
  shows "filter P (sls_substitute_stream_name t name) = filter P t"
  using assms(2)
proof (induction t name rule: sls_substitute_stream_name.induct)
  case (1 t name)
  show ?case
  proof (cases "str_find kPushUrlStreamNameToken t")
    case (Some hit)
    have "filter P kPushUrlStreamNameToken = []" "filter P name = []"
      using assms(1) 1(2) by (simp_all add: list_all_iff filter_empty_conv)
    moreover have "filter P t = filter P (take hit t) @ filter P kPushUrlStreamNameToken @
        filter P (drop (hit + length kPushUrlStreamNameToken) t)"
      by (subst str_find_split [OF Some]) simp
    ultimately show ?thesis using 1(1) [OF Some 1(2)] Some by (subst sls_substitute_stream_name.simps) simp
  qed (subst sls_substitute_stream_name.simps, simp)
qed

lemma substitute_set: "set (sls_substitute_stream_name t name) \<subseteq> set (sls_substitute_stream_name t []) \<union> set name"
proof (induction t name rule: sls_substitute_stream_name.induct)
  case (1 t name)
  show ?case
  proof (cases "str_find kPushUrlStreamNameToken t")
    case (Some hit)
    show ?thesis using 1 [OF Some] by (subst (1 2) sls_substitute_stream_name.simps) (auto simp: Some)
  qed (subst (1 2) sls_substitute_stream_name.simps, simp)
qed

lemma url_encode_chars: "c \<in> set (url_encode s) \<Longrightarrow> url_plain c \<or> c = CHR ''%''"
proof -
  have "of_char x div (16 :: nat) < 16" for x :: char by (rule less_mult_imp_div_less) (simp add: nat_of_char_less_256)
  thus "c \<in> set (url_encode s) \<Longrightarrow> url_plain c \<or> c = CHR ''%''"
    by (auto simp: url_encode_def url_escape_def hex_plain split: if_splits)
qed

section \<open>Properties\<close>


text \<open>A network with one public host.\<close>

definition one_host :: "sockaddr \<Rightarrow> push_env" where
  "one_host sa = \<lparr> pe_url = (\<lambda>s. Some \<lparr> url_scheme = ''srt'', url_host = ''h'', url_port = [], url_query = [(''streamid'', ''x'')] \<rparr>),
     pe_numeric = (\<lambda>h p. (0, [(Some sa, 16)])), pe_resolve = (\<lambda>h p t. None), pe_ntop = (\<lambda>a. ''n'') \<rparr>"

lemma one_host_ok: "\<not> internal sa \<Longrightarrow> validate_push_url (one_host sa) None ''srt://h?streamid=x'' [] [] = (Ok, Some sa)"
proof -
  assume sa: "\<not> internal sa"
  have h: "\<not> has_stray_brace ''srt://h?streamid=x''" "scheme_allowed ''srt'' ''srt''" by code_simp+
  have "push_addrs (one_host sa) None ''h'' [] = Some [sa]" by (simp add: push_addrs_def resolve_numeric_def one_host_def)
  moreover have "addrs_verdict (one_host sa) [] [] [sa] = Ok" using sa by (simp add: addr_matches_any_def)
  ultimately show ?thesis using h
    by (simp add: validate_push_url_def one_host_def max_url_len_def var_int_def var_text_def)
qed


text \<open>A stream name cannot escape its slot: whatever name a publisher chose, the URL that is dialled has exactly
  the delimiters of the configured template, in the same order, and no brace when the template was accepted.\<close>

theorem substitution_no_injection:
  "filter (\<lambda>c. c \<in> set ''?&=#/:@'') (sls_substitute_stream_name t (url_encode name)) = filter (\<lambda>c. c \<in> set ''?&=#/:@'') t \<and>
   (if has_stray_brace t then True
    else set ''{}'' \<inter> set (sls_substitute_stream_name t (url_encode name)) = {})"
proof
  have np: "\<not> url_plain c" if "c \<in> set ''?&=#/:{}@''" for c using that by (auto simp: url_plain_def isalnum_def)
  have "list_all (\<lambda>c. \<not> c \<in> set ''?&=#/:@'') (url_encode name)"
    using url_encode_chars [of _ name] np by (fastforce simp: list_all_iff)
  thus "filter (\<lambda>c. c \<in> set ''?&=#/:@'') (sls_substitute_stream_name t (url_encode name)) = filter (\<lambda>c. c \<in> set ''?&=#/:@'') t"
    by (intro substitute_filter) (simp_all add: kPushUrlStreamNameToken_def)
  have "CHR ''{'' \<notin> set (url_encode name)" "CHR ''}'' \<notin> set (url_encode name)"
    using url_encode_chars [of _ name] np by fastforce+
  thus "if has_stray_brace t then True else set ''{}'' \<inter> set (sls_substitute_stream_name t (url_encode name)) = {}"
    using substitute_set [of t "url_encode name"] by (auto simp: stray_brace)
qed

text \<open>The categories miss two ways to name the server's own host: the unspecified address, and an IPv4 loopback
  address in its IPv6-mapped form.\<close>

lemma own_host_accepted:
  "fst (validate_push_url (one_host (AF_INET 0 0)) None ''srt://h?streamid=x'' [] []) = Ok"
  "fst (validate_push_url (one_host (AF_INET6 (replicate 10 0 @ [255, 255, 127, 0, 0, 1]) 0)) None ''srt://h?streamid=x'' [] []) = Ok"
proof -
  have "\<not> internal (AF_INET 0 0)" by (simp add: internal_v4)
  thus "fst (validate_push_url (one_host (AF_INET 0 0)) None ''srt://h?streamid=x'' [] []) = Ok" by (simp add: one_host_ok)
  have "\<not> internal (AF_INET6 (replicate 10 0 @ [255, 255, 127, 0, 0, 1]) 0)" by code_simp
  from one_host_ok [OF this]
  show "fst (validate_push_url (one_host (AF_INET6 (replicate 10 0 @ [255, 255, 127, 0, 0, 1]) 0)) None ''srt://h?streamid=x'' [] []) = Ok"
    by (simp only: fst_conv)
qed

end
