(* ===== verification/Relay.thy ===== *)
theory Relay
  imports Push_Url Conf_Correct
begin

text \<open>The outbound leg \<^verbatim>\<open>src/core/SLSRelay.cpp\<close>: the options of a relay URL and the opening of the socket, with
  \<^verbatim>\<open>sls_gethostbyname\<close> and \<^verbatim>\<open>sls_derive_rcv_buf_mb\<close> of \<^verbatim>\<open>src/core/common.cpp\<close>. The URL parser, the
  resolver and libsrt are a parameter \<open>srt_env\<close>; what \<^verbatim>\<open>open\<close> does to the outside is the list of its
  calls, in order. A C++ exception that leaves a function is a value \<^const>\<open>Inl\<close>.\<close>

section \<open>URL options\<close>

record SRTUrlOptions =
  o_streamid :: string
  o_latency :: int
  o_connect_timeout :: int
  o_passphrase :: string
  o_pbkeylen :: int
  o_maxbw :: int
  o_inputbw :: int
  o_oheadbw :: int
  o_rcvbuf :: int
  o_sndbuf :: int
  o_fc :: int
  o_mss :: int
  o_lossmaxttl :: int
  o_ipttl :: int
  o_iptos :: int
  o_tlpktdrop :: int
  o_nakreport :: int

definition url_options_init :: SRTUrlOptions where
  "url_options_init = \<lparr> o_streamid = [], o_latency = -1, o_connect_timeout = -1, o_passphrase = [], o_pbkeylen = -1, o_maxbw = -1,
     o_inputbw = -1, o_oheadbw = -1, o_rcvbuf = -1, o_sndbuf = -1, o_fc = -1, o_mss = -1, o_lossmaxttl = -1, o_ipttl = -1,
     o_iptos = -1, o_tlpktdrop = -1, o_nakreport = -1 \<rparr>"

text \<open>The helpers leave \<open>out\<close> alone when the text is no number or the number is out of range.\<close>

definition parse_int_option :: "string \<Rightarrow> int \<Rightarrow> int \<Rightarrow> int \<Rightarrow> int" where
  "parse_int_option val out min_val max_val =
     (case stoi val of
        Inl _ \<Rightarrow> out
      | Inr parsed \<Rightarrow> if parsed < min_val \<or> parsed > max_val then out else parsed)"

definition parse_int64_option :: "string \<Rightarrow> int \<Rightarrow> int \<Rightarrow> int \<Rightarrow> int" where
  "parse_int64_option val out min_val max_val =
     (case stoll val of
        Inl _ \<Rightarrow> out
      | Inr parsed \<Rightarrow> if parsed < min_val \<or> parsed > max_val then out else parsed)"

abbreviation INT64_MAX :: int where
  "INT64_MAX \<equiv> 2 ^ 63 - 1"

definition url_option :: "string \<Rightarrow> string \<Rightarrow> SRTUrlOptions \<Rightarrow> SRTUrlOptions" where
  "url_option key val opts =
     (if key = ''streamid'' then opts\<lparr> o_streamid := take 2047 (c_str val) \<rparr>
      else if key = ''latency'' then opts\<lparr> o_latency := parse_int_option val (o_latency opts) 0 10000 \<rparr>
      else if key = ''connect_timeout'' \<or> key = ''conntimeo''
        then opts\<lparr> o_connect_timeout := parse_int_option val (o_connect_timeout opts) 0 30000 \<rparr>
      else if key = ''passphrase'' then
        (if length val > 79 then opts else if length val < 10 then opts else opts\<lparr> o_passphrase := take 79 (c_str val) \<rparr>)
      else if key = ''pbkeylen'' then
        (let keylen = parse_int_option val (-1) 0 32 in
         if keylen \<in> {0, 16, 24, 32} then opts\<lparr> o_pbkeylen := keylen \<rparr> else opts)
      else if key = ''maxbw'' then opts\<lparr> o_maxbw := parse_int64_option val (o_maxbw opts) (-1) INT64_MAX \<rparr>
      else if key = ''inputbw'' then opts\<lparr> o_inputbw := parse_int64_option val (o_inputbw opts) 0 INT64_MAX \<rparr>
      else if key = ''oheadbw'' then opts\<lparr> o_oheadbw := parse_int_option val (o_oheadbw opts) 5 100 \<rparr>
      else if key = ''rcvbuf'' then opts\<lparr> o_rcvbuf := parse_int_option val (o_rcvbuf opts) 0 (1024 * 1024 * 1024) \<rparr>
      else if key = ''sndbuf'' then opts\<lparr> o_sndbuf := parse_int_option val (o_sndbuf opts) 0 (1024 * 1024 * 1024) \<rparr>
      else if key = ''fc'' then opts\<lparr> o_fc := parse_int_option val (o_fc opts) 32 1000000 \<rparr>
      else if key = ''mss'' then opts\<lparr> o_mss := parse_int_option val (o_mss opts) 76 1500 \<rparr>
      else if key = ''lossmaxttl'' then opts\<lparr> o_lossmaxttl := parse_int_option val (o_lossmaxttl opts) 0 1000 \<rparr>
      else if key = ''ipttl'' then opts\<lparr> o_ipttl := parse_int_option val (o_ipttl opts) 1 255 \<rparr>
      else if key = ''iptos'' then opts\<lparr> o_iptos := parse_int_option val (o_iptos opts) 0 255 \<rparr>
      else if key = ''tlpktdrop'' then opts\<lparr> o_tlpktdrop := parse_int_option val (o_tlpktdrop opts) 0 1 \<rparr>
      else if key = ''nakreport'' then opts\<lparr> o_nakreport := parse_int_option val (o_nakreport opts) 0 1 \<rparr>
      else opts)"

text \<open>\<^verbatim>\<open>parse_url\<close>: the host, the port and the options, \<^const>\<open>None\<close> for SLS_ERROR. Only the parser's own exception
  is caught: one raised by the number conversion of the port leaves the function.\<close>

definition parse_url :: "(string \<Rightarrow> Url option) \<Rightarrow> string \<Rightarrow> exn + (string \<times> int \<times> SRTUrlOptions) option" where
  "parse_url url_parse url =
     (case url_parse url of
        None \<Rightarrow> Inr None
      | Some u \<Rightarrow>
          if url_scheme u \<noteq> ''srt'' then Inr None
          else case stoi (url_port u) of
            Inl e \<Rightarrow> Inl e
          | Inr port \<Rightarrow>
              let options = fold (\<lambda>(k, v). url_option k v) (url_query u) url_options_init in
              if \<not> list_ex (\<lambda>(k, v). k = ''streamid'') (url_query u) then Inr None
              else Inr (Some (take 255 (c_str (url_host u)), port,
                if o_latency options = -1 then options\<lparr> o_latency := 120 \<rparr> else options)))"

section \<open>Opening\<close>

datatype optval = OInt int | OStr string

datatype srt_call = Create_socket | Setsockopt string optval | Resolve string | Connect sockaddr | Close int

record srt_env =
  se_url :: "string \<Rightarrow> Url option"
  se_socket :: "int option"
  se_setsockopt :: "string \<Rightarrow> optval \<Rightarrow> bool"
  se_gethostbyname :: "string \<Rightarrow> sockaddr option"
  se_ntop :: "sockaddr \<Rightarrow> string option"
  se_connect :: "sockaddr \<Rightarrow> int"

record CSLSRelay =
  r_url :: string
  r_server_ip :: string
  r_server_port :: int
  r_vetted :: "sockaddr option"
  r_srt :: "int option"

definition relay_new :: CSLSRelay where
  "relay_new = \<lparr> r_url = [], r_server_ip = [], r_server_port = 0, r_vetted = None, r_srt = None \<rparr>"

definition set_vetted_addr :: "sockaddr \<Rightarrow> CSLSRelay \<Rightarrow> CSLSRelay" where
  "set_vetted_addr addr r = (case addr of AF_OTHER \<Rightarrow> r | _ \<Rightarrow> r\<lparr> r_vetted := Some addr \<rparr>)"

definition sls_gethostbyname :: "srt_env \<Rightarrow> string \<Rightarrow> string option" where
  "sls_gethostbyname env hostname =
     (case se_gethostbyname env hostname of
        None \<Rightarrow> None
      | Some AF_OTHER \<Rightarrow> None
      | Some sa \<Rightarrow> map_option (take 45) (se_ntop env sa))"

definition sls_derive_rcv_buf_mb :: "conf_vars option \<Rightarrow> int" where
  "sls_derive_rcv_buf_mb root =
     (let get = (\<lambda>x. case root of None \<Rightarrow> 0 | Some srt \<Rightarrow> var_int x srt) in
      if get ''rcv_buf_mb'' > 0 then get ''rcv_buf_mb''
      else
        let max_kbps = (if get ''rcv_sizing_max_bitrate_kbps'' > 0 then get ''rcv_sizing_max_bitrate_kbps'' else 20000);
            max_lat_ms = (if get ''rcv_sizing_max_latency_ms'' > 0 then get ''rcv_sizing_max_latency_ms'' else 8000);
            bytes = max_kbps * 125 * max_lat_ms * 25 div 10000;
            mb = (bytes + 2 ^ 20 - 1) div 2 ^ 20
        in if mb < 8 then 8 else if mb > 100 then 100 else mb)"

definition opt_if :: "string \<Rightarrow> int \<Rightarrow> (string \<times> optval) list" where
  "opt_if n v = (if v \<ge> 0 then [(n, OInt v)] else [])"

text \<open>The options of the socket, in the order they are set.\<close>

definition relay_options :: "int \<Rightarrow> SRTUrlOptions \<Rightarrow> (string \<times> optval) list" where
  "relay_options rcv_buf_mb opts =
     [(''SRTO_LATENCY'', OInt (o_latency opts)), (''SRTO_SNDSYN'', OInt 0), (''SRTO_RCVSYN'', OInt 0), (''SRTO_IPV6ONLY'', OInt 0)] @
     opt_if ''SRTO_CONNTIMEO'' (o_connect_timeout opts) @
     (if o_passphrase opts \<noteq> [] then [(''SRTO_PASSPHRASE'', OStr (o_passphrase opts))] else []) @
     opt_if ''SRTO_PBKEYLEN'' (o_pbkeylen opts) @ opt_if ''SRTO_MAXBW'' (o_maxbw opts) @ opt_if ''SRTO_INPUTBW'' (o_inputbw opts) @
     opt_if ''SRTO_OHEADBW'' (o_oheadbw opts) @
     [(''SRTO_FC'', OInt (if o_fc opts \<ge> 0 then o_fc opts else rcv_buf_mb * 1024)),
      (''SRTO_RCVBUF'', OInt (if o_rcvbuf opts \<ge> 0 then o_rcvbuf opts else rcv_buf_mb * 1024 * 1024))] @
     opt_if ''SRTO_SNDBUF'' (o_sndbuf opts) @
     [(''SRTO_LOSSMAXTTL'', OInt (if o_lossmaxttl opts \<ge> 0 then o_lossmaxttl opts else 200))] @
     opt_if ''SRTO_MSS'' (o_mss opts) @ opt_if ''SRTO_IPTTL'' (o_ipttl opts) @ opt_if ''SRTO_IPTOS'' (o_iptos opts) @
     opt_if ''SRTO_TLPKTDROP'' (o_tlpktdrop opts) @ opt_if ''SRTO_NAKREPORT'' (o_nakreport opts) @
     [(''SRTO_STREAMID'', OStr (o_streamid opts))]"

text \<open>The macro \<^verbatim>\<open>SET_SOCKOPT\<close>: the first failure closes the socket and returns.\<close>

fun set_options :: "srt_env \<Rightarrow> int \<Rightarrow> (string \<times> optval) list \<Rightarrow> bool \<times> srt_call list" where
  "set_options env fd [] = (True, [])"
| "set_options env fd ((n, v) # os) =
     (if \<not> se_setsockopt env n v then (False, [Setsockopt n v, Close fd])
      else case set_options env fd os of (ok, cs) \<Rightarrow> (ok, Setsockopt n v # cs))"

definition with_port :: "sockaddr \<Rightarrow> int \<Rightarrow> sockaddr" where
  "with_port sa p = (case sa of AF_INET v _ \<Rightarrow> AF_INET v (p mod 65536) | AF_INET6 a _ \<Rightarrow> AF_INET6 a (p mod 65536) | AF_OTHER \<Rightarrow> AF_OTHER)"

text \<open>Where to connect: the vetted address with the port of the URL, or the address the host resolves to now; with the
  printed address and the calls made.\<close>

definition relay_target :: "srt_env \<Rightarrow> int \<Rightarrow> CSLSRelay \<Rightarrow> string \<Rightarrow> int \<Rightarrow> (sockaddr \<times> string) option \<times> srt_call list" where
  "relay_target env fd r host_name server_port =
     (case r_vetted r of
        Some sa \<Rightarrow> (Some (with_port sa server_port, case se_ntop env sa of None \<Rightarrow> [] | Some s \<Rightarrow> s), [])
      | None \<Rightarrow>
          (case sls_gethostbyname env host_name of
             None \<Rightarrow> (None, [Resolve host_name, Close fd])
           | Some ip \<Rightarrow>
               (case inet_pton4 ip of
                  None \<Rightarrow> (None, [Resolve host_name, Close fd])
                | Some v \<Rightarrow> (Some (AF_INET v (server_port mod 65536), ip), [Resolve host_name]))))"

definition relay_open ::
  "srt_env \<Rightarrow> conf_vars option \<Rightarrow> string \<Rightarrow> CSLSRelay \<Rightarrow> exn + (int \<times> CSLSRelay \<times> srt_call list)" where
  "relay_open env root srt_url r0 =
     (if length srt_url \<ge> 2048 then Inr (SLS_ERROR, r0, [])
      else let r = r0\<lparr> r_url := srt_url \<rparr> in
        if r_srt r \<noteq> None then Inr (SLS_ERROR, r, [])
        else case parse_url (se_url env) srt_url of
          Inl e \<Rightarrow> Inl e
        | Inr None \<Rightarrow> Inr (SLS_ERROR, r, [])
        | Inr (Some (host_name, server_port, options)) \<Rightarrow>
            if o_streamid options = [] then Inr (SLS_ERROR, r, [])
            else case se_socket env of
              None \<Rightarrow> Inr (SLS_ERROR, r, [Create_socket])
            | Some fd \<Rightarrow>
                (case set_options env fd (relay_options (sls_derive_rcv_buf_mb root) options) of (ok, cs) \<Rightarrow>
                   if \<not> ok then Inr (SLS_ERROR, r, Create_socket # cs)
                   else case relay_target env fd r host_name server_port of
                     (None, cs2) \<Rightarrow> Inr (SLS_ERROR, r, Create_socket # cs @ cs2)
                   | (Some (ss, server_ip), cs2) \<Rightarrow>
                       let status = se_connect env ss; cs3 = Create_socket # cs @ cs2 @ [Connect ss] in
                       if status = - 1 then Inr (SLS_ERROR, r, cs3 @ [Close fd])
                       else Inr (status, r\<lparr> r_srt := Some fd, r_server_ip := take 45 server_ip, r_server_port := server_port \<rparr>, cs3)))"

definition relay_close :: "CSLSRelay \<Rightarrow> CSLSRelay \<times> srt_call list" where
  "relay_close r = (case r_srt r of None \<Rightarrow> (r, []) | Some fd \<Rightarrow> (r\<lparr> r_srt := None \<rparr>, [Close fd]))"

definition relay_get_peer_info :: "CSLSRelay \<Rightarrow> string \<times> int" where
  "relay_get_peer_info r = (take 45 (r_server_ip r), r_server_port r)"

section \<open>The options stay in range\<close>

fun opt_in_range :: "string \<times> optval \<Rightarrow> bool" where
  "opt_in_range (n, OStr s) = (n \<in> {''SRTO_PASSPHRASE'', ''SRTO_STREAMID''} \<and> length s \<le> 2047)"
| "opt_in_range (n, OInt v) =
     (if n = ''SRTO_LATENCY'' then 0 \<le> v \<and> v \<le> 10000
      else if n \<in> {''SRTO_SNDSYN'', ''SRTO_RCVSYN'', ''SRTO_IPV6ONLY''} then v = 0
      else if n = ''SRTO_CONNTIMEO'' then 0 \<le> v \<and> v \<le> 30000
      else if n = ''SRTO_PBKEYLEN'' then v \<in> {0, 16, 24, 32}
      else if n \<in> {''SRTO_MAXBW'', ''SRTO_INPUTBW''} then 0 \<le> v \<and> v \<le> INT64_MAX
      else if n = ''SRTO_OHEADBW'' then 5 \<le> v \<and> v \<le> 100
      else if n = ''SRTO_FC'' then 32 \<le> v \<and> v \<le> 1024 * 1024
      else if n \<in> {''SRTO_RCVBUF'', ''SRTO_SNDBUF''} then 0 \<le> v \<and> v \<le> 1024 * 1024 * 1024
      else if n = ''SRTO_LOSSMAXTTL'' then 0 \<le> v \<and> v \<le> 1000
      else if n = ''SRTO_MSS'' then 76 \<le> v \<and> v \<le> 1500
      else if n = ''SRTO_IPTTL'' then 1 \<le> v \<and> v \<le> 255
      else if n = ''SRTO_IPTOS'' then 0 \<le> v \<and> v \<le> 255
      else n \<in> {''SRTO_TLPKTDROP'', ''SRTO_NAKREPORT''} \<and> v \<in> {0, 1})"

lemma opt_ranges:
  "opt_in_range (''SRTO_LATENCY'', OInt v) \<longleftrightarrow> 0 \<le> v \<and> v \<le> 10000"
  "opt_in_range (''SRTO_SNDSYN'', OInt v) \<longleftrightarrow> v = 0"
  "opt_in_range (''SRTO_RCVSYN'', OInt v) \<longleftrightarrow> v = 0"
  "opt_in_range (''SRTO_IPV6ONLY'', OInt v) \<longleftrightarrow> v = 0"
  "opt_in_range (''SRTO_CONNTIMEO'', OInt v) \<longleftrightarrow> 0 \<le> v \<and> v \<le> 30000"
  "opt_in_range (''SRTO_PBKEYLEN'', OInt v) \<longleftrightarrow> v \<in> {0, 16, 24, 32}"
  "opt_in_range (''SRTO_MAXBW'', OInt v) \<longleftrightarrow> 0 \<le> v \<and> v \<le> INT64_MAX"
  "opt_in_range (''SRTO_INPUTBW'', OInt v) \<longleftrightarrow> 0 \<le> v \<and> v \<le> INT64_MAX"
  "opt_in_range (''SRTO_OHEADBW'', OInt v) \<longleftrightarrow> 5 \<le> v \<and> v \<le> 100"
  "opt_in_range (''SRTO_FC'', OInt v) \<longleftrightarrow> 32 \<le> v \<and> v \<le> 1024 * 1024"
  "opt_in_range (''SRTO_RCVBUF'', OInt v) \<longleftrightarrow> 0 \<le> v \<and> v \<le> 1024 * 1024 * 1024"
  "opt_in_range (''SRTO_SNDBUF'', OInt v) \<longleftrightarrow> 0 \<le> v \<and> v \<le> 1024 * 1024 * 1024"
  "opt_in_range (''SRTO_LOSSMAXTTL'', OInt v) \<longleftrightarrow> 0 \<le> v \<and> v \<le> 1000"
  "opt_in_range (''SRTO_MSS'', OInt v) \<longleftrightarrow> 76 \<le> v \<and> v \<le> 1500"
  "opt_in_range (''SRTO_IPTTL'', OInt v) \<longleftrightarrow> 1 \<le> v \<and> v \<le> 255"
  "opt_in_range (''SRTO_IPTOS'', OInt v) \<longleftrightarrow> 0 \<le> v \<and> v \<le> 255"
  "opt_in_range (''SRTO_TLPKTDROP'', OInt v) \<longleftrightarrow> v \<in> {0, 1}"
  "opt_in_range (''SRTO_NAKREPORT'', OInt v) \<longleftrightarrow> v \<in> {0, 1}"
  "opt_in_range (''SRTO_PASSPHRASE'', OStr s) \<longleftrightarrow> length s \<le> 2047" "opt_in_range (''SRTO_STREAMID'', OStr s) \<longleftrightarrow> length s \<le> 2047"
  by (simp_all only: opt_in_range.simps) simp_all

declare opt_in_range.simps [simp del]

text \<open>Every field of the options is unset or in its range.\<close>

definition unset_or :: "int \<Rightarrow> int \<Rightarrow> int \<Rightarrow> bool" where
  "unset_or lo hi v \<longleftrightarrow> v = -1 \<or> lo \<le> v \<and> v \<le> hi"

definition options_ok :: "SRTUrlOptions \<Rightarrow> bool" where
  "options_ok opts \<longleftrightarrow>
     length (o_streamid opts) \<le> 2047 \<and> unset_or 0 10000 (o_latency opts) \<and> unset_or 0 30000 (o_connect_timeout opts) \<and>
     length (o_passphrase opts) \<le> 79 \<and> o_pbkeylen opts \<in> {-1, 0, 16, 24, 32} \<and> unset_or (-1) INT64_MAX (o_maxbw opts) \<and>
     unset_or 0 INT64_MAX (o_inputbw opts) \<and> unset_or 5 100 (o_oheadbw opts) \<and> unset_or 0 (1024 * 1024 * 1024) (o_rcvbuf opts) \<and>
     unset_or 0 (1024 * 1024 * 1024) (o_sndbuf opts) \<and> unset_or 32 1000000 (o_fc opts) \<and> unset_or 76 1500 (o_mss opts) \<and>
     unset_or 0 1000 (o_lossmaxttl opts) \<and> unset_or 1 255 (o_ipttl opts) \<and> unset_or 0 255 (o_iptos opts) \<and>
     unset_or 0 1 (o_tlpktdrop opts) \<and> unset_or 0 1 (o_nakreport opts)"

lemma parse_int_option_ok: "unset_or lo hi out \<Longrightarrow> unset_or lo hi (parse_int_option val out lo hi)"
  by (auto simp: parse_int_option_def unset_or_def split: sum.splits)

lemma parse_int64_option_ok: "unset_or lo hi out \<Longrightarrow> unset_or lo hi (parse_int64_option val out lo hi)"
  by (auto simp: parse_int64_option_def unset_or_def split: sum.splits)

lemma options_init_ok: "options_ok url_options_init"
  by (simp add: options_ok_def url_options_init_def unset_or_def)

lemma options_ok_update:
  assumes "options_ok opts"
  shows
    "options_ok (opts\<lparr> o_latency := parse_int_option val (o_latency opts) 0 10000 \<rparr>)"
    "options_ok (opts\<lparr> o_connect_timeout := parse_int_option val (o_connect_timeout opts) 0 30000 \<rparr>)"
    "options_ok (opts\<lparr> o_maxbw := parse_int64_option val (o_maxbw opts) (-1) INT64_MAX \<rparr>)"
    "options_ok (opts\<lparr> o_inputbw := parse_int64_option val (o_inputbw opts) 0 INT64_MAX \<rparr>)"
    "options_ok (opts\<lparr> o_oheadbw := parse_int_option val (o_oheadbw opts) 5 100 \<rparr>)"
    "options_ok (opts\<lparr> o_rcvbuf := parse_int_option val (o_rcvbuf opts) 0 (1024 * 1024 * 1024) \<rparr>)"
    "options_ok (opts\<lparr> o_sndbuf := parse_int_option val (o_sndbuf opts) 0 (1024 * 1024 * 1024) \<rparr>)"
    "options_ok (opts\<lparr> o_fc := parse_int_option val (o_fc opts) 32 1000000 \<rparr>)"
    "options_ok (opts\<lparr> o_mss := parse_int_option val (o_mss opts) 76 1500 \<rparr>)"
    "options_ok (opts\<lparr> o_lossmaxttl := parse_int_option val (o_lossmaxttl opts) 0 1000 \<rparr>)"
    "options_ok (opts\<lparr> o_ipttl := parse_int_option val (o_ipttl opts) 1 255 \<rparr>)"
    "options_ok (opts\<lparr> o_iptos := parse_int_option val (o_iptos opts) 0 255 \<rparr>)"
    "options_ok (opts\<lparr> o_tlpktdrop := parse_int_option val (o_tlpktdrop opts) 0 1 \<rparr>)"
    "options_ok (opts\<lparr> o_nakreport := parse_int_option val (o_nakreport opts) 0 1 \<rparr>)"
    "options_ok (opts\<lparr> o_streamid := take 2047 s \<rparr>)" "options_ok (opts\<lparr> o_passphrase := take 79 s \<rparr>)"
    "options_ok (if k \<in> {0, 16, 24, 32} then opts\<lparr> o_pbkeylen := k \<rparr> else opts)"
  using assms parse_int_option_ok parse_int64_option_ok by (simp_all add: options_ok_def)

lemma options_ok_if: "options_ok a \<Longrightarrow> options_ok b \<Longrightarrow> options_ok (if c then a else b)"
  by simp

lemma url_option_ok: "options_ok opts \<Longrightarrow> options_ok (url_option key val opts)"
  unfolding url_option_def Let_def by (intro options_ok_update options_ok_if)

lemma url_options_ok: "options_ok opts \<Longrightarrow> options_ok (fold (\<lambda>(k, v). url_option k v) qs opts)"
  by (induction qs arbitrary: opts) (auto simp: url_option_ok)

lemma parse_url_options:
  assumes "parse_url f url = Inr (Some (h, p, opts))"
  shows "options_ok opts \<and> o_latency opts \<noteq> -1"
proof -
  obtain u where u: "f url = Some u" using assms by (cases "f url") (auto simp: parse_url_def)
  have "opts = (let os = fold (\<lambda>(k, v). url_option k v) (url_query u) url_options_init in
      if o_latency os = -1 then os\<lparr> o_latency := 120 \<rparr> else os)"
    using assms u by (auto simp: parse_url_def Let_def split: if_splits sum.splits)
  moreover have "options_ok (fold (\<lambda>(k, v). url_option k v) (url_query u) url_options_init)"
    by (rule url_options_ok [OF options_init_ok])
  ultimately show ?thesis by (auto simp: Let_def options_ok_def unset_or_def)
qed

lemma opt_if_range:
  "unset_or 0 30000 v \<Longrightarrow> list_all opt_in_range (opt_if ''SRTO_CONNTIMEO'' v)"
  "unset_or (-1) INT64_MAX v \<Longrightarrow> list_all opt_in_range (opt_if ''SRTO_MAXBW'' v)"
  "unset_or 0 INT64_MAX v \<Longrightarrow> list_all opt_in_range (opt_if ''SRTO_INPUTBW'' v)"
  "unset_or 5 100 v \<Longrightarrow> list_all opt_in_range (opt_if ''SRTO_OHEADBW'' v)"
  "unset_or 0 (1024 * 1024 * 1024) v \<Longrightarrow> list_all opt_in_range (opt_if ''SRTO_SNDBUF'' v)"
  "unset_or 76 1500 v \<Longrightarrow> list_all opt_in_range (opt_if ''SRTO_MSS'' v)"
  "unset_or 1 255 v \<Longrightarrow> list_all opt_in_range (opt_if ''SRTO_IPTTL'' v)"
  "unset_or 0 255 v \<Longrightarrow> list_all opt_in_range (opt_if ''SRTO_IPTOS'' v)"
  "unset_or 0 1 v \<Longrightarrow> list_all opt_in_range (opt_if ''SRTO_TLPKTDROP'' v)"
  "unset_or 0 1 v \<Longrightarrow> list_all opt_in_range (opt_if ''SRTO_NAKREPORT'' v)"
  "v \<in> {-1, 0, 16, 24, 32} \<Longrightarrow> list_all opt_in_range (opt_if ''SRTO_PBKEYLEN'' v)"
  by (auto simp: opt_if_def unset_or_def opt_ranges)

lemma relay_options_range:
  assumes "options_ok opts" "o_latency opts \<noteq> -1" "1 \<le> mb" "mb \<le> 1024"
  shows "list_all opt_in_range (relay_options mb opts)"
proof -
  note o = assms(1)[unfolded options_ok_def]
  have "0 \<le> o_latency opts \<and> o_latency opts \<le> 10000" using o assms(2) by (simp add: unset_or_def)
  moreover have "unset_or 32 1000000 (o_fc opts)" "unset_or 0 (1024 * 1024 * 1024) (o_rcvbuf opts)" "unset_or 0 1000 (o_lossmaxttl opts)"
    "length (o_passphrase opts) \<le> 2047" "length (o_streamid opts) \<le> 2047" using o by simp_all
  moreover from this(1-3) have "32 \<le> (if o_fc opts \<ge> 0 then o_fc opts else mb * 1024)" "(if o_fc opts \<ge> 0 then o_fc opts else mb * 1024) \<le> 1024 * 1024"
    "0 \<le> (if o_rcvbuf opts \<ge> 0 then o_rcvbuf opts else mb * 1024 * 1024)"
    "(if o_rcvbuf opts \<ge> 0 then o_rcvbuf opts else mb * 1024 * 1024) \<le> 1024 * 1024 * 1024"
    "0 \<le> (if o_lossmaxttl opts \<ge> 0 then o_lossmaxttl opts else 200)" "(if o_lossmaxttl opts \<ge> 0 then o_lossmaxttl opts else 200) \<le> 1000"
    using assms(3,4) by (simp_all add: unset_or_def) linarith+
  ultimately show ?thesis using o by (simp add: relay_options_def opt_ranges opt_if_range)
qed

lemma typed_int:
  assumes "vars_ok cmds vars" "\<And>cmd. cmd \<in> set cmds \<Longrightarrow> cmd_target cmd = x \<Longrightarrow> cmd_min cmd = lo \<and> cmd_max cmd = hi" "lo \<le> 0" "0 \<le> hi"
  shows "lo \<le> var_int x vars \<and> var_int x vars \<le> hi"
proof (cases "map_of vars x")
  case (Some v)
  then obtain cmd where "cmd \<in> set cmds" "cmd_target cmd = x" "value_ok cmd v"
    using assms(1) by (auto simp: vars_ok_def dest!: map_of_SomeD)
  thus ?thesis using Some assms by (cases v) (auto simp: var_int_def)
qed (use assms in \<open>simp add: var_int_def\<close>)

lemma rcv_buf_range:
  assumes "vars_ok conf_cmd_srt srt"
  shows "1 \<le> sls_derive_rcv_buf_mb (Some srt) \<and> sls_derive_rcv_buf_mb (Some srt) \<le> 1024"
proof -
  have "list_all (\<lambda>cmd. cmd_target cmd = ''rcv_buf_mb'' \<longrightarrow> cmd_min cmd = 0 \<and> cmd_max cmd = 1024) conf_cmd_srt" by code_simp
  hence "cmd_min cmd = 0 \<and> cmd_max cmd = 1024" if "cmd \<in> set conf_cmd_srt" "cmd_target cmd = ''rcv_buf_mb''" for cmd
    using that by (simp add: list_all_iff)
  from typed_int [OF assms this] have v: "var_int ''rcv_buf_mb'' srt \<le> 1024" by simp
  have clamp: "1 \<le> (if m < 8 then 8 else if m > 100 then 100 else m) \<and> (if m < 8 then 8 else if m > 100 then 100 else m) \<le> 1024"
    for m :: int by simp
  show ?thesis
  proof (cases "var_int ''rcv_buf_mb'' srt > 0")
    case True
    hence "sls_derive_rcv_buf_mb (Some srt) = var_int ''rcv_buf_mb'' srt" by (simp only: sls_derive_rcv_buf_mb_def Let_def option.case if_True)
    thus ?thesis using True v by simp
  next
    case False
    show ?thesis unfolding sls_derive_rcv_buf_mb_def Let_def option.case if_not_P [OF False] by (rule clamp)
  qed
qed

section \<open>The calls of an opening\<close>

abbreviation is_close :: "srt_call \<Rightarrow> bool" where
  "is_close c \<equiv> (case c of Close _ \<Rightarrow> True | _ \<Rightarrow> False)"

fun option_call :: "int \<Rightarrow> (string \<times> optval) set \<Rightarrow> srt_call \<Rightarrow> bool" where
  "option_call fd S (Setsockopt n v) = ((n, v) \<in> S)"
| "option_call fd S (Close x) = (x = fd)"
| "option_call fd S c = False"

lemma option_call_mono: "S \<subseteq> T \<Longrightarrow> option_call fd S c \<Longrightarrow> option_call fd T c"
  by (cases c) auto

lemma set_options_calls:
  "set_options env fd os = (ok, cs) \<Longrightarrow>
   list_all (option_call fd (set os)) cs \<and> filter is_close cs = (if ok then [] else [Close fd])"
proof (induction os arbitrary: ok cs)
  case (Cons p os)
  obtain n v where p: "p = (n, v)" by fastforce
  obtain ok1 cs1 where r: "set_options env fd os = (ok1, cs1)" by fastforce
  have "list_all (option_call fd (set (p # os))) cs1"
    using Cons.IH [OF r] option_call_mono [of "set os" "set (p # os)"] by (auto simp: list_all_iff simp del: option_call.simps)
  thus ?case using Cons.IH [OF r] Cons.prems p r by (auto split: if_splits)
qed simp

lemma relay_target_calls:
  "relay_target env fd r h p = (tgt, cs) \<Longrightarrow>
     filter is_close cs = (if tgt = None then [Close fd] else []) \<and> list_all (\<lambda>c. c \<in> {Resolve h, Close fd}) cs \<and>
     (r_vetted r = Some sa \<longrightarrow> cs = [] \<and> (\<exists>ip. tgt = Some (with_port sa p, ip)))"
  by (auto simp: relay_target_def split: option.splits)

text \<open>The ways an opening can end.\<close>

lemma relay_open_cases:
  assumes "relay_open env root url r = Inr (ret, r', cs)" "r_srt r = None"
  obtains (early) "ret = SLS_ERROR" "r_srt r' = None" "cs = []"
  | (no_socket) "ret = SLS_ERROR" "r_srt r' = None" "cs = [Create_socket]" "se_socket env = None"
  | (options) h p opts fd cs1 where "parse_url (se_url env) url = Inr (Some (h, p, opts))" "se_socket env = Some fd"
      "set_options env fd (relay_options (sls_derive_rcv_buf_mb root) opts) = (False, cs1)"
      "ret = SLS_ERROR" "r_srt r' = None" "cs = Create_socket # cs1"
  | (target) h p opts fd cs1 cs2 where "parse_url (se_url env) url = Inr (Some (h, p, opts))" "se_socket env = Some fd"
      "set_options env fd (relay_options (sls_derive_rcv_buf_mb root) opts) = (True, cs1)"
      "relay_target env fd (r\<lparr> r_url := url \<rparr>) h p = (None, cs2)"
      "ret = SLS_ERROR" "r_srt r' = None" "cs = Create_socket # cs1 @ cs2"
  | (refused) h p opts fd cs1 cs2 ss ip where "parse_url (se_url env) url = Inr (Some (h, p, opts))" "se_socket env = Some fd"
      "set_options env fd (relay_options (sls_derive_rcv_buf_mb root) opts) = (True, cs1)"
      "relay_target env fd (r\<lparr> r_url := url \<rparr>) h p = (Some (ss, ip), cs2)" "se_connect env ss = - 1"
      "ret = SLS_ERROR" "r_srt r' = None" "cs = Create_socket # cs1 @ cs2 @ [Connect ss, Close fd]"
  | (opened) h p opts fd cs1 cs2 ss ip where "parse_url (se_url env) url = Inr (Some (h, p, opts))" "se_socket env = Some fd"
      "set_options env fd (relay_options (sls_derive_rcv_buf_mb root) opts) = (True, cs1)"
      "relay_target env fd (r\<lparr> r_url := url \<rparr>) h p = (Some (ss, ip), cs2)" "se_connect env ss \<noteq> - 1"
      "ret = se_connect env ss" "r_srt r' = Some fd" "cs = Create_socket # cs1 @ cs2 @ [Connect ss]"
  using assms(1) [unfolded relay_open_def Let_def] assms(2)
  by (auto split: if_splits sum.splits option.splits prod.splits)

lemma relay_open_dials:
  assumes "r_vetted r = Some sa" "r_srt r = None" "relay_open env root url r = Inr (ret, r', cs)"
  shows "\<exists>p. list_all (\<lambda>c. case c of Resolve h \<Rightarrow> False | Connect a \<Rightarrow> a = with_port sa p | _ \<Rightarrow> True) cs"
proof -
  let ?ok = "\<lambda>p c. case c of Resolve h \<Rightarrow> False | Connect a \<Rightarrow> a = with_port sa p | _ \<Rightarrow> True"
  have oc: "list_all (?ok p) cs" if "list_all (option_call fd S) cs" for p fd S cs
    using that by (auto simp: list_all_iff split: srt_call.splits)
  from assms(3,2) show "\<exists>p. list_all (?ok p) cs"
  proof (cases rule: relay_open_cases)
    case (options h p opts fd cs1)
    thus ?thesis using oc set_options_calls by fastforce
  next
    case (target h p opts fd cs1 cs2)
    thus ?thesis using relay_target_calls [OF target(4), of sa] assms(1) by simp
  next
    case (refused h p opts fd cs1 cs2 ss ip)
    have "list_all (?ok p) cs1" using oc set_options_calls [OF refused(3)] by blast
    thus ?thesis using relay_target_calls [OF refused(4), of sa] assms(1) refused(8) by auto
  next
    case (opened h p opts fd cs1 cs2 ss ip)
    have "list_all (?ok p) cs1" using oc set_options_calls [OF opened(3)] by blast
    thus ?thesis using relay_target_calls [OF opened(4), of sa] assms(1) opened(8) by auto
  qed auto
qed

section \<open>Properties\<close>

text \<open>C37. A relay with a vetted address never asks the resolver: its opening makes the same calls and gives the same
  result whatever the name service answers, and the only address it connects to is the vetted one with the
  port of the URL.\<close>

theorem relay_open_vetted:
  assumes "r_vetted r = Some sa" "r_srt r = None" "relay_open env root url r = Inr (ret, r', cs)"
  shows "relay_open (env\<lparr> se_gethostbyname := dns \<rparr>) root url r = Inr (ret, r', cs) \<and>
    (\<exists>p. list_all (\<lambda>c. case c of Resolve h \<Rightarrow> False | Connect a \<Rightarrow> a = with_port sa p | _ \<Rightarrow> True) cs)"
proof
  have so: "set_options (env\<lparr> se_gethostbyname := dns \<rparr>) fd os = set_options env fd os" for fd os
    by (induction os) auto
  have sel: "se_url (env\<lparr> se_gethostbyname := dns \<rparr>) = se_url env" "se_socket (env\<lparr> se_gethostbyname := dns \<rparr>) = se_socket env"
    "se_connect (env\<lparr> se_gethostbyname := dns \<rparr>) = se_connect env" by simp_all
  have tgt: "relay_target (env\<lparr> se_gethostbyname := dns \<rparr>) fd (r\<lparr> r_url := url \<rparr>) h p = relay_target env fd (r\<lparr> r_url := url \<rparr>) h p" for fd h p
    using assms(1) by (simp add: relay_target_def)
  show "relay_open (env\<lparr> se_gethostbyname := dns \<rparr>) root url r = Inr (ret, r', cs)"
    unfolding assms(3) [symmetric] unfolding relay_open_def Let_def so sel tgt ..
  show "\<exists>p. list_all (\<lambda>c. case c of Resolve h \<Rightarrow> False | Connect a \<Rightarrow> a = with_port sa p | _ \<Rightarrow> True) cs"
    by (rule relay_open_dials [OF assms])
qed

text \<open>No socket is leaked: an opening that fails has closed the socket it created, once, and owns none; one that
  succeeds owns the socket and has not closed it.\<close>

theorem relay_open_socket:
  assumes "r_srt r = None" "relay_open env root url r = Inr (ret, r', cs)"
  shows "if r_srt r' = None
    then ret = SLS_ERROR \<and> filter is_close cs = (if Create_socket \<in> set cs then map Close (case se_socket env of None \<Rightarrow> [] | Some fd \<Rightarrow> [fd]) else [])
    else r_srt r' = se_socket env \<and> filter is_close cs = [] \<and> Create_socket \<in> set cs"
  using assms(2,1)
proof (cases rule: relay_open_cases)
  case (options h p opts fd cs1)
  thus ?thesis using set_options_calls [OF options(3)] by simp
next
  case (target h p opts fd cs1 cs2)
  thus ?thesis using set_options_calls [OF target(3)] relay_target_calls [OF target(4)] by simp
next
  case (refused h p opts fd cs1 cs2 ss ip)
  thus ?thesis using set_options_calls [OF refused(3)] relay_target_calls [OF refused(4)] by simp
next
  case (opened h p opts fd cs1 cs2 ss ip)
  thus ?thesis using set_options_calls [OF opened(3)] relay_target_calls [OF opened(4)] by simp
qed auto

text \<open>A URL cannot push a socket option out of its range: under a configuration the parser accepted, every option an
  opening sets lies within the limits of its kind, whatever the query of the URL says.\<close>

theorem relay_open_options:
  assumes "vars_ok conf_cmd_srt srt" "r_srt r = None" "relay_open env (Some srt) url r = Inr (ret, r', cs)"
  shows "list_all (\<lambda>c. case c of Setsockopt n v \<Rightarrow> opt_in_range (n, v) | _ \<Rightarrow> True) cs"
proof -
  let ?ok = "\<lambda>c. case c of Setsockopt n v \<Rightarrow> opt_in_range (n, v) | _ \<Rightarrow> True"
  have rng: "list_all ?ok cs1" if "parse_url f url = Inr (Some (h, p, opts))"
      "set_options env fd (relay_options (sls_derive_rcv_buf_mb (Some srt)) opts) = (ok, cs1)" for f h p opts fd ok cs1
  proof -
    have "list_all opt_in_range (relay_options (sls_derive_rcv_buf_mb (Some srt)) opts)"
      using relay_options_range parse_url_options [OF that(1)] rcv_buf_range [OF assms(1)] by blast
    thus ?thesis using set_options_calls [OF that(2)] by (fastforce simp: list_all_iff split: srt_call.splits)
  qed
  have tgt: "list_all ?ok cs2" if "relay_target env fd r1 h p = (t, cs2)" for fd r1 h p t cs2
    using relay_target_calls [OF that, of AF_OTHER] by (auto simp: list_all_iff split: srt_call.splits)
  from assms(3,2) show ?thesis by (cases rule: relay_open_cases) (auto dest: rng tgt)
qed

text \<open>A destination without a port takes the worker down: the validator accepts such a URL, because it asks for no
  port, but the opening of the relay converts the empty port with \<^verbatim>\<open>std::stoi\<close>, whose exception nothing on the
  way catches.\<close>

theorem relay_open_port_raises:
  assumes "validate_push_url penv root url app self = (Ok, Some sa)"
    "pe_url penv (sls_substitute_stream_name url ''streamname'') = Some u" "url_scheme u = ''srt''" "url_port u = []"
    "se_url env (sls_substitute_stream_name url ''streamname'') = Some u"
    "length (sls_substitute_stream_name url ''streamname'') < 2048" "r_srt r = None"
  shows "relay_open env root (sls_substitute_stream_name url ''streamname'') (set_vetted_addr sa r) = Inl Invalid_argument"
proof -
  have "stoi [] = Inl Invalid_argument" by code_simp
  hence "parse_url (se_url env) (sls_substitute_stream_name url ''streamname'') = Inl Invalid_argument"
    using assms(3-5) by (simp add: parse_url_def)
  moreover have "r_srt (set_vetted_addr sa r) = None" using assms(7) by (simp add: set_vetted_addr_def split: sockaddr.splits)
  ultimately show ?thesis using assms(6) by (simp add: relay_open_def Let_def)
qed

text \<open>A network for the witnesses: one URL, a name service that answers with a loopback address, and sockets that accept
  every option and connection.\<close>

definition net_url :: "string \<Rightarrow> Url" where
  "net_url p = \<lparr> url_scheme = ''srt'', url_host = ''h'', url_port = p, url_query = [(''streamid'', ''x''), (''latency'', ''99999'')] \<rparr>"

definition net :: "string \<Rightarrow> srt_env" where
  "net p = \<lparr> se_url = (\<lambda>s. Some (net_url p)), se_socket = Some 5, se_setsockopt = (\<lambda>n v. True),
     se_gethostbyname = (\<lambda>h. Some (AF_INET 0x7F000001 0)), se_ntop = (\<lambda>a. Some ''127.0.0.1''), se_connect = (\<lambda>a. 0) \<rparr>"

definition net_calls :: "sockaddr \<Rightarrow> srt_call list" where
  "net_calls a = [Create_socket, Setsockopt ''SRTO_LATENCY'' (OInt 120), Setsockopt ''SRTO_SNDSYN'' (OInt 0),
     Setsockopt ''SRTO_RCVSYN'' (OInt 0), Setsockopt ''SRTO_IPV6ONLY'' (OInt 0), Setsockopt ''SRTO_FC'' (OInt 49152),
     Setsockopt ''SRTO_RCVBUF'' (OInt 50331648), Setsockopt ''SRTO_LOSSMAXTTL'' (OInt 200), Setsockopt ''SRTO_STREAMID'' (OStr ''x''), Connect a]"

definition net_opened :: "sockaddr \<Rightarrow> CSLSRelay" where
  "net_opened sa = \<lparr> r_url = ''u'', r_server_ip = ''127.0.0.1'', r_server_port = 9000, r_vetted = Some sa, r_srt = Some 5 \<rparr>"

abbreviation public_addr :: sockaddr where
  "public_addr \<equiv> AF_INET 0x08080808 0"

lemma net_open:
  "relay_open (net ''9000'') (Some []) ''u'' (set_vetted_addr public_addr relay_new) =
     Inr (0, net_opened public_addr, net_calls (AF_INET 0x08080808 9000))"
  by code_simp

theorem relay_open_vetted_witness:
  "relay_open ((net ''9000'')\<lparr> se_gethostbyname := (\<lambda>h. None) \<rparr>) (Some []) ''u'' (set_vetted_addr public_addr relay_new) =
     Inr (0, net_opened public_addr, net_calls (AF_INET 0x08080808 9000))"
  using relay_open_vetted [OF _ _ net_open, of public_addr "\<lambda>h. None"] by (simp add: set_vetted_addr_def relay_new_def)

theorem relay_open_socket_witness: "r_srt (net_opened public_addr) = se_socket (net ''9000'')"
  using relay_open_socket [OF _ net_open] by (simp add: set_vetted_addr_def relay_new_def net_opened_def split: if_splits)

theorem relay_open_options_witness:
  "list_all (\<lambda>c. case c of Setsockopt n v \<Rightarrow> opt_in_range (n, v) | _ \<Rightarrow> True) (net_calls (AF_INET 0x08080808 9000))"
  using relay_open_options [OF _ _ net_open] by (simp add: set_vetted_addr_def relay_new_def vars_ok_def)

theorem relay_open_port_raises_witness:
  "relay_open ((net [])\<lparr> se_url := pe_url (one_host public_addr) \<rparr>) None ''srt://h?streamid=x'' (set_vetted_addr public_addr relay_new) =
     Inl Invalid_argument"
proof -
  have s: "sls_substitute_stream_name ''srt://h?streamid=x'' ''streamname'' = ''srt://h?streamid=x''" by code_simp
  have n: "\<not> internal public_addr" by (simp add: internal_v4)
  show ?thesis
    by (rule relay_open_port_raises [OF one_host_ok [OF n], where env = "(net [])\<lparr> se_url := pe_url (one_host public_addr) \<rparr>" and r = relay_new, unfolded s])
      (simp_all add: one_host_def relay_new_def)
qed

end
