(* ===== verification/Relay_Manager.thy ===== *)
theory Relay_Manager
  imports Relay Registries Map_Data
begin

text \<open>The relay managers: the relay table \<^verbatim>\<open>src/core/SLSMapRelay.cpp\<close>, the common part
  \<^verbatim>\<open>src/core/SLSRelayManager.cpp\<close>, pushers \<^verbatim>\<open>src/core/SLSPusherManager.cpp\<close>, pullers
  \<^verbatim>\<open>src/core/SLSPullerManager.cpp\<close>, and the reconnect pass of a worker, \<^verbatim>\<open>check_reconnect_relay\<close> of
  \<^verbatim>\<open>src/core/SLSGroup.cpp\<close>. A manager works on a world: the publisher table, the stream table, the
  hand-off list, the relay objects that exist, and the calls made on sockets. The environment of the
  \<open>n\<close>-th relay object is \<open>env n\<close>. The value \<^const>\<open>None\<close> is an exception that leaves, or a use of a null pointer.\<close>

section \<open>Relay information\<close>

datatype SLS_PULL_MODE = SLS_PM_LOOP | SLS_PM_HASH | SLS_PM_ALL

record SLS_RELAY_INFO =
  m_upstreams :: "string list"
  m_vetted_addrs :: "sockaddr list"
  m_type :: string
  m_mode :: SLS_PULL_MODE
  m_reconnect_interval :: int
  m_idle_streams_timeout :: int

text \<open>The identity of a manager object: the dynamic manager of a publisher, which has at most one in its life, or an object
  of the relay table. A relay object knows its manager by a weak pointer, its class, and whether it was kicked.\<close>

datatype manager_ref = Of_publisher role_id | Of_table nat

record relay_obj = CSLSRelay +
  ro_puller :: bool
  ro_idle_streams_timeout :: int
  ro_map_data_key :: string
  ro_manager :: "manager_ref option"
  ro_kicked :: bool

record 'ca relay_world =
  w_pub :: "'ca CSLSMapPublisher"
  w_data :: CSLSMapData
  w_roles :: "role_id list"
  w_relays :: "(role_id \<times> relay_obj) list"
  w_next :: role_id
  w_calls :: "srt_call list"

text \<open>A manager; the three pointers it is given are present or null.\<close>

record CSLSRelayManager =
  m_self :: manager_ref
  m_map_publisher :: bool
  m_map_data :: bool
  m_role_list :: bool
  m_sri :: "SLS_RELAY_INFO option"
  m_reconnect_begin_tm :: int
  m_listen_port :: int
  m_app_uplive :: string
  m_stream_name :: string

record pusher_manager = CSLSRelayManager +
  m_map_reconnect_relay :: "(string \<times> int) list"
  m_child_relays :: "role_id list"

record puller_manager = CSLSRelayManager +
  m_cur_loop_index :: int

definition set_map_publisher :: "bool \<Rightarrow> 'z CSLSRelayManager_scheme \<Rightarrow> 'z CSLSRelayManager_scheme" where
  "set_map_publisher p M = M\<lparr> m_map_publisher := p \<rparr>"

definition set_map_data :: "bool \<Rightarrow> 'z CSLSRelayManager_scheme \<Rightarrow> 'z CSLSRelayManager_scheme" where
  "set_map_data p M = M\<lparr> m_map_data := p \<rparr>"

definition set_role_list :: "bool \<Rightarrow> 'z CSLSRelayManager_scheme \<Rightarrow> 'z CSLSRelayManager_scheme" where
  "set_role_list p M = M\<lparr> m_role_list := p \<rparr>"

definition set_listen_port :: "int \<Rightarrow> 'z CSLSRelayManager_scheme \<Rightarrow> 'z CSLSRelayManager_scheme" where
  "set_listen_port port M = M\<lparr> m_listen_port := port \<rparr>"

definition set_relay_conf :: "SLS_RELAY_INFO \<Rightarrow> 'z CSLSRelayManager_scheme \<Rightarrow> 'z CSLSRelayManager_scheme" where
  "set_relay_conf sri M = M\<lparr> m_sri := Some sri \<rparr>"

definition set_relay_info :: "string \<Rightarrow> string \<Rightarrow> 'z CSLSRelayManager_scheme \<Rightarrow> 'z CSLSRelayManager_scheme" where
  "set_relay_info app_uplive stream_name M = M\<lparr> m_app_uplive := take 1023 app_uplive, m_stream_name := take 1023 stream_name \<rparr>"

definition pusher_manager_new :: pusher_manager where
  "pusher_manager_new = \<lparr> m_self = Of_table 0, m_map_publisher = False, m_map_data = False, m_role_list = False, m_sri = None, m_reconnect_begin_tm = 0,
     m_listen_port = 0, m_app_uplive = [], m_stream_name = [], m_map_reconnect_relay = [], m_child_relays = [] \<rparr>"

definition puller_manager_new :: puller_manager where
  "puller_manager_new = \<lparr> m_self = Of_table 0, m_map_publisher = False, m_map_data = False, m_role_list = False, m_sri = None, m_reconnect_begin_tm = 0,
     m_listen_port = 0, m_app_uplive = [], m_stream_name = [], m_cur_loop_index = -1 \<rparr>"

section \<open>The relay table\<close>

datatype relay_manager = Pusher pusher_manager | Puller puller_manager

record CSLSMapRelay =
  m_map_relay_manager :: "(string \<times> relay_manager) list"
  m_map_relay_info :: "(string \<times> SLS_RELAY_INFO) list"

definition get_relay_conf :: "string \<Rightarrow> CSLSMapRelay \<Rightarrow> SLS_RELAY_INFO option" where
  "get_relay_conf app_uplive T = map_of (m_map_relay_info T) app_uplive"

definition relay_mode :: "string \<Rightarrow> SLS_PULL_MODE" where
  "relay_mode mode = (if mode = ''loop'' then SLS_PM_LOOP else if mode = ''all'' then SLS_PM_ALL else SLS_PM_HASH)"

text \<open>\<^verbatim>\<open>add_relay_conf\<close>; a relay block is its fields, \<^const>\<open>None\<close> the null pointer.\<close>

definition add_relay_conf :: "string \<Rightarrow> conf_vars option \<Rightarrow> CSLSMapRelay \<Rightarrow> int \<times> CSLSMapRelay" where
  "add_relay_conf app_uplive cr T =
     (case cr of None \<Rightarrow> (SLS_ERROR, T)
      | Some c \<Rightarrow>
        if get_relay_conf app_uplive T \<noteq> None then (SLS_ERROR, T)
        else
          let sri = \<lparr> m_upstreams = sls_conf_string_split (var_text ''upstreams'' c) '' '', m_vetted_addrs = [],
                      m_type = take 31 (var_text ''type'' c), m_mode = relay_mode (var_text ''mode'' c),
                      m_reconnect_interval = var_int ''reconnect_interval'' c,
                      m_idle_streams_timeout = var_int ''idle_streams_timeout'' c \<rparr>
          in if m_upstreams sri = [] then (SLS_ERROR, T)
             else (SLS_OK, T\<lparr> m_map_relay_info := std_put app_uplive sri (m_map_relay_info T) \<rparr>))"

text \<open>\<open>fresh\<close> is the identity of the manager object, if one is made.\<close>

definition add_relay_manager :: "nat \<Rightarrow> string \<Rightarrow> string \<Rightarrow> CSLSMapRelay \<Rightarrow> relay_manager option \<times> CSLSMapRelay" where
  "add_relay_manager fresh app_uplive stream_name T =
     (case get_relay_conf app_uplive T of
        None \<Rightarrow> (None, T)
      | Some sri \<Rightarrow>
          let key_stream_name = app_uplive @ ''/'' @ stream_name in
          case map_of (m_map_relay_manager T) key_stream_name of
            Some cur_manager \<Rightarrow> (Some cur_manager, T)
          | None \<Rightarrow>
              (let mk = (if m_type sri = ''pull'' then Some (Puller (set_relay_info app_uplive stream_name (set_relay_conf sri (puller_manager_new\<lparr> m_self := Of_table fresh \<rparr>))))
                         else if m_type sri = ''push'' then Some (Pusher (set_relay_info app_uplive stream_name (set_relay_conf sri (pusher_manager_new\<lparr> m_self := Of_table fresh \<rparr>))))
                         else None)
               in case mk of None \<Rightarrow> (None, T)
                  | Some cur_manager \<Rightarrow>
                      (Some cur_manager, T\<lparr> m_map_relay_manager := std_put key_stream_name cur_manager (m_map_relay_manager T) \<rparr>)))"

definition map_relay_clear :: "CSLSMapRelay \<Rightarrow> CSLSMapRelay" where
  "map_relay_clear T = T\<lparr> m_map_relay_manager := [], m_map_relay_info := [] \<rparr>"

section \<open>Connecting\<close>

text \<open>\<open>param\<close> is the virtual \<^verbatim>\<open>set_relay_param\<close>. A relay that is not kept is closed and its object goes.
  The class of the object is recorded by \<^verbatim>\<open>set_relay_param\<close>.\<close>

definition relay_uninit :: "role_id \<Rightarrow> CSLSRelay \<Rightarrow> 'ca relay_world \<Rightarrow> 'ca relay_world" where
  "relay_uninit i r W =
     W\<lparr> w_calls := w_calls W @ snd (relay_close r), w_relays := AList.delete i (w_relays W) \<rparr>"

definition connect ::
  "(role_id \<Rightarrow> 'z CSLSRelayManager_scheme \<Rightarrow> 'ca relay_world \<Rightarrow> (int \<times> 'z CSLSRelayManager_scheme \<times> 'ca relay_world) option) \<Rightarrow>
   (role_id \<Rightarrow> srt_env) \<Rightarrow> conf_vars option \<Rightarrow> string \<Rightarrow> sockaddr option \<Rightarrow>
   'z CSLSRelayManager_scheme \<Rightarrow> 'ca relay_world \<Rightarrow> (int \<times> 'z CSLSRelayManager_scheme \<times> 'ca relay_world) option" where
  "connect param env root url vetted_addr M W =
     (if url = [] then Some (SLS_ERROR, M, W)
      else let i = w_next W;
               r0 = (case vetted_addr of None \<Rightarrow> relay_new | Some a \<Rightarrow> set_vetted_addr a relay_new)
        in case relay_open (env i) root url r0 of
          Inl e \<Rightarrow> None
        | Inr (ret, r, cs) \<Rightarrow>
            let W1 = W\<lparr> w_next := Suc i, w_calls := w_calls W @ cs \<rparr> in
            if ret = SLS_OK then do {
              sri \<leftarrow> m_sri M;
              let obj = CSLSRelay.extend r \<lparr> ro_puller = False, ro_idle_streams_timeout = m_idle_streams_timeout sri, ro_map_data_key = [],
                          ro_manager = None, ro_kicked = False \<rparr>;
              (ret2, M2, W2) \<leftarrow> param i M (W1\<lparr> w_relays := AList.update i obj (w_relays W1) \<rparr>);
              Some (ret2, M2, if ret2 \<noteq> SLS_OK then relay_uninit i r W2 else W2)
            }
            else Some (ret, M, relay_uninit i r W1))"

definition get_hash_url :: "'z CSLSRelayManager_scheme \<Rightarrow> string" where
  "get_hash_url M =
     (case m_sri M of None \<Rightarrow> []
      | Some sri \<Rightarrow>
        if m_upstreams sri = [] then []
        else m_upstreams sri ! (unat (sls_hash_key (m_stream_name M)) mod length (m_upstreams sri)))"

definition upstream_url :: "string \<Rightarrow> string \<Rightarrow> string" where
  "upstream_url up stream = ''srt://'' @ up @ ''/'' @ url_encode stream"

definition connect_hash ::
  "(role_id \<Rightarrow> 'z CSLSRelayManager_scheme \<Rightarrow> 'ca relay_world \<Rightarrow> (int \<times> 'z CSLSRelayManager_scheme \<times> 'ca relay_world) option) \<Rightarrow>
   (role_id \<Rightarrow> srt_env) \<Rightarrow> conf_vars option \<Rightarrow> 'z CSLSRelayManager_scheme \<Rightarrow> 'ca relay_world \<Rightarrow>
   (int \<times> 'z CSLSRelayManager_scheme \<times> 'ca relay_world) option" where
  "connect_hash param env root M W =
     (let url = get_hash_url M in
      if url = [] then Some (SLS_ERROR, M, W)
      else case snprintf_fits 2048 (upstream_url url (m_stream_name M)) of
        None \<Rightarrow> Some (SLS_ERROR, M, W)
      | Some szURL \<Rightarrow> connect param env root szURL None M W)"

definition stream_key_text :: "'z CSLSRelayManager_scheme \<Rightarrow> string" where
  "stream_key_text M = m_app_uplive M @ ''/'' @ m_stream_name M"

definition update_relay :: "role_id \<Rightarrow> (relay_obj \<Rightarrow> relay_obj) \<Rightarrow> 'ca relay_world \<Rightarrow> 'ca relay_world" where
  "update_relay i f W =
     (case map_of (w_relays W) i of None \<Rightarrow> W | Some r \<Rightarrow> W\<lparr> w_relays := AList.update i (f r) (w_relays W) \<rparr>)"

section \<open>Pushers\<close>

definition pusher_set_relay_param ::
  "role_id \<Rightarrow> pusher_manager \<Rightarrow> 'ca relay_world \<Rightarrow> (int \<times> pusher_manager \<times> 'ca relay_world) option" where
  "pusher_set_relay_param i M W =
     (case snprintf_fits 1024 (stream_key_text M) of
        None \<Rightarrow> Some (SLS_ERROR, M, W)
      | Some key \<Rightarrow>
          let W1 = update_relay i (\<lambda>r. r\<lparr> ro_map_data_key := key, ro_manager := Some (m_self M) \<rparr>) W;
              M1 = M\<lparr> m_child_relays := filter (\<lambda>c. map_of (w_relays W1) c \<noteq> None) (m_child_relays M) @ [i] \<rparr>
          in if \<not> m_role_list M then None
             else Some (SLS_OK, M1, W1\<lparr> w_roles := snd (role_push (Some i) (w_roles W1)) \<rparr>))"

abbreviation "push_connect \<equiv> connect pusher_set_relay_param"

definition push_url :: "string \<Rightarrow> string \<Rightarrow> string" where
  "push_url up stream =
     (let substituted = sls_substitute_stream_name up (url_encode stream) in
      if take 6 up = ''srt://'' then substituted else ''srt://'' @ substituted)"

fun connect_all_loop ::
  "(role_id \<Rightarrow> srt_env) \<Rightarrow> conf_vars option \<Rightarrow> time_ms \<Rightarrow> string list \<Rightarrow> sockaddr list \<Rightarrow> int \<Rightarrow> int \<Rightarrow>
   pusher_manager \<Rightarrow> 'ca relay_world \<Rightarrow> (int \<times> pusher_manager \<times> 'ca relay_world) option" where
  "connect_all_loop env root now [] vetted ret all_ret M W = Some (all_ret, M, W)"
| "connect_all_loop env root now (up # ups) vetted ret all_ret M W =
     (case snprintf_fits 1024 (push_url up (m_stream_name M)) of
        None \<Rightarrow> connect_all_loop env root now ups (tl vetted) SLS_ERROR (all_ret OR SLS_ERROR) M W
      | Some szURL \<Rightarrow>
          (case push_connect env root szURL (case vetted of [] \<Rightarrow> None | a # _ \<Rightarrow> Some a) M W of
             None \<Rightarrow> None
           | Some (ret1, M1, W1) \<Rightarrow>
               connect_all_loop env root now ups (tl vetted) ret1 (all_ret OR ret1)
                 (if ret1 \<noteq> SLS_OK then M1\<lparr> m_map_reconnect_relay := std_put szURL now (m_map_reconnect_relay M1) \<rparr> else M1) W1))"

definition connect_all ::
  "(role_id \<Rightarrow> srt_env) \<Rightarrow> conf_vars option \<Rightarrow> time_ms \<Rightarrow> pusher_manager \<Rightarrow> 'ca relay_world \<Rightarrow>
   (int \<times> pusher_manager \<times> 'ca relay_world) option" where
  "connect_all env root now M W =
     (case m_sri M of None \<Rightarrow> Some (SLS_ERROR, M, W)
      | Some sri \<Rightarrow> connect_all_loop env root now (m_upstreams sri) (m_vetted_addrs sri) SLS_ERROR SLS_OK M W)"

definition pusher_start ::
  "(role_id \<Rightarrow> srt_env) \<Rightarrow> conf_vars option \<Rightarrow> time_ms \<Rightarrow> pusher_manager \<Rightarrow> 'ca relay_world \<Rightarrow>
   (int \<times> pusher_manager \<times> 'ca relay_world) option" where
  "pusher_start env root now M W =
     (case m_sri M of None \<Rightarrow> Some (SLS_ERROR, M, W)
      | Some sri \<Rightarrow>
        (case snprintf_fits 2048 (stream_key_text M) of
           None \<Rightarrow> Some (SLS_ERROR, M, W)
         | Some key \<Rightarrow>
             if m_map_publisher M \<and> get_publisher key (w_pub W) = None then Some (SLS_ERROR, M, W)
             else case m_mode sri of
               SLS_PM_ALL \<Rightarrow> connect_all env root now M W
             | SLS_PM_HASH \<Rightarrow> connect_hash pusher_set_relay_param env root M W
             | SLS_PM_LOOP \<Rightarrow> Some (int (length key), M, W)))"

text \<open>In the last branch \<^verbatim>\<open>ret\<close> still holds what \<^verbatim>\<open>snprintf\<close> returned.\<close>

fun detach_loop :: "role_id list \<Rightarrow> 'ca relay_world \<Rightarrow> 'ca relay_world" where
  "detach_loop [] W = W"
| "detach_loop (c # cs) W = detach_loop cs (update_relay c (\<lambda>r. r\<lparr> ro_manager := None, ro_kicked := True \<rparr>) W)"

definition detach_child_relays :: "pusher_manager \<Rightarrow> 'ca relay_world \<Rightarrow> pusher_manager \<times> 'ca relay_world" where
  "detach_child_relays M W = (M\<lparr> m_child_relays := [] \<rparr>, detach_loop (m_child_relays M) W)"

definition pusher_add_reconnect_stream :: "time_ms \<Rightarrow> string \<Rightarrow> pusher_manager \<Rightarrow> int \<times> pusher_manager" where
  "pusher_add_reconnect_stream now relay_url M =
     (case m_sri M of None \<Rightarrow> (SLS_ERROR, M)
      | Some sri \<Rightarrow>
        (case m_mode sri of
           SLS_PM_ALL \<Rightarrow> (SLS_OK, M\<lparr> m_map_reconnect_relay := std_put relay_url now (m_map_reconnect_relay M) \<rparr>)
         | SLS_PM_HASH \<Rightarrow> (SLS_OK, M\<lparr> m_reconnect_begin_tm := now \<rparr>)
         | SLS_PM_LOOP \<Rightarrow> (SLS_ERROR, M)))"

definition pusher_check_relay_param :: "pusher_manager \<Rightarrow> int" where
  "pusher_check_relay_param M = (if \<not> m_role_list M then SLS_ERROR else if \<not> m_map_data M then SLS_ERROR else SLS_OK)"

text \<open>The loop of \<^verbatim>\<open>reconnect_all\<close>: \<open>ret\<close> is declared outside of it, so an entry that is not due adds the result of an
  earlier one. The entries that stay are returned in order.\<close>

fun reconnect_all_loop ::
  "(role_id \<Rightarrow> srt_env) \<Rightarrow> conf_vars option \<Rightarrow> time_ms \<Rightarrow> int \<Rightarrow> bool \<Rightarrow> (string \<times> int) list \<Rightarrow> int \<Rightarrow> int \<Rightarrow>
   pusher_manager \<Rightarrow> 'ca relay_world \<Rightarrow> (int \<times> (string \<times> int) list \<times> pusher_manager \<times> 'ca relay_world) option" where
  "reconnect_all_loop env root now interval no_publisher [] ret all_ret M W = Some (all_ret, [], M, W)"
| "reconnect_all_loop env root now interval no_publisher ((url, begin_tm) # es) ret all_ret M W =
     (if now - begin_tm < interval * 1000 then
        map_option (\<lambda>(r, kept, x). (r, (url, begin_tm) # kept, x))
          (reconnect_all_loop env root now interval no_publisher es ret (all_ret OR ret) M W)
      else if no_publisher then
        map_option (\<lambda>(r, kept, x). (r, (url, now) # kept, x))
          (reconnect_all_loop env root now interval no_publisher es ret (all_ret OR ret) M W)
      else case push_connect env root url None M W of
        None \<Rightarrow> None
      | Some (ret1, M1, W1) \<Rightarrow>
          map_option (\<lambda>(r, kept, x). (r, if ret1 \<noteq> SLS_OK then (url, now) # kept else kept, x))
            (reconnect_all_loop env root now interval no_publisher es ret1 (all_ret OR ret1) M1 W1))"

definition reconnect_all ::
  "(role_id \<Rightarrow> srt_env) \<Rightarrow> conf_vars option \<Rightarrow> time_ms \<Rightarrow> bool \<Rightarrow> pusher_manager \<Rightarrow> 'ca relay_world \<Rightarrow>
   (int \<times> pusher_manager \<times> 'ca relay_world) option" where
  "reconnect_all env root now no_publisher M W =
     (case m_sri M of None \<Rightarrow> None
      | Some sri \<Rightarrow>
        (case reconnect_all_loop env root now (m_reconnect_interval sri) no_publisher (m_map_reconnect_relay M) SLS_ERROR SLS_OK M W of
           None \<Rightarrow> None
         | Some (all_ret, kept, M1, W1) \<Rightarrow> Some (all_ret, M1\<lparr> m_map_reconnect_relay := kept \<rparr>, W1)))"

definition pusher_reconnect ::
  "(role_id \<Rightarrow> srt_env) \<Rightarrow> conf_vars option \<Rightarrow> time_ms \<Rightarrow> pusher_manager \<Rightarrow> 'ca relay_world \<Rightarrow>
   (int \<times> pusher_manager \<times> 'ca relay_world) option" where
  "pusher_reconnect env root now M W =
     (if pusher_check_relay_param M \<noteq> SLS_OK then Some (SLS_ERROR, M, W)
      else case m_sri M of None \<Rightarrow> Some (SLS_ERROR, M, W)
      | Some sri \<Rightarrow>
        (case snprintf_fits 2048 (stream_key_text M) of
           None \<Rightarrow> Some (SLS_ERROR, M, W)
         | Some key \<Rightarrow>
             let no_publisher = (m_map_publisher M \<and> get_publisher key (w_pub W) = None) in
             case m_mode sri of
               SLS_PM_ALL \<Rightarrow> reconnect_all env root now no_publisher M W
             | SLS_PM_HASH \<Rightarrow>
                 if now - m_reconnect_begin_tm M < m_reconnect_interval sri * 1000 then Some (SLS_ERROR, M, W)
                 else let M1 = M\<lparr> m_reconnect_begin_tm := now \<rparr> in
                   if no_publisher then Some (SLS_ERROR, M1, W) else connect_hash pusher_set_relay_param env root M1 W
             | SLS_PM_LOOP \<Rightarrow> Some (SLS_ERROR, M, W)))"

section \<open>Pullers\<close>

definition puller_check_relay_param :: "puller_manager \<Rightarrow> int" where
  "puller_check_relay_param M =
     (if \<not> m_role_list M then SLS_ERROR else if \<not> m_map_publisher M then SLS_ERROR else if \<not> m_map_data M then SLS_ERROR else SLS_OK)"

definition puller_set_relay_param ::
  "time_ms \<Rightarrow> role_id \<Rightarrow> puller_manager \<Rightarrow> 'ca relay_world \<Rightarrow> (int \<times> puller_manager \<times> 'ca relay_world) option" where
  "puller_set_relay_param now i M W =
     (case snprintf_fits 2048 (stream_key_text M) of
        None \<Rightarrow> Some (SLS_ERROR, M, W)
      | Some key \<Rightarrow>
          if puller_check_relay_param M \<noteq> SLS_OK then Some (SLS_ERROR, M, W)
          else case set_push_2_publisher key i (w_pub W) of (r1, P1) \<Rightarrow>
            if r1 \<noteq> SLS_OK then Some (SLS_ERROR, M, W\<lparr> w_pub := P1 \<rparr>)
            else do {
              (r2, D) \<leftarrow> map_add now key 0 0 (w_data W);
              if r2 \<noteq> SLS_OK then Some (SLS_ERROR, M, W\<lparr> w_pub := snd (publisher_remove i P1), w_data := D \<rparr>)
              else let W1 = update_relay i (\<lambda>r. r\<lparr> ro_puller := True, ro_map_data_key := key, ro_manager := Some (m_self M) \<rparr>) (W\<lparr> w_pub := P1, w_data := D \<rparr>)
                   in Some (SLS_OK, M, W1\<lparr> w_roles := snd (role_push (Some i) (w_roles W1)) \<rparr>)
            })"

abbreviation "pull_connect now \<equiv> connect (puller_set_relay_param now)"

text \<open>The \<^verbatim>\<open>while (true)\<close> of \<^verbatim>\<open>connect_loop\<close>, from \<open>index\<close> on. Nothing but the wrap-around to the starting index ends it
  when every upstream fails, so it is a partial function.\<close>

partial_function (option) connect_loop_from ::
  "time_ms \<Rightarrow> (role_id \<Rightarrow> srt_env) \<Rightarrow> conf_vars option \<Rightarrow> string list \<Rightarrow> int \<Rightarrow> puller_manager \<Rightarrow> 'ca relay_world \<Rightarrow>
   (int \<times> puller_manager \<times> 'ca relay_world) option" where
  "connect_loop_from now env root ups index0 M W =
     (let index = (if index0 \<ge> int (length ups) then 0 else index0) in
      if index < 0 \<or> int (length ups) \<le> index then None
      else case snprintf_fits 2048 (upstream_url (ups ! nat index) (m_stream_name M)) of
        None \<Rightarrow> Some (SLS_ERROR, M, W)
      | Some szURL \<Rightarrow> do {
          (ret, M1, W1) \<leftarrow> pull_connect now env root szURL None M W;
          if ret = SLS_OK \<or> index = m_cur_loop_index M then Some (ret, M1\<lparr> m_cur_loop_index := index \<rparr>, W1)
          else connect_loop_from now env root ups (index + 1) M1 W1
        })"

declare connect_loop_from.simps [code]

definition connect_loop ::
  "time_ms \<Rightarrow> (role_id \<Rightarrow> srt_env) \<Rightarrow> conf_vars option \<Rightarrow> puller_manager \<Rightarrow> 'ca relay_world \<Rightarrow>
   (int \<times> puller_manager \<times> 'ca relay_world) option" where
  "connect_loop now env root M W =
     (case m_sri M of None \<Rightarrow> Some (SLS_ERROR, M, W)
      | Some sri \<Rightarrow>
        if m_upstreams sri = [] then Some (SLS_ERROR, M, W)
        else let M1 = (if m_cur_loop_index M = -1 then M\<lparr> m_cur_loop_index := int (length (m_upstreams sri)) - 1 \<rparr> else M)
             in connect_loop_from now env root (m_upstreams sri) (m_cur_loop_index M1 + 1) M1 W)"

definition puller_start ::
  "time_ms \<Rightarrow> (role_id \<Rightarrow> srt_env) \<Rightarrow> conf_vars option \<Rightarrow> puller_manager \<Rightarrow> 'ca relay_world \<Rightarrow>
   (int \<times> puller_manager \<times> 'ca relay_world) option" where
  "puller_start now env root M W =
     (case m_sri M of None \<Rightarrow> Some (SLS_ERROR, M, W)
      | Some sri \<Rightarrow>
        (case snprintf_fits 1024 (stream_key_text M) of
           None \<Rightarrow> Some (SLS_ERROR, M, W)
         | Some key \<Rightarrow>
             if m_map_publisher M \<and> get_publisher key (w_pub W) \<noteq> None then Some (SLS_ERROR, M, W)
             else case m_mode sri of
               SLS_PM_LOOP \<Rightarrow> connect_loop now env root M W
             | SLS_PM_HASH \<Rightarrow> connect_hash (puller_set_relay_param now) env root M W
             | SLS_PM_ALL \<Rightarrow> Some (SLS_ERROR, M, W)))"

text \<open>The returned time is truncated to an \<^verbatim>\<open>int\<close>.\<close>

definition puller_add_reconnect_stream :: "time_ms \<Rightarrow> puller_manager \<Rightarrow> int \<times> puller_manager" where
  "puller_add_reconnect_stream now M = ((now + 2 ^ 31) mod 2 ^ 32 - 2 ^ 31, M\<lparr> m_reconnect_begin_tm := now \<rparr>)"

definition puller_reconnect ::
  "(role_id \<Rightarrow> srt_env) \<Rightarrow> conf_vars option \<Rightarrow> time_ms \<Rightarrow> puller_manager \<Rightarrow> 'ca relay_world \<Rightarrow>
   (int \<times> puller_manager \<times> 'ca relay_world) option" where
  "puller_reconnect env root now M W =
     (case m_sri M of None \<Rightarrow> None
      | Some sri \<Rightarrow>
        if now - m_reconnect_begin_tm M < m_reconnect_interval sri * 1000 then Some (SLS_ERROR, M, W)
        else let M1 = M\<lparr> m_reconnect_begin_tm := now \<rparr> in
          if puller_check_relay_param M1 \<noteq> SLS_OK then Some (SLS_ERROR, M1, W)
          else case snprintf_fits 2048 (stream_key_text M1) of
            None \<Rightarrow> Some (SLS_ERROR, M1, W)
          | Some key \<Rightarrow>
              map_option (\<lambda>(r, x). (if r \<noteq> SLS_OK then SLS_ERROR else SLS_OK, x)) (puller_start now env root M1 W))"

section \<open>The reconnect pass\<close>

text \<open>\<^verbatim>\<open>check_reconnect_relay\<close> over the queue of weak handles: \<open>alive\<close> gives the manager behind a handle, and a store of
  managers is updated by their \<^verbatim>\<open>reconnect\<close>.\<close>

fun check_reconnect_relay ::
  "(role_id \<Rightarrow> srt_env) \<Rightarrow> conf_vars option \<Rightarrow> time_ms \<Rightarrow> manager_ref list \<Rightarrow> (manager_ref \<Rightarrow> relay_manager option) \<Rightarrow> 'ca relay_world \<Rightarrow>
   (manager_ref list \<times> (manager_ref \<Rightarrow> relay_manager option) \<times> 'ca relay_world) option" where
  "check_reconnect_relay env root now [] ms W = Some ([], ms, W)"
| "check_reconnect_relay env root now (h # hs) ms W =
     (case ms h of
        None \<Rightarrow> check_reconnect_relay env root now hs ms W
      | Some m \<Rightarrow>
          (case (case m of Pusher p \<Rightarrow> map_option (\<lambda>(r, q, w). (r, Pusher q, w)) (pusher_reconnect env root now p W)
                 | Puller p \<Rightarrow> map_option (\<lambda>(r, q, w). (r, Puller q, w)) (puller_reconnect env root now p W)) of
             None \<Rightarrow> None
           | Some (r, m1, W1) \<Rightarrow>
               map_option (\<lambda>(q, x). (if r \<noteq> SLS_OK then h # q else q, x))
                 (check_reconnect_relay env root now hs (ms(h \<mapsto> m1)) W1)))"

end
