(* ===== verification/Relay_Manager_Correct.thy ===== *)
theory Relay_Manager_Correct
  imports Relay_Manager
begin

text \<open>What the relay managers guarantee: the puller's loop is a bounded walk over the upstreams, no destination of a
  pusher is forgotten by a reconnect pass, webhook destinations are first dialled at their vetted addresses, a
  puller registers completely or not at all; and where the pass loses a destination after all.\<close>

section \<open>One connection\<close>

text \<open>What a connection changes: it uses the next object, and leaves every other object and the roles handed off so far.\<close>

definition extends :: "'ca relay_world \<Rightarrow> 'ca relay_world \<Rightarrow> bool" where
  "extends W W' \<longleftrightarrow> w_next W \<le> w_next W' \<and> (\<exists>new. w_roles W' = w_roles W @ new) \<and>
     (\<forall>j < w_next W. map_of (w_relays W') j = map_of (w_relays W) j)"

lemma extends_refl: "extends W W"
  by (simp add: extends_def)

lemma extends_trans: "extends W W' \<Longrightarrow> extends W' W'' \<Longrightarrow> extends W W''"
  by (fastforce simp: extends_def)

lemma open_url:
  assumes "relay_open env root url r = Inr (ret, r', cs)" "r_srt r' \<noteq> None" "r_srt r = None"
  shows "r_url r' = url"
  using assms by (auto simp: relay_open_def Let_def split: if_splits sum.splits option.splits prod.splits)

lemma open_ok_socket:
  assumes "relay_open env root url r = Inr (SLS_OK, r', cs)" "r_srt r = None"
  shows "r_srt r' \<noteq> None"
  using relay_open_socket [OF assms(2,1)] by (auto simp: sls_codes split: if_splits)

lemma new_relay_srt: "r_srt (case v of None \<Rightarrow> relay_new | Some a \<Rightarrow> set_vetted_addr a relay_new) = None"
  by (auto simp: relay_new_def set_vetted_addr_def split: option.splits sockaddr.splits)

lemma uninit_extends: "extends W (relay_uninit (w_next W) r (W1 :: 'ca relay_world))"
  if "w_next W \<le> w_next W1" "\<exists>new. w_roles W1 = w_roles W @ new" "\<forall>j < w_next W. map_of (w_relays W1) j = map_of (w_relays W) j"
  using that by (auto simp: extends_def relay_uninit_def delete_conv')

text \<open>A connection that reports success leaves a live relay for the URL among the roles.\<close>

definition serves :: "string \<Rightarrow> 'ca relay_world \<Rightarrow> bool" where
  "serves url W \<longleftrightarrow> (\<exists>i \<in> set (w_roles W). i < w_next W \<and> (\<exists>obj. map_of (w_relays W) i = Some obj \<and> r_url obj = url))"

lemma serves_extends: "serves url W \<Longrightarrow> extends W W' \<Longrightarrow> serves url W'"
  unfolding serves_def extends_def by (metis UnCI less_le_trans set_append)

lemma push_connect_ok:
  assumes "push_connect env root url v M W = Some (ret, M1, W1)"
  shows "extends W W1 \<and> m_sri M1 = m_sri M \<and> m_map_reconnect_relay M1 = m_map_reconnect_relay M \<and> m_stream_name M1 = m_stream_name M \<and>
    (ret = SLS_OK \<longrightarrow> serves url W1)"
proof (cases "url = []")
  case True
  thus ?thesis using assms by (auto simp: connect_def extends_refl sls_codes)
next
  case False
  let ?i = "w_next W"
  let ?r0 = "case v of None \<Rightarrow> relay_new | Some a \<Rightarrow> set_vetted_addr a relay_new"
  obtain q r cs where o: "relay_open (env ?i) root url ?r0 = Inr (q, r, cs)"
    using assms False by (auto simp: connect_def Let_def split: sum.splits)
  let ?W1 = "W\<lparr> w_next := Suc ?i, w_calls := w_calls W @ cs \<rparr>"
  show ?thesis
  proof (cases "q = SLS_OK")
    case qok: False
    hence "W1 = relay_uninit ?i r ?W1" "M1 = M" "ret = q" using assms False o by (auto simp: connect_def Let_def)
    thus ?thesis using qok uninit_extends [of W ?W1 r] by simp
  next
    case qok: True
    obtain sri where sri: "m_sri M = Some sri" using assms False o qok by (auto simp: connect_def Let_def bind_eq_Some_conv)
    let ?obj = "CSLSRelay.extend r \<lparr> ro_puller = False, ro_idle_streams_timeout = m_idle_streams_timeout sri, ro_map_data_key = [],
                          ro_manager = None, ro_kicked = False \<rparr>"
    let ?W2 = "?W1\<lparr> w_relays := AList.update ?i ?obj (w_relays W) \<rparr>"
    obtain p M2 W3 where p: "pusher_set_relay_param ?i M ?W2 = Some (p, M2, W3)" "ret = p" "M1 = M2"
        "W1 = (if p \<noteq> SLS_OK then relay_uninit ?i r W3 else W3)"
      using assms False o qok sri by (auto simp: connect_def Let_def bind_eq_Some_conv)
    have "r_srt r \<noteq> None" by (rule open_ok_socket [OF o [unfolded qok] new_relay_srt])
    hence u: "r_url r = url" by (rule open_url [OF o _ new_relay_srt])
    show ?thesis
    proof (cases "snprintf_fits 1024 (stream_key_text M)")
      case None
      hence "W3 = ?W2" "M2 = M" "p = SLS_ERROR" using p(1) by (auto simp: pusher_set_relay_param_def)
      thus ?thesis using p uninit_extends [of W ?W2 r] by (auto simp: sls_codes map_of_update)
    next
      case (Some key)
      let ?obj1 = "?obj\<lparr> ro_map_data_key := key, ro_manager := Some (m_self M) \<rparr>"
      have up: "update_relay ?i (\<lambda>r. r\<lparr> ro_map_data_key := key, ro_manager := Some (m_self M) \<rparr>) ?W2 =
          ?W2\<lparr> w_relays := AList.update ?i ?obj1 (w_relays ?W2) \<rparr>"
        by (simp add: update_relay_def map_of_update)
      have W3: "p = SLS_OK" "W3 = ?W2\<lparr> w_relays := AList.update ?i ?obj1 (w_relays ?W2), w_roles := w_roles W @ [?i] \<rparr>"
          "m_sri M2 = m_sri M" "m_map_reconnect_relay M2 = m_map_reconnect_relay M" "m_stream_name M2 = m_stream_name M"
        using p(1) Some up by (auto simp: pusher_set_relay_param_def Let_def role_push_def split: if_splits)
      have "r_url ?obj1 = url" using u by (simp add: CSLSRelay.defs)
      hence "serves url W3" unfolding W3(2) by (auto simp: serves_def map_of_update)
      moreover have "extends W W3" unfolding W3(2) by (auto simp: extends_def map_of_update)
      ultimately show ?thesis using p W3 by simp
    qed
  qed
qed

section \<open>The reconnect pass of a pusher\<close>

lemma reconnect_loop_keeps:
  "reconnect_all_loop env root now interval no_pub es ret all_ret M W = Some (r, kept, M', W') \<Longrightarrow>
   extends W W' \<and> m_sri M' = m_sri M \<and> m_stream_name M' = m_stream_name M \<and>
   (\<forall>(url, t) \<in> set es. if now - t < interval * 1000 then (url, t) \<in> set kept else (url, now) \<in> set kept \<or> serves url W') \<and>
   set (map fst kept) \<subseteq> set (map fst es)"
proof (induction es arbitrary: ret all_ret M W r kept)
  case (Cons e es)
  obtain url t where e: "e = (url, t)" by fastforce
  show ?case
  proof (cases "now - t < interval * 1000")
    case True
    then obtain kept1 where k: "reconnect_all_loop env root now interval no_pub es ret (all_ret OR ret) M W = Some (r, kept1, M', W')"
        "kept = (url, t) # kept1" using Cons.prems e by auto
    show ?thesis using Cons.IH [OF k(1)] k(2) True unfolding e by auto
  next
    case due: False
    show ?thesis
    proof (cases no_pub)
      case True
      then obtain kept1 where k: "reconnect_all_loop env root now interval no_pub es ret (all_ret OR ret) M W = Some (r, kept1, M', W')"
          "kept = (url, now) # kept1" using Cons.prems e due by auto
      show ?thesis using Cons.IH [OF k(1)] k(2) due unfolding e by auto
    next
      case False
      then obtain ret1 M1 W1 where c: "push_connect env root url None M W = Some (ret1, M1, W1)"
        using Cons.prems e due by (auto split: option.splits)
      then obtain kept1 where k: "reconnect_all_loop env root now interval no_pub es ret1 (all_ret OR ret1) M1 W1 = Some (r, kept1, M', W')"
          "kept = (if ret1 \<noteq> SLS_OK then (url, now) # kept1 else kept1)" using Cons.prems e due False by auto
      note c1 = push_connect_ok [OF c] and k1 = Cons.IH [OF k(1)]
      have "extends W W'" using c1 k1 extends_trans by blast
      moreover have "ret1 = SLS_OK \<longrightarrow> serves url W'" using c1 k1 serves_extends by blast
      ultimately show ?thesis using c1 k1 k(2) due unfolding e by auto
    qed
  qed
qed (simp add: extends_refl)

section \<open>The puller's loop\<close>

text \<open>The reference: try a list of numbered upstreams in order until one succeeds, and remember the last one tried.\<close>

fun try_upstreams ::
  "time_ms \<Rightarrow> (role_id \<Rightarrow> srt_env) \<Rightarrow> conf_vars option \<Rightarrow> (int \<times> string) list \<Rightarrow> puller_manager \<Rightarrow> 'ca relay_world \<Rightarrow>
   (int \<times> puller_manager \<times> 'ca relay_world) option" where
  "try_upstreams now env root [] M W = None"
| "try_upstreams now env root ((i, u) # us) M W =
     (case snprintf_fits 2048 (upstream_url u (m_stream_name M)) of
        None \<Rightarrow> Some (SLS_ERROR, M, W)
      | Some szURL \<Rightarrow> do {
          (ret, M1, W1) \<leftarrow> pull_connect now env root szURL None M W;
          if ret = SLS_OK \<or> us = [] then Some (ret, M1\<lparr> m_cur_loop_index := i \<rparr>, W1)
          else try_upstreams now env root us M1 W1
        })"

lemma pull_connect_manager: "pull_connect now env root url v M W = Some (ret, M1, W1) \<Longrightarrow> M1 = M"
proof -
  have "M2 = M" if "puller_set_relay_param now i M W = Some (r, M2, W2)" for i W r M2 W2
    using that by (auto simp: puller_set_relay_param_def Let_def bind_eq_Some_conv split: option.splits if_splits prod.splits)
  thus "pull_connect now env root url v M W = Some (ret, M1, W1) \<Longrightarrow> M1 = M"
    by (auto simp: connect_def Let_def bind_eq_Some_conv split: if_splits sum.splits prod.splits)
qed

text \<open>The upstreams from \<open>k\<close> on to the current index, numbered.\<close>

definition numbered :: "string list \<Rightarrow> nat \<Rightarrow> nat \<Rightarrow> (int \<times> string) list" where
  "numbered ups a b = map (\<lambda>i. (int i, ups ! i)) [a..<b]"

lemma loop_step:
  assumes "k < length ups"
  shows "connect_loop_from now env root ups (int k) M W =
    (case snprintf_fits 2048 (upstream_url (ups ! k) (m_stream_name M)) of
        None \<Rightarrow> Some (SLS_ERROR, M, W)
      | Some szURL \<Rightarrow> do {
          (ret, M1, W1) \<leftarrow> pull_connect now env root szURL None M W;
          if ret = SLS_OK \<or> int k = m_cur_loop_index M then Some (ret, M1\<lparr> m_cur_loop_index := int k \<rparr>, W1)
          else connect_loop_from now env root ups (int k + 1) M1 W1
        })"
  using assms by (subst connect_loop_from.simps) (simp add: Let_def)

lemma loop_wrap: "ups \<noteq> [] \<Longrightarrow> connect_loop_from now env root ups (int (length ups)) M W = connect_loop_from now env root ups 0 M W"
  by (subst (1 2) connect_loop_from.simps) (simp add: Let_def)

lemma loop_cons:
  fixes W :: "'ca relay_world"
  assumes "k < length ups" "int k \<noteq> m_cur_loop_index M" "us \<noteq> []"
    "\<And>W1 :: 'ca relay_world. connect_loop_from now env root ups (int k + 1) M W1 = try_upstreams now env root us M W1"
  shows "connect_loop_from now env root ups (int k) M W = try_upstreams now env root ((int k, ups ! k) # us) M W"
proof (cases "snprintf_fits 2048 (upstream_url (ups ! k) (m_stream_name M))")
  case (Some sz)
  show ?thesis
  proof (cases "pull_connect now env root sz None M W")
    case c: (Some q)
    obtain ret M1 W1 where q: "q = (ret, M1, W1)" by (cases q)
    hence "M1 = M" using pull_connect_manager c by blast
    thus ?thesis using assms Some c q by (simp add: loop_step)
  qed (use assms Some in \<open>simp add: loop_step\<close>)
qed (use assms in \<open>simp add: loop_step\<close>)

lemma numbered_Cons: "a < b \<Longrightarrow> numbered ups a b = (int a, ups ! a) # numbered ups (Suc a) b"
  by (simp only: numbered_def upt_conv_Cons list.map)

lemma loop_below:
  fixes W :: "'ca relay_world"
  shows "k \<le> c \<Longrightarrow> c < length ups \<Longrightarrow> m_cur_loop_index M = int c \<Longrightarrow>
   connect_loop_from now env root ups (int k) M W = try_upstreams now env root (numbered ups k (Suc c)) M W"
proof (induction "c - k" arbitrary: k W)
  case 0
  hence k: "k = c" by simp
  have "numbered ups c (Suc c) = [(int c, ups ! c)]" by (simp add: numbered_def)
  thus ?case using 0 k by (auto simp: loop_step split: option.splits)
next
  case (Suc d)
  have "numbered ups (Suc k) (Suc c) \<noteq> []" using Suc by (auto simp: numbered_def)
  moreover have "connect_loop_from now env root ups (int k + 1) M W1 = try_upstreams now env root (numbered ups (Suc k) (Suc c)) M W1"
    for W1 :: "'ca relay_world"
    using Suc.hyps(1) [of "Suc k" W1] Suc.hyps(2) Suc.prems by (simp add: add.commute)
  ultimately have "connect_loop_from now env root ups (int k) M W =
      try_upstreams now env root ((int k, ups ! k) # numbered ups (Suc k) (Suc c)) M W"
    by (intro loop_cons) (use Suc in auto)
  thus ?case unfolding numbered_Cons [OF le_imp_less_Suc [OF Suc.prems(1)]] .
qed

lemma loop_above:
  fixes W :: "'ca relay_world"
  shows "c < k \<Longrightarrow> k \<le> length ups \<Longrightarrow> c < length ups \<Longrightarrow> m_cur_loop_index M = int c \<Longrightarrow>
   connect_loop_from now env root ups (int k) M W = try_upstreams now env root (numbered ups k (length ups) @ numbered ups 0 (Suc c)) M W"
proof (induction "length ups - k" arbitrary: k W)
  case 0
  have "ups \<noteq> []" using 0 by auto
  moreover have "k = length ups" using 0 by simp
  ultimately show ?case using loop_wrap [of ups now env root M W] loop_below [of 0 c ups M now env root W] 0 by (simp add: numbered_def)
next
  case (Suc d)
  have "connect_loop_from now env root ups (int k + 1) M W1 =
      try_upstreams now env root (numbered ups (Suc k) (length ups) @ numbered ups 0 (Suc c)) M W1" for W1 :: "'ca relay_world"
    using Suc.hyps(1) [of "Suc k" W1] Suc.hyps(2) Suc.prems by (simp add: add.commute)
  moreover have k: "k < length ups" using Suc by simp
  moreover have "numbered ups (Suc k) (length ups) @ numbered ups 0 (Suc c) \<noteq> []" by (simp add: numbered_def)
  ultimately have "connect_loop_from now env root ups (int k) M W =
      try_upstreams now env root ((int k, ups ! k) # numbered ups (Suc k) (length ups) @ numbered ups 0 (Suc c)) M W"
    by (intro loop_cons) (use Suc in auto)
  thus ?case unfolding numbered_Cons [OF k] by simp
qed

section \<open>Where a pusher dials\<close>

definition vetted_calls :: "sockaddr set \<Rightarrow> srt_call list \<Rightarrow> bool" where
  "vetted_calls A cs \<longleftrightarrow> list_all (\<lambda>c. case c of Resolve h \<Rightarrow> False | Connect a \<Rightarrow> (\<exists>sa \<in> A. \<exists>p. a = with_port sa p) | _ \<Rightarrow> True) cs"

lemma vetted_calls_simps: "vetted_calls A []" "vetted_calls A (cs @ ds) \<longleftrightarrow> vetted_calls A cs \<and> vetted_calls A ds"
  by (auto simp: vetted_calls_def)

lemma vetted_calls_mono: "A \<subseteq> B \<Longrightarrow> vetted_calls A cs \<Longrightarrow> vetted_calls B cs"
  unfolding vetted_calls_def by (induction cs) (auto split: srt_call.splits)

lemma close_vetted: "vetted_calls A (snd (relay_close r))"
  by (auto simp: relay_close_def vetted_calls_def split: option.splits)

lemma set_relay_param_calls: "pusher_set_relay_param i M W = Some (r, M1, W1) \<Longrightarrow> w_calls W1 = w_calls W"
  by (auto simp: pusher_set_relay_param_def Let_def update_relay_def split: option.splits if_splits)

lemma open_vetted_calls:
  assumes "relay_open env root url (set_vetted_addr sa relay_new) = Inr (ret, r', cs)" "sa \<noteq> AF_OTHER"
  shows "vetted_calls {sa} cs"
proof -
  have v: "r_vetted (set_vetted_addr sa relay_new) = Some sa" using assms(2) by (cases sa) (simp_all add: set_vetted_addr_def)
  have s: "r_srt (set_vetted_addr sa relay_new) = None" by (simp add: set_vetted_addr_def relay_new_def split: sockaddr.splits)
  show ?thesis using relay_open_dials [OF v s assms(1)] unfolding vetted_calls_def by (auto simp: list_all_iff split: srt_call.splits)
qed

lemma push_connect_calls:
  assumes "push_connect env root url (Some sa) M W = Some (ret, M1, W1)" "sa \<noteq> AF_OTHER"
  shows "\<exists>cs. w_calls W1 = w_calls W @ cs \<and> vetted_calls {sa} cs"
proof (cases "url = []")
  case False
  obtain q r cs where o: "relay_open (env (w_next W)) root url (set_vetted_addr sa relay_new) = Inr (q, r, cs)"
    using assms False by (auto simp: connect_def Let_def split: sum.splits)
  note v = open_vetted_calls [OF o assms(2)] and cl = close_vetted [of "{sa}" r]
  show ?thesis
  proof (cases "q = SLS_OK")
    case True
    then obtain W2 where "w_calls W2 = w_calls W @ cs" "W1 = W2 \<or> W1 = relay_uninit (w_next W) r W2"
      using assms(1) False o by (auto simp: connect_def Let_def bind_eq_Some_conv dest!: set_relay_param_calls split: if_splits)
    thus ?thesis using v cl by (auto simp: relay_uninit_def vetted_calls_simps)
  next
    case qf: False
    thus ?thesis using assms(1) False o v cl by (auto simp: connect_def Let_def relay_uninit_def vetted_calls_simps)
  qed
qed (use assms in \<open>auto simp: connect_def vetted_calls_simps\<close>)

lemma connect_all_loop_calls:
  "connect_all_loop env root now ups vetted ret all_ret M W = Some (r, M', W') \<Longrightarrow> length vetted = length ups \<Longrightarrow> AF_OTHER \<notin> set vetted \<Longrightarrow>
   \<exists>cs. w_calls W' = w_calls W @ cs \<and> vetted_calls (set vetted) cs"
proof (induction ups arbitrary: vetted ret all_ret M W)
  case (Cons up ups)
  obtain sa vs where v: "vetted = sa # vs" using Cons.prems(2) by (cases vetted) auto
  have IH: "\<exists>cs. w_calls W' = w_calls W1 @ cs \<and> vetted_calls (set vetted) cs"
    if "connect_all_loop env root now ups vs a b M1 W1 = Some (r, M', W')" for a b M1 W1
    using Cons.IH [OF that] Cons.prems v vetted_calls_mono [of "set vs" "set vetted"] by auto
  show ?case
  proof (cases "snprintf_fits 1024 (push_url up (m_stream_name M))")
    case None
    thus ?thesis using Cons.prems(1) v IH by simp
  next
    case (Some sz)
    then obtain q M1 W1 where c: "push_connect env root sz (Some sa) M W = Some (q, M1, W1)"
      using Cons.prems(1) v by (auto split: option.splits)
    have sa: "sa \<noteq> AF_OTHER" using Cons.prems(3) v by auto
    obtain cs where cs: "w_calls W1 = w_calls W @ cs" "vetted_calls (set vetted) cs"
      using push_connect_calls [OF c sa] vetted_calls_mono [of "{sa}" "set vetted"] v by auto
    from Some c Cons.prems(1) v IH obtain ds where "w_calls W' = w_calls W1 @ ds" "vetted_calls (set vetted) ds" by fastforce
    thus ?thesis using cs by (auto simp: vetted_calls_simps)
  qed
qed (auto simp: vetted_calls_simps)

section \<open>Properties\<close>

text \<open>The puller tries every upstream once: for a manager whose index is unset or names an upstream,
  \<^verbatim>\<open>connect_loop\<close> is the walk over the upstreams that starts after the one used last, wraps around to it, and
  stops at the first that connects; in particular it always comes to an end, and the index it leaves names the
  last upstream tried.\<close>

theorem connect_loop_walk:
  assumes "m_sri M = Some sri" "m_upstreams sri \<noteq> []" "m_cur_loop_index M = -1 \<and> c = length (m_upstreams sri) - 1 \<or>
      m_cur_loop_index M = int c \<and> c < length (m_upstreams sri)"
  shows "connect_loop now env root M W =
    try_upstreams now env root (numbered (m_upstreams sri) (Suc c) (length (m_upstreams sri)) @ numbered (m_upstreams sri) 0 (Suc c))
      (M\<lparr> m_cur_loop_index := int c \<rparr>) W"
proof -
  have c: "c < length (m_upstreams sri)" using assms(2,3) by auto
  have "connect_loop now env root M W = connect_loop_from now env root (m_upstreams sri) (int (Suc c)) (M\<lparr> m_cur_loop_index := int c \<rparr>) W"
  proof (cases "m_cur_loop_index M = -1")
    case True
    hence "int c = int (length (m_upstreams sri)) - 1" using assms(2,3) c by (cases "m_upstreams sri") auto
    thus ?thesis using True assms(1,2) by (simp add: connect_loop_def Let_def)
  next
    case False
    hence e: "m_cur_loop_index M = int c" using assms(3) by auto
    have i: "M\<lparr> m_cur_loop_index := int c \<rparr> = M" unfolding e [symmetric] by simp
    show ?thesis unfolding i using e assms(1,2) by (simp add: connect_loop_def Let_def add.commute)
  qed
  also have "\<dots> = try_upstreams now env root
      (numbered (m_upstreams sri) (Suc c) (length (m_upstreams sri)) @ numbered (m_upstreams sri) 0 (Suc c)) (M\<lparr> m_cur_loop_index := int c \<rparr>) W"
    by (rule loop_above) (use c in auto)
  finally show ?thesis .
qed

text \<open>Webhook destinations are first dialled where they were vetted: with one vetted address per upstream, starting
  a pusher in mode \<^verbatim>\<open>all\<close> asks the resolver for nothing and connects only to vetted addresses, whatever the
  stream name and the name service are.\<close>

theorem connect_all_dials_vetted:
  assumes "m_sri M = Some sri" "length (m_vetted_addrs sri) = length (m_upstreams sri)" "AF_OTHER \<notin> set (m_vetted_addrs sri)"
    "connect_all env root now M W = Some (ret, M', W')"
  shows "\<exists>cs. w_calls W' = w_calls W @ cs \<and> vetted_calls (set (m_vetted_addrs sri)) cs"
  using assms connect_all_loop_calls by (fastforce simp: connect_all_def)

text \<open>A reconnect pass forgets no destination: every entry that is not due stays as it is, and every entry that
  is due is either kept with its clock restarted or served by a relay that now exists and has been handed to a
  worker; nothing else enters the table.\<close>

theorem reconnect_all_keeps:
  assumes "m_sri M = Some sri" "reconnect_all env root now no_pub M W = Some (ret, M', W')" "(url, t) \<in> set (m_map_reconnect_relay M)"
  shows "(if now - t < m_reconnect_interval sri * 1000 then (url, t) \<in> set (m_map_reconnect_relay M')
      else (url, now) \<in> set (m_map_reconnect_relay M') \<or> serves url W') \<and>
    set (map fst (m_map_reconnect_relay M')) \<subseteq> set (map fst (m_map_reconnect_relay M))"
proof -
  obtain M1 where "reconnect_all_loop env root now (m_reconnect_interval sri) no_pub (m_map_reconnect_relay M) SLS_ERROR SLS_OK M W =
      Some (ret, m_map_reconnect_relay M', M1, W')" using assms(1,2) by (auto simp: reconnect_all_def split: option.splits)
  from reconnect_loop_keeps [OF this] assms(3) show ?thesis by fastforce
qed

text \<open>The reconnect pass does not dial the vetted address: it opens the URL without one, so the host is resolved again.\<close>

lemma reconnect_resolves_again:
  assumes "push_connect env root url None M W = Some (SLS_OK, M1, W1)"
  shows "\<exists>h cs1 cs2. w_calls W1 = w_calls W @ cs1 @ Resolve h # cs2"
proof -
  have "url \<noteq> []" using assms by (auto simp: connect_def sls_codes)
  then obtain q r cs where o: "relay_open (env (w_next W)) root url relay_new = Inr (q, r, cs)"
    using assms by (auto simp: connect_def Let_def split: sum.splits)
  have q: "q = SLS_OK" using assms o \<open>url \<noteq> []\<close> by (auto simp: connect_def Let_def split: if_splits)
  have s: "r_srt relay_new = None" "r_vetted relay_new = None" by (simp_all add: relay_new_def)
  have "r_srt r \<noteq> None" by (rule open_ok_socket [OF o [unfolded q] s(1)])
  with o s(1) obtain h p fd ss ip cs0 cs2 where "cs = Create_socket # cs0 @ cs2 @ [Connect ss]"
      "relay_target (env (w_next W)) fd (relay_new\<lparr> r_url := url \<rparr>) h p = (Some (ss, ip), cs2)"
    by (cases rule: relay_open_cases) auto
  moreover from this(2) have "cs2 = [Resolve h]" using s(2) by (auto simp: relay_target_def split: option.splits)
  moreover obtain W2 where "w_calls W2 = w_calls W @ cs" "W1 = W2"
    using assms o q \<open>url \<noteq> []\<close> by (auto simp: connect_def Let_def bind_eq_Some_conv dest!: set_relay_param_calls split: if_splits)
  ultimately have "w_calls W1 = w_calls W @ (Create_socket # cs0) @ Resolve h # [Connect ss]" by simp
  thus ?thesis by blast
qed

text \<open>A reconnect pass can report success with destinations left: when an entry that is due connects and the next
  one is not due yet, the pass returns SLS_OK while that entry is still in the table, and the worker takes the
  manager off its queue, after which nothing retries the entry.\<close>

theorem reconnect_drops_pending:
  assumes "m_sri M = Some sri" "m_mode sri = SLS_PM_ALL" "m_map_reconnect_relay M = [(a, ta), (b, tb)]"
    "m_role_list M" "m_map_data M" "\<not> m_map_publisher M" "length (stream_key_text M) < 2048"
    "\<not> now - ta < m_reconnect_interval sri * 1000" "now - tb < m_reconnect_interval sri * 1000"
    "push_connect env root a None M W = Some (SLS_OK, M1, W1)" "ms h = Some (Pusher M)"
  shows "check_reconnect_relay env root now [h] ms W = Some ([], ms(h \<mapsto> Pusher (M1\<lparr> m_map_reconnect_relay := [(b, tb)] \<rparr>)), W1)"
proof -
  have "pusher_reconnect env root now M W = Some (SLS_OK, M1\<lparr> m_map_reconnect_relay := [(b, tb)] \<rparr>, W1)"
    using assms by (simp add: pusher_reconnect_def pusher_check_relay_param_def snprintf_fits_def reconnect_all_def sls_codes Let_def)
  thus ?thesis using assms(11) by simp
qed

section \<open>Registering a puller\<close>

lemma erase_put:
  "map_of m k = None \<Longrightarrow> i \<notin> snd ` set m \<Longrightarrow> erase_role i (std_put k i m) = Some m"
  by (induction k i m rule: std_put.induct) auto

text \<open>C40. A puller registers completely or not at all: when its registration fails at any step, the publisher table and
  the hand-off list are as before; when it succeeds, the stream has the new relay as its publisher, it has a
  ring, and the relay has been handed off.\<close>

theorem puller_registers_atomically:
  assumes "puller_set_relay_param now i M W = Some (ret, M', W')" "i \<notin> snd ` set (m_map_push_2_publisher (w_pub W))"
    "map_of (w_relays W) i = Some obj"
  shows "if ret = SLS_OK
    then get_publisher (stream_key_text M) (w_pub W') = Some i \<and> map_is_exist (stream_key_text M) (w_data W') \<and> w_roles W' = w_roles W @ [i]
    else w_pub W' = w_pub W \<and> w_roles W' = w_roles W"
proof -
  have err: "SLS_ERROR \<noteq> SLS_OK" by (simp add: sls_codes)
  let ?key = "stream_key_text M"
  obtain r1 P1 where s: "set_push_2_publisher ?key i (w_pub W) = (r1, P1)" by fastforce
  show ?thesis
  proof (cases "length ?key < 2048 \<and> puller_check_relay_param M = SLS_OK \<and> r1 = SLS_OK")
    case False
    moreover have "r1 \<noteq> SLS_OK \<Longrightarrow> P1 = w_pub W" using s by (auto simp: set_push_2_publisher_def sls_codes split: option.splits)
    ultimately show ?thesis using assms(1) s err
      by (auto simp: puller_set_relay_param_def snprintf_fits_def split: if_splits)
  next
    case True
    have P: "map_of (m_map_push_2_publisher (w_pub W)) ?key = None"
        "P1 = (w_pub W)\<lparr> m_map_push_2_publisher := std_put ?key i (m_map_push_2_publisher (w_pub W)) \<rparr>"
      using s True err by (auto simp: set_push_2_publisher_def split: option.splits)
    obtain r2 D where a: "map_add now ?key 0 0 (w_data W) = Some (r2, D)"
      using assms(1) s True by (auto simp: puller_set_relay_param_def snprintf_fits_def bind_eq_Some_conv)
    show ?thesis
    proof (cases "r2 = SLS_OK")
      case False
      have "snd (publisher_remove i P1) = w_pub W"
        unfolding P(2) by (simp add: publisher_remove_def erase_put [OF P(1) assms(2)])
      thus ?thesis using assms(1) s True a False err by (auto simp: puller_set_relay_param_def snprintf_fits_def)
    next
      case ok: True
      have ex: "map_is_exist ?key D" using a ok err
        by (auto simp: map_add_def map_is_exist_def Let_def bind_eq_Some_conv map_of_update split: option.splits if_splits prod.splits)
      have g: "get_publisher ?key P1 = Some i" unfolding P(2) by (simp add: get_publisher_def std_put_lookup)
      show ?thesis using assms(1,3) s True a ok ex g
        by (auto simp: puller_set_relay_param_def snprintf_fits_def Let_def update_relay_def role_push_def)
    qed
  qed
qed

section \<open>Witnesses\<close>

text \<open>A world with a full stream table, and managers on it, over a network that accepts everything.\<close>

definition world0 :: "unit relay_world" where
  "world0 = \<lparr> w_pub = map_publisher_new, w_data = map_data_init\<lparr> m_max_streams := 1, m_stream_count := 1 \<rparr>, w_roles = [], w_relays = [],
     w_next = 0, w_calls = [] \<rparr>"

definition sri0 :: "SLS_PULL_MODE \<Rightarrow> SLS_RELAY_INFO" where
  "sri0 mode = \<lparr> m_upstreams = [''a'', ''b''], m_vetted_addrs = [public_addr, public_addr], m_type = ''push'', m_mode = mode,
     m_reconnect_interval = 5, m_idle_streams_timeout = 10 \<rparr>"

definition pusher0 :: pusher_manager where
  "pusher0 = pusher_manager_new\<lparr> m_map_data := True, m_role_list := True, m_sri := Some (sri0 SLS_PM_ALL), m_app_uplive := ''up'',
     m_stream_name := ''s'', m_map_reconnect_relay := [(''a'', 0), (''b'', 9000)] \<rparr>"

definition puller0 :: puller_manager where
  "puller0 = puller_manager_new\<lparr> m_map_data := True, m_map_publisher := True, m_role_list := True, m_sri := Some (sri0 SLS_PM_LOOP),
     m_app_uplive := ''up'', m_stream_name := ''s'' \<rparr>"

abbreviation "net0 \<equiv> (\<lambda>i :: role_id. net ''9'')"

theorem connect_loop_walk_witness:
  "connect_loop 0 net0 None puller0 world0 = try_upstreams 0 net0 None [(0, ''a''), (1, ''b'')] (puller0\<lparr> m_cur_loop_index := 1 \<rparr>) world0"
  using connect_loop_walk [of puller0 "sri0 SLS_PM_LOOP" 1 0 net0 None world0]
  by (simp add: puller0_def puller_manager_new_def sri0_def numbered_def upt_conv_Cons)

theorem connect_all_dials_vetted_witness:
  "\<exists>ret M' W' cs. connect_all net0 None 0 pusher0 world0 = Some (ret, M', W') \<and> w_calls W' = w_calls world0 @ cs \<and> vetted_calls {public_addr} cs"
proof -
  have "connect_all net0 None 0 pusher0 world0 \<noteq> None" by code_simp
  then obtain ret M' W' where c: "connect_all net0 None 0 pusher0 world0 = Some (ret, M', W')" by auto
  have s: "set (m_vetted_addrs (sri0 SLS_PM_ALL)) = {public_addr}" by (simp add: sri0_def)
  show ?thesis using connect_all_dials_vetted [OF _ _ _ c, of "sri0 SLS_PM_ALL"] c unfolding s
    by (simp add: pusher0_def pusher_manager_new_def sri0_def)
qed

theorem reconnect_all_keeps_witness:
  "\<exists>ret M'. reconnect_all net0 None 10000 True pusher0 world0 = Some (ret, M', world0) \<and> (''b'', 9000) \<in> set (m_map_reconnect_relay M')"
proof -
  have c: "reconnect_all net0 None 10000 True pusher0 world0 =
      Some (SLS_ERROR OR SLS_ERROR, pusher0\<lparr> m_map_reconnect_relay := [(''a'', 10000), (''b'', 9000)] \<rparr>, world0)"
    by (simp add: reconnect_all_def pusher0_def pusher_manager_new_def sri0_def sls_codes)
  show ?thesis using reconnect_all_keeps [OF _ c, of "sri0 SLS_PM_ALL" "''b''" 9000] c
    by (simp add: pusher0_def pusher_manager_new_def sri0_def)
qed

theorem reconnect_drops_pending_witness:
  "\<exists>M1 W1. check_reconnect_relay net0 None 10000 [Of_table 7] [Of_table 7 \<mapsto> Pusher pusher0] world0 =
     Some ([], [Of_table 7 \<mapsto> Pusher (M1\<lparr> m_map_reconnect_relay := [(''b'', 9000)] \<rparr>)], W1)"
proof -
  have "map_option fst (push_connect net0 None ''a'' None pusher0 world0) = Some SLS_OK" by code_simp
  then obtain M1 W1 where c: "push_connect net0 None ''a'' None pusher0 world0 = Some (SLS_OK, M1, W1)" by auto
  show ?thesis using reconnect_drops_pending [OF _ _ _ _ _ _ _ _ _ c, of "sri0 SLS_PM_ALL" 0 "''b''" 9000 10000 "[Of_table 7 \<mapsto> Pusher pusher0]" "Of_table 7"]
    by (auto simp: pusher0_def pusher_manager_new_def sri0_def stream_key_text_def)
qed


definition world1 :: "unit relay_world" where
  "world1 = world0\<lparr> w_relays := [(0, CSLSRelay.extend relay_new \<lparr> ro_puller = False, ro_idle_streams_timeout = 10, ro_map_data_key = [], ro_manager = None,
     ro_kicked = False \<rparr>)] \<rparr>"

theorem puller_registers_atomically_witness:
  "\<exists>M' W'. puller_set_relay_param 0 0 puller0 world1 = Some (SLS_ERROR, M', W') \<and> w_pub W' = map_publisher_new \<and> w_roles W' = []"
proof -
  have "map_option fst (puller_set_relay_param 0 0 puller0 world1) = Some SLS_ERROR"
    by (simp add: puller_set_relay_param_def snprintf_fits_def stream_key_text_def puller0_def puller_manager_new_def
        puller_check_relay_param_def world1_def world0_def set_push_2_publisher_def map_publisher_new_def map_add_def map_data_init_def sls_codes)
  then obtain M' W' where c: "puller_set_relay_param 0 0 puller0 world1 = Some (SLS_ERROR, M', W')" by auto
  have "map_of (w_relays world1) 0 \<noteq> None" by (simp add: world1_def)
  then obtain obj where o: "map_of (w_relays world1) 0 = Some obj" by auto
  have "w_pub world1 = map_publisher_new" "w_roles world1 = []" by (simp_all add: world1_def world0_def)
  thus ?thesis using puller_registers_atomically [OF c _ o] c by (simp add: map_publisher_new_def sls_codes)
qed

end
