(* ===== verification/Role.thy ===== *)
theory Role
  imports Relay_Manager_Correct Bitrate_Limit Reject_Cache
begin

text \<open>A connection as a worker drives it: \<^verbatim>\<open>src/core/SLSRole.cpp\<close>, the publisher \<^verbatim>\<open>SLSPublisher.cpp\<close>, the player
  \<^verbatim>\<open>SLSPlayer.cpp\<close>, the two relays as roles \<^verbatim>\<open>SLSPusher.cpp\<close> and \<^verbatim>\<open>SLSPuller.cpp\<close>, the reaping rule \<^verbatim>\<open>sls_idle.hpp\<close>, and the
  socket wrapper \<^verbatim>\<open>SLSSrt.cpp\<close> as far as a role calls it. The class of a role is the field \<open>rl_kind\<close>; a pointer the role
  is given is present or null. What libsrt, the HTTP client and the JSON parser answer during one call is the argument
  \<open>role_env\<close>; what is asked of the network is the trace \<open>rw_trace\<close>. The clock is read once per call.\<close>

section \<open>State\<close>

definition TS_UDP_LEN :: int where
  "TS_UDP_LEN = 1316"

definition DATA_BUFF_SIZE :: int where
  "DATA_BUFF_SIZE = 16 * 1316"

definition MAX_EGRESS_BATCHES :: nat where
  "MAX_EGRESS_BATCHES = 2"

definition kHttpAuthorizationDeadlineMs :: time_ms where
  "kHttpAuthorizationDeadlineMs = 4000"

datatype SLS_ROLE_STATE = SLS_RS_UNINIT | SLS_RS_INITED | SLS_RS_INVALID

datatype role_kind = Publisher_role | Player_role | Pusher_role | Puller_role

text \<open>The socket object: the socket number (0 when closed) and the epoll it is subscribed to (0 when none).\<close>

record CSLSSrt =
  s_fd :: int
  s_eid :: int

record AsyncHttpResponse =
  resp_success :: bool
  resp_status_code :: int
  resp_body :: string

datatype json = JObject "(string \<times> json) list" | JArray "json list" | JString string | JInteger int | JOther

text \<open>What a role asks of the network.\<close>

datatype role_call =
  Subscribe int int bool | Unsubscribe int int | Arm_out int bool | Close_sock int | Send int buffer int | Post string

record CSLSRole =
  rl_id :: role_id
  rl_kind :: role_kind
  rl_srt :: "CSLSSrt option"
  rl_is_write :: bool
  rl_stat_start_time :: time_ms
  rl_invalid_begin_tm :: time_ms
  rl_stat_bitrate_last_tm :: time_ms
  rl_stat_bitrate_interval :: int
  rl_stat_bitrate_datacount :: int
  rl_kbitrate :: int
  rl_idle_streams_timeout :: int
  rl_first_data_timeout_ms :: int
  rl_last_recv_data_tm :: time_ms
  rl_latency :: int
  rl_state :: SLS_ROLE_STATE
  rl_kick_requested :: bool
  rl_peer_ip :: string
  rl_peer_port :: int
  rl_role_name :: string
  rl_streamid :: string
  rl_http_url :: string
  rl_http_passed :: bool
  rl_conf :: "conf_vars option"
  rl_map_data :: bool
  rl_map_data_key :: string
  rl_map_data_id :: SLSRecycleArrayID
  rl_ring_added :: bool
  rl_data :: buffer
  rl_data_len :: int
  rl_data_pos :: int
  rl_need_reconnect :: bool
  rl_send_backpressure_count :: int
  rl_snd_drops_reported :: int
  rl_last_snd_drop_sample_ms :: time_ms
  rl_player_snapshot :: "nat option"
  rl_backpressure_stuck_since_ms :: time_ms
  rl_epoll_out_armed :: bool
  rl_http_future :: "nat option"
  rl_http_auth_deadline_ms :: time_ms
  rl_bitrate_limiter :: "CSLSBitrateLimit option"
  rl_push_urls :: "string list"
  rl_push_vetted_addrs :: "sockaddr list"
  rl_auth_reject_cache :: bool
  rl_map_publisher :: bool
  rl_role_list :: bool
  rl_listen_port :: int
  rl_dynamic_pusher_manager :: "pusher_manager option"

text \<open>The tables a role shares with the rest of the server. A request is named by its place in \<open>rw_posts\<close>.\<close>

record 'ca role_world = "'ca relay_world" +
  rw_cache :: AuthRejectCache
  rw_posts :: "string list"
  rw_snapshot :: "nat \<Rightarrow> PlayerStatsSnapshot"
  rw_trace :: "role_call list"

text \<open>The statistics a role reads of its socket.\<close>

record SRT_TRACEBSTATS =
  st_msRTT :: double
  st_mbpsSendRate :: double
  st_pktSndDropTotal :: int
  st_pktRetransTotal :: int

text \<open>One call's surroundings: the clock, the state of the socket, the answer of \<^verbatim>\<open>srt_recvmsg\<close> (result, bytes, error),
  the answers of the successive \<^verbatim>\<open>srt_sendmsg\<close> (result, error), what \<^verbatim>\<open>srt_epoll_add_usock\<close> and
  \<^verbatim>\<open>srt_epoll_update_usock\<close> return (result, error), the peer name, the stream id option, \<^verbatim>\<open>srt_bistats\<close> (result, statistics), the futures
  that are ready, whether a request can be sent, the JSON parser (\<^const>\<open>None\<close> when it throws), the validator's
  surroundings, the interface addresses, and the surroundings of relays that are opened.\<close>

record role_env =
  e_now :: time_ms
  e_sockstate :: int
  e_read :: "int \<times> buffer \<times> int"
  e_write :: "nat \<Rightarrow> int \<times> int"
  e_epoll_add :: "int \<times> int"
  e_epoll_update :: "int \<times> int"
  e_peer :: "(string \<times> int) option"
  e_streamid :: string
  e_bistats :: "int \<times> SRT_TRACEBSTATS"
  e_http :: "nat \<Rightarrow> AsyncHttpResponse option"
  e_post_ok :: bool
  e_json :: "string \<Rightarrow> json option"
  e_push :: push_env
  e_ifaddr :: "sockaddr option list option"
  e_relay :: "role_id \<Rightarrow> srt_env"
  e_root :: "conf_vars option"

definition role_kind_name :: "role_kind \<Rightarrow> string" where
  "role_kind_name k = (case k of Publisher_role \<Rightarrow> ''publisher'' | Player_role \<Rightarrow> ''player''
     | Pusher_role \<Rightarrow> ''pusher'' | Puller_role \<Rightarrow> ''puller'')"

definition role_new :: "role_id \<Rightarrow> role_kind \<Rightarrow> time_ms \<Rightarrow> CSLSRole" where
  "role_new i k now =
     \<lparr> rl_id = i, rl_kind = k, rl_srt = None, rl_is_write = (k = Player_role \<or> k = Pusher_role),
       rl_stat_start_time = now, rl_invalid_begin_tm = now, rl_stat_bitrate_last_tm = now, rl_stat_bitrate_interval = 1000,
       rl_stat_bitrate_datacount = 0, rl_kbitrate = 0, rl_idle_streams_timeout = 10, rl_first_data_timeout_ms = 0,
       rl_last_recv_data_tm = 0, rl_latency = 20, rl_state = SLS_RS_UNINIT, rl_kick_requested = False,
       rl_peer_ip = [], rl_peer_port = 0, rl_role_name = role_kind_name k, rl_streamid = [], rl_http_url = [],
       rl_http_passed = True, rl_conf = None, rl_map_data = False, rl_map_data_key = [],
       rl_map_data_id = \<lparr> nReadPos = 0, nDataCount = 0, bFirst = False, nGeneration = 0 \<rparr>, rl_ring_added = False,
       rl_data = replicate (nat DATA_BUFF_SIZE) 0, rl_data_len = 0, rl_data_pos = 0,
       rl_need_reconnect = (k = Pusher_role \<or> k = Puller_role), rl_send_backpressure_count = 0,
       rl_snd_drops_reported = 0, rl_last_snd_drop_sample_ms = 0, rl_player_snapshot = None,
       rl_backpressure_stuck_since_ms = 0, rl_epoll_out_armed = False, rl_http_future = None,
       rl_http_auth_deadline_ms = 0, rl_bitrate_limiter = None, rl_push_urls = [], rl_push_vetted_addrs = [],
       rl_auth_reject_cache = False, rl_map_publisher = False, rl_role_list = False, rl_listen_port = 0,
       rl_dynamic_pusher_manager = None \<rparr>"

section \<open>The socket\<close>

definition role_calls :: "role_call list \<Rightarrow> 'ca role_world \<Rightarrow> 'ca role_world" where
  "role_calls cs W = W\<lparr> rw_trace := rw_trace W @ cs \<rparr>"

definition get_fd :: "CSLSRole \<Rightarrow> int" where
  "get_fd r = (case rl_srt r of None \<Rightarrow> 0 | Some s \<Rightarrow> s_fd s)"

definition set_srt :: "CSLSSrt \<Rightarrow> CSLSRole \<Rightarrow> int \<times> CSLSRole" where
  "set_srt s r = (case rl_srt r of Some t \<Rightarrow> (SLS_ERROR, r) | None \<Rightarrow> (0, r\<lparr> rl_srt := Some s \<rparr>))"

definition set_eid :: "int \<Rightarrow> CSLSRole \<Rightarrow> CSLSRole" where
  "set_eid eid r = r\<lparr> rl_srt := map_option (\<lambda>s. s\<lparr> s_eid := eid \<rparr>) (rl_srt r) \<rparr>"

text \<open>\<open>res\<close> is what the libsrt call returns, and the error code it leaves, which is positive.\<close>

definition libsrt_add_to_epoll :: "int \<times> int \<Rightarrow> int \<Rightarrow> bool \<Rightarrow> CSLSSrt \<Rightarrow> int \<times> role_call list" where
  "libsrt_add_to_epoll res eid write s =
     (if eid = 0 then (SLS_ERROR, [])
      else (if fst res < 0 then snd res else fst res, [Subscribe eid (s_fd s) (\<not> write)]))"

definition add_to_epoll :: "role_env \<Rightarrow> int \<Rightarrow> CSLSRole \<Rightarrow> 'ca role_world \<Rightarrow> int \<times> CSLSRole \<times> 'ca role_world" where
  "add_to_epoll env eid r W =
     (case rl_srt r of None \<Rightarrow> (SLS_ERROR, r, W)
      | Some s \<Rightarrow>
          let s1 = s\<lparr> s_eid := eid \<rparr> in
          case libsrt_add_to_epoll (e_epoll_add env) eid (rl_is_write r) s1 of (ret, cs) \<Rightarrow>
            (ret, r\<lparr> rl_srt := Some s1 \<rparr>, role_calls cs W))"

definition libsrt_remove_from_epoll :: "CSLSSrt \<Rightarrow> role_call list" where
  "libsrt_remove_from_epoll s = (if s_eid s = 0 then [] else [Unsubscribe (s_eid s) (s_fd s)])"

definition libsrt_close :: "CSLSSrt \<Rightarrow> role_call list" where
  "libsrt_close s = (if s_fd s \<noteq> 0 then [Close_sock (s_fd s)] else [])"

definition set_epoll_out :: "role_env \<Rightarrow> bool \<Rightarrow> CSLSRole \<Rightarrow> 'ca role_world \<Rightarrow> int \<times> CSLSRole \<times> 'ca role_world" where
  "set_epoll_out env enable r W =
     (case rl_srt r of None \<Rightarrow> (SLS_ERROR, r, W)
      | Some s \<Rightarrow>
          if enable = rl_epoll_out_armed r then (SLS_OK, r, W)
          else if s_eid s = 0 then (SLS_ERROR, r, W)
          else let W1 = role_calls [Arm_out (s_fd s) enable] W in
            if fst (e_epoll_update env) < 0 then (snd (e_epoll_update env), r, W1)
            else (SLS_OK, r\<lparr> rl_epoll_out_armed := enable \<rparr>, W1))"

definition update_egress_arming :: "role_env \<Rightarrow> CSLSRole \<Rightarrow> 'ca role_world \<Rightarrow> CSLSRole \<times> 'ca role_world" where
  "update_egress_arming env r W =
     (if \<not> rl_is_write r then (r, W)
      else case set_epoll_out env (rl_data_pos r < rl_data_len r) r W of (ret, r1, W1) \<Rightarrow> (r1, W1))"

definition get_sock_state :: "role_env \<Rightarrow> CSLSRole \<Rightarrow> int" where
  "get_sock_state env r = (case rl_srt r of None \<Rightarrow> SLS_ERROR | Some s \<Rightarrow> e_sockstate env)"

section \<open>Life cycle\<close>

definition role_init :: "CSLSRole \<Rightarrow> int \<times> CSLSRole" where
  "role_init r = (0, r\<lparr> rl_state := SLS_RS_INITED,
     rl_map_data_id := (rl_map_data_id r)\<lparr> bFirst := True, nDataCount := 0, nReadPos := 0 \<rparr> \<rparr>)"

definition int_text :: "int \<Rightarrow> string" where
  "int_text n = (if n < 0 then CHR ''-'' # dec_digits (nat (- n)) else dec_digits (nat n))"

definition get_streamid :: "role_env \<Rightarrow> CSLSRole \<Rightarrow> string \<times> CSLSRole" where
  "get_streamid env r =
     (if rl_streamid r \<noteq> [] then (rl_streamid r, r)
      else case rl_srt r of None \<Rightarrow> ([], r) | Some s \<Rightarrow> (e_streamid env, r\<lparr> rl_streamid := e_streamid env \<rparr>))"

definition set_streamid :: "string option \<Rightarrow> CSLSRole \<Rightarrow> CSLSRole" where
  "set_streamid sid r = (case sid of None \<Rightarrow> r | Some s \<Rightarrow> r\<lparr> rl_streamid := take 2047 s \<rparr>)"

definition get_peer_info :: "role_env \<Rightarrow> CSLSRole \<Rightarrow> (string \<times> int) option" where
  "get_peer_info env r = (case rl_srt r of None \<Rightarrow> None | Some s \<Rightarrow> map_option (\<lambda>(ip, port). (take 45 ip, port)) (e_peer env))"

definition learn_peer :: "role_env \<Rightarrow> CSLSRole \<Rightarrow> CSLSRole" where
  "learn_peer env r =
     (if rl_peer_ip r \<noteq> [] then r
      else case get_peer_info env r of None \<Rightarrow> r | Some (ip, port) \<Rightarrow> r\<lparr> rl_peer_ip := ip, rl_peer_port := port \<rparr>)"

definition event_url :: "string \<Rightarrow> CSLSRole \<Rightarrow> string \<Rightarrow> string" where
  "event_url event r sid =
     rl_http_url r @ ''?on_event='' @ event @ ''&role_name='' @ url_encode (rl_role_name r) @ ''&srt_url='' @ url_encode sid @
     ''&remote_ip='' @ rl_peer_ip r @ ''&remote_port='' @ int_text (rl_peer_port r)"

text \<open>A request gets the next number; \<^const>\<open>None\<close> is the exception of a pool that cannot take it.\<close>

definition post_async :: "role_env \<Rightarrow> string \<Rightarrow> 'ca role_world \<Rightarrow> (nat \<times> 'ca role_world) option" where
  "post_async env url W =
     (if e_post_ok env then Some (length (rw_posts W), W\<lparr> rw_posts := rw_posts W @ [url], rw_trace := rw_trace W @ [Post url] \<rparr>)
      else None)"

definition on_connect :: "role_env \<Rightarrow> CSLSRole \<Rightarrow> 'ca role_world \<Rightarrow> int \<times> CSLSRole \<times> 'ca role_world" where
  "on_connect env r W =
     (if rl_http_url r = [] then (SLS_OK, r, W)
      else case get_streamid env (learn_peer env r) of (sid, r1) \<Rightarrow>
        case snprintf_fits 2048 (event_url ''on_connect'' r1 sid) of
          None \<Rightarrow> (SLS_ERROR, r1, W)
        | Some url \<Rightarrow>
            (case post_async env url W of
               None \<Rightarrow> (SLS_ERROR, r1, W)
             | Some (i, W1) \<Rightarrow>
                 (SLS_OK, r1\<lparr> rl_http_future := Some i, rl_http_auth_deadline_ms := e_now env + kHttpAuthorizationDeadlineMs \<rparr>, W1)))"

text \<open>\<open>on_close\<close> does not catch the exception of the dispatch.\<close>

definition on_close :: "role_env \<Rightarrow> CSLSRole \<Rightarrow> 'ca role_world \<Rightarrow> (int \<times> CSLSRole \<times> 'ca role_world) option" where
  "on_close env r W =
     (if \<not> rl_http_passed r then Some (SLS_OK, r, W)
      else if rl_http_url r = [] then Some (SLS_OK, r, W)
      else case get_streamid env (learn_peer env r) of (sid, r1) \<Rightarrow>
        case snprintf_fits 2048 (event_url ''on_close'' r1 sid) of
          None \<Rightarrow> Some (SLS_ERROR, r1, W)
        | Some url \<Rightarrow>
            (case post_async env url W of
               None \<Rightarrow> None
             | Some (i, W1) \<Rightarrow> Some (SLS_OK, r1\<lparr> rl_http_future := Some i \<rparr>, W1)))"

definition close_snapshot :: "CSLSRole \<Rightarrow> 'ca role_world \<Rightarrow> 'ca role_world" where
  "close_snapshot r W =
     (case rl_player_snapshot r of None \<Rightarrow> W
      | Some i \<Rightarrow> W\<lparr> rw_snapshot := (rw_snapshot W)(i := (rw_snapshot W i)\<lparr> snap_closed := True \<rparr>) \<rparr>)"

definition invalid_srt :: "role_env \<Rightarrow> CSLSRole \<Rightarrow> 'ca role_world \<Rightarrow> (CSLSRole \<times> 'ca role_world) option" where
  "invalid_srt env r W =
     (case rl_srt r of None \<Rightarrow> Some (r, W)
      | Some s \<Rightarrow>
          let W1 = role_calls (libsrt_remove_from_epoll s @ libsrt_close s) W in
          case on_close env (r\<lparr> rl_srt := None \<rparr>) (close_snapshot r W1) of
            None \<Rightarrow> None
          | Some (ret, r2, W2) \<Rightarrow> Some (r2, W2))"

definition mark_invalid :: "role_env \<Rightarrow> CSLSRole \<Rightarrow> 'ca role_world \<Rightarrow> (CSLSRole \<times> 'ca role_world) option" where
  "mark_invalid env r W = invalid_srt env (r\<lparr> rl_state := SLS_RS_INVALID \<rparr>) W"

definition role_close :: "CSLSRole \<Rightarrow> 'ca role_world \<Rightarrow> CSLSRole \<times> 'ca role_world" where
  "role_close r W =
     (case rl_srt r of None \<Rightarrow> (r, W)
      | Some s \<Rightarrow> (r\<lparr> rl_srt := None \<rparr>, role_calls (libsrt_remove_from_epoll s @ libsrt_close s) W))"

definition base_uninit :: "role_env \<Rightarrow> CSLSRole \<Rightarrow> 'ca role_world \<Rightarrow> (CSLSRole \<times> 'ca role_world) option" where
  "base_uninit env r W =
     (let r1 = r\<lparr> rl_http_future := None, rl_http_auth_deadline_ms := 0 \<rparr> in
      if rl_state r1 \<noteq> SLS_RS_UNINIT then invalid_srt env (r1\<lparr> rl_state := SLS_RS_UNINIT \<rparr>) W else Some (r1, W))"

definition request_kick :: "CSLSRole \<Rightarrow> CSLSRole" where
  "request_kick r = r\<lparr> rl_kick_requested := True \<rparr>"

definition check_http_client :: "CSLSRole \<Rightarrow> int" where
  "check_http_client r = (if rl_http_future r = None then SLS_ERROR else SLS_OK)"

definition set_http_url :: "string option \<Rightarrow> CSLSRole \<Rightarrow> CSLSRole" where
  "set_http_url http_url r =
     (case http_url of None \<Rightarrow> r
      | Some u \<Rightarrow> if u = [] then r
          else r\<lparr> rl_http_url := take 2047 u, rl_http_passed := False, rl_http_auth_deadline_ms := 0 \<rparr>)"

definition set_first_data_timeout :: "time_ms \<Rightarrow> int \<Rightarrow> CSLSRole \<Rightarrow> CSLSRole" where
  "set_first_data_timeout now timeout_ms r =
     (let r1 = r\<lparr> rl_first_data_timeout_ms := timeout_ms \<rparr> in
      if timeout_ms > 0 \<and> rl_http_passed r1 then r1\<lparr> rl_invalid_begin_tm := now \<rparr> else r1)"

definition has_recent_recv_data :: "time_ms \<Rightarrow> time_ms \<Rightarrow> CSLSRole \<Rightarrow> bool" where
  "has_recent_recv_data now within r = (if rl_last_recv_data_tm r = 0 then False else now - rl_last_recv_data_tm r \<le> within)"

definition is_takeover_protected :: "CSLSRole \<Rightarrow> bool" where
  "is_takeover_protected r \<longleftrightarrow> rl_kind r = Publisher_role"

definition sls_should_reap_role :: "time_ms \<Rightarrow> time_ms \<Rightarrow> time_ms \<Rightarrow> int \<Rightarrow> int \<Rightarrow> bool \<Rightarrow> bool" where
  "sls_should_reap_role now last_recv_data last_activity first_data_timeout idle_timeout authorization_pending =
     (if first_data_timeout > 0 \<and> last_recv_data = 0
      then (if authorization_pending then False else now - last_activity \<ge> first_data_timeout)
      else if idle_timeout = -1 then False
      else now - last_activity \<ge> idle_timeout * 1000)"

definition check_idle_streams_duration :: "time_ms \<Rightarrow> time_ms \<Rightarrow> CSLSRole \<Rightarrow> bool" where
  "check_idle_streams_duration now cur r =
     sls_should_reap_role (if cur = 0 then now else cur) (rl_last_recv_data_tm r) (rl_invalid_begin_tm r)
       (rl_first_data_timeout_ms r) (rl_idle_streams_timeout r) (\<not> rl_http_passed r)"

text \<open>The socket states of libsrt that end a role.\<close>

definition SRTS_CONNECTING :: int where "SRTS_CONNECTING = 4"
definition SRTS_CONNECTED :: int where "SRTS_CONNECTED = 5"
definition SRTS_BROKEN :: int where "SRTS_BROKEN = 6"
definition SRTS_CLOSED :: int where "SRTS_CLOSED = 8"
definition SRTS_NONEXIST :: int where "SRTS_NONEXIST = 9"

definition sock_dead :: "int \<Rightarrow> bool" where
  "sock_dead st \<longleftrightarrow> st = SLS_ERROR \<or> st = SRTS_BROKEN \<or> st = SRTS_CLOSED \<or> st = SRTS_NONEXIST"

definition get_state :: "role_env \<Rightarrow> time_ms \<Rightarrow> CSLSRole \<Rightarrow> 'ca role_world \<Rightarrow> (SLS_ROLE_STATE \<times> CSLSRole \<times> 'ca role_world) option" where
  "get_state env cur r W =
     (if rl_state r = SLS_RS_INVALID then Some (SLS_RS_INVALID, r, W)
      else if rl_kick_requested r \<or> check_idle_streams_duration (e_now env) cur r \<or> sock_dead (get_sock_state env r)
      then map_option (\<lambda>(r1, W1). (rl_state r1, r1, W1)) (mark_invalid env r W)
      else Some (rl_state r, r, W))"

section \<open>Authorisation\<close>

text \<open>\<open>json_get\<close> is \<^verbatim>\<open>contains\<close> and \<^verbatim>\<open>operator[]\<close>; on what is not an object it finds nothing.\<close>

definition json_get :: "string \<Rightarrow> json \<Rightarrow> json option" where
  "json_get key j = (case j of JObject fs \<Rightarrow> map_of fs key | _ \<Rightarrow> None)"

definition entry_url :: "json \<Rightarrow> string option" where
  "entry_url entry = (case json_get ''url'' entry of Some (JString u) \<Rightarrow> Some u | _ \<Rightarrow> None)"

fun push_targets ::
  "role_env \<Rightarrow> conf_vars \<Rightarrow> string list \<Rightarrow> json list \<Rightarrow> int \<Rightarrow> (string \<times> sockaddr) list" where
  "push_targets env app self_addrs [] kept = []"
| "push_targets env app self_addrs (entry # es) kept =
     (if kept \<ge> var_int ''push_destination_max'' app then push_targets env app self_addrs es kept
      else case entry_url entry of
        None \<Rightarrow> push_targets env app self_addrs es kept
      | Some url \<Rightarrow>
          (case validate_push_url (e_push env) (e_root env) url app self_addrs of
             (Ok, vetted) \<Rightarrow> (url, case vetted of None \<Rightarrow> AF_OTHER | Some a \<Rightarrow> a) # push_targets env app self_addrs es (kept + 1)
           | (_, vetted) \<Rightarrow> push_targets env app self_addrs es kept))"

definition harvest_push_urls :: "role_env \<Rightarrow> string \<Rightarrow> CSLSRole \<Rightarrow> CSLSRole" where
  "harvest_push_urls env body r =
     (if body = [] \<or> hd body \<noteq> CHR 0x7B then r
      else case rl_conf r of
        None \<Rightarrow> r
      | Some app \<Rightarrow>
          if var_int ''push_destination_max'' app \<le> 0 then r
          else case e_json env body of
            None \<Rightarrow> r
          | Some parsed \<Rightarrow>
              (case json_get ''pushTargets'' parsed of
                 Some (JArray es) \<Rightarrow>
                   let ts = push_targets env app (discover_self_addresses (pe_ntop (e_push env)) (e_ifaddr env)) es 0 in
                   r\<lparr> rl_push_urls := rl_push_urls r @ map fst ts, rl_push_vetted_addrs := rl_push_vetted_addrs r @ map snd ts \<rparr>
               | _ \<Rightarrow> r))"

definition cache_refusal ::
  "role_env \<Rightarrow> AsyncHttpResponse \<Rightarrow> CSLSRole \<Rightarrow> 'ca role_world \<Rightarrow> (CSLSRole \<times> 'ca role_world) option" where
  "cache_refusal env response r W =
     (if rl_auth_reject_cache r \<and> resp_success response \<and> (resp_status_code response = 401 \<or> resp_status_code response = 403)
      then case get_streamid env r of (sid, r1) \<Rightarrow>
        (case sls_canonical_sid_key sid of
           None \<Rightarrow> None
         | Some key \<Rightarrow> Some (r1, W\<lparr> rw_cache := record_failure (e_now env div 1000) key (rw_cache W) \<rparr>))
      else Some (r, W))"

definition check_http_passed :: "role_env \<Rightarrow> CSLSRole \<Rightarrow> 'ca role_world \<Rightarrow> (int \<times> CSLSRole \<times> 'ca role_world) option" where
  "check_http_passed env r W =
     (if rl_http_passed r then Some (SLS_OK, r, W)
      else if rl_http_auth_deadline_ms r > 0 \<and> e_now env \<ge> rl_http_auth_deadline_ms r then
        map_option (\<lambda>(r1, W1). (SLS_ERROR, r1, W1))
          (mark_invalid env (r\<lparr> rl_http_future := None, rl_http_auth_deadline_ms := 0 \<rparr>) W)
      else case rl_http_future r of
        None \<Rightarrow> map_option (\<lambda>(r1, W1). (SLS_ERROR, r1, W1)) (mark_invalid env (r\<lparr> rl_http_auth_deadline_ms := 0 \<rparr>) W)
      | Some i \<Rightarrow>
          (case e_http env i of
             None \<Rightarrow> Some (SLS_ERROR, r, W)
           | Some response \<Rightarrow>
               let r1 = r\<lparr> rl_http_future := None, rl_http_auth_deadline_ms := 0 \<rparr> in
               if \<not> resp_success response \<or> resp_status_code response \<noteq> 200 then do {
                 (r2, W2) \<leftarrow> cache_refusal env response r1 W;
                 (r3, W3) \<leftarrow> invalid_srt env r2 W2;
                 Some (SLS_ERROR, r3, W3)
               }
               else Some (SLS_OK, harvest_push_urls env (resp_body response)
                 (r1\<lparr> rl_invalid_begin_tm := e_now env, rl_http_passed := True \<rparr>), W)))"

section \<open>Ingest\<close>

definition on_map_data_set :: "CSLSRole \<Rightarrow> 'ca role_world \<Rightarrow> 'ca role_world" where
  "on_map_data_set r W =
     (if rl_kind r \<noteq> Publisher_role \<or> \<not> rl_ring_added r \<or> \<not> rl_map_data r \<or> rl_map_data_key r = [] then W
      else case rl_conf r of
        None \<Rightarrow> W
      | Some app \<Rightarrow>
          if var_bool ''timecode_sei'' app then W\<lparr> w_data := set_timecode_scan (Some (rl_map_data_key r)) True (w_data W) \<rparr>
          else W)"

definition role_set_map_data :: "string option \<Rightarrow> bool \<Rightarrow> CSLSRole \<Rightarrow> 'ca role_world \<Rightarrow> CSLSRole \<times> 'ca role_world" where
  "role_set_map_data map_key map_data r W =
     (case map_key of None \<Rightarrow> (r, W)
      | Some k \<Rightarrow> let r1 = r\<lparr> rl_map_data_key := take 2047 k, rl_map_data := map_data \<rparr> in (r1, on_map_data_set r1 W))"

text \<open>The bitrate of a closed interval: a 64 bit quotient narrowed to \<^verbatim>\<open>int\<close>.\<close>

definition account_bitrate :: "time_ms \<Rightarrow> int \<Rightarrow> time_ms \<Rightarrow> CSLSRole \<Rightarrow> CSLSRole" where
  "account_bitrate now n d r =
     (let r1 = r\<lparr> rl_stat_bitrate_datacount := rl_stat_bitrate_datacount r + n \<rparr> in
      if d > 0 \<and> d \<ge> rl_stat_bitrate_interval r1
      then r1\<lparr> rl_kbitrate := signed_take_bit 31 (cdiv (rl_stat_bitrate_datacount r1 * 8) d), rl_stat_bitrate_datacount := 0,
               rl_stat_bitrate_last_tm := now \<rparr>
      else r1)"

definition SRT_EASYNCSND :: int where "SRT_EASYNCSND = 6001"
definition SRT_EASYNCRCV :: int where "SRT_EASYNCRCV = 6002"

text \<open>The rest of \<^verbatim>\<open>handler_read_data\<close> once \<open>n\<close> bytes were read: \<open>role_limit\<close> is the bitrate check, \<open>role_store\<close> the
  lazy allocation of the ring and the \<^verbatim>\<open>put\<close>. The second component is what is written to \<^verbatim>\<open>*last_read_time\<close>.\<close>

definition role_limit :: "time_ms \<Rightarrow> int \<Rightarrow> CSLSRole \<Rightarrow> BitrateCheckResult \<times> CSLSRole" where
  "role_limit now n r =
     (case rl_bitrate_limiter r of
        None \<Rightarrow> (BITRATE_OK, r)
      | Some B \<Rightarrow> (case check_data_bitrate n now B of (res, B1) \<Rightarrow> (res, r\<lparr> rl_bitrate_limiter := Some B1 \<rparr>)))"

definition ensure_ring :: "role_env \<Rightarrow> CSLSRole \<Rightarrow> 'ca role_world \<Rightarrow> (bool \<times> CSLSRole \<times> 'ca role_world) option" where
  "ensure_ring env r W =
     (if rl_ring_added r then Some (True, r, W)
      else do {
        let hint = (case rl_conf r of None \<Rightarrow> 0 | Some app \<Rightarrow> var_int ''max_input_bitrate_kbps'' app);
        (ret, D) \<leftarrow> map_add (e_now env) (rl_map_data_key r) hint (rl_latency r) (w_data W);
        let W1 = W\<lparr> w_data := D \<rparr>;
        if ret \<noteq> SLS_OK then Some (False, r, W1)
        else let r1 = r\<lparr> rl_ring_added := True \<rparr> in Some (True, r1, on_map_data_set r1 W1)
      })"

definition role_store ::
  "role_env \<Rightarrow> buffer \<Rightarrow> int \<Rightarrow> CSLSRole \<Rightarrow> 'ca role_world \<Rightarrow> (int \<times> time_ms option \<times> CSLSRole \<times> 'ca role_world) option" where
  "role_store env szData n r W = do {
     (ok, r1, W1) \<leftarrow> ensure_ring env r W;
     if \<not> ok then do {
       (r2, W2) \<leftarrow> invalid_srt env r1 W1;
       Some (SLS_ERROR, None, r2, W2)
     }
     else do {
       (ret, last_read, D) \<leftarrow> map_put (rl_map_data_key r1) (Some szData) n (w_data W1);
       Some (ret, last_read, r1, W1\<lparr> w_data := D \<rparr>)
     }
   }"

definition handler_read_data ::
  "role_env \<Rightarrow> CSLSRole \<Rightarrow> 'ca role_world \<Rightarrow> (int \<times> time_ms option \<times> CSLSRole \<times> 'ca role_world) option" where
  "handler_read_data env r0 W0 = do {
     (passed, r, W) \<leftarrow> check_http_passed env r0 W0;
     if passed \<noteq> SLS_OK then Some (SLS_OK, None, r, W)
     else if rl_srt r = None then Some (SLS_ERROR, None, r, W)
     else case e_read env of (n, szData, err_no) \<Rightarrow>
       if n \<le> 0 then Some (if n < 0 \<and> err_no = SRT_EASYNCRCV then SLS_OK else SLS_ERROR, None, r, W)
       else if n mod TS_PACK_LEN \<noteq> 0 then do {
         (r1, W1) \<leftarrow> invalid_srt env r W;
         Some (SLS_ERROR, None, r1, W1)
       }
       else let now = e_now env; r1 = r\<lparr> rl_invalid_begin_tm := now, rl_last_recv_data_tm := now \<rparr> in
         case role_limit now n r1 of (result, r2) \<Rightarrow>
           if result = BITRATE_DISCONNECT then do {
             (r3, W3) \<leftarrow> invalid_srt env r2 W;
             Some (SLS_ERROR, None, r3, W3)
           }
           else let r3 = account_bitrate now n (now - rl_stat_bitrate_last_tm r2) r2 in
             if \<not> rl_map_data r3 then Some (SLS_ERROR, None, r3, W)
             else role_store env szData n r3 W
   }"

section \<open>Egress\<close>

definition backpressure_stuck_timeout_ms :: "CSLSRole \<Rightarrow> time_ms" where
  "backpressure_stuck_timeout_ms r = (if rl_latency r * 3 > 500 then rl_latency r * 3 else 500)"

text \<open>How the send loop ends: the whole call returns, or the batch is left.\<close>

datatype send_exit = Returned int | Left_loop

text \<open>The staged bytes from the cursor, checked against the buffer.\<close>

definition staged_chunk :: "CSLSRole \<Rightarrow> buffer option" where
  "staged_chunk r =
     (if 0 \<le> rl_data_pos r \<and> rl_data_pos r + TS_UDP_LEN \<le> int (length (rl_data r))
      then Some (take (nat TS_UDP_LEN) (drop (nat (rl_data_pos r)) (rl_data r))) else None)"

definition role_backpressure :: "time_ms \<Rightarrow> int \<Rightarrow> CSLSRole \<Rightarrow> 'ca role_world \<Rightarrow> int \<times> CSLSRole \<times> 'ca role_world" where
  "role_backpressure now write_size r W =
     (let r1 = r\<lparr> rl_send_backpressure_count := rl_send_backpressure_count r + 1 \<rparr>;
          W1 = (if rl_map_data r1 \<and> rl_map_data_key r1 \<noteq> []
                then W\<lparr> w_data := map_report_viewer_backpressure (Some (rl_map_data_key r1)) (w_data W) \<rparr> else W)
      in if rl_backpressure_stuck_since_ms r1 = 0 then (write_size, r1\<lparr> rl_backpressure_stuck_since_ms := now \<rparr>, W1)
         else if now - rl_backpressure_stuck_since_ms r1 > backpressure_stuck_timeout_ms r1 then (SLS_ERROR, r1, W1)
         else (write_size, r1, W1))"

text \<open>The inner loop. \<open>k\<close> counts the writes of the call.\<close>

function send_loop ::
  "role_env \<Rightarrow> nat \<Rightarrow> int \<Rightarrow> CSLSRole \<Rightarrow> 'ca role_world \<Rightarrow> (send_exit \<times> nat \<times> int \<times> CSLSRole \<times> 'ca role_world) option" where
  "send_loop env k write_size r W =
     (if rl_data_len r - rl_data_pos r < TS_UDP_LEN then Some (Left_loop, k, write_size, r, W)
      else case rl_srt r of
        None \<Rightarrow> Some (Returned SLS_ERROR, k, write_size, r, W)
      | Some s \<Rightarrow>
          (case staged_chunk r of
             None \<Rightarrow> None
           | Some chunk \<Rightarrow>
               (case e_write env k of (ret, err_no) \<Rightarrow>
                  let W1 = role_calls [Send (s_fd s) chunk ret] W in
                  if ret < TS_UDP_LEN then
                    (if ret < 0 then
                       (if err_no = SRT_EASYNCSND
                        then case role_backpressure (e_now env) write_size r W1 of (v, r1, W2) \<Rightarrow>
                          Some (Returned v, Suc k, write_size, r1, W2)
                        else Some (Returned SLS_ERROR, Suc k, write_size, r, W1))
                     else Some (Left_loop, Suc k, write_size, r, W1))
                  else send_loop env (Suc k) (write_size + TS_UDP_LEN)
                         (r\<lparr> rl_data_pos := rl_data_pos r + TS_UDP_LEN, rl_backpressure_stuck_since_ms := 0 \<rparr>) W1)))"
  by pat_completeness auto
termination
  by (relation "measure (\<lambda>(env, k, ws, r, W). nat (rl_data_len r - rl_data_pos r))") (auto simp: TS_UDP_LEN_def)

declare send_loop.simps [simp del]

text \<open>Fetching the next batch; \<^const>\<open>False\<close> ends the call. The difference of the clocks is narrowed to \<^verbatim>\<open>int\<close>.\<close>

definition fetch_batch :: "role_env \<Rightarrow> CSLSRole \<Rightarrow> 'ca role_world \<Rightarrow> (bool \<times> CSLSRole \<times> 'ca role_world) option" where
  "fetch_batch env r W =
     (if \<not> rl_data_len r < TS_UDP_LEN then Some (True, r, W)
      else do {
        (got, dst, rid, D) \<leftarrow> map_get (e_now env) (rl_map_data_key r) (rl_data r) DATA_BUFF_SIZE (Some (rl_map_data_id r)) TS_UDP_LEN (w_data W);
        let r1 = r\<lparr> rl_data := dst, rl_map_data_id := (case rid of None \<Rightarrow> rl_map_data_id r | Some i \<Rightarrow> i) \<rparr>;
        let W1 = W\<lparr> w_data := D \<rparr>;
        if got \<le> 0 then Some (False, r1, W1)
        else let now = e_now env;
                 r2 = r1\<lparr> rl_data_pos := 0, rl_data_len := got, rl_invalid_begin_tm := now \<rparr>
             in Some (True, account_bitrate now got (signed_take_bit 31 (now - rl_stat_bitrate_last_tm r2)) r2, W1)
      })"

text \<open>The outer loop runs at most \<^const>\<open>MAX_EGRESS_BATCHES\<close> times.\<close>

fun batch_loop ::
  "nat \<Rightarrow> role_env \<Rightarrow> nat \<Rightarrow> int \<Rightarrow> CSLSRole \<Rightarrow> 'ca role_world \<Rightarrow> (int \<times> CSLSRole \<times> 'ca role_world) option" where
  "batch_loop 0 env k write_size r W = Some (write_size, r, W)"
| "batch_loop (Suc batches) env k write_size r W =
     (if rl_srt r = None then Some (SLS_ERROR, r, W)
      else case fetch_batch env r W of
        None \<Rightarrow> None
      | Some (go, r1, W1) \<Rightarrow>
          if \<not> go then Some (write_size, r1, W1)
          else case send_loop env k write_size r1 W1 of
            None \<Rightarrow> None
          | Some (Returned v, k2, ws2, r2, W2) \<Rightarrow> Some (v, r2, W2)
          | Some (Left_loop, k2, ws2, r2, W2) \<Rightarrow>
              if rl_data_pos r2 < rl_data_len r2 then Some (ws2, r2, W2)
              else batch_loop batches env k2 ws2 (r2\<lparr> rl_data_pos := 0, rl_data_len := 0 \<rparr>) W2)"

definition handler_write_data :: "role_env \<Rightarrow> CSLSRole \<Rightarrow> 'ca role_world \<Rightarrow> (int \<times> CSLSRole \<times> 'ca role_world) option" where
  "handler_write_data env r0 W0 = do {
     (passed, r, W) \<leftarrow> check_http_passed env r0 W0;
     if passed \<noteq> 0 then Some (SLS_OK, r, W)
     else if rl_srt r = None then Some (SLS_ERROR, r, W)
     else if \<not> rl_map_data r then Some (SLS_ERROR, r, W)
     else if rl_map_data_key r = [] then Some (SLS_ERROR, r, W)
     else batch_loop MAX_EGRESS_BATCHES env 0 0 r W
   }"

text \<open>\<^verbatim>\<open>libsrt_get_statistics\<close> compares with \<^verbatim>\<open>SLS_ERROR\<close>, and \<^verbatim>\<open>get_statistics\<close> drops its result.\<close>

definition libsrt_get_statistics :: "int \<Rightarrow> int" where
  "libsrt_get_statistics result = (if result = SLS_ERROR then SLS_ERROR else SLS_OK)"

definition role_get_statistics :: "role_env \<Rightarrow> CSLSRole \<Rightarrow> int \<times> SRT_TRACEBSTATS" where
  "role_get_statistics env r = (case rl_srt r of None \<Rightarrow> SLS_ERROR | Some s \<Rightarrow> SLS_OK, snd (e_bistats env))"

definition sample_viewer_snd_drops :: "role_env \<Rightarrow> CSLSRole \<Rightarrow> 'ca role_world \<Rightarrow> CSLSRole \<times> 'ca role_world" where
  "sample_viewer_snd_drops env r W =
     (if \<not> rl_map_data r \<or> rl_map_data_key r = [] \<or> rl_srt r = None then (r, W)
      else if e_now env - rl_last_snd_drop_sample_ms r < 1000 then (r, W)
      else let r1 = r\<lparr> rl_last_snd_drop_sample_ms := e_now env \<rparr> in
        case role_get_statistics env r1 of (ret, st) \<Rightarrow>
          if ret \<noteq> SLS_OK then (r1, W)
          else let W1 = (case rl_player_snapshot r1 of None \<Rightarrow> W
                           | Some i \<Rightarrow> W\<lparr> rw_snapshot := (rw_snapshot W)(i := (rw_snapshot W i)\<lparr> snap_rtt_ms := st_msRTT st,
                                 snap_mbps_send_rate := st_mbpsSendRate st, snap_pkt_snd_drop_total := st_pktSndDropTotal st,
                                 snap_pkt_retrans_total := st_pktRetransTotal st \<rparr>) \<rparr>);
                   delta = st_pktSndDropTotal st - rl_snd_drops_reported r1
               in if delta > 0
                  then (r1\<lparr> rl_snd_drops_reported := st_pktSndDropTotal st \<rparr>,
                        W1\<lparr> w_data := map_report_viewer_snd_drops (Some (rl_map_data_key r1)) delta (w_data W1) \<rparr>)
                  else (r1, W1))"

section \<open>Publishers\<close>

text \<open>Single precision division, correctly rounded: 65 quotient bits and a sticky bit.\<close>

definition f32_div :: "f32 \<Rightarrow> f32 \<Rightarrow> f32" where
  "f32_div x y =
     (let n = fst x * 2 ^ 64 in
      f32_round (2 * (n div fst y) + (if n mod fst y = 0 then 0 else 1), snd x - snd y - 65))"

definition init_bitrate_limiter :: "time_ms \<Rightarrow> int \<Rightarrow> int \<Rightarrow> f32 \<Rightarrow> CSLSRole \<Rightarrow> int \<times> CSLSRole" where
  "init_bitrate_limiter now max_kbps violation_timeout spike_tolerance r =
     (let r1 = r\<lparr> rl_bitrate_limiter := None \<rparr> in
      if max_kbps \<le> 0 then (SLS_OK, r1)
      else case limit_init now max_kbps violation_timeout 5000 spike_tolerance limit_new of (ret, B) \<Rightarrow>
        if ret \<noteq> SLS_OK then (ret, r1) else (SLS_OK, r1\<lparr> rl_bitrate_limiter := Some B \<rparr>))"

definition publisher_init :: "time_ms \<Rightarrow> CSLSRole \<Rightarrow> int \<times> CSLSRole" where
  "publisher_init now r0 =
     (case role_init r0 of (ret, r) \<Rightarrow>
        case rl_conf r of
          None \<Rightarrow> (ret, r)
        | Some app \<Rightarrow>
            if var_int ''max_input_bitrate_kbps'' app > 0 then
              let vt = var_int ''max_input_bitrate_violation_timeout'' app;
                  tol = var_int ''max_input_bitrate_spike_tolerance'' app
              in init_bitrate_limiter now (var_int ''max_input_bitrate_kbps'' app) (if vt \<le> 0 then 30 else vt)
                   (if tol > 0 then f32_div (f32_of_int tol) (f32_of_int 100) else f32_div (f32_of_int 12) (f32_of_int 10)) r
            else (ret, r))"

text \<open>The part of the world a relay manager works on.\<close>

definition on_relays :: "('ca relay_world \<Rightarrow> ('a \<times> 'ca relay_world) option) \<Rightarrow> 'ca role_world \<Rightarrow> ('a \<times> 'ca role_world) option" where
  "on_relays f W = map_option (\<lambda>(a, V). (a, relay_world.extend V (relay_world.more W))) (f (relay_world.truncate W))"

definition drop_push_urls :: "CSLSRole \<Rightarrow> CSLSRole" where
  "drop_push_urls r = r\<lparr> rl_push_urls := [], rl_push_vetted_addrs := [] \<rparr>"

definition dynamic_manager :: "CSLSRole \<Rightarrow> pusher_manager" where
  "dynamic_manager r =
     (let key = rl_map_data_key r;
          sri = \<lparr> m_upstreams = rl_push_urls r, m_vetted_addrs = rl_push_vetted_addrs r, m_type = ''push'', m_mode = SLS_PM_ALL,
                  m_reconnect_interval = 10, m_idle_streams_timeout = 10 \<rparr>
      in set_listen_port (rl_listen_port r) (set_role_list True (set_map_publisher True (set_map_data True
           (set_relay_info (takeWhile (\<lambda>c. c \<noteq> CHR ''/'') key) (tl (dropWhile (\<lambda>c. c \<noteq> CHR ''/'') key))
             (set_relay_conf sri (pusher_manager_new\<lparr> m_self := Of_publisher (rl_id r) \<rparr>)))))))"

definition try_spawn_dynamic_pusher :: "role_env \<Rightarrow> CSLSRole \<Rightarrow> 'ca role_world \<Rightarrow> (CSLSRole \<times> 'ca role_world) option" where
  "try_spawn_dynamic_pusher env r W =
     (if \<not> rl_role_list r \<or> \<not> rl_map_data r \<or> \<not> rl_map_publisher r then Some (drop_push_urls r, W)
      else if CHR ''/'' \<notin> set (rl_map_data_key r) \<or> hd (rl_map_data_key r) = CHR ''/'' then Some (drop_push_urls r, W)
      else case on_relays (\<lambda>V. map_option (\<lambda>(ret, M, V1). (M, V1)) (pusher_start (e_relay env) (e_root env) (e_now env) (dynamic_manager r) V)) W of
        None \<Rightarrow> None
      | Some (M, W1) \<Rightarrow> Some (r\<lparr> rl_dynamic_pusher_manager := Some M \<rparr>, W1))"

definition publisher_handler :: "role_env \<Rightarrow> CSLSRole \<Rightarrow> 'ca role_world \<Rightarrow> (int \<times> CSLSRole \<times> 'ca role_world) option" where
  "publisher_handler env r W = do {
     (ret, last_read, r1, W1) \<leftarrow> handler_read_data env r W;
     if rl_dynamic_pusher_manager r1 = None \<and> rl_push_urls r1 \<noteq> [] then do {
       (r2, W2) \<leftarrow> try_spawn_dynamic_pusher env r1 W1;
       Some (ret, r2, W2)
     }
     else Some (ret, r1, W1)
   }"

definition detach_dynamic :: "CSLSRole \<Rightarrow> 'ca role_world \<Rightarrow> (CSLSRole \<times> 'ca role_world) option" where
  "detach_dynamic r W =
     (case rl_dynamic_pusher_manager r of None \<Rightarrow> Some (r, W)
      | Some M \<Rightarrow> map_option (\<lambda>(M1, W1). (r\<lparr> rl_dynamic_pusher_manager := Some M1 \<rparr>, W1)) (on_relays (\<lambda>V. Some (detach_child_relays M V)) W))"

text \<open>The ring goes unless another role owns the stream by now; then the publisher leaves the table.\<close>

definition publisher_leave :: "CSLSRole \<Rightarrow> 'ca role_world \<Rightarrow> 'ca role_world" where
  "publisher_leave r W =
     (let owner = (if rl_map_publisher r then get_publisher (rl_map_data_key r) (w_pub W) else None);
          W1 = (if rl_map_data r \<and> (owner = None \<or> owner = Some (rl_id r))
                then W\<lparr> w_data := snd (map_remove (rl_map_data_key r) (w_data W)) \<rparr> else W)
      in if rl_map_publisher r then W1\<lparr> w_pub := snd (publisher_remove (rl_id r) (w_pub W1)) \<rparr> else W1)"

definition publisher_uninit :: "role_env \<Rightarrow> CSLSRole \<Rightarrow> 'ca role_world \<Rightarrow> (CSLSRole \<times> 'ca role_world) option" where
  "publisher_uninit env r W = do {
     (r1, W1) \<leftarrow> detach_dynamic r W;
     base_uninit env (r1\<lparr> rl_dynamic_pusher_manager := None \<rparr>) (publisher_leave r1 W1)
   }"

section \<open>Players and relays\<close>

definition player_handler :: "role_env \<Rightarrow> CSLSRole \<Rightarrow> 'ca role_world \<Rightarrow> (int \<times> CSLSRole \<times> 'ca role_world) option" where
  "player_handler env r W = (case sample_viewer_snd_drops env r W of (r1, W1) \<Rightarrow> handler_write_data env r1 W1)"

definition pusher_handler :: "role_env \<Rightarrow> CSLSRole \<Rightarrow> 'ca role_world \<Rightarrow> (int \<times> CSLSRole \<times> 'ca role_world) option" where
  "pusher_handler env r W =
     (let state = get_sock_state env r in
      if state = SRTS_CONNECTING then Some (SLS_OK, r, W)
      else if state \<noteq> SRTS_CONNECTED then Some (SLS_ERROR, r, W)
      else handler_write_data env r W)"

definition puller_handler :: "role_env \<Rightarrow> CSLSRole \<Rightarrow> 'ca role_world \<Rightarrow> (int \<times> CSLSRole \<times> 'ca role_world) option" where
  "puller_handler env r W = do {
     (ret, last_read, r1, W1) \<leftarrow> handler_read_data env r W;
     let last_read_time = (case last_read of None \<Rightarrow> e_now env | Some t \<Rightarrow> t);
     if ret \<ge> 0 \<and> rl_idle_streams_timeout r1 \<noteq> -1 \<and> e_now env - last_read_time \<ge> rl_idle_streams_timeout r1 * 1000
     then do {
       (r2, W2) \<leftarrow> mark_invalid env r1 W1;
       Some (SLS_ERROR, r2, W2)
     }
     else Some (ret, r1, W1)
   }"

text \<open>\<^verbatim>\<open>CSLSPuller::uninit\<close> up to the call of \<^verbatim>\<open>CSLSRelay::uninit\<close>.\<close>

definition puller_leave :: "CSLSRole \<Rightarrow> 'ca role_world \<Rightarrow> 'ca role_world" where
  "puller_leave r W =
     (let W1 = (if rl_map_publisher r then W\<lparr> w_pub := snd (publisher_remove (rl_id r) (w_pub W)) \<rparr> else W)
      in if rl_map_data r then W1\<lparr> w_data := snd (map_remove (rl_map_data_key r) (w_data W1)) \<rparr> else W1)"

text \<open>The virtual calls. What \<^verbatim>\<open>CSLSRelay::uninit\<close> tells the relay's manager is in the theory of the workers.\<close>

definition role_handler :: "role_env \<Rightarrow> CSLSRole \<Rightarrow> 'ca role_world \<Rightarrow> (int \<times> CSLSRole \<times> 'ca role_world) option" where
  "role_handler env r W =
     (case rl_kind r of
        Publisher_role \<Rightarrow> publisher_handler env r W
      | Player_role \<Rightarrow> player_handler env r W
      | Pusher_role \<Rightarrow> pusher_handler env r W
      | Puller_role \<Rightarrow> puller_handler env r W)"

definition role_uninit :: "role_env \<Rightarrow> CSLSRole \<Rightarrow> 'ca role_world \<Rightarrow> (CSLSRole \<times> 'ca role_world) option" where
  "role_uninit env r W =
     (case rl_kind r of
        Publisher_role \<Rightarrow> publisher_uninit env r W
      | Player_role \<Rightarrow> base_uninit env r W
      | Pusher_role \<Rightarrow> base_uninit env r W
      | Puller_role \<Rightarrow> base_uninit env r (puller_leave r W))"

definition on_worker_tick :: "role_env \<Rightarrow> CSLSRole \<Rightarrow> 'ca role_world \<Rightarrow> (CSLSRole \<times> 'ca role_world) option" where
  "on_worker_tick env r W =
     (if rl_kind r = Publisher_role \<and> \<not> rl_http_passed r
      then map_option (\<lambda>(ret, r1, W1). (r1, W1)) (check_http_passed env r W) else Some (r, W))"

end
