(* ===== verification/Role_Correct.thy ===== *)
theory Role_Correct
  imports Role
begin

text \<open>What a role keeps: the staging buffer of a viewer hands every byte of the stream on, once and in order; the
  authorisation gate is closed until the webhook answers 200 in time; a role is torn down once.\<close>

section \<open>Streams seen through the table\<close>

text \<open>\<open>stream_ext key d M M'\<close>: the history of the stream \<open>key\<close> grows by \<open>d\<close> and its ring stays the same ring.\<close>

definition stream_ext :: "string \<Rightarrow> buffer \<Rightarrow> CSLSMapData \<Rightarrow> CSLSMapData \<Rightarrow> bool" where
  "stream_ext key d M M' \<longleftrightarrow> map_ok M' \<and>
     (\<forall>R h. map_of (m_map_array M) key = Some R \<and> ring_rep R h \<longrightarrow>
        (\<exists>R'. map_of (m_map_array M') key = Some R' \<and> ring_rep R' (h @ d) \<and> m_nDataSize R' = m_nDataSize R \<and>
              m_nGeneration R' = m_nGeneration R))"

lemma stream_ext_refl: "map_ok M \<Longrightarrow> stream_ext key [] M M"
  by (auto simp: stream_ext_def)

lemma stream_ext_trans: "stream_ext key d M M' \<Longrightarrow> stream_ext key e M' M'' \<Longrightarrow> stream_ext key (d @ e) M M''"
  unfolding stream_ext_def by (metis append_assoc)

lemma stream_ext_report:
  assumes "map_ok M"
  shows "stream_ext key [] M (map_report_viewer_backpressure k M)"
    "stream_ext key [] M (map_report_viewer_snd_drops k n M)"
proof -
  have *: "stream_ext key [] M (snd (map_gauge f k M))" if "gauge_only f" for f
    using map_gauge_ok(1) [OF assms that, of k] that unfolding stream_ext_def
    by (auto simp: map_gauge_def gauge_only_def map_of_update split: option.splits prod.splits) (metis sndI)+
  show "stream_ext key [] M (map_report_viewer_backpressure k M)"
    by (simp add: map_report_viewer_backpressure_def map_report_def *)
  show "stream_ext key [] M (map_report_viewer_snd_drops k n M)"
    by (simp add: map_report_viewer_snd_drops_def map_report_def * stream_ext_refl assms)
qed

lemma stream_ext_get:
  assumes "map_ok M" "map_get now key dst len rid al M = Some (ret, dst', rid', M')"
  shows "stream_ext key [] M M'"
  using map_get_ok(1) [OF assms] assms(2) unfolding stream_ext_def
  by (auto simp: map_get_def map_of_update ring_get_frame split: option.splits bind_splits)

text \<open>A viewer of the stream with history \<open>h\<close> has taken \<open>c\<close> bytes of it from the ring.\<close>

definition viewer_at :: "string \<Rightarrow> CSLSMapData \<Rightarrow> SLSRecycleArrayID \<Rightarrow> nat \<Rightarrow> buffer \<Rightarrow> nat \<Rightarrow> bool" where
  "viewer_at key M rid cap h c \<longleftrightarrow>
     (\<exists>R. map_of (m_map_array M) key = Some R \<and> ring_rep R h \<and> reader_at R rid c \<and> c \<le> length h \<and> nat (m_nDataSize R) = cap)"

lemma viewer_at_ext:
  "viewer_at key M rid cap h c \<Longrightarrow> stream_ext key d M M' \<Longrightarrow> viewer_at key M' rid cap (h @ d) c"
proof -
  assume v: "viewer_at key M rid cap h c" and e: "stream_ext key d M M'"
  obtain R where R: "map_of (m_map_array M) key = Some R" "ring_rep R h" "reader_at R rid c" "c \<le> length h" "nat (m_nDataSize R) = cap"
    using v by (auto simp: viewer_at_def)
  obtain R' where R': "map_of (m_map_array M') key = Some R'" "ring_rep R' (h @ d)" "m_nDataSize R' = m_nDataSize R"
      "m_nGeneration R' = m_nGeneration R"
    using e R(1,2) unfolding stream_ext_def by blast
  show ?thesis unfolding viewer_at_def using R R' by (intro exI [of _ R']) (simp add: reader_at_def)
qed

lemma map_get_outcome:
  assumes "viewer_at key M rid cap h c" "0 \<le> sz" "sz \<le> int (length dst)"
  obtains (lapped) rid' M' where "cap \<le> length h - c" "map_get now key dst sz (Some rid) al M = Some (0, dst, Some rid', M')"
      "viewer_at key M' rid' cap h (length h)"
  | (drained) rid' M' k where "length h - c < cap" "c + k \<le> length h"
      "map_get now key dst sz (Some rid) al M = Some (int k, take k (drop c h) @ drop k dst, Some rid', M')"
      "viewer_at key M' rid' cap h (c + k)" "int k = align_down al (min (int (length h - c)) sz)"
proof -
  obtain R where R: "map_of (m_map_array M) key = Some R" "ring_rep R h" "reader_at R rid c" "c \<le> length h" "nat (m_nDataSize R) = cap"
    using assms(1) by (auto simp: viewer_at_def)
  show thesis
  proof (cases "cap \<le> length h - c")
    case True
    thus thesis using ring_get_overrun [OF R(2-4), of now dst sz al] R lapped
      by (fastforce simp: map_get_def viewer_at_def map_of_update SLS_OK_def reader_at_def)
  next
    case lag: False
    show thesis
    proof (cases "c = length h")
      case True
      have "map_get now key dst sz (Some rid) al M = Some (0, dst, Some rid, M\<lparr> m_map_array := AList.update key R (m_map_array M) \<rparr>)"
        using ring_get_caught_up [OF R(2), of rid now dst sz al] R True by (simp add: map_get_def SLS_OK_def)
      thus thesis using drained [of 0 rid "M\<lparr> m_map_array := AList.update key R (m_map_array M) \<rparr>"] R True lag assms(2)
        by (simp add: viewer_at_def map_of_update align_down_def min_def)
    next
      case False
      define k where "k = nat (align_down al (min (int (length h - c)) sz))"
      have "int k = align_down al (min (int (length h - c)) sz)"
        using align_down_bounds(1) [of "min (int (length h - c)) sz" al] assms(2) by (simp add: k_def)
      moreover obtain rid' R' where "ring_get now dst sz (Some rid) al R = Some (int k, take k (drop c h) @ drop k dst, Some rid', R')"
        "R' = R\<lparr> m_max_reader_backlog := atomic_store_max (m_max_reader_backlog R) (int (length h - c)), m_last_read_time := now \<rparr>"
        "reader_at R rid' (c + k)" "c + k \<le> length h"
        using ring_get_drain [OF R(2,3) _ _ assms(2,3) k_def, of now] False lag R(4,5) by auto
      ultimately show thesis using drained [of k rid' "M\<lparr> m_map_array := AList.update key R' (m_map_array M) \<rparr>"] lag R
        by (simp add: map_get_def viewer_at_def map_of_update)
    qed
  qed
qed

section \<open>The staging buffer\<close>

definition egress_ok :: "CSLSRole \<Rightarrow> bool" where
  "egress_ok r \<longleftrightarrow> length (rl_data r) = nat DATA_BUFF_SIZE \<and> 0 \<le> rl_data_pos r \<and> rl_data_pos r \<le> rl_data_len r \<and>
     rl_data_len r \<le> DATA_BUFF_SIZE \<and> rl_data_pos r mod TS_UDP_LEN = 0 \<and> rl_data_len r mod TS_UDP_LEN = 0"

definition staged :: "CSLSRole \<Rightarrow> buffer" where
  "staged r = take (nat (rl_data_len r - rl_data_pos r)) (drop (nat (rl_data_pos r)) (rl_data r))"

definition delivered :: "role_call list \<Rightarrow> buffer" where
  "delivered cs = concat (map (\<lambda>c. case c of Send fd d ret \<Rightarrow> if ret < TS_UDP_LEN then [] else d | _ \<Rightarrow> []) cs)"

lemma delivered_simps [simp]:
  "delivered [] = []" "delivered (cs @ ds) = delivered cs @ delivered ds"
  "delivered [Send fd d ret] = (if ret < TS_UDP_LEN then [] else d)"
  by (simp_all add: delivered_def)

lemma staged_step:
  assumes "egress_ok r" "TS_UDP_LEN \<le> rl_data_len r - rl_data_pos r"
  obtains chunk where "staged_chunk r = Some chunk" "length chunk = 1316"
    "staged r = chunk @ staged (r\<lparr> rl_data_pos := rl_data_pos r + TS_UDP_LEN, rl_backpressure_stuck_since_ms := t \<rparr>)"
    "egress_ok (r\<lparr> rl_data_pos := rl_data_pos r + TS_UDP_LEN, rl_backpressure_stuck_since_ms := t \<rparr>)"
proof -
  define p n where "p = nat (rl_data_pos r)" and "n = nat (rl_data_len r - rl_data_pos r)"
  have b: "rl_data_pos r = int p" "rl_data_len r = int (p + n)" "1316 \<le> n" "p + n \<le> 21056" "length (rl_data r) = 21056"
    using assms by (auto simp: egress_ok_def p_def n_def TS_UDP_LEN_def DATA_BUFF_SIZE_def)
  have split: "take n (drop p d) = take 1316 (drop p d) @ take (n - 1316) (drop (p + 1316) d)" for d :: buffer
    using b(3) take_add [of 1316 "n - 1316" "drop p d"] by (simp add: add.commute)
  have "staged_chunk r = Some (take 1316 (drop p (rl_data r)))"
    using b by (simp add: staged_chunk_def TS_UDP_LEN_def)
  moreover have "staged r = take 1316 (drop p (rl_data r)) @
      staged (r\<lparr> rl_data_pos := rl_data_pos r + TS_UDP_LEN, rl_backpressure_stuck_since_ms := t \<rparr>)"
    using b split [of "rl_data r"] by (simp add: staged_def TS_UDP_LEN_def nat_diff_distrib nat_add_distrib)
  moreover have "egress_ok (r\<lparr> rl_data_pos := rl_data_pos r + TS_UDP_LEN, rl_backpressure_stuck_since_ms := t \<rparr>)"
    using assms by (auto simp: egress_ok_def TS_UDP_LEN_def)
  ultimately show thesis using b by (intro that [of "take 1316 (drop p (rl_data r))"]) auto
qed

text \<open>What a stretch of egress leaves alone.\<close>

definition egress_frame :: "CSLSRole \<Rightarrow> 'ca role_world \<Rightarrow> CSLSRole \<Rightarrow> 'ca role_world \<Rightarrow> role_call list \<Rightarrow> bool" where
  "egress_frame r W r' W' cs \<longleftrightarrow> rw_trace W' = rw_trace W @ cs \<and> stream_ext (rl_map_data_key r) [] (w_data W) (w_data W') \<and>
     rl_srt r' = rl_srt r \<and> rl_map_data r' = rl_map_data r \<and> rl_map_data_key r' = rl_map_data_key r \<and>
     rl_http_passed r' = rl_http_passed r \<and> rl_kind r' = rl_kind r"

lemma egress_frame_trans:
  "egress_frame r W r1 W1 cs \<Longrightarrow> egress_frame r1 W1 r2 W2 ds \<Longrightarrow> egress_frame r W r2 W2 (cs @ ds)"
  using stream_ext_trans [of _ "[]" _ _ "[]"] by (auto simp: egress_frame_def)

lemma egress_frame_ok: "egress_frame r W r' W' cs \<Longrightarrow> map_ok (w_data W')"
  by (simp add: egress_frame_def stream_ext_def)

lemma role_backpressure_frame:
  assumes "map_ok (w_data W)" "role_backpressure now ws r W = (v, r', W')"
  shows "egress_frame r W r' W' []" "egress_ok r \<Longrightarrow> egress_ok r'" "staged r' = staged r" "v = ws \<or> v = SLS_ERROR"
    "rl_map_data_id r' = rl_map_data_id r"
  using assms stream_ext_report(1) [OF assms(1)] stream_ext_refl [OF assms(1)]
  by (auto simp: role_backpressure_def egress_frame_def egress_ok_def staged_def Let_def split: if_splits)

lemma send_loop_delivers:
  assumes "egress_ok r" "map_ok (w_data W)" "rl_srt r \<noteq> None"
  shows "\<exists>ex k' ws' r' W' cs. send_loop env k ws r W = Some (ex, k', ws', r', W') \<and> egress_frame r W r' W' cs \<and>
    egress_ok r' \<and> delivered cs @ staged r' = staged r \<and> ws' = ws + int (length (delivered cs)) \<and>
    rl_map_data_id r' = rl_map_data_id r \<and> (case ex of Left_loop \<Rightarrow> True | Returned v \<Rightarrow> v = ws' \<or> v = SLS_ERROR)"
  using assms
proof (induction env k ws r W rule: send_loop.induct)
  case (1 env k ws r W)
  have idle: "egress_frame r W r W []" using 1(3) stream_ext_refl by (auto simp: egress_frame_def)
  obtain s where s: "rl_srt r = Some s" using 1(4) by auto
  show ?case
  proof (cases "rl_data_len r - rl_data_pos r < TS_UDP_LEN")
    case True
    thus ?thesis using 1(2) idle by (subst send_loop.simps) (force simp: delivered_def)
  next
    case False
    let ?r = "r\<lparr> rl_data_pos := rl_data_pos r + TS_UDP_LEN, rl_backpressure_stuck_since_ms := 0 \<rparr>"
    obtain chunk where c: "staged_chunk r = Some chunk" "length chunk = 1316" "staged r = chunk @ staged ?r" "egress_ok ?r"
      using staged_step [OF 1(2), of 0] False by auto
    obtain ret err where w: "e_write env k = (ret, err)" by fastforce
    let ?W = "role_calls [Send (s_fd s) chunk ret] W"
    have W: "map_ok (w_data ?W)" using 1(3) by (simp add: role_calls_def)
    have sent: "egress_frame r W r ?W [Send (s_fd s) chunk ret]" "egress_frame r W ?r ?W [Send (s_fd s) chunk ret]"
      using idle by (auto simp: egress_frame_def role_calls_def)
    show ?thesis
    proof (cases "ret < TS_UDP_LEN")
      case short: True
      show ?thesis
      proof (cases "ret < 0 \<and> err = SRT_EASYNCSND")
        case True
        obtain v r1 W1 where b: "role_backpressure (e_now env) ws r ?W = (v, r1, W1)" by (cases "role_backpressure (e_now env) ws r ?W") auto
        note f = role_backpressure_frame [OF W b]
        have "send_loop env k ws r W = Some (Returned v, Suc k, ws, r1, W1)"
          using True short False s c(1) w b by (subst send_loop.simps) (simp add: Let_def)
        moreover have "egress_frame r W r1 W1 [Send (s_fd s) chunk ret]" using egress_frame_trans [OF sent(1) f(1)] by simp
        ultimately show ?thesis using f(2-5) 1(2) short
          by (intro exI [of _ "Returned v"] exI [of _ "Suc k"] exI [of _ ws] exI [of _ r1] exI [of _ W1]
              exI [of _ "[Send (s_fd s) chunk ret]"]) simp
      next
        case False': False
        have "send_loop env k ws r W = Some (if ret < 0 then Returned SLS_ERROR else Left_loop, Suc k, ws, r, ?W)"
          using False' short False s c(1) w by (subst send_loop.simps) (simp add: Let_def)
        moreover define ex where "ex = (if ret < 0 then Returned SLS_ERROR else Left_loop)"
        ultimately have ex: "send_loop env k ws r W = Some (ex, Suc k, ws, r, ?W)" "ex = Left_loop \<or> ex = Returned SLS_ERROR"
          by auto
        show ?thesis using sent(1) 1(2) short ex(2) unfolding ex(1)
          by (intro exI [of _ ex] exI [of _ "Suc k"] exI [of _ ws] exI [of _ r] exI [of _ ?W]
              exI [of _ "[Send (s_fd s) chunk ret]"]) auto
      qed
    next
      case full: False
      have e: "send_loop env k ws r W = send_loop env (Suc k) (ws + TS_UDP_LEN) ?r ?W"
        using full False s c(1) w by (subst send_loop.simps) (simp add: Let_def)
      obtain ex k' ws' r' W' cs where ih: "send_loop env (Suc k) (ws + TS_UDP_LEN) ?r ?W = Some (ex, k', ws', r', W')"
          "egress_frame ?r ?W r' W' cs" "egress_ok r'" "delivered cs @ staged r' = staged ?r"
          "ws' = ws + TS_UDP_LEN + int (length (delivered cs))" "rl_map_data_id r' = rl_map_data_id ?r"
          "case ex of Left_loop \<Rightarrow> True | Returned v \<Rightarrow> v = ws' \<or> v = SLS_ERROR"
        using "1.IH" [OF False s c(1) w [symmetric] refl full c(4) W] s by auto
      have "egress_frame r W r' W' (Send (s_fd s) chunk ret # cs)" using egress_frame_trans [OF sent(2) ih(2)] by simp
      moreover have "delivered (Send (s_fd s) chunk ret # cs) = chunk @ delivered cs" using full by (simp add: delivered_def)
      ultimately show ?thesis using ih c(2,3) e
        by (intro exI [of _ ex] exI [of _ k'] exI [of _ ws'] exI [of _ r'] exI [of _ W'] exI [of _ "Send (s_fd s) chunk ret # cs"])
          (simp add: TS_UDP_LEN_def)
    qed
  qed
qed

lemma fetch_batch_takes:
  assumes ok: "egress_ok r" "map_ok (w_data W)" and v: "viewer_at (rl_map_data_key r) (w_data W) (rl_map_data_id r) cap h c"
  shows "\<exists>go r' W' c'. fetch_batch env r W = Some (go, r', W') \<and> egress_frame r W r' W' [] \<and> egress_ok r' \<and>
    viewer_at (rl_map_data_key r) (w_data W') (rl_map_data_id r') cap h c' \<and> c \<le> c' \<and>
    (if length h - c < cap then staged r' = staged r @ take (c' - c) (drop c h)
     else staged r' = staged r \<and> (c' = c \<or> c' = length h \<and> staged r' = [])) \<and>
    (if rl_data_len r < TS_UDP_LEN then go \<longleftrightarrow> rl_data_len r' > 0 else go \<and> c' = c)"
proof (cases "rl_data_len r < TS_UDP_LEN")
  case False
  thus ?thesis using assms stream_ext_refl [OF ok(2)]
    by (intro exI [of _ True] exI [of _ r] exI [of _ W] exI [of _ c]) (simp add: fetch_batch_def egress_frame_def)
next
  case True
  have z: "rl_data_len r = 0" "rl_data_pos r = 0" "length (rl_data r) = 21056"
    using True ok(1) by (auto simp: egress_ok_def TS_UDP_LEN_def DATA_BUFF_SIZE_def mod_pos_pos_trivial)
  hence st: "staged r = []" by (simp add: staged_def)
  have dst: "0 \<le> DATA_BUFF_SIZE" "DATA_BUFF_SIZE \<le> int (length (rl_data r))" using z by (auto simp: DATA_BUFF_SIZE_def)
  note ext = stream_ext_get [OF ok(2)]
  show ?thesis using v dst
  proof (cases rule: map_get_outcome [where now = "e_now env" and al = TS_UDP_LEN])
    case (lapped rid' M')
    have "fetch_batch env r W = Some (False, r\<lparr> rl_map_data_id := rid' \<rparr>, W\<lparr> w_data := M' \<rparr>)"
      using True lapped(2) by (simp add: fetch_batch_def)
    thus ?thesis using lapped ext [OF lapped(2)] ok(1) st z v
      by (intro exI [of _ False] exI [of _ "r\<lparr> rl_map_data_id := rid' \<rparr>"] exI [of _ "W\<lparr> w_data := M' \<rparr>"] exI [of _ "length h"])
        (auto simp: egress_frame_def egress_ok_def staged_def viewer_at_def TS_UDP_LEN_def)
  next
    case (drained rid' M' k)
    let ?d = "take k (drop c h) @ drop k (rl_data r)"
    let ?r1 = "r\<lparr> rl_data := ?d, rl_map_data_id := rid' \<rparr>"
    have k: "k \<le> 21056" "int k mod TS_UDP_LEN = 0" "length (take k (drop c h)) = k"
      using drained(2,5) align_down_bounds(2) [of "min (int (length h - c)) DATA_BUFF_SIZE" TS_UDP_LEN]
      by (auto simp: DATA_BUFF_SIZE_def align_down_def TS_UDP_LEN_def min_def split: if_splits)
    show ?thesis
    proof (cases "k = 0")
      case True
      thus ?thesis using drained ext [OF drained(3)] ok(1) st z \<open>rl_data_len r < TS_UDP_LEN\<close>
        by (intro exI [of _ False] exI [of _ "?r1"] exI [of _ "W\<lparr> w_data := M' \<rparr>"] exI [of _ c])
          (auto simp: fetch_batch_def egress_frame_def egress_ok_def staged_def)
    next
      case False
      let ?r2 = "account_bitrate (e_now env) (int k) (signed_take_bit 31 (e_now env - rl_stat_bitrate_last_tm r))
        (?r1\<lparr> rl_data_pos := 0, rl_data_len := int k, rl_invalid_begin_tm := e_now env \<rparr>)"
      have "fetch_batch env r W = Some (True, ?r2, W\<lparr> w_data := M' \<rparr>)"
        using \<open>rl_data_len r < TS_UDP_LEN\<close> drained(3) False by (simp add: fetch_batch_def Let_def)
      moreover have "egress_ok ?r2" "staged ?r2 = take k (drop c h)"
        using k z by (auto simp: egress_ok_def staged_def account_bitrate_def Let_def DATA_BUFF_SIZE_def)
      ultimately show ?thesis using drained ext [OF drained(3)] st k False \<open>rl_data_len r < TS_UDP_LEN\<close>
        by (intro exI [of _ True] exI [of _ "?r2"] exI [of _ "W\<lparr> w_data := M' \<rparr>"] exI [of _ "c + k"])
          (auto simp: egress_frame_def account_bitrate_def Let_def)
    qed
  qed
qed

text \<open>One call: what is sent and what stays staged is what was staged and then the next bytes of the stream. A viewer
  that fell a whole ring behind keeps what is staged and goes on at the head.\<close>

lemma batch_loop_delivers:
  assumes "egress_ok r" "map_ok (w_data W)" "rl_srt r \<noteq> None"
    "viewer_at (rl_map_data_key r) (w_data W) (rl_map_data_id r) cap h c"
  shows "\<exists>ret r' W' cs c'. batch_loop n env k ws r W = Some (ret, r', W') \<and> egress_frame r W r' W' cs \<and> egress_ok r' \<and>
    viewer_at (rl_map_data_key r) (w_data W') (rl_map_data_id r') cap h c' \<and> c \<le> c' \<and>
    (if length h - c < cap then delivered cs @ staged r' = staged r @ take (c' - c) (drop c h)
     else delivered cs @ staged r' = staged r \<and> (c' = c \<or> c' = length h \<and> staged r' = [])) \<and>
    (ret = ws + int (length (delivered cs)) \<or> ret = SLS_ERROR)"
  using assms
proof (induction n arbitrary: k ws r W c)
  case 0
  thus ?case using stream_ext_refl
    by (intro exI [of _ ws] exI [of _ r] exI [of _ W] exI [of _ "[]"] exI [of _ c]) (auto simp: egress_frame_def)
next
  case (Suc n)
  obtain go r1 W1 c1 where f: "fetch_batch env r W = Some (go, r1, W1)" "egress_frame r W r1 W1 []" "egress_ok r1"
      "viewer_at (rl_map_data_key r) (w_data W1) (rl_map_data_id r1) cap h c1" "c \<le> c1"
      "if length h - c < cap then staged r1 = staged r @ take (c1 - c) (drop c h)
       else staged r1 = staged r \<and> (c1 = c \<or> c1 = length h \<and> staged r1 = [])"
    using fetch_batch_takes [OF Suc.prems(1,2,4)] by blast
  show ?case
  proof (cases go)
    case False
    thus ?thesis using f Suc.prems(3)
      by (intro exI [of _ ws] exI [of _ r1] exI [of _ W1] exI [of _ "[]"] exI [of _ c1]) (auto split: if_splits)
  next
    case True
    have srt: "rl_srt r1 \<noteq> None" "rl_map_data_key r1 = rl_map_data_key r" using f(2) Suc.prems(3) by (auto simp: egress_frame_def)
    obtain ex k2 ws2 r2 W2 cs where s: "send_loop env k ws r1 W1 = Some (ex, k2, ws2, r2, W2)" "egress_frame r1 W1 r2 W2 cs"
        "egress_ok r2" "delivered cs @ staged r2 = staged r1" "ws2 = ws + int (length (delivered cs))"
        "rl_map_data_id r2 = rl_map_data_id r1" "case ex of Left_loop \<Rightarrow> True | Returned v \<Rightarrow> v = ws2 \<or> v = SLS_ERROR"
      using send_loop_delivers [OF f(3) egress_frame_ok [OF f(2)] srt(1)] by blast
    have fr: "egress_frame r W r2 W2 cs" using egress_frame_trans [OF f(2) s(2)] by simp
    have v2: "viewer_at (rl_map_data_key r) (w_data W2) (rl_map_data_id r2) cap h c1"
      using viewer_at_ext [OF f(4), of "[]"] s(2,6) srt(2) by (simp add: egress_frame_def)
    show ?thesis
    proof (cases "ex = Left_loop \<and> \<not> rl_data_pos r2 < rl_data_len r2")
      case False
      have "\<exists>ret. batch_loop (Suc n) env k ws r W = Some (ret, r2, W2) \<and> (ret = ws2 \<or> ret = SLS_ERROR)"
        using False f(1) s(1,7) True Suc.prems(3) by (auto split: send_exit.splits)
      then obtain ret where "batch_loop (Suc n) env k ws r W = Some (ret, r2, W2)" "ret = ws2 \<or> ret = SLS_ERROR" by blast
      thus ?thesis using fr s(3-5) v2 f(5,6)
        by (intro exI [of _ ret] exI [of _ r2] exI [of _ W2] exI [of _ cs] exI [of _ c1])
          (auto simp del: batch_loop.simps split: if_splits)
    next
      case fin: True
      let ?r = "r2\<lparr> rl_data_pos := 0, rl_data_len := 0 \<rparr>"
      have e: "batch_loop (Suc n) env k ws r W = batch_loop n env k2 ws2 ?r W2"
        using fin f(1) s(1) True Suc.prems(3) by auto
      have st: "staged r2 = []" "staged ?r = []" using fin s(3) by (auto simp: staged_def egress_ok_def)
      have ok: "egress_ok ?r" using s(3) by (simp add: egress_ok_def DATA_BUFF_SIZE_def)
      have fr': "egress_frame r W ?r W2 cs" using fr by (simp add: egress_frame_def)
      have v3: "viewer_at (rl_map_data_key ?r) (w_data W2) (rl_map_data_id ?r) cap h c1" and srt2: "rl_srt ?r \<noteq> None"
        using v2 fr Suc.prems(3) by (auto simp: egress_frame_def)
      obtain ret r' W' ds c' where ih: "batch_loop n env k2 ws2 ?r W2 = Some (ret, r', W')" "egress_frame ?r W2 r' W' ds"
          "egress_ok r'" "viewer_at (rl_map_data_key ?r) (w_data W') (rl_map_data_id r') cap h c'" "c1 \<le> c'"
          "if length h - c1 < cap then delivered ds @ staged r' = staged ?r @ take (c' - c1) (drop c1 h)
           else delivered ds @ staged r' = staged ?r \<and> (c' = c1 \<or> c' = length h \<and> staged r' = [])"
          "ret = ws2 + int (length (delivered ds)) \<or> ret = SLS_ERROR"
        using Suc.IH [OF ok egress_frame_ok [OF fr'] srt2 v3] by blast
      have join: "take (c1 - c) (drop c h) @ take (c' - c1) (drop c1 h) = take (c' - c) (drop c h)"
        using take_add [of "c1 - c" "c' - c1" "drop c h"] f(5) ih(5) by simp
      have "if length h - c < cap then delivered (cs @ ds) @ staged r' = staged r @ take (c' - c) (drop c h)
            else delivered (cs @ ds) @ staged r' = staged r \<and> (c' = c \<or> c' = length h \<and> staged r' = [])"
        using f(5,6) ih(4-6) s(4) st join v2 by (auto simp: viewer_at_def split: if_splits)
      thus ?thesis unfolding e using ih(1,3-5,7) egress_frame_trans [OF fr' ih(2)] fr f(5) s(5)
        by (intro exI [of _ ret] exI [of _ r'] exI [of _ W'] exI [of _ "cs @ ds"] exI [of _ c']) (auto simp: egress_frame_def)
    qed
  qed
qed

lemma sample_drops_frame:
  assumes "map_ok (w_data W)" "sample_viewer_snd_drops env r W = (r', W')"
  shows "egress_frame r W r' W' []" "egress_ok r' = egress_ok r" "staged r' = staged r" "rl_map_data_id r' = rl_map_data_id r"
  using assms(2) stream_ext_refl [OF assms(1)] stream_ext_report(2) [OF assms(1)]
  by (auto simp: sample_viewer_snd_drops_def role_get_statistics_def Let_def egress_frame_def egress_ok_def staged_def
      split: if_splits option.splits)

lemma player_handler_serves:
  assumes ok: "egress_ok r" "map_ok (w_data W)" and set: "rl_http_passed r" "rl_map_data r" "rl_map_data_key r \<noteq> []"
    and v: "viewer_at (rl_map_data_key r) (w_data W) (rl_map_data_id r) cap h c"
  shows "\<exists>ret r' W' cs c'. player_handler env r W = Some (ret, r', W') \<and> egress_frame r W r' W' cs \<and> egress_ok r' \<and>
    viewer_at (rl_map_data_key r) (w_data W') (rl_map_data_id r') cap h c' \<and> c \<le> c' \<and>
    (if length h - c < cap then delivered cs @ staged r' = staged r @ take (c' - c) (drop c h)
     else delivered cs @ staged r' = staged r \<and> (c' = c \<or> c' = length h \<and> staged r' = [])) \<and>
    (ret = int (length (delivered cs)) \<or> ret = SLS_ERROR)"
proof -
  obtain r1 W1 where s: "sample_viewer_snd_drops env r W = (r1, W1)" by fastforce
  note f = sample_drops_frame [OF ok(2) s]
  have r1: "rl_http_passed r1" "rl_map_data r1" "rl_map_data_key r1 = rl_map_data_key r" "rl_srt r1 = rl_srt r"
    "egress_ok r1" using f(1,2) set ok(1) by (auto simp: egress_frame_def)
  have v1: "viewer_at (rl_map_data_key r1) (w_data W1) (rl_map_data_id r1) cap h c"
    using viewer_at_ext [OF v, of "[]"] f(1,4) by (simp add: egress_frame_def)
  have gate: "check_http_passed env r1 W1 = Some (SLS_OK, r1, W1)" using r1(1) by (simp add: check_http_passed_def)
  show ?thesis
  proof (cases "rl_srt r1 = None")
    case True
    hence "player_handler env r W = Some (SLS_ERROR, r1, W1)"
      using s gate by (simp add: player_handler_def handler_write_data_def SLS_OK_def)
    thus ?thesis using f v1 r1(3,5)
      by (intro exI [of _ SLS_ERROR] exI [of _ r1] exI [of _ W1] exI [of _ "[]"] exI [of _ c]) simp
  next
    case False
    hence e: "player_handler env r W = batch_loop MAX_EGRESS_BATCHES env 0 0 r1 W1"
      using s gate r1 set by (auto simp: player_handler_def handler_write_data_def SLS_OK_def)
    obtain ret r' W' cs c' where b: "batch_loop MAX_EGRESS_BATCHES env 0 0 r1 W1 = Some (ret, r', W')" "egress_frame r1 W1 r' W' cs"
        "egress_ok r'" "viewer_at (rl_map_data_key r1) (w_data W') (rl_map_data_id r') cap h c'" "c \<le> c'"
        "if length h - c < cap then delivered cs @ staged r' = staged r1 @ take (c' - c) (drop c h)
         else delivered cs @ staged r' = staged r1 \<and> (c' = c \<or> c' = length h \<and> staged r' = [])"
        "ret = 0 + int (length (delivered cs)) \<or> ret = SLS_ERROR"
      using batch_loop_delivers [OF r1(5) egress_frame_ok [OF f(1)] False v1] by blast
    have "egress_frame r W r' W' cs" using egress_frame_trans [OF f(1) b(2)] by simp
    thus ?thesis unfolding e using b(1,3-7) f(3) r1(3)
      by (intro exI [of _ ret] exI [of _ r'] exI [of _ W'] exI [of _ cs] exI [of _ c']) simp
  qed
qed

section \<open>Ingest\<close>

text \<open>Teardown and the gate leave the tables and the binding of the role alone, and send no media.\<close>

definition quiet :: "CSLSRole \<Rightarrow> 'ca role_world \<Rightarrow> CSLSRole \<Rightarrow> 'ca role_world \<Rightarrow> bool" where
  "quiet r W r' W' \<longleftrightarrow>
     w_data W' = w_data W \<and> w_pub W' = w_pub W \<and> w_roles W' = w_roles W \<and> w_relays W' = w_relays W \<and> w_calls W' = w_calls W \<and>
     (\<exists>cs. rw_trace W' = rw_trace W @ cs \<and> delivered cs = []) \<and>
     rl_id r' = rl_id r \<and> rl_kind r' = rl_kind r \<and> rl_conf r' = rl_conf r \<and> rl_map_data r' = rl_map_data r \<and>
     rl_map_data_key r' = rl_map_data_key r \<and> rl_ring_added r' = rl_ring_added r \<and> rl_map_publisher r' = rl_map_publisher r \<and>
     rl_latency r' = rl_latency r \<and> rl_kick_requested r' = rl_kick_requested r"

lemma quiet_refl: "quiet r W r W"
  by (auto simp: quiet_def intro: exI [of _ "[]"])

lemma quiet_trans: "quiet r W r1 W1 \<Longrightarrow> quiet r1 W1 r2 W2 \<Longrightarrow> quiet r W r2 W2"
proof -
  assume q: "quiet r W r1 W1" "quiet r1 W1 r2 W2"
  then obtain cs ds where "rw_trace W1 = rw_trace W @ cs" "delivered cs = []" "rw_trace W2 = rw_trace W1 @ ds" "delivered ds = []"
    by (auto simp: quiet_def)
  hence "rw_trace W2 = rw_trace W @ (cs @ ds) \<and> delivered (cs @ ds) = []" by simp
  thus ?thesis using q unfolding quiet_def by metis
qed

lemma on_close_quiet: "on_close env r W = Some (ret, r', W') \<Longrightarrow> quiet r W r' W' \<and> rl_srt r' = rl_srt r \<and> rl_state r' = rl_state r \<and>
    rl_http_passed r' = rl_http_passed r"
  by (auto simp: on_close_def quiet_def get_streamid_def learn_peer_def post_async_def delivered_def
      split: if_splits option.splits prod.splits)

lemma invalid_srt_quiet:
  assumes "invalid_srt env r W = Some (r', W')"
  shows "quiet r W r' W'" "rl_srt r' = None" "rl_state r' = rl_state r" "rl_http_passed r' = rl_http_passed r"
proof -
  have "quiet r W r' W' \<and> rl_srt r' = None \<and> rl_state r' = rl_state r \<and> rl_http_passed r' = rl_http_passed r"
  proof (cases "rl_srt r")
    case None
    thus ?thesis using assms quiet_refl by (auto simp: invalid_srt_def)
  next
    case (Some s)
    let ?W = "close_snapshot r (role_calls (libsrt_remove_from_epoll s @ libsrt_close s) W)"
    obtain ret where c: "on_close env (r\<lparr> rl_srt := None \<rparr>) ?W = Some (ret, r', W')"
      using assms Some by (auto simp: invalid_srt_def Let_def split: option.splits)
    have "quiet r W (r\<lparr> rl_srt := None \<rparr>) ?W"
      by (auto simp: quiet_def close_snapshot_def role_calls_def libsrt_remove_from_epoll_def libsrt_close_def delivered_def split: option.splits)
    thus ?thesis using on_close_quiet [OF c] quiet_trans by fastforce
  qed
  thus "quiet r W r' W'" "rl_srt r' = None" "rl_state r' = rl_state r" "rl_http_passed r' = rl_http_passed r" by auto
qed

lemma mark_invalid_quiet:
  assumes "mark_invalid env r W = Some (r', W')"
  shows "quiet r W r' W'" "rl_srt r' = None" "rl_state r' = SLS_RS_INVALID" "rl_http_passed r' = rl_http_passed r"
proof -
  have "quiet r W (r\<lparr> rl_state := SLS_RS_INVALID \<rparr>) W" by (auto simp: quiet_def intro: exI [of _ "[]"])
  thus "quiet r W r' W'" "rl_srt r' = None" "rl_state r' = SLS_RS_INVALID" "rl_http_passed r' = rl_http_passed r"
    using invalid_srt_quiet [OF assms [unfolded mark_invalid_def]] quiet_trans by auto
qed

text \<open>The record fields \<^const>\<open>quiet\<close> speaks of can be changed around it.\<close>

lemma quiet_other:
  "quiet r W (r\<lparr> rl_http_future := a \<rparr>) W" "quiet r W (r\<lparr> rl_http_auth_deadline_ms := b \<rparr>) W"
  "quiet r W (r\<lparr> rl_http_future := a, rl_http_auth_deadline_ms := b \<rparr>) W"
  by (auto simp: quiet_def intro: exI [of _ "[]"])

lemma harvest_quiet: "quiet r W (harvest_push_urls env body r) W" "rl_http_passed (harvest_push_urls env body r) = rl_http_passed r"
  "rl_srt (harvest_push_urls env body r) = rl_srt r" "rl_state (harvest_push_urls env body r) = rl_state r"
  by (auto simp: quiet_def harvest_push_urls_def Let_def delivered_def split: option.splits json.splits)

lemma cache_refusal_quiet:
  "cache_refusal env resp r W = Some (r', W') \<Longrightarrow> quiet r W r' W' \<and> rl_srt r' = rl_srt r \<and> rl_state r' = rl_state r \<and>
    rl_http_passed r' = rl_http_passed r"
  by (auto simp: cache_refusal_def quiet_def get_streamid_def delivered_def split: if_splits option.splits)

text \<open>The outcomes of the gate.\<close>

definition gate_expired :: "role_env \<Rightarrow> CSLSRole \<Rightarrow> bool" where
  "gate_expired env r \<longleftrightarrow> rl_http_auth_deadline_ms r > 0 \<and> e_now env \<ge> rl_http_auth_deadline_ms r"

definition accepted :: "AsyncHttpResponse \<Rightarrow> bool" where
  "accepted resp \<longleftrightarrow> resp_success resp \<and> resp_status_code resp = 200"

lemma gate_cases:
  assumes "check_http_passed env r W = Some (ret, r', W')"
  obtains (passed) "rl_http_passed r" "ret = SLS_OK" "r' = r" "W' = W"
  | (expired) r1 where "\<not> rl_http_passed r" "gate_expired env r \<or> rl_http_future r = None" "ret = SLS_ERROR" "quiet r W r1 W"
      "rl_http_passed r1 = rl_http_passed r" "rl_srt r1 = rl_srt r" "rl_http_future r1 = None" "mark_invalid env r1 W = Some (r', W')"
      "rl_push_urls r1 = rl_push_urls r"
  | (waiting) i where "\<not> rl_http_passed r" "\<not> gate_expired env r" "rl_http_future r = Some i" "e_http env i = None"
      "ret = SLS_ERROR" "r' = r" "W' = W"
  | (refused) i resp r2 W2 where "\<not> rl_http_passed r" "\<not> gate_expired env r" "rl_http_future r = Some i" "e_http env i = Some resp"
      "\<not> accepted resp" "ret = SLS_ERROR" "invalid_srt env r2 W2 = Some (r', W')"
      "cache_refusal env resp (r\<lparr> rl_http_future := None, rl_http_auth_deadline_ms := 0 \<rparr>) W = Some (r2, W2)"
  | (granted) i resp where "\<not> rl_http_passed r" "\<not> gate_expired env r" "rl_http_future r = Some i" "e_http env i = Some resp"
      "accepted resp" "ret = SLS_OK" "W' = W" "r' = harvest_push_urls env (resp_body resp) (r\<lparr> rl_http_future := None,
         rl_http_auth_deadline_ms := 0, rl_invalid_begin_tm := e_now env, rl_http_passed := True \<rparr>)"
proof (cases "rl_http_passed r")
  case True
  hence "ret = SLS_OK \<and> r' = r \<and> W' = W" using assms by (simp add: check_http_passed_def)
  thus thesis using True by (intro passed) simp_all
next
  case closed: False
  show thesis
  proof (cases "gate_expired env r")
    case True
    hence "check_http_passed env r W = map_option (\<lambda>(r1, W1). (SLS_ERROR, r1, W1))
        (mark_invalid env (r\<lparr> rl_http_future := None, rl_http_auth_deadline_ms := 0 \<rparr>) W)"
      using closed by (simp add: check_http_passed_def gate_expired_def)
    hence "mark_invalid env (r\<lparr> rl_http_future := None, rl_http_auth_deadline_ms := 0 \<rparr>) W = Some (r', W') \<and> ret = SLS_ERROR"
      unfolding assms by (cases "mark_invalid env (r\<lparr> rl_http_future := None, rl_http_auth_deadline_ms := 0 \<rparr>) W") auto
    thus thesis using True closed quiet_other(3)
      by (intro expired [of "r\<lparr> rl_http_future := None, rl_http_auth_deadline_ms := 0 \<rparr>"]) simp_all
  next
    case nexp: False
    have e: "check_http_passed env r W = (case rl_http_future r of
        None \<Rightarrow> map_option (\<lambda>(r1, W1). (SLS_ERROR, r1, W1)) (mark_invalid env (r\<lparr> rl_http_auth_deadline_ms := 0 \<rparr>) W)
      | Some i \<Rightarrow>
          (case e_http env i of
             None \<Rightarrow> Some (SLS_ERROR, r, W)
           | Some response \<Rightarrow>
               let r1 = r\<lparr> rl_http_future := None, rl_http_auth_deadline_ms := 0 \<rparr> in
               if \<not> accepted response then do {
                 (r2, W2) \<leftarrow> cache_refusal env response r1 W;
                 (r3, W3) \<leftarrow> invalid_srt env r2 W2;
                 Some (SLS_ERROR, r3, W3)
               }
               else Some (SLS_OK, harvest_push_urls env (resp_body response)
                 (r1\<lparr> rl_invalid_begin_tm := e_now env, rl_http_passed := True \<rparr>), W)))"
      unfolding check_http_passed_def if_not_P [OF closed] if_not_P [OF nexp [unfolded gate_expired_def]] accepted_def de_Morgan_conj ..
    show thesis
    proof (cases "rl_http_future r")
      case None
      hence "mark_invalid env (r\<lparr> rl_http_auth_deadline_ms := 0 \<rparr>) W = Some (r', W') \<and> ret = SLS_ERROR" using assms e by auto
      thus thesis using None closed quiet_other(2) by (intro expired [of "r\<lparr> rl_http_auth_deadline_ms := 0 \<rparr>"]) simp_all
    next
      case (Some i)
      show thesis
      proof (cases "e_http env i")
        case None
        hence "ret = SLS_ERROR \<and> r' = r \<and> W' = W" using assms e Some by simp
        thus thesis using Some None closed nexp by (intro waiting [of i]) simp_all
      next
        case (Some resp)
        show thesis
        proof (cases "accepted resp")
          case True
          hence "ret = SLS_OK \<and> W' = W \<and> r' = harvest_push_urls env (resp_body resp) (r\<lparr> rl_http_future := None,
              rl_http_auth_deadline_ms := 0, rl_invalid_begin_tm := e_now env, rl_http_passed := True \<rparr>)"
            using assms e Some \<open>rl_http_future r = Some i\<close> by (simp add: Let_def)
          thus thesis using Some \<open>rl_http_future r = Some i\<close> closed nexp True by (intro granted [of i resp]) simp_all
        next
          case False
          then obtain r2 W2 where "cache_refusal env resp (r\<lparr> rl_http_future := None, rl_http_auth_deadline_ms := 0 \<rparr>) W = Some (r2, W2)"
              "invalid_srt env r2 W2 = Some (r', W')" "ret = SLS_ERROR"
            using assms e Some \<open>rl_http_future r = Some i\<close> by (auto simp: Let_def split: bind_splits)
          thus thesis using Some \<open>rl_http_future r = Some i\<close> closed nexp False by (intro refused [of i resp r2 W2]) simp_all
        qed
      qed
    qed
  qed
qed

lemma check_http_passed_quiet:
  assumes "check_http_passed env r W = Some (ret, r', W')"
  shows "quiet r W r' W' \<and> (ret = SLS_OK \<longleftrightarrow> rl_http_passed r') \<and> (ret = SLS_OK \<longrightarrow> rl_srt r' = rl_srt r)"
  using assms
proof (cases rule: gate_cases)
  case passed
  thus ?thesis using quiet_refl by auto
next
  case (expired r1)
  thus ?thesis using mark_invalid_quiet [OF expired(8)] quiet_trans by (auto simp: sls_codes)
next
  case (waiting i)
  thus ?thesis using quiet_refl by (auto simp: sls_codes)
next
  case (refused i resp r2 W2)
  note c = cache_refusal_quiet [OF refused(8)] and v = invalid_srt_quiet [OF refused(7)]
  have "quiet r W r2 W2" using c quiet_trans [OF quiet_other(3)] by blast
  thus ?thesis using c v refused(1,6) quiet_trans by (auto simp: sls_codes)
next
  case (granted i resp)
  have "quiet r W (r\<lparr> rl_http_future := None, rl_http_auth_deadline_ms := 0, rl_invalid_begin_tm := e_now env, rl_http_passed := True \<rparr>) W"
    by (auto simp: quiet_def intro: exI [of _ "[]"])
  thus ?thesis using quiet_trans [OF _ harvest_quiet(1)] unfolding granted(6-8) by (simp add: harvest_quiet(2,3))
qed

lemma gate_opens:
  assumes "check_http_passed env r W = Some (SLS_OK, r', W')"
  shows "W' = W \<and> (rl_http_passed r \<or>
    (\<exists>i resp. rl_http_future r = Some i \<and> e_http env i = Some resp \<and> accepted resp \<and> \<not> gate_expired env r))"
  using assms
proof (cases rule: gate_cases)
  case (granted i resp)
  thus ?thesis by blast
qed (simp_all add: sls_codes)

text \<open>A read either leaves the tables alone or stores the packet of an authorised role.\<close>

lemma role_account_quiet:
  "quiet r W (account_bitrate now n d (snd (role_limit now' n' (r\<lparr> rl_invalid_begin_tm := a, rl_last_recv_data_tm := b \<rparr>)))) W"
  "rl_http_passed (account_bitrate now n d (snd (role_limit now' n' (r\<lparr> rl_invalid_begin_tm := a, rl_last_recv_data_tm := b \<rparr>)))) = rl_http_passed r"
  "rl_srt (account_bitrate now n d (snd (role_limit now' n' (r\<lparr> rl_invalid_begin_tm := a, rl_last_recv_data_tm := b \<rparr>)))) = rl_srt r"
  by (auto simp: quiet_def account_bitrate_def role_limit_def Let_def delivered_def split: option.splits prod.splits)

lemma role_limit_quiet:
  "quiet r W (snd (role_limit now n (r\<lparr> rl_invalid_begin_tm := a, rl_last_recv_data_tm := b \<rparr>))) W"
  by (auto simp: quiet_def role_limit_def delivered_def split: option.splits prod.splits)

lemma read_cases:
  assumes "handler_read_data env r W = Some (ret, t, r', W')"
  obtains (dropped) "quiet r W r' W'" "ret = SLS_OK \<or> ret = SLS_ERROR" "t = None"
  | (stored) r1 n szData err where "e_read env = (n, szData, err)" "0 < n" "n mod TS_PACK_LEN = 0" "rl_http_passed r1" "rl_srt r1 \<noteq> None"
      "rl_http_passed r \<or> (\<exists>i resp. rl_http_future r = Some i \<and> e_http env i = Some resp \<and> accepted resp \<and> \<not> gate_expired env r)"
      "quiet r W r1 W" "role_store env szData n r1 W = Some (ret, t, r', W')"
proof -
  obtain p r0 W0 where g: "check_http_passed env r W = Some (p, r0, W0)"
    using assms by (auto simp: handler_read_data_def split: bind_splits)
  note gq = check_http_passed_quiet [OF g]
  note e = assms [unfolded handler_read_data_def g bind.bind_lunit prod.case]
  show thesis
  proof (cases "p = SLS_OK \<and> rl_srt r0 \<noteq> None")
    case False
    hence "ret = SLS_OK \<or> ret = SLS_ERROR" "t = None" "r' = r0" "W' = W0" using e by (auto split: if_splits)
    thus thesis using gq by (intro dropped) simp_all
  next
    case opn: True
    have w: "W0 = W" "rl_http_passed r \<or> (\<exists>i resp. rl_http_future r = Some i \<and> e_http env i = Some resp \<and> accepted resp \<and> \<not> gate_expired env r)"
      using gate_opens [of env r W r0 W0] g opn by auto
    obtain n szData err where rd: "e_read env = (n, szData, err)" by (cases "e_read env") auto
    note e = e [unfolded rd prod.case w(1)]
    define r1 where "r1 = r0\<lparr> rl_invalid_begin_tm := e_now env, rl_last_recv_data_tm := e_now env \<rparr>"
    obtain res r2 where l: "role_limit (e_now env) n r1 = (res, r2)" by fastforce
    have r2: "r2 = snd (role_limit (e_now env) n (r0\<lparr> rl_invalid_begin_tm := e_now env, rl_last_recv_data_tm := e_now env \<rparr>))"
      using l unfolding r1_def by simp
    have q2: "quiet r W r2 W" using gq w(1) unfolding r2 by (auto intro: quiet_trans [OF _ role_limit_quiet])
    define r3 where "r3 = account_bitrate (e_now env) n (e_now env - rl_stat_bitrate_last_tm r2) r2"
    have r3: "r3 = account_bitrate (e_now env) n (e_now env - rl_stat_bitrate_last_tm r2)
        (snd (role_limit (e_now env) n (r0\<lparr> rl_invalid_begin_tm := e_now env, rl_last_recv_data_tm := e_now env \<rparr>)))"
      using l unfolding r1_def r3_def by simp
    have "quiet r W r0 W" using gq w(1) by simp
    hence q3: "quiet r W r3 W" "rl_http_passed r3" "rl_srt r3 \<noteq> None"
      using gq opn unfolding r3 role_account_quiet(2,3) by (auto intro: quiet_trans [OF _ role_account_quiet(1)])
    have drop: thesis if "invalid_srt env x W = Some (r', W')" "quiet r W x W" "ret = SLS_ERROR" "t = None" for x
      using invalid_srt_quiet(1) [OF that(1)] quiet_trans that by (intro dropped) blast+
    show thesis
    proof (cases "n \<le> 0")
      case True
      hence "(ret = SLS_OK \<or> ret = SLS_ERROR) \<and> t = None \<and> r' = r0 \<and> W' = W" using e opn by (auto split: if_splits)
      thus thesis using gq w(1) by (intro dropped) simp_all
    next
      case pos: False
      show thesis
      proof (cases "n mod TS_PACK_LEN = 0")
        case False
        hence "invalid_srt env r0 W = Some (r', W') \<and> ret = SLS_ERROR \<and> t = None" using e opn pos w(1) by (auto split: bind_splits)
        thus thesis using gq w(1) by (intro drop [of r0]) auto
      next
        case al: True
        have e: "(if res = BITRATE_DISCONNECT then do { (r3, W3) \<leftarrow> invalid_srt env r2 W; Some (SLS_ERROR, None, r3, W3) }
             else if \<not> rl_map_data r3 then Some (SLS_ERROR, None, r3, W) else role_store env szData n r3 W) = Some (ret, t, r', W')"
          using e opn pos al l unfolding Let_def r1_def [symmetric] r3_def by (simp split del: if_split)
        show thesis
        proof (cases "res = BITRATE_DISCONNECT")
          case True
          thus thesis using e q2 by (intro drop [of r2]) (auto split: bind_splits)
        next
          case False
          show thesis
          proof (cases "rl_map_data r3")
            case True
            thus thesis using e \<open>res \<noteq> BITRATE_DISCONNECT\<close> rd pos al q3 w(2) by (intro stored [of n szData err r3]) simp_all
          next
            case nomap: False
            hence "ret = SLS_ERROR \<and> t = None \<and> r' = r3 \<and> W' = W" using e \<open>res \<noteq> BITRATE_DISCONNECT\<close> by simp
            thus thesis using q3(1) by (intro dropped) simp_all
          qed
        qed
      qed
    qed
  qed
qed

end
