(* ===== verification/Role_Delivery.thy ===== *)
theory Role_Delivery
  imports Role_Correct
begin

text \<open>From the publisher's socket to the viewer's: the composition of a publisher's reads with a player's writes through
  the stream table.\<close>

section \<open>What a read stores\<close>

lemma on_map_data_set_ext:
  assumes "map_ok (w_data W)"
  shows "stream_ext key [] (w_data W) (w_data (on_map_data_set r W))" "rw_trace (on_map_data_set r W) = rw_trace W"
proof -
  have "m_map_array (set_timecode_scan k True M) = m_map_array M" for k M
    by (simp add: set_timecode_scan_def split: option.split)
  hence "stream_ext key [] (w_data W) (set_timecode_scan k True (w_data W))" for k
    using set_timecode_scan_ok(1) [OF assms, of k True] by (simp add: stream_ext_def)
  thus "stream_ext key [] (w_data W) (w_data (on_map_data_set r W))" "rw_trace (on_map_data_set r W) = rw_trace W"
    using stream_ext_refl [OF assms] by (auto simp: on_map_data_set_def split: option.split)
qed

lemma map_add_ext:
  assumes "map_ok M" "map_add now k b l M = Some (ret, M')"
  shows "stream_ext key [] M M'"
proof -
  have "map_ok M'" using map_add_ok [OF assms] by blast
  moreover have "map_of (m_map_array M') key = Some R" if "map_of (m_map_array M) key = Some R" for R
    using assms(2) that by (cases rule: map_add_cases) auto
  ultimately show ?thesis by (auto simp: stream_ext_def)
qed

lemma ensure_ring_ext:
  assumes "map_ok (w_data W)" "ensure_ring env r W = Some (ok, r', W')"
  shows "stream_ext key [] (w_data W) (w_data W')" "rw_trace W' = rw_trace W" "r' = r \<or> r' = r\<lparr> rl_ring_added := True \<rparr>"
proof -
  have "stream_ext key [] (w_data W) (w_data W') \<and> rw_trace W' = rw_trace W \<and> (r' = r \<or> r' = r\<lparr> rl_ring_added := True \<rparr>)"
  proof (cases "rl_ring_added r")
    case True
    thus ?thesis using assms stream_ext_refl by (auto simp: ensure_ring_def)
  next
    case False
    then obtain ret D where a: "map_add (e_now env) (rl_map_data_key r)
        (case rl_conf r of None \<Rightarrow> 0 | Some app \<Rightarrow> var_int ''max_input_bitrate_kbps'' app) (rl_latency r) (w_data W) = Some (ret, D)"
      "(ok, r', W') = (if ret \<noteq> SLS_OK then (False, r, W\<lparr> w_data := D \<rparr>)
         else (True, r\<lparr> rl_ring_added := True \<rparr>, on_map_data_set (r\<lparr> rl_ring_added := True \<rparr>) (W\<lparr> w_data := D \<rparr>)))"
      using assms(2) by (auto simp: ensure_ring_def Let_def split: bind_splits if_splits)
    note ext = map_add_ext [OF assms(1) a(1), of key]
    have ok: "map_ok (w_data (W\<lparr> w_data := D \<rparr>))" using ext by (simp add: stream_ext_def)
    have "stream_ext key [] (w_data W) (w_data (on_map_data_set r2 (W\<lparr> w_data := D \<rparr>)))" for r2
      using stream_ext_trans [OF _ on_map_data_set_ext(1) [OF ok], of key "[]" "w_data W" r2] ext by simp
    thus ?thesis using a(2) ext on_map_data_set_ext(2) [OF ok] by (auto split: if_splits)
  qed
  thus "stream_ext key [] (w_data W) (w_data W')" "rw_trace W' = rw_trace W" "r' = r \<or> r' = r\<lparr> rl_ring_added := True \<rparr>" by auto
qed

text \<open>The bytes a read adds to the stream: those of the packet when the read reports a length.\<close>

definition taken :: "int \<Rightarrow> buffer \<Rightarrow> buffer" where
  "taken ret szData = (if 0 < ret then take (nat ret) szData else [])"

lemma map_put_ext:
  assumes "map_ok M" "0 < n" "n \<le> int (length d)" "map_put key (Some d) n M = Some (ret, t, M')"
  shows "stream_ext key (taken ret d) M M'"
proof (cases "map_of (m_map_array M) key")
  case None
  thus ?thesis using assms by (auto simp: map_put_def stream_ext_def)
next
  case (Some R)
  have n0: "0 \<le> n" using assms(2) by simp
  have ok: "map_ok M'" using map_put_ok(1) [OF assms(1) _ assms(3,4)] assms(2) by simp
  have "\<exists>R'. map_of (m_map_array M') key = Some R' \<and> ring_rep R' (h @ taken ret d) \<and> m_nDataSize R' = m_nDataSize R \<and>
      m_nGeneration R' = m_nGeneration R" if h: "ring_rep R h" for h
  proof -
    obtain ret' M2 R' where p: "map_put key (Some d) n M = Some (ret', Some (m_last_read_time R), M2)"
        "m_map_array M2 = AList.update key R' (m_map_array M)" "m_nDataSize R' = m_nDataSize R" "m_nGeneration R' = m_nGeneration R"
        "if 0 < n \<and> n \<le> m_nDataSize R then ret' = n \<and> ring_rep R' (h @ take (nat n) d) else ret' = SLS_ERROR \<and> ring_rep R' h"
      using assms(1) Some h n0 assms(3) by (rule map_put_known) blast
    thus ?thesis using assms(2,4) by (intro exI [of _ R']) (auto simp: map_of_update taken_def sls_codes split: if_splits)
  qed
  thus ?thesis using ok Some by (auto simp: stream_ext_def)
qed

lemma role_store_ext:
  assumes "map_ok (w_data W)" "0 < n" "n \<le> int (length szData)" "role_store env szData n r W = Some (ret, t, r', W')"
  shows "stream_ext (rl_map_data_key r) (taken ret szData) (w_data W) (w_data W')"
    "\<exists>cs. rw_trace W' = rw_trace W @ cs \<and> delivered cs = []" "rl_map_data_key r' = rl_map_data_key r"
proof -
  obtain ok r1 W1 where en: "ensure_ring env r W = Some (ok, r1, W1)"
    using assms(4) by (auto simp: role_store_def split: bind_splits)
  note x = ensure_ring_ext(1) [OF assms(1) en, of "rl_map_data_key r"] ensure_ring_ext(2,3) [OF assms(1) en]
  have ok1: "map_ok (w_data W1)" using x(1) by (simp add: stream_ext_def)
  have key: "rl_map_data_key r1 = rl_map_data_key r" using x(3) by auto
  have "stream_ext (rl_map_data_key r) (taken ret szData) (w_data W) (w_data W') \<and>
    (\<exists>cs. rw_trace W' = rw_trace W @ cs \<and> delivered cs = []) \<and> rl_map_data_key r' = rl_map_data_key r"
  proof (cases ok)
    case False
    hence i: "invalid_srt env r1 W1 = Some (r', W')" "ret = SLS_ERROR" using assms(4) en by (auto simp: role_store_def split: bind_splits)
    thus ?thesis using invalid_srt_quiet(1) [OF i(1)] x(1,2) key by (auto simp: quiet_def taken_def sls_codes)
  next
    case True
    then obtain D where p: "map_put (rl_map_data_key r1) (Some szData) n (w_data W1) = Some (ret, t, D)" "r' = r1" "W' = W1\<lparr> w_data := D \<rparr>"
      using assms(4) en by (auto simp: role_store_def split: bind_splits)
    show ?thesis using stream_ext_trans [OF x(1) map_put_ext [OF ok1 assms(2,3) p(1) [unfolded key]]] p(2,3) key x(2)
      by (auto simp: delivered_def)
  qed
  thus "stream_ext (rl_map_data_key r) (taken ret szData) (w_data W) (w_data W')"
    "\<exists>cs. rw_trace W' = rw_trace W @ cs \<and> delivered cs = []" "rl_map_data_key r' = rl_map_data_key r" by auto
qed

lemma handler_read_ext:
  assumes "map_ok (w_data W)" "e_read env = (n, szData, err)" "n \<le> int (length szData)" "handler_read_data env r W = Some (ret, t, r', W')"
  shows "stream_ext (rl_map_data_key r) (taken ret szData) (w_data W) (w_data W')" "rl_map_data_key r' = rl_map_data_key r"
    "\<exists>cs. rw_trace W' = rw_trace W @ cs \<and> delivered cs = []"
proof -
  have "stream_ext (rl_map_data_key r) (taken ret szData) (w_data W) (w_data W') \<and> rl_map_data_key r' = rl_map_data_key r \<and>
    (\<exists>cs. rw_trace W' = rw_trace W @ cs \<and> delivered cs = [])"
    using assms(4)
  proof (cases rule: read_cases)
    case dropped
    thus ?thesis using stream_ext_refl [OF assms(1)] by (auto simp: quiet_def taken_def sls_codes)
  next
    case (stored r1 n szData err)
    have k: "rl_map_data_key r1 = rl_map_data_key r" using stored(7) by (simp add: quiet_def)
    show ?thesis using role_store_ext [OF assms(1) stored(2) _ stored(8)] assms(2,3) stored(1) k by auto
  qed
  thus "stream_ext (rl_map_data_key r) (taken ret szData) (w_data W) (w_data W')" "rl_map_data_key r' = rl_map_data_key r"
    "\<exists>cs. rw_trace W' = rw_trace W @ cs \<and> delivered cs = []" by auto
qed

section \<open>A read returns\<close>

lemma canonical_total: "sls_canonical_sid_key s \<noteq> None"
  using parse_total [of "Some (c_str s)"] by (auto simp: sls_canonical_sid_key_def)

lemma map_put_total:
  assumes "map_ok M" "0 \<le> n" "n \<le> int (length d)"
  shows "\<exists>y. map_put key (Some d) n M = Some y"
proof (cases "map_of (m_map_array M) key")
  case None
  thus ?thesis by (simp add: map_put_def)
next
  case (Some R)
  then obtain h where h: "ring_rep R h" using map_ok_ring [OF assms(1)] by (auto simp: ring_live_def)
  show ?thesis using assms(1) Some h assms(2,3) by (rule map_put_known) blast
qed

lemma invalid_srt_total: "e_post_ok env \<Longrightarrow> \<exists>r' W'. invalid_srt env r W = Some (r', W')"
  by (auto simp: invalid_srt_def on_close_def post_async_def Let_def split: option.split prod.split)

lemma check_http_passed_total:
  assumes "e_post_ok env"
  shows "\<exists>ret r' W'. check_http_passed env r W = Some (ret, r', W')"
proof -
  have c: "\<exists>r' W'. cache_refusal env resp r W = Some (r', W')" for resp r and W :: "'a role_world"
    by (auto simp: cache_refusal_def canonical_total split: prod.split option.split)
  have m: "\<exists>r' W'. mark_invalid env r W = Some (r', W')" for r and W :: "'a role_world"
    using invalid_srt_total [OF assms] by (simp add: mark_invalid_def)
  have ci: "\<exists>x. do { (r2, W2) \<leftarrow> cache_refusal env resp r W; (r3, W3) \<leftarrow> invalid_srt env r2 W2; Some (SLS_ERROR, r3, W3) } = Some x"
    for resp r and W :: "'a role_world"
  proof -
    obtain r2 W2 where a: "cache_refusal env resp r W = Some (r2, W2)" using c by blast
    obtain r3 W3 where b: "invalid_srt env r2 W2 = Some (r3, W3)" using invalid_srt_total [OF assms] by blast
    show ?thesis by (simp add: a b)
  qed
  have mm: "\<exists>x. map_option (\<lambda>(r1, W1). (SLS_ERROR, r1, W1)) (mark_invalid env r W) = Some x" for r and W :: "'a role_world"
    using m [of r W] by auto
  show ?thesis using mm ci by (auto simp: check_http_passed_def Let_def split: option.split)
qed

lemma handler_read_total:
  assumes "e_post_ok env" "map_ok (w_data W)" "e_read env = (n, szData, err)" "n \<le> int (length szData)"
  shows "\<exists>x. handler_read_data env r W = Some x"
proof -
  obtain p r0 W0 where g: "check_http_passed env r W = Some (p, r0, W0)" using check_http_passed_total [OF assms(1)] by blast
  have ok: "map_ok (w_data W0)" using check_http_passed_quiet [OF g] assms(2) by (simp add: quiet_def)
  have s: "\<exists>x. role_store env szData n r1 W0 = Some x" if n: "0 < n" for r1
  proof -
    obtain ret D where a: "map_add (e_now env) (rl_map_data_key r1)
        (case rl_conf r1 of None \<Rightarrow> 0 | Some app \<Rightarrow> var_int ''max_input_bitrate_kbps'' app) (rl_latency r1) (w_data W0) = Some (ret, D)"
      using map_add_total by blast
    obtain b r2 W2 where e: "ensure_ring env r1 W0 = Some (b, r2, W2)" using a by (cases "rl_ring_added r1"; cases "ret = SLS_OK") (auto simp: ensure_ring_def Let_def)
    have ok2: "map_ok (w_data W2)" using ensure_ring_ext(1) [OF ok e] by (simp add: stream_ext_def)
    obtain y where p: "map_put (rl_map_data_key r2) (Some szData) n (w_data W2) = Some y"
      using map_put_total [OF ok2 less_imp_le [OF n] assms(4)] by blast
    obtain r3 W3 where i: "invalid_srt env r2 W2 = Some (r3, W3)" using invalid_srt_total [OF assms(1)] by blast
    show ?thesis using e p i by (cases b; cases y) (auto simp: role_store_def)
  qed
  obtain r3 W3 where i: "invalid_srt env r0 W0 = Some (r3, W3)" using invalid_srt_total [OF assms(1)] by blast
  have i': "\<exists>x. do { (r3, W3) \<leftarrow> invalid_srt env r2 W0; Some (SLS_ERROR, None :: time_ms option, r3, W3) } = Some x" for r2
    using invalid_srt_total [OF assms(1), of r2 W0] by auto
  show ?thesis unfolding handler_read_data_def g bind.bind_lunit prod.case assms(3)
    using s i i' by (auto simp: Let_def split: prod.split if_split)
qed

section \<open>The stream a viewer receives\<close>

text \<open>Any interleaving of the publisher's reads and the player's turns. The run collects what each turn of the player
  hands to its socket and what the publisher's reads add to the stream.\<close>

datatype live_op = Ingest role_env | Serve role_env

fun live_run ::
  "live_op list \<Rightarrow> CSLSRole \<Rightarrow> CSLSRole \<Rightarrow> 'ca role_world \<Rightarrow> (buffer list \<times> buffer \<times> CSLSRole) option" where
  "live_run [] P V W = Some ([], [], V)"
| "live_run (Ingest env # ops) P V W =
     (case handler_read_data env P W of
        None \<Rightarrow> None
      | Some (ret, t, P1, W1) \<Rightarrow>
          map_option (\<lambda>(outs, acc, V'). (outs, taken ret (fst (snd (e_read env))) @ acc, V')) (live_run ops P1 V W1))"
| "live_run (Serve env # ops) P V W =
     (case player_handler env V W of
        None \<Rightarrow> None
      | Some (ret, V1, W1) \<Rightarrow>
          map_option (\<lambda>(outs, acc, V'). (delivered (drop (length (rw_trace W)) (rw_trace W1)) # outs, acc, V')) (live_run ops P V1 W1))"

text \<open>\<^verbatim>\<open>srt_recvmsg\<close> returns at most the bytes it stored, and the closing request is taken.\<close>

fun live_env_ok :: "live_op \<Rightarrow> bool" where
  "live_env_ok (Ingest env) = (fst (e_read env) \<le> int (length (fst (snd (e_read env)))) \<and> e_post_ok env)"
| "live_env_ok (Serve env) = True"

text \<open>A bound viewer: what is staged is the stretch of the stream before its cursor.\<close>

definition viewer_ok :: "CSLSRole \<Rightarrow> 'ca role_world \<Rightarrow> nat \<Rightarrow> buffer \<Rightarrow> nat \<Rightarrow> bool" where
  "viewer_ok V W cap h c \<longleftrightarrow> map_ok (w_data W) \<and> egress_ok V \<and> rl_http_passed V \<and> rl_map_data V \<and> rl_map_data_key V \<noteq> [] \<and>
     viewer_at (rl_map_data_key V) (w_data W) (rl_map_data_id V) cap h c \<and> length (staged V) \<le> c \<and>
     staged V = take (length (staged V)) (drop (c - length (staged V)) h)"

lemma viewer_ok_ext:
  assumes "viewer_ok V W cap h c" "stream_ext (rl_map_data_key V) d (w_data W) (w_data W')"
  shows "viewer_ok V W' cap (h @ d) c"
proof -
  have "c \<le> length h" using assms(1) by (auto simp: viewer_ok_def viewer_at_def)
  moreover have "map_ok (w_data W')" using assms(2) by (simp add: stream_ext_def)
  ultimately show ?thesis using assms viewer_at_ext [OF _ assms(2)] by (auto simp: viewer_ok_def)
qed

lemma slice_split:
  assumes "out @ st = take k (drop p h)" "p + k \<le> length h"
  shows "take (length out) (drop p h) = out" "st = take (length st) (drop (p + k - length st) h)" "p + length out + length st = p + k"
proof -
  have l: "length out + length st = k" using arg_cong [OF assms(1), of length] assms(2) by simp
  show "take (length out) (drop p h) = out"
    using arg_cong [OF assms(1), of "take (length out)"] l by (simp add: min_absorb1)
  have "st = drop (length out) (take k (drop p h))" using assms(1) by (metis append_eq_conv_conj)
  also have "\<dots> = take (length st) (drop (p + k - length st) h)" using l by (auto simp: drop_take add.commute)
  finally show "st = take (length st) (drop (p + k - length st) h)" .
  show "p + length out + length st = p + k" using l by simp
qed

text \<open>One turn of the player: a slice of the stream from its first byte not yet sent.\<close>

lemma serve_step:
  assumes "viewer_ok V W cap h c"
  obtains ret V' W' c' where "player_handler env V W = Some (ret, V', W')" "viewer_ok V' W' cap h c'"
    "rl_map_data_key V' = rl_map_data_key V" "c \<le> c'"
    "take (length (delivered (drop (length (rw_trace W)) (rw_trace W')))) (drop (c - length (staged V)) h) =
       delivered (drop (length (rw_trace W)) (rw_trace W'))"
    "c - length (staged V) + length (delivered (drop (length (rw_trace W)) (rw_trace W'))) \<le> c' - length (staged V')"
    "length h - c < cap \<Longrightarrow>
       c - length (staged V) + length (delivered (drop (length (rw_trace W)) (rw_trace W'))) = c' - length (staged V')"
proof -
  note v = assms [unfolded viewer_ok_def]
  have at: "viewer_at (rl_map_data_key V) (w_data W) (rl_map_data_id V) cap h c" using v by blast
  obtain ret V' W' cs c' where s: "player_handler env V W = Some (ret, V', W')" "egress_frame V W V' W' cs" "egress_ok V'"
      "viewer_at (rl_map_data_key V) (w_data W') (rl_map_data_id V') cap h c'" "c \<le> c'"
      "if length h - c < cap then delivered cs @ staged V' = staged V @ take (c' - c) (drop c h)
       else delivered cs @ staged V' = staged V \<and> (c' = c \<or> c' = length h \<and> staged V' = [])"
    using player_handler_serves [OF _ _ _ _ _ at] v by blast
  have tr: "drop (length (rw_trace W)) (rw_trace W') = cs" using s(2) by (simp add: egress_frame_def)
  define p where "p = c - length (staged V)"
  have p: "p + length (staged V) = c" using v by (simp add: p_def)
  have le: "c \<le> length h" "c' \<le> length h" using at s(4) by (auto simp: viewer_at_def)
  have old: "staged V = take (c - p) (drop p h)" using v p by (metis diff_add_inverse p_def)
  have rest: "\<exists>k. delivered cs @ staged V' = take k (drop p h) \<and> p + k \<le> length h \<and>
      (p + k = c' \<or> (\<not> length h - c < cap) \<and> staged V' = [] \<and> p + k \<le> c')"
  proof (cases "length h - c < cap")
    case True
    have "staged V @ take (c' - c) (drop c h) = take (c' - p) (drop p h)"
      using take_add [of "c - p" "c' - c" "drop p h"] p s(5) old by simp
    thus ?thesis using True s(5,6) p le by (intro exI [of _ "c' - p"]) simp
  next
    case False
    thus ?thesis using s(5,6) p le old by (intro exI [of _ "c - p"]) auto
  qed
  then obtain k where k: "delivered cs @ staged V' = take k (drop p h)" "p + k \<le> length h"
      "p + k = c' \<or> (\<not> length h - c < cap) \<and> staged V' = [] \<and> p + k \<le> c'" by blast
  note sl = slice_split [OF k(1,2)]
  have "viewer_ok V' W' cap h c'"
    using v s(2-4) k(3) sl egress_frame_ok [OF s(2)] unfolding viewer_ok_def egress_frame_def by auto
  thus thesis using s(1,2,5) sl k(3) tr by (intro that [of ret V' W' c']) (auto simp: p_def egress_frame_def)
qed


text \<open>A table with one stream, its publisher and a viewer that joined at the start.\<close>

definition live_ring :: CSLSRecycleArray where
  "live_ring = small_ring\<lparr> m_arrayData := Some (replicate 4096 0), m_nDataSize := 4096 \<rparr>"

definition live_table :: CSLSMapData where
  "live_table = small_table\<lparr> m_map_array := [(''a/x'', live_ring)], m_map_cc_state := [(''a/x'', fresh_cc_state)], m_map_tc_state := [],
     m_stream_count := 1, m_total_ring_bytes := 4096 \<rparr>"

definition live_world :: "nat role_world" where
  "live_world = \<lparr> w_pub = map_publisher_new, w_data = live_table, w_roles = [], w_relays = [], w_next = 0, w_calls = [],
     rw_cache = cache_new 0, rw_posts = [], rw_snapshot = (\<lambda>i. \<lparr> snap_rtt_ms = 0, snap_mbps_send_rate = 0, snap_pkt_snd_drop_total = 0,
       snap_pkt_retrans_total = 0, snap_closed = False \<rparr>), rw_trace = [] \<rparr>"

definition live_role :: "role_kind \<Rightarrow> CSLSRole" where
  "live_role k = (role_new 1 k 0)\<lparr> rl_srt := Some \<lparr> s_fd = 7, s_eid = 3 \<rparr>, rl_state := SLS_RS_INITED, rl_map_data := True,
     rl_map_data_key := ''a/x'', rl_map_data_id := anchored_cursor \<rparr>"

definition live_env :: "time_ms \<Rightarrow> buffer \<Rightarrow> role_env" where
  "live_env now packet = \<lparr> e_now = now, e_sockstate = SRTS_CONNECTED, e_read = (int (length packet), packet, 0), e_write = (\<lambda>k. (1316, 0)),
     e_epoll_add = (0, 0), e_epoll_update = (0, 0), e_peer = Some (''10.0.0.1'', 9), e_streamid = ''u/a/x'',
     e_bistats = (0, \<lparr> st_msRTT = 0, st_mbpsSendRate = 0, st_pktSndDropTotal = 0, st_pktRetransTotal = 0 \<rparr>), e_http = (\<lambda>i. None),
     e_post_ok = True, e_json = (\<lambda>s. None), e_push = \<lparr> pe_url = (\<lambda>s. None), pe_numeric = (\<lambda>h p. (0, [])), pe_resolve = (\<lambda>h p t. None),
       pe_ntop = (\<lambda>a. []) \<rparr>, e_ifaddr = None, e_relay = (\<lambda>i. net ''9000''), e_root = None \<rparr>"

lemma live_ring_rep: "ring_rep live_ring []"
  by (simp add: live_ring_def small_ring_def ring_rep_def circ_def)

lemma live_table_ok: "map_ok live_table"
proof -
  have "ring_live 3 live_ring"
    using live_ring_rep by (auto simp: ring_live_def live_ring_def small_ring_def MAX_RING_BYTES_def)
  thus ?thesis by (simp add: map_ok_def live_table_def small_table_def fresh_cc_state_ok live_ring_def)
qed

lemma live_viewer_ok: "viewer_ok (live_role Player_role) live_world 4096 [] 0"
  using live_table_ok live_ring_rep
  by (auto simp: viewer_ok_def live_world_def live_role_def role_new_def egress_ok_def staged_def DATA_BUFF_SIZE_def viewer_at_def
      live_table_def live_ring_def small_ring_def anchored_cursor_def reader_at_def)


end
