(* ===== verification/Role_Gate.thy ===== *)
theory Role_Gate
  imports Role_Delivery
begin

text \<open>The authorisation gate of a publisher over any sequence of its turns, the push destinations a webhook names, the
  viewer that makes no progress, and the single teardown of a socket.\<close>

section \<open>The gate\<close>

text \<open>A turn of a publisher: a read event or the periodic tick.\<close>

datatype pub_turn = Read_turn role_env | Tick_turn role_env

fun turn_env :: "pub_turn \<Rightarrow> role_env" where
  "turn_env (Read_turn env) = env"
| "turn_env (Tick_turn env) = env"

fun pub_do :: "pub_turn \<Rightarrow> CSLSRole \<Rightarrow> 'ca role_world \<Rightarrow> (CSLSRole \<times> 'ca role_world) option" where
  "pub_do (Read_turn env) r W = map_option (\<lambda>(ret, r1, W1). (r1, W1)) (publisher_handler env r W)"
| "pub_do (Tick_turn env) r W = on_worker_tick env r W"

fun pub_run :: "pub_turn list \<Rightarrow> CSLSRole \<Rightarrow> 'ca role_world \<Rightarrow> (CSLSRole \<times> 'ca role_world) option" where
  "pub_run [] r W = Some (r, W)"
| "pub_run (x # xs) r W = (case pub_do x r W of None \<Rightarrow> None | Some (r1, W1) \<Rightarrow> pub_run xs r1 W1)"

text \<open>Every answer that grants access comes at \<open>T\<close> or later.\<close>

definition late_only :: "time_ms \<Rightarrow> role_env \<Rightarrow> bool" where
  "late_only T env \<longleftrightarrow> (\<forall>i resp. e_http env i = Some resp \<and> accepted resp \<longrightarrow> T \<le> e_now env)"

text \<open>A closed gate: nothing was harvested and no ring was made.\<close>

definition gated :: "CSLSRole \<Rightarrow> bool" where
  "gated r \<longleftrightarrow> rl_kind r = Publisher_role \<and> \<not> rl_http_passed r \<and> rl_push_urls r = [] \<and> \<not> rl_ring_added r"

lemma invalid_srt_frame:
  assumes "invalid_srt env r W = Some (r', W')"
  shows "rl_push_urls r' = rl_push_urls r" "\<not> rl_http_passed r \<Longrightarrow> rl_http_future r' = rl_http_future r"
    "rl_http_auth_deadline_ms r' = rl_http_auth_deadline_ms r"
  using assms
  by (auto simp: invalid_srt_def on_close_def Let_def get_streamid_def learn_peer_def post_async_def split: option.splits if_splits prod.splits)

lemma cache_refusal_frame:
  assumes "cache_refusal env resp r W = Some (r', W')"
  shows "rl_push_urls r' = rl_push_urls r" "rl_http_future r' = rl_http_future r" "rl_http_auth_deadline_ms r' = rl_http_auth_deadline_ms r"
    "rl_http_passed r' = rl_http_passed r"
  using assms by (auto simp: cache_refusal_def get_streamid_def split: option.splits if_splits prod.splits)

text \<open>A deadline that is pending bounds the wait: it is kept, or no request is waited for any more.\<close>

definition waits_until :: "time_ms \<Rightarrow> CSLSRole \<Rightarrow> bool" where
  "waits_until T r \<longleftrightarrow> (rl_http_future r \<noteq> None \<longrightarrow> 0 < rl_http_auth_deadline_ms r \<and> rl_http_auth_deadline_ms r \<le> T)"

lemma gate_step:
  assumes "gated r" "late_only T env" "waits_until T r" "check_http_passed env r W = Some (ret, r', W')"
  shows "gated r'" "ret = SLS_ERROR" "quiet r W r' W'" "waits_until T r'"
    "T \<le> e_now env \<Longrightarrow> rl_state r' = SLS_RS_INVALID \<and> rl_srt r' = None"
proof -
  note q = check_http_passed_quiet [OF assms(4)]
  have early: "e_now env < T" if "rl_http_future r = Some i" "\<not> gate_expired env r" for i
    using assms(3) that by (auto simp: waits_until_def gate_expired_def)
  have "ret = SLS_ERROR \<and> rl_push_urls r' = [] \<and> waits_until T r' \<and> (T \<le> e_now env \<longrightarrow> rl_state r' = SLS_RS_INVALID \<and> rl_srt r' = None)"
    using assms(4)
  proof (cases rule: gate_cases)
    case (expired r1)
    have m: "invalid_srt env (r1\<lparr> rl_state := SLS_RS_INVALID \<rparr>) W = Some (r', W')" using expired(8) by (simp add: mark_invalid_def)
    show ?thesis using invalid_srt_frame [OF m] mark_invalid_quiet [OF expired(8)] expired assms(1)
      by (simp add: gated_def waits_until_def)
  next
    case (refused i resp r2 W2)
    show ?thesis using cache_refusal_frame [OF refused(8)] invalid_srt_frame [OF refused(7)] refused assms(1) early [of i]
      by (simp add: gated_def waits_until_def)
  next
    case (waiting i)
    thus ?thesis using assms(1,3) early [of i] by (simp add: gated_def)
  next
    case (granted i resp)
    thus ?thesis using assms(2) early [of i] by (force simp: late_only_def)
  qed (use assms(1) in \<open>simp add: gated_def\<close>)
  thus "gated r'" "ret = SLS_ERROR" "quiet r W r' W'" "waits_until T r'"
    "T \<le> e_now env \<Longrightarrow> rl_state r' = SLS_RS_INVALID \<and> rl_srt r' = None"
    using q assms(1) by (auto simp: gated_def quiet_def sls_codes)
qed

text \<open>Closing a role that was not let in sends no event, so the gate always answers.\<close>

lemma gate_answers:
  assumes "\<not> rl_http_passed r"
  shows "\<exists>ret r' W'. check_http_passed env r W = Some (ret, r', W')"
proof -
  have c: "\<exists>r' W'. cache_refusal env resp r W = Some (r', W') \<and> \<not> rl_http_passed r'" if "\<not> rl_http_passed r" for resp r and W :: "'a role_world"
    using that by (auto simp: cache_refusal_def canonical_total get_streamid_def split: prod.split option.split)
  have v: "\<exists>r' W'. invalid_srt env r W = Some (r', W')" if "\<not> rl_http_passed r" for r and W :: "'a role_world"
    using that by (auto simp: invalid_srt_def on_close_def Let_def split: option.split)
  have ci: "\<exists>x. do { (r2, W2) \<leftarrow> cache_refusal env resp r W; (r3, W3) \<leftarrow> invalid_srt env r2 W2; Some (SLS_ERROR, r3, W3) } = Some x"
    if n: "\<not> rl_http_passed r" for resp r and W :: "'a role_world"
  proof -
    obtain r2 W2 where a: "cache_refusal env resp r W = Some (r2, W2)" "\<not> rl_http_passed r2" using c [OF n] by blast
    obtain r3 W3 where b: "invalid_srt env r2 W2 = Some (r3, W3)" using v [OF a(2)] by blast
    show ?thesis by (simp add: a b)
  qed
  have mm: "\<exists>x. map_option (\<lambda>(r1, W1). (SLS_ERROR, r1, W1)) (mark_invalid env r W) = Some x" if "\<not> rl_http_passed r"
    for r and W :: "'a role_world"
    using v [of "r\<lparr> rl_state := SLS_RS_INVALID \<rparr>" W] that by (auto simp: mark_invalid_def)
  show ?thesis using assms mm ci by (auto simp: check_http_passed_def Let_def split: option.split)
qed

lemma gate_turn:
  assumes "gated r" "late_only T (turn_env x)" "waits_until T r"
  obtains r' W' where "pub_do x r W = Some (r', W')" "gated r'" "quiet r W r' W'" "waits_until T r'"
    "T \<le> e_now (turn_env x) \<Longrightarrow> rl_state r' = SLS_RS_INVALID \<and> rl_srt r' = None"
proof -
  obtain ret r' W' where c: "check_http_passed (turn_env x) r W = Some (ret, r', W')"
    using gate_answers assms(1) by (fastforce simp: gated_def)
  note g = gate_step [OF assms c]
  have "pub_do x r W = Some (r', W')"
    using c g(1,2) assms(1)
    by (cases x) (auto simp: publisher_handler_def handler_read_data_def on_worker_tick_def gated_def sls_codes)
  thus thesis using g(1,3-5) by (intro that) auto
qed

lemma gate_run:
  assumes "gated r" "waits_until T r" "list_all (\<lambda>x. late_only T (turn_env x)) xs"
  shows "\<exists>r' W'. pub_run xs r W = Some (r', W') \<and> gated r' \<and> waits_until T r' \<and> quiet r W r' W'"
  using assms
proof (induction xs arbitrary: r W)
  case Nil
  thus ?case using quiet_refl by fastforce
next
  case (Cons x xs)
  have x: "late_only T (turn_env x)" "list_all (\<lambda>x. late_only T (turn_env x)) xs" using Cons.prems(3) by auto
  obtain r1 W1 where s: "pub_do x r W = Some (r1, W1)" "gated r1" "quiet r W r1 W1" "waits_until T r1"
    using gate_turn [OF Cons.prems(1) x(1) Cons.prems(2)] by metis
  show ?case using Cons.IH [OF s(2,4) x(2), of W1] s(1) quiet_trans [OF s(3)] by auto
qed

lemma pub_run_snoc: "pub_run xs r W = Some (r1, W1) \<Longrightarrow> pub_run (xs @ [x]) r W = pub_do x r1 W1"
  by (induction xs arbitrary: r W) (auto split: option.splits)

text \<open>C4. Nothing of a publisher passes before the webhook has accepted it in time: over any sequence of read events and
  worker ticks in which every accepting answer comes after the deadline, the worker keeps running, the gate stays
  closed, and no stream, no registration, no relay and no connection is made, whatever arrives at the socket.\<close>

theorem closed_gate_stores_nothing:
  assumes "gated r" "waits_until T r" "list_all (\<lambda>x. late_only T (turn_env x)) xs"
  shows "\<exists>r' W'. pub_run xs r W = Some (r', W') \<and> \<not> rl_http_passed r' \<and> \<not> rl_ring_added r' \<and> w_data W' = w_data W \<and>
    w_pub W' = w_pub W \<and> w_roles W' = w_roles W \<and> w_relays W' = w_relays W \<and> w_calls W' = w_calls W"
  using gate_run [OF assms, of W] by (auto simp: gated_def quiet_def)

text \<open>The request starts the clock of the gate.\<close>

lemma on_connect_waits:
  assumes "on_connect env r W = (ret, r', W')" "gated r" "rl_http_future r = None" "0 \<le> e_now env"
  shows "gated r'" "waits_until (e_now env + kHttpAuthorizationDeadlineMs) r'"
  using assms
  by (auto simp: on_connect_def gated_def waits_until_def get_streamid_def learn_peer_def kHttpAuthorizationDeadlineMs_def
      split: if_splits option.splits prod.splits)

text \<open>C9. A publisher is not kept waiting for its webhook: whatever happens between, the first turn of the worker that
  comes four seconds or more after the connect without an answer accepted in time marks it invalid and releases its socket.\<close>

theorem gate_decides_by_deadline:
  assumes "gated r" "rl_http_future r = None" "0 \<le> e_now env" "on_connect env r W = (ret, r1, W1)"
    "list_all (\<lambda>y. late_only (e_now env + 4000) (turn_env y)) (xs @ [x])" "e_now env + 4000 \<le> e_now (turn_env x)"
  shows "\<exists>r' W'. pub_run (xs @ [x]) r1 W1 = Some (r', W') \<and> rl_state r' = SLS_RS_INVALID \<and> rl_srt r' = None"
proof -
  have x: "list_all (\<lambda>y. late_only (e_now env + 4000) (turn_env y)) xs" "late_only (e_now env + 4000) (turn_env x)"
    using assms(5) by auto
  note w = on_connect_waits [OF assms(4,1-3), unfolded kHttpAuthorizationDeadlineMs_def]
  obtain r2 W2 where g: "pub_run xs r1 W1 = Some (r2, W2)" "gated r2" "waits_until (e_now env + 4000) r2"
    using gate_run [OF w x(1)] by blast
  obtain r' W' where "pub_do x r2 W2 = Some (r', W')" "rl_state r' = SLS_RS_INVALID \<and> rl_srt r' = None"
    using gate_turn [OF g(2) x(2) g(3)] assms(6) by metis
  thus ?thesis using pub_run_snoc [OF g(1)] by auto
qed

section \<open>Push destinations of a webhook\<close>

text \<open>A destination as the gate stores it: the validator's verdict on the URL is \<^const>\<open>Ok\<close> and names this address.\<close>

definition vetted_target :: "role_env \<Rightarrow> conf_vars \<Rightarrow> string \<Rightarrow> sockaddr \<Rightarrow> bool" where
  "vetted_target env app url a \<longleftrightarrow>
     validate_push_url (e_push env) (e_root env) url app (discover_self_addresses (pe_ntop (e_push env)) (e_ifaddr env)) = (Ok, Some a)"

lemma Ok_has_address: "validate_push_url env root url app self = (Ok, v) \<Longrightarrow> \<exists>a. v = Some a"
  by (auto simp: validate_push_url_def Let_def dest: push_addrs_nonempty split: if_splits option.splits)

lemma push_targets_vetted:
  fixes env app defines "self \<equiv> discover_self_addresses (pe_ntop (e_push env)) (e_ifaddr env)"
  shows "list_all (\<lambda>(url, a). vetted_target env app url a) (push_targets env app self es kept)"
    "kept + int (length (push_targets env app self es kept)) \<le> max kept (var_int ''push_destination_max'' app)"
proof (induction es arbitrary: kept)
  case (Cons entry es)
  have v: "validate_push_url (e_push env) (e_root env) url app self = (Ok, Some a) \<Longrightarrow> vetted_target env app url a"
    "validate_push_url (e_push env) (e_root env) url app self \<noteq> (Ok, None)" for url a
    using Ok_has_address by (fastforce simp: vetted_target_def self_def)+
  {
    case 1
    show ?case using Cons(1) v by (auto split: option.split prod.split PushUrlReject.split)
  next
    case 2
    show ?case using Cons(2) [of kept] Cons(2) [of "kept + 1"] by (auto split: option.split prod.split PushUrlReject.split)
  }
qed auto

definition targets_ok :: "role_env \<Rightarrow> conf_vars \<Rightarrow> CSLSRole \<Rightarrow> bool" where
  "targets_ok env app r \<longleftrightarrow> list_all2 (vetted_target env app) (rl_push_urls r) (rl_push_vetted_addrs r) \<and>
     int (length (rl_push_urls r)) \<le> max 0 (var_int ''push_destination_max'' app)"

lemma harvest_targets:
  assumes "rl_push_urls r = []" "rl_push_vetted_addrs r = []" "rl_conf r = Some app"
  shows "targets_ok env app (harvest_push_urls env body r)"
proof -
  have "list_all2 (vetted_target env app) (map fst xs) (map snd xs)" if "list_all (\<lambda>(url, a). vetted_target env app url a) xs" for xs
    using that by (induction xs) auto
  thus ?thesis using assms push_targets_vetted(1) [of env app] push_targets_vetted(2) [of 0 env app]
    by (auto simp: targets_ok_def harvest_push_urls_def Let_def split: option.split json.split)
qed

lemma teardown_targets:
  "invalid_srt env r W = Some (r', W') \<Longrightarrow> rl_push_urls r' = rl_push_urls r \<and> rl_push_vetted_addrs r' = rl_push_vetted_addrs r"
  "cache_refusal env resp r W = Some (r', W') \<Longrightarrow> rl_push_urls r' = rl_push_urls r \<and> rl_push_vetted_addrs r' = rl_push_vetted_addrs r"
  by (auto simp: invalid_srt_def cache_refusal_def on_close_def Let_def get_streamid_def learn_peer_def post_async_def
      split: option.splits if_splits prod.splits)

lemma gate_targets:
  assumes "check_http_passed env r W = Some (ret, r', W')" "rl_push_urls r = []" "rl_push_vetted_addrs r = []" "rl_conf r = Some app"
  shows "targets_ok env app r'"
proof -
  have none: "targets_ok env app x" if "rl_push_urls x = rl_push_urls r" "rl_push_vetted_addrs x = rl_push_vetted_addrs r" for x
    using that assms(2,3) by (simp add: targets_ok_def)
  have h: "targets_ok env app (harvest_push_urls env b (r\<lparr> rl_http_future := None, rl_http_auth_deadline_ms := 0,
      rl_invalid_begin_tm := a, rl_http_passed := True \<rparr>))" for a b
    by (rule harvest_targets) (use assms in simp_all)
  show ?thesis using assms(1) none [OF refl refl] unfolding check_http_passed_def mark_invalid_def
    by (auto simp: Let_def intro!: h elim!: none dest!: teardown_targets split: option.splits if_splits bind_splits)
qed

lemma account_targets:
  "rl_push_urls (account_bitrate now n d r) = rl_push_urls r" "rl_push_vetted_addrs (account_bitrate now n d r) = rl_push_vetted_addrs r"
  "rl_push_urls (snd (role_limit now n r)) = rl_push_urls r" "rl_push_vetted_addrs (snd (role_limit now n r)) = rl_push_vetted_addrs r"
  by (simp_all add: account_bitrate_def role_limit_def Let_def split: option.split prod.split)

lemma store_targets:
  assumes "role_store env d n r W = Some (ret, t, r', W')"
  shows "rl_push_urls r' = rl_push_urls r \<and> rl_push_vetted_addrs r' = rl_push_vetted_addrs r \<and> w_calls W' = w_calls W"
proof -
  obtain ok r1 W1 where e: "ensure_ring env r W = Some (ok, r1, W1)" using assms by (auto simp: role_store_def split: bind_splits)
  have 1: "rl_push_urls r1 = rl_push_urls r \<and> rl_push_vetted_addrs r1 = rl_push_vetted_addrs r \<and> w_calls W1 = w_calls W"
    using e by (auto simp: ensure_ring_def on_map_data_set_def Let_def split: if_splits bind_splits option.splits)
  show ?thesis
  proof (cases ok)
    case True
    thus ?thesis using assms e 1 by (auto simp: role_store_def split: bind_splits)
  next
    case False
    then obtain r2 W2 where i: "invalid_srt env r1 W1 = Some (r2, W2)" "r' = r2" "W' = W2"
      using assms e by (auto simp: role_store_def split: bind_splits)
    thus ?thesis using 1 teardown_targets(1) [OF i(1)] invalid_srt_quiet(1) [OF i(1)] by (auto simp: quiet_def)
  qed
qed

lemma read_targets:
  assumes "handler_read_data env r W = Some (ret, t, r', W')"
  shows "\<exists>p r0 W0. check_http_passed env r W = Some (p, r0, W0) \<and> rl_push_urls r' = rl_push_urls r0 \<and>
    rl_push_vetted_addrs r' = rl_push_vetted_addrs r0 \<and> w_calls W' = w_calls W"
proof -
  obtain p r0 W0 where g: "check_http_passed env r W = Some (p, r0, W0)"
    using assms by (auto simp: handler_read_data_def split: bind_splits)
  have c: "w_calls W0 = w_calls W" using check_http_passed_quiet [OF g] by (simp add: quiet_def)
  have i: "rl_push_urls y = rl_push_urls x \<and> rl_push_vetted_addrs y = rl_push_vetted_addrs x \<and> w_calls V = w_calls W0"
    if "invalid_srt env x W0 = Some (y, V)" for x y V
    using teardown_targets(1) [OF that] invalid_srt_quiet(1) [OF that] by (simp add: quiet_def)
  have l: "rl_push_urls y = rl_push_urls x \<and> rl_push_vetted_addrs y = rl_push_vetted_addrs x" if "role_limit a b x = (res, y)" for a b x res y
    using account_targets(3,4) [of a b x] that by simp
  have "rl_push_urls r' = rl_push_urls r0 \<and> rl_push_vetted_addrs r' = rl_push_vetted_addrs r0 \<and> w_calls W' = w_calls W0"
    using assms unfolding handler_read_data_def g bind.bind_lunit prod.case
    by (auto simp: Let_def account_targets dest!: i l store_targets split: prod.splits if_splits bind_splits)
  thus ?thesis using g c by auto
qed

lemma spawn_dials_vetted:
  assumes "try_spawn_dynamic_pusher env r W = Some (r', W')" "length (rl_push_vetted_addrs r) = length (rl_push_urls r)"
    "AF_OTHER \<notin> set (rl_push_vetted_addrs r)"
  shows "\<exists>cs. w_calls W' = w_calls W @ cs \<and> vetted_calls (set (rl_push_vetted_addrs r)) cs"
proof -
  define M where "M = dynamic_manager r"
  have m: "m_sri M = Some \<lparr> m_upstreams = rl_push_urls r, m_vetted_addrs = rl_push_vetted_addrs r, m_type = ''push'', m_mode = SLS_PM_ALL,
      m_reconnect_interval = 10, m_idle_streams_timeout = 10 \<rparr>"
    by (simp add: M_def dynamic_manager_def Let_def set_listen_port_def set_role_list_def set_map_publisher_def set_map_data_def
        set_relay_info_def set_relay_conf_def)
  have p: "\<exists>cs. w_calls V1 = w_calls V @ cs \<and> vetted_calls (set (rl_push_vetted_addrs r)) cs"
    if s: "pusher_start (e_relay env) (e_root env) (e_now env) M V = Some (ret, M1, V1)" for ret M1 and V V1 :: "'a relay_world"
  proof -
    have none: "\<exists>cs. w_calls V = w_calls V @ cs \<and> vetted_calls (set (rl_push_vetted_addrs r)) cs" by (simp add: vetted_calls_simps)
    consider "V1 = V" | "connect_all (e_relay env) (e_root env) (e_now env) M V = Some (ret, M1, V1)"
      using s m by (simp add: pusher_start_def split: option.splits if_splits)
    thus ?thesis
    proof cases
      case 2
      hence "connect_all_loop (e_relay env) (e_root env) (e_now env) (rl_push_urls r) (rl_push_vetted_addrs r) SLS_ERROR SLS_OK M V =
          Some (ret, M1, V1) \<or> V1 = V" using m by (auto simp: connect_all_def split: if_splits)
      thus ?thesis using connect_all_loop_calls [OF _ assms(2,3)] none by metis
    qed (use none in simp)
  qed
  have t: "w_calls (relay_world.truncate W) = w_calls W" "w_calls (relay_world.extend V (relay_world.more W)) = w_calls V" for V
    by (simp_all add: relay_world.defs)
  consider "W' = W" | ret M1 V1 where "pusher_start (e_relay env) (e_root env) (e_now env) M (relay_world.truncate W) = Some (ret, M1, V1)"
      "W' = relay_world.extend V1 (relay_world.more W)"
    using assms(1) unfolding M_def try_spawn_dynamic_pusher_def on_relays_def
    by (cases "pusher_start (e_relay env) (e_root env) (e_now env) (dynamic_manager r) (relay_world.truncate W)") (auto split: if_splits)
  thus ?thesis
  proof cases
    case 1
    thus ?thesis by (simp add: vetted_calls_simps)
  next
    case (2 ret M1 V1)
    show ?thesis using p [OF 2(1)] unfolding 2(2) t .
  qed
qed


section \<open>Refusals\<close>


section \<open>Viewers that do not drain\<close>

definition blocked :: "role_env \<Rightarrow> bool" where
  "blocked env \<longleftrightarrow> fst (e_write env 0) < 0 \<and> snd (e_write env 0) = SRT_EASYNCSND"

fun write_turns :: "role_env list \<Rightarrow> CSLSRole \<Rightarrow> 'ca role_world \<Rightarrow> (int list \<times> CSLSRole \<times> 'ca role_world) option" where
  "write_turns [] r W = Some ([], r, W)"
| "write_turns (env # envs) r W = do {
     (ret, r1, W1) \<leftarrow> handler_write_data env r W;
     (rets, r2, W2) \<leftarrow> write_turns envs r1 W1;
     Some (ret # rets, r2, W2)
   }"

text \<open>A viewer that has been let in, is connected and bound to a stream, and holds staged bytes.\<close>

definition sending :: "CSLSRole \<Rightarrow> bool" where
  "sending r \<longleftrightarrow> egress_ok r \<and> rl_http_passed r \<and> rl_srt r \<noteq> None \<and> rl_map_data r \<and> rl_map_data_key r \<noteq> [] \<and> staged r \<noteq> []"

lemma blocked_turn:
  assumes "sending r" "blocked env"
  obtains v r' W' where "handler_write_data env r W = Some (v, r', W')" "role_backpressure (e_now env) 0 r
      (role_calls [Send (get_fd r) (the (staged_chunk r)) (fst (e_write env 0))] W) = (v, r', W')"
proof -
  obtain s where s: "rl_srt r = Some s" using assms(1) by (auto simp: sending_def)
  have "rl_data_pos r < rl_data_len r" using assms(1) by (auto simp: sending_def staged_def)
  moreover have "1316 dvd rl_data_len r - rl_data_pos r"
    using assms(1) by (auto simp: sending_def egress_ok_def TS_UDP_LEN_def intro!: dvd_diff)
  ultimately have n: "TS_UDP_LEN \<le> rl_data_len r - rl_data_pos r" by (simp add: TS_UDP_LEN_def zdvd_imp_le)
  hence l: "\<not> rl_data_len r < TS_UDP_LEN" using assms(1) by (auto simp: sending_def egress_ok_def)
  obtain chunk where c: "staged_chunk r = Some chunk"
    using assms(1) n by (auto simp: sending_def egress_ok_def staged_chunk_def)
  obtain ret where w: "e_write env 0 = (ret, SRT_EASYNCSND)" "ret < 0" using assms(2) by (cases "e_write env 0") (auto simp: blocked_def)
  obtain v r' W' where b: "role_backpressure (e_now env) 0 r (role_calls [Send (s_fd s) chunk ret] W) = (v, r', W')"
    by (cases "role_backpressure (e_now env) 0 r (role_calls [Send (s_fd s) chunk ret] W)") auto
  have "send_loop env 0 0 r W = Some (Returned v, 1, 0, r', W')"
    using n s c w b by (subst send_loop.simps) (simp add: Let_def TS_UDP_LEN_def)
  hence "handler_write_data env r W = Some (v, r', W')"
    using assms(1) s l by (simp add: handler_write_data_def check_http_passed_def sending_def SLS_OK_def MAX_EGRESS_BATCHES_def
        numeral_2_eq_2 fetch_batch_def)
  thus thesis using b c w s by (intro that [of v r' W']) (simp_all add: get_fd_def)
qed

lemma backpressure_keeps: "sending r \<Longrightarrow> role_backpressure now ws r W = (v, r', W') \<Longrightarrow>
    sending r' \<and> staged r' = staged r \<and> rl_latency r' = rl_latency r"
  by (auto simp: role_backpressure_def sending_def egress_ok_def staged_def Let_def split: if_splits)

lemma stuck_turns:
  assumes "sending r" "rl_backpressure_stuck_since_ms r = t0" "t0 \<noteq> 0" "list_all blocked envs"
  shows "\<exists>r' W'. write_turns envs r W = Some (map (\<lambda>e. if e_now e - t0 > max 500 (3 * rl_latency r) then SLS_ERROR else 0) envs, r', W') \<and>
    staged r' = staged r"
  using assms
proof (induction envs arbitrary: r W)
  case (Cons env envs)
  have b: "blocked env" "list_all blocked envs" using Cons.prems(4) by auto
  obtain v r1 W1 V where h: "handler_write_data env r W = Some (v, r1, W1)" "role_backpressure (e_now env) 0 r V = (v, r1, W1)"
    using blocked_turn [OF Cons.prems(1) b(1)] by metis
  note k = backpressure_keeps [OF Cons.prems(1) h(2)]
  have v: "v = (if e_now env - t0 > max 500 (3 * rl_latency r) then SLS_ERROR else 0)" "rl_backpressure_stuck_since_ms r1 = t0"
    using h(2) Cons.prems(2,3) by (auto simp: role_backpressure_def Let_def backpressure_stuck_timeout_ms_def split: if_splits)
  show ?case using Cons.IH [OF _ v(2) Cons.prems(3) b(2), of W1] k h(1) v(1) by auto
qed auto

text \<open>C21. A viewer that stops draining is dropped, and not too early: when every write of its turns is refused for lack of
  buffer space, a turn fails exactly when more than the stuck timeout (three times the latency, at least half a
  second) has passed since the first refused turn; no staged byte is lost or resent meanwhile.\<close>

theorem stuck_viewer_dropped:
  assumes "sending r" "rl_backpressure_stuck_since_ms r = 0" "e_now env \<noteq> 0" "list_all blocked (env # envs)"
  shows "\<exists>r' W'. write_turns (env # envs) r W =
      Some (0 # map (\<lambda>e. if e_now e - e_now env > max 500 (3 * rl_latency r) then SLS_ERROR else 0) envs, r', W') \<and> staged r' = staged r"
proof -
  have b: "blocked env" "list_all blocked envs" using assms(4) by auto
  obtain v r1 W1 V where h: "handler_write_data env r W = Some (v, r1, W1)" "role_backpressure (e_now env) 0 r V = (v, r1, W1)"
    using blocked_turn [OF assms(1) b(1)] by metis
  note k = backpressure_keeps [OF assms(1) h(2)]
  have v: "v = 0" "rl_backpressure_stuck_since_ms r1 = e_now env"
    using h(2) assms(2) by (auto simp: role_backpressure_def Let_def split: if_splits)
  show ?thesis using stuck_turns [OF _ v(2) assms(3) b(2), of W1] k h(1) v(1) by auto
qed

section \<open>Witnesses\<close>

text \<open>A publisher that waits for the first request, and one that has just been accepted.\<close>

definition waiting_role :: CSLSRole where
  "waiting_role = (live_role Publisher_role)\<lparr> rl_http_passed := False, rl_http_future := Some 0, rl_http_auth_deadline_ms := 4001 \<rparr>"

definition fresh_role :: CSLSRole where
  "fresh_role = (live_role Publisher_role)\<lparr> rl_http_url := ''http://h/auth'', rl_http_passed := False \<rparr>"

lemma live_env_late: "late_only T (live_env t d)"
  by (simp add: late_only_def live_env_def)

theorem closed_gate_stores_nothing_witness:
  "\<exists>r' W'. pub_run [Read_turn (live_env 1 (replicate 1316 5)), Tick_turn (live_env 9000 []), Read_turn (live_env 9001 (replicate 188 5))]
     waiting_role live_world = Some (r', W') \<and> \<not> rl_http_passed r' \<and> w_data W' = w_data live_world"
  using closed_gate_stores_nothing [of waiting_role 4001
    "[Read_turn (live_env 1 (replicate 1316 5)), Tick_turn (live_env 9000 []), Read_turn (live_env 9001 (replicate 188 5))]" live_world]
  by (auto simp: gated_def waits_until_def waiting_role_def live_role_def role_new_def live_env_late simp del: pub_run.simps)

theorem gate_decides_by_deadline_witness:
  "\<exists>ret r1 W1 r' W'. on_connect (live_env 1 []) fresh_role live_world = (ret, r1, W1) \<and>
     pub_run [Read_turn (live_env 2000 (replicate 1316 5)), Tick_turn (live_env 4001 [])] r1 W1 = Some (r', W') \<and> rl_srt r' = None"
proof -
  obtain ret r1 W1 where c: "on_connect (live_env 1 []) fresh_role live_world = (ret, r1, W1)"
    by (cases "on_connect (live_env 1 []) fresh_role live_world") auto
  have n: "e_now (live_env a b) = a" for a b by (simp add: live_env_def)
  have "\<exists>r' W'. pub_run ([Read_turn (live_env 2000 (replicate 1316 5))] @ [Tick_turn (live_env 4001 [])]) r1 W1 = Some (r', W') \<and>
      rl_state r' = SLS_RS_INVALID \<and> rl_srt r' = None"
    by (rule gate_decides_by_deadline [OF _ _ _ c])
      (simp_all add: gated_def fresh_role_def live_role_def role_new_def live_env_late n)
  thus ?thesis using c by fastforce
qed

text \<open>A webhook that accepts and names one destination.\<close>

definition hook_env :: role_env where
  "hook_env = (live_env 2 [])\<lparr> e_http := (\<lambda>i. Some \<lparr> resp_success = True, resp_status_code = 200, resp_body = ''{}'' \<rparr>),
     e_json := (\<lambda>s. Some (JObject [(''pushTargets'', JArray [JObject [(''url'', JString ''srt://h?streamid=x'')]])])),
     e_push := one_host public_addr \<rparr>"

definition hook_world :: "nat role_world" where
  "hook_world = live_world\<lparr> w_data := map_data_init, w_pub := snd (set_push_2_publisher ''a/x'' 1 map_publisher_new) \<rparr>"

definition hook_role :: CSLSRole where
  "hook_role = waiting_role\<lparr> rl_conf := Some [(''push_destination_max'', VInt 2)], rl_map_publisher := True, rl_role_list := True, rl_data := [] \<rparr>"


theorem stuck_viewer_dropped_witness:
  "\<exists>r' W'. write_turns (map (\<lambda>t. (live_env t [])\<lparr> e_write := (\<lambda>k. (-1, SRT_EASYNCSND)) \<rparr>) [10, 510, 511])
     ((live_role Player_role)\<lparr> rl_data_len := 1316 \<rparr>) live_world = Some ([0, 0, SLS_ERROR], r', W')"
  using stuck_viewer_dropped [of "(live_role Player_role)\<lparr> rl_data_len := 1316 \<rparr>" "(live_env 10 [])\<lparr> e_write := (\<lambda>k. (-1, SRT_EASYNCSND)) \<rparr>"
    "map (\<lambda>t. (live_env t [])\<lparr> e_write := (\<lambda>k. (-1, SRT_EASYNCSND)) \<rparr>) [510, 511]" live_world]
  by (auto simp: sending_def blocked_def egress_ok_def staged_def live_role_def role_new_def live_env_def DATA_BUFF_SIZE_def TS_UDP_LEN_def
      simp del: write_turns.simps)


end
