(* ===== verification/Relay_Handoff.thy ===== *)
theory Relay_Handoff
  imports Relay_Manager_Correct
begin

text \<open>What the relay managers do to the hand-off list: whatever they connect, they only append relays that did not
  exist before.\<close>

definition list_grows :: "role_id \<Rightarrow> role_id list \<Rightarrow> role_id \<Rightarrow> role_id list \<Rightarrow> bool" where
  "list_grows n l n' l' \<longleftrightarrow> n \<le> n' \<and> (\<exists>new. l' = l @ new \<and> distinct new \<and> set new \<subseteq> {n..<n'})"

abbreviation hands_off :: "('ca, 'z) relay_world_scheme \<Rightarrow> ('ca, 'z) relay_world_scheme \<Rightarrow> bool" where
  "hands_off W W' \<equiv> list_grows (w_next W) (w_roles W) (w_next W') (w_roles W')"

lemma list_grows_refl [simp]: "list_grows n l n l"
  by (simp add: list_grows_def)

lemma list_grows_trans: "list_grows a k b l \<Longrightarrow> list_grows b l c m \<Longrightarrow> list_grows a k c m"
proof -
  assume g: "list_grows a k b l" "list_grows b l c m"
  then obtain x y where "l = k @ x" "distinct x" "set x \<subseteq> {a..<b}" "m = l @ y" "distinct y" "set y \<subseteq> {b..<c}" "a \<le> b" "b \<le> c"
    by (auto simp: list_grows_def)
  thus ?thesis unfolding list_grows_def by (intro conjI exI [of _ "x @ y"]) fastforce+
qed

text \<open>A \<^verbatim>\<open>set_relay_param\<close> appends at most its relay.\<close>

definition param_ok ::
  "(role_id \<Rightarrow> 'z CSLSRelayManager_scheme \<Rightarrow> 'ca relay_world \<Rightarrow> (int \<times> 'z CSLSRelayManager_scheme \<times> 'ca relay_world) option) \<Rightarrow> bool" where
  "param_ok param \<longleftrightarrow> (\<forall>i M W ret M' W'. param i M W = Some (ret, M', W') \<longrightarrow>
     w_next W' = w_next W \<and> (w_roles W' = w_roles W \<or> w_roles W' = w_roles W @ [i]))"

lemma params_ok: "param_ok pusher_set_relay_param" "param_ok (puller_set_relay_param now)"
  unfolding param_ok_def
  by (auto simp: pusher_set_relay_param_def puller_set_relay_param_def update_relay_def role_push_def Let_def
      split: option.splits if_splits prod.splits bind_splits)

lemma connect_hands_off:
  assumes "param_ok param" "connect param env root url va M W = Some (ret, M', W')"
  shows "hands_off W W'"
proof (cases "url = []")
  case True
  thus ?thesis using assms(2) by (simp add: connect_def)
next
  case False
  let ?r0 = "case va of None \<Rightarrow> relay_new | Some a \<Rightarrow> set_vetted_addr a relay_new"
  obtain q r cs where o: "relay_open (env (w_next W)) root url ?r0 = Inr (q, r, cs)"
    using assms(2) False by (auto simp: connect_def Let_def split: sum.splits)
  show ?thesis
  proof (cases "q = SLS_OK")
    case False
    hence "W' = relay_uninit (w_next W) r (W\<lparr> w_next := Suc (w_next W), w_calls := w_calls W @ cs \<rparr>)"
      using assms(2) o \<open>url \<noteq> []\<close> by (auto simp: connect_def Let_def)
    thus ?thesis by (auto simp: list_grows_def relay_uninit_def)
  next
    case True
    obtain V p M2 W2 where p: "param (w_next W) M V = Some (p, M2, W2)" "w_next V = Suc (w_next W)" "w_roles V = w_roles W"
        "W' = (if p \<noteq> SLS_OK then relay_uninit (w_next W) r W2 else W2)"
      using assms(2) o \<open>url \<noteq> []\<close> True by (auto simp: connect_def Let_def bind_eq_Some_conv)
    have "w_next W2 = Suc (w_next W)" "w_roles W2 = w_roles W \<or> w_roles W2 = w_roles W @ [w_next W]"
      using assms(1) p(1-3) unfolding param_ok_def by metis+
    thus ?thesis using p(4) by (auto simp: list_grows_def relay_uninit_def)
  qed
qed

lemma connect_hash_hands_off:
  "param_ok param \<Longrightarrow> connect_hash param env root M W = Some (ret, M', W') \<Longrightarrow> hands_off W W'"
  using connect_hands_off by (fastforce simp: connect_hash_def Let_def split: if_splits option.splits)

lemma connect_all_loop_hands_off:
  "connect_all_loop env root now ups vetted ret all_ret M W = Some (r, M', W') \<Longrightarrow> hands_off W W'"
proof (induction ups arbitrary: vetted ret all_ret M W)
  case (Cons up ups)
  show ?case
  proof (cases "snprintf_fits 1024 (push_url up (m_stream_name M))")
    case None
    thus ?thesis using Cons by simp
  next
    case (Some szURL)
    then obtain ret1 M1 W1 where c: "push_connect env root szURL (case vetted of [] \<Rightarrow> None | a # _ \<Rightarrow> Some a) M W = Some (ret1, M1, W1)"
      using Cons.prems by (auto split: option.splits)
    thus ?thesis using Cons.prems Some Cons.IH connect_hands_off [OF params_ok(1) c] list_grows_trans by auto
  qed
qed simp

lemma pusher_start_hands_off: "pusher_start env root now M W = Some (ret, M', W') \<Longrightarrow> hands_off W W'"
  using connect_all_loop_hands_off connect_hash_hands_off [OF params_ok(1)]
  by (auto simp: pusher_start_def connect_all_def split: option.splits if_splits SLS_PULL_MODE.splits)

lemma reconnect_all_loop_hands_off:
  "reconnect_all_loop env root now interval no_pub es ret all_ret M W = Some (r, kept, M', W') \<Longrightarrow> hands_off W W'"
proof (induction es arbitrary: ret all_ret M W r kept)
  case (Cons e es)
  obtain url t where e: "e = (url, t)" by fastforce
  show ?case
  proof (cases "now - t < interval * 1000 \<or> no_pub")
    case True
    thus ?thesis using Cons e by (auto split: if_splits)
  next
    case False
    then obtain ret1 M1 W1 where c: "push_connect env root url None M W = Some (ret1, M1, W1)"
      using Cons.prems e by (auto split: option.splits)
    thus ?thesis using Cons.prems e False Cons.IH connect_hands_off [OF params_ok(1) c] list_grows_trans by fastforce
  qed
qed simp

lemma pusher_reconnect_hands_off: "pusher_reconnect env root now M W = Some (ret, M', W') \<Longrightarrow> hands_off W W'"
  using reconnect_all_loop_hands_off connect_hash_hands_off [OF params_ok(1)]
  by (auto simp: pusher_reconnect_def reconnect_all_def Let_def split: option.splits if_splits SLS_PULL_MODE.splits)

lemma connect_loop_from_hands_off:
  assumes "connect_loop_from now env root ups index M W = Some (ret, M', W')"
  shows "hands_off W W'"
proof -
  have "hands_off W (snd (snd (ret, M', W')))"
  proof (rule connect_loop_from.raw_induct [where P = "\<lambda>now env root ups index M W y. hands_off W (snd (snd y))", OF _ assms])
    fix f :: "time_ms \<Rightarrow> (role_id \<Rightarrow> srt_env) \<Rightarrow> conf_vars option \<Rightarrow> string list \<Rightarrow> int \<Rightarrow> puller_manager \<Rightarrow> 'a relay_world \<Rightarrow>
        (int \<times> puller_manager \<times> 'a relay_world) option"
    fix now env root ups index0 M W y
    assume ih: "\<And>now env root ups index M W y. f now env root ups index M W = Some y \<Longrightarrow> hands_off W (snd (snd y))"
    assume e: "(let index = if int (length ups) \<le> index0 then 0 else index0
        in if index < 0 \<or> int (length ups) \<le> index then None
           else case snprintf_fits 2048 (upstream_url (ups ! nat index) (m_stream_name M)) of None \<Rightarrow> Some (SLS_ERROR, M, W)
             | Some szURL \<Rightarrow> pull_connect now env root szURL None M W \<bind>
                 (\<lambda>(ret, M1, W1). if ret = SLS_OK \<or> index = m_cur_loop_index M then Some (ret, M1\<lparr> m_cur_loop_index := index \<rparr>, W1)
                    else f now env root ups (index + 1) M1 W1)) = Some y"
    define index where "index = (if int (length ups) \<le> index0 then 0 else index0)"
    note e = e [folded index_def, unfolded Let_def]
    show "hands_off W (snd (snd y))"
    proof (cases "snprintf_fits 2048 (upstream_url (ups ! nat index) (m_stream_name M))")
      case None
      thus ?thesis using e by (auto split: if_splits)
    next
      case (Some szURL)
      then obtain ret M1 W1 where c: "pull_connect now env root szURL None M W = Some (ret, M1, W1)"
        using e by (auto simp: index_def [symmetric] split: if_splits bind_splits)
      note g = connect_hands_off [OF params_ok(2) c]
      have "y = (ret, M1\<lparr> m_cur_loop_index := index \<rparr>, W1) \<or> f now env root ups (index + 1) M1 W1 = Some y"
        using e Some c by (auto split: if_splits)
      thus ?thesis
      proof
        assume "f now env root ups (index + 1) M1 W1 = Some y"
        thus ?thesis using list_grows_trans [OF g ih] by blast
      qed (use g in simp)
    qed
  qed
  thus ?thesis by simp
qed

lemma puller_reconnect_hands_off: "puller_reconnect env root now M W = Some (ret, M', W') \<Longrightarrow> hands_off W W'"
proof -
  have s: "hands_off W V" if "puller_start now env root N W = Some (r, N', V)" for N r N' V
    using that connect_loop_from_hands_off connect_hash_hands_off [OF params_ok(2)]
    by (auto simp: puller_start_def connect_loop_def Let_def split: option.splits if_splits SLS_PULL_MODE.splits)
  thus "puller_reconnect env root now M W = Some (ret, M', W') \<Longrightarrow> hands_off W W'"
    by (auto simp: puller_reconnect_def Let_def split: option.splits if_splits)
qed

lemma check_reconnect_hands_off:
  "check_reconnect_relay env root now hs ms W = Some (q, ms', W') \<Longrightarrow> hands_off W W' \<and> (distinct hs \<longrightarrow> distinct q) \<and> set q \<subseteq> set hs"
proof (induction hs arbitrary: ms W q)
  case (Cons h hs)
  show ?case
  proof (cases "ms h")
    case None
    thus ?thesis using Cons by fastforce
  next
    case (Some m)
    obtain r m1 W1 where s: "(case m of Pusher p \<Rightarrow> map_option (\<lambda>(r, q, w). (r, Pusher q, w)) (pusher_reconnect env root now p W)
        | Puller p \<Rightarrow> map_option (\<lambda>(r, q, w). (r, Puller q, w)) (puller_reconnect env root now p W)) = Some (r, m1, W1)"
      using Cons.prems Some by (auto split: option.splits)
    have g: "hands_off W W1" using s pusher_reconnect_hands_off puller_reconnect_hands_off by (auto split: relay_manager.splits)
    obtain q1 where q1: "check_reconnect_relay env root now hs (ms(h \<mapsto> m1)) W1 = Some (q1, ms', W')" "q = (if r \<noteq> SLS_OK then h # q1 else q1)"
      using Cons.prems Some s by auto
    have i: "hands_off W1 W' \<and> (distinct hs \<longrightarrow> distinct q1) \<and> set q1 \<subseteq> set hs" by (rule Cons.IH [OF q1(1)])
    show ?thesis using list_grows_trans [OF g, of "w_next W'" "w_roles W'"] i q1(2) by auto
  qed
qed simp

end
