(* ===== verification/Role_Socket.thy ===== *)
theory Role_Socket
  imports Role_Gate Relay_Handoff
begin

text \<open>The socket of a role over any sequence of the calls a worker makes: it is released once, and not used afterwards.\<close>

section \<open>What a call does to the socket\<close>

text \<open>Calls on the socket \<open>fd\<close> that leave it open, and calls that use no socket.\<close>

definition uses :: "int \<Rightarrow> role_call \<Rightarrow> bool" where
  "uses fd c \<longleftrightarrow> (case c of Subscribe e f b \<Rightarrow> f = fd | Unsubscribe e f \<Rightarrow> f = fd | Arm_out f b \<Rightarrow> f = fd | Send f d n \<Rightarrow> f = fd
     | Close_sock f \<Rightarrow> False | Post u \<Rightarrow> True)"

definition no_sock :: "role_call \<Rightarrow> bool" where
  "no_sock c \<longleftrightarrow> (case c of Post u \<Rightarrow> True | _ \<Rightarrow> False)"

text \<open>The calls of a role whose socket was \<open>fd\<close> and is \<open>fd'\<close> now.\<close>

definition sock_calls :: "int option \<Rightarrow> int option \<Rightarrow> role_call list \<Rightarrow> bool" where
  "sock_calls fd fd' cs \<longleftrightarrow>
     (case fd of
        None \<Rightarrow> fd' = None \<and> list_all no_sock cs
      | Some f \<Rightarrow>
          (case fd' of
             Some f' \<Rightarrow> f' = f \<and> list_all (uses f) cs
           | None \<Rightarrow> (\<exists>as bs. cs = as @ Close_sock f # bs \<and> list_all (uses f) as \<and> list_all no_sock bs)))"

definition fd_of :: "CSLSRole \<Rightarrow> int option" where
  "fd_of r = map_option s_fd (rl_srt r)"

definition sock_step :: "CSLSRole \<Rightarrow> 'ca role_world \<Rightarrow> CSLSRole \<Rightarrow> 'ca role_world \<Rightarrow> bool" where
  "sock_step r W r' W' \<longleftrightarrow>
     hands_off W W' \<and> (fd_of r = Some 0 \<or> (\<exists>cs. rw_trace W' = rw_trace W @ cs \<and> sock_calls (fd_of r) (fd_of r') cs))"

abbreviation same_list :: "'ca role_world \<Rightarrow> 'ca role_world \<Rightarrow> bool" where
  "same_list W W' \<equiv> w_next W' = w_next W \<and> w_roles W' = w_roles W"

lemma no_sock_uses: "no_sock c \<Longrightarrow> uses fd c"
  by (auto simp: no_sock_def uses_def split: role_call.splits)

lemma sock_calls_append:
  assumes "sock_calls a b cs" "sock_calls b c ds"
  shows "sock_calls a c (cs @ ds)"
proof (cases a)
  case None
  thus ?thesis using assms by (auto simp: sock_calls_def)
next
  case (Some f)
  show ?thesis
  proof (cases b)
    case None
    obtain as bs where "cs = as @ Close_sock f # bs" "list_all (uses f) as" "list_all no_sock bs" using assms(1) Some None by (auto simp: sock_calls_def)
    moreover have "c = None" "list_all no_sock ds" using assms(2) None by (auto simp: sock_calls_def)
    ultimately show ?thesis unfolding sock_calls_def Some
      by (simp, intro exI [of _ as] exI [of _ "bs @ ds"]) simp
  next
    case (Some g)
    have g: "g = f" "list_all (uses f) cs" using assms(1) \<open>a = Some f\<close> Some by (auto simp: sock_calls_def)
    show ?thesis
    proof (cases c)
      case None
      obtain as bs where "ds = as @ Close_sock f # bs" "list_all (uses f) as" "list_all no_sock bs"
        using assms(2) Some None g by (auto simp: sock_calls_def)
      thus ?thesis using g None \<open>a = Some f\<close> unfolding sock_calls_def
        by (simp, intro exI [of _ "cs @ as"] exI [of _ bs]) simp
    next
      case (Some h)
      thus ?thesis using assms(2) g \<open>a = Some f\<close> \<open>b = Some g\<close> by (auto simp: sock_calls_def)
    qed
  qed
qed

lemma sock_step_refl: "sock_step r W r W"
  by (auto simp: sock_step_def sock_calls_def split: option.splits intro!: exI [of _ "[]"])

lemma sock_step_trans: "sock_step r W r1 W1 \<Longrightarrow> sock_step r1 W1 r2 W2 \<Longrightarrow> sock_step r W r2 W2"
proof -
  assume s: "sock_step r W r1 W1" "sock_step r1 W1 r2 W2"
  have "fd_of r = Some 0" if "sock_calls (fd_of r) (fd_of r1) cs" "fd_of r1 = Some 0" for cs
    using that by (auto simp: sock_calls_def split: option.splits)
  moreover have "hands_off W W2" using s list_grows_trans by (auto simp: sock_step_def)
  ultimately show ?thesis using s sock_calls_append unfolding sock_step_def by fastforce
qed

lemma sock_step_change: "fd_of s = fd_of r \<Longrightarrow> rw_trace V = rw_trace W \<Longrightarrow> same_list V W \<Longrightarrow> sock_step s V r' W' \<Longrightarrow> sock_step r W r' W'"
  by (simp add: sock_step_def)

text \<open>Steps that keep the socket: by the calls they make.\<close>

lemma sock_step_same:
  "fd_of r' = fd_of r \<Longrightarrow> rw_trace W' = rw_trace W \<Longrightarrow> same_list W W' \<Longrightarrow> sock_step r W r' W'"
  "fd_of r' = fd_of r \<Longrightarrow> rw_trace W' = rw_trace W @ [c] \<Longrightarrow> no_sock c \<Longrightarrow> same_list W W' \<Longrightarrow> sock_step r W r' W'"
  "fd_of r' = fd_of r \<Longrightarrow> fd_of r = Some f \<Longrightarrow> rw_trace W' = rw_trace W @ [c] \<Longrightarrow> uses f c \<Longrightarrow> same_list W W' \<Longrightarrow> sock_step r W r' W'"
  using no_sock_uses by (auto simp: sock_step_def sock_calls_def split: option.splits intro!: exI [of _ "[]"] exI [of _ "[c]"])

section \<open>Teardown\<close>

lemma fd_of_frame: "fd_of (snd (get_streamid env r)) = fd_of r" "fd_of (learn_peer env r) = fd_of r"
  by (auto simp: fd_of_def get_streamid_def learn_peer_def split: option.split)

lemma on_close_sock: "on_close env r W = Some (ret, r', W') \<Longrightarrow> fd_of r = None \<Longrightarrow>
    fd_of r' = None \<and> (\<exists>cs. rw_trace W' = rw_trace W @ cs \<and> list_all no_sock cs) \<and> same_list W W'"
  by (auto simp: on_close_def fd_of_def get_streamid_def learn_peer_def post_async_def no_sock_def split: if_splits option.splits prod.splits)

lemma invalid_srt_sock:
  assumes "invalid_srt env r W = Some (r', W')"
  shows "sock_step r W r' W'"
proof (cases "rl_srt r")
  case None
  thus ?thesis using assms sock_step_refl by (simp add: invalid_srt_def)
next
  case (Some s)
  let ?W = "close_snapshot r (role_calls (libsrt_remove_from_epoll s @ libsrt_close s) W)"
  obtain ret where c: "on_close env (r\<lparr> rl_srt := None \<rparr>) ?W = Some (ret, r', W')"
    using assms Some by (auto simp: invalid_srt_def Let_def split: option.splits)
  obtain cs where cs: "fd_of r' = None" "rw_trace W' = rw_trace ?W @ cs" "list_all no_sock cs" "same_list ?W W'"
    using on_close_sock [OF c] by (auto simp: fd_of_def)
  have t: "rw_trace ?W = rw_trace W @ libsrt_remove_from_epoll s @ libsrt_close s" "same_list W ?W"
    by (simp_all add: close_snapshot_def role_calls_def split: option.split)
  have "sock_calls (Some (s_fd s)) None (libsrt_remove_from_epoll s @ libsrt_close s @ cs)" if "s_fd s \<noteq> 0"
    using that cs(3) unfolding sock_calls_def
    by (simp, intro exI [of _ "libsrt_remove_from_epoll s"] exI [of _ cs]) (simp add: libsrt_remove_from_epoll_def libsrt_close_def uses_def)
  thus ?thesis using cs t Some unfolding sock_step_def by (auto simp: fd_of_def)
qed

lemma mark_invalid_sock: "mark_invalid env r W = Some (r', W') \<Longrightarrow> sock_step r W r' W'"
  unfolding mark_invalid_def by (rule sock_step_change [OF _ _ _ invalid_srt_sock]) (auto simp: fd_of_def)

lemma base_uninit_sock:
  assumes "base_uninit env r W = Some (r', W')"
  shows "sock_step r W r' W'"
proof -
  let ?r = "r\<lparr> rl_http_future := None, rl_http_auth_deadline_ms := 0 \<rparr>"
  show ?thesis
    using assms sock_step_change [OF _ refl conjI [OF refl refl] invalid_srt_sock, of "?r\<lparr> rl_state := SLS_RS_UNINIT \<rparr>" r env W r' W']
      sock_step_same(1) [of ?r r W W]
    by (auto simp: base_uninit_def Let_def fd_of_def split: if_splits)
qed

lemma cache_refusal_sock: "cache_refusal env resp r W = Some (r', W') \<Longrightarrow> sock_step r W r' W'"
  by (rule sock_step_same(1)) (auto simp: cache_refusal_def fd_of_def get_streamid_def split: if_splits option.splits)

lemma gate_sock:
  assumes "check_http_passed env r W = Some (ret, r', W')"
  shows "sock_step r W r' W'"
  using assms
proof (cases rule: gate_cases)
  case (expired r1)
  thus ?thesis using sock_step_change [OF _ _ _ mark_invalid_sock [OF expired(8)]] by (simp add: fd_of_def)
next
  case (refused i resp r2 W2)
  have "sock_step r W r2 W2" by (rule sock_step_change [OF _ _ _ cache_refusal_sock [OF refused(8)]]) (simp_all add: fd_of_def)
  thus ?thesis using invalid_srt_sock [OF refused(7)] sock_step_trans by blast
next
  case (granted i resp)
  thus ?thesis by (intro sock_step_same(1)) (simp_all add: fd_of_def harvest_quiet(3))
qed (simp_all add: sock_step_refl)

lemma get_state_sock: "get_state env cur r W = Some (st, r', W') \<Longrightarrow> sock_step r W r' W'"
  using mark_invalid_sock sock_step_refl by (auto simp: get_state_def split: if_splits)

lemma role_close_sock: "role_close r W = (r', W') \<Longrightarrow> sock_step r W r' W'"
proof -
  assume c: "role_close r W = (r', W')"
  have "sock_calls (Some (s_fd s)) None (libsrt_remove_from_epoll s @ libsrt_close s)" if "s_fd s \<noteq> 0" for s
    using that unfolding sock_calls_def
    by (simp, intro exI [of _ "libsrt_remove_from_epoll s"] exI [of _ "[]"]) (simp add: libsrt_remove_from_epoll_def libsrt_close_def uses_def)
  moreover have "sock_calls None None []" by (simp add: sock_calls_def)
  ultimately show ?thesis using c by (auto simp: role_close_def sock_step_def role_calls_def fd_of_def split: option.splits)
qed

section \<open>Data\<close>

lemma account_sock: "fd_of (account_bitrate now n d r) = fd_of r" "fd_of (snd (role_limit now n r)) = fd_of r"
  by (simp_all add: fd_of_def account_bitrate_def role_limit_def Let_def split: option.split prod.split)

lemma store_sock:
  assumes "role_store env d n r W = Some (ret, t, r', W')"
  shows "sock_step r W r' W'"
proof -
  obtain ok r1 W1 where e: "ensure_ring env r W = Some (ok, r1, W1)" using assms by (auto simp: role_store_def split: bind_splits)
  have 1: "fd_of r1 = fd_of r" "rw_trace W1 = rw_trace W" "same_list W1 W"
    using e by (auto simp: ensure_ring_def on_map_data_set_def Let_def fd_of_def split: if_splits bind_splits option.splits)
  show ?thesis
  proof (cases ok)
    case True
    thus ?thesis using assms e 1 by (intro sock_step_same(1)) (auto simp: role_store_def split: bind_splits)
  next
    case False
    then obtain r2 W2 where i: "invalid_srt env r1 W1 = Some (r2, W2)" "r' = r2" "W' = W2"
      using assms e by (auto simp: role_store_def split: bind_splits)
    thus ?thesis using sock_step_change [OF 1 invalid_srt_sock [OF i(1)]] by simp
  qed
qed

lemma read_sock:
  assumes "handler_read_data env r W = Some (ret, t, r', W')"
  shows "sock_step r W r' W'"
proof -
  obtain p r0 W0 where g: "check_http_passed env r W = Some (p, r0, W0)"
    using assms by (auto simp: handler_read_data_def split: bind_splits)
  obtain n szData err where rd: "e_read env = (n, szData, err)" by (cases "e_read env") auto
  define r1 where "r1 = r0\<lparr> rl_invalid_begin_tm := e_now env, rl_last_recv_data_tm := e_now env \<rparr>"
  obtain res r2 where l: "role_limit (e_now env) n r1 = (res, r2)" by fastforce
  define r3 where "r3 = account_bitrate (e_now env) n (e_now env - rl_stat_bitrate_last_tm r2) r2"
  have f: "fd_of r2 = fd_of r0" "fd_of r3 = fd_of r0"
    using account_sock(2) [of "e_now env" n r1] account_sock(1) l by (simp_all add: r3_def r1_def fd_of_def)
  note e = assms [unfolded handler_read_data_def g bind.bind_lunit prod.case rd Let_def, folded r1_def, unfolded l prod.case, folded r3_def]
  have "sock_step r0 W0 r' W'"
    using e sock_step_refl sock_step_same(1) [OF f(2), of W0 W0] sock_step_change [OF f(1) refl conjI [OF refl refl] invalid_srt_sock]
      sock_step_change [OF f(2) refl conjI [OF refl refl] store_sock] invalid_srt_sock
    by (auto split: if_splits bind_splits)
  thus ?thesis using gate_sock [OF g] sock_step_trans by blast
qed

lemma send_loop_sock:
  "send_loop env k ws r W = Some (ex, k', ws', r', W') \<Longrightarrow> sock_step r W r' W'"
proof (induction env k ws r W rule: send_loop.induct)
  case (1 env k ws r W)
  show ?case
  proof (cases "rl_data_len r - rl_data_pos r < TS_UDP_LEN \<or> rl_srt r = None")
    case True
    thus ?thesis using 1(2) sock_step_refl by (subst (asm) send_loop.simps) (auto split: if_splits)
  next
    case False
    then obtain s where s: "rl_srt r = Some s" "\<not> rl_data_len r - rl_data_pos r < TS_UDP_LEN" by auto
    obtain chunk where c: "staged_chunk r = Some chunk" using 1(2) s by (subst (asm) send_loop.simps) (auto split: option.splits)
    obtain ret err where w: "e_write env k = (ret, err)" by fastforce
    let ?W = "role_calls [Send (s_fd s) chunk ret] W"
    have st: "sock_step r W x ?W" if "fd_of x = fd_of r" for x
      using sock_step_same(3) [of x r "s_fd s" ?W W "Send (s_fd s) chunk ret"] that s(1) by (simp add: fd_of_def uses_def role_calls_def)
    have b: "sock_step r W x V" if "role_backpressure now ws r ?W = (v, x, V)" for now v x V
      using st [of x] that sock_step_trans [of r W x ?W x V] sock_step_same(1) [of x x V ?W]
      by (auto simp: role_backpressure_def Let_def fd_of_def split: if_splits)
    show ?thesis
    proof (cases "ret < TS_UDP_LEN")
      case True
      thus ?thesis using 1(2) s c w st [of r] b
        by (subst (asm) send_loop.simps) (auto simp: Let_def split: if_splits prod.splits)
    next
      case full: False
      let ?r = "r\<lparr> rl_data_pos := rl_data_pos r + TS_UDP_LEN, rl_backpressure_stuck_since_ms := 0 \<rparr>"
      have "send_loop env (Suc k) (ws + TS_UDP_LEN) ?r ?W = Some (ex, k', ws', r', W')"
        using 1(2) s c w full by (subst (asm) send_loop.simps) (simp add: Let_def)
      hence "sock_step ?r ?W r' W'" by (rule "1.IH" [OF s(2,1) c w [symmetric] refl full])
      thus ?thesis using st [of ?r] sock_step_trans by (fastforce simp: fd_of_def)
    qed
  qed
qed

lemma fetch_sock: "fetch_batch env r W = Some (go, r', W') \<Longrightarrow> sock_step r W r' W'"
  by (rule sock_step_same(1))
    (auto simp: fetch_batch_def Let_def account_sock fd_of_def account_bitrate_def split: if_splits bind_splits option.splits)

lemma batch_sock: "batch_loop n env k ws r W = Some (ret, r', W') \<Longrightarrow> sock_step r W r' W'"
proof (induction n arbitrary: k ws r W)
  case 0
  thus ?case using sock_step_refl by simp
next
  case (Suc n)
  show ?case
  proof (cases "rl_srt r = None")
    case True
    thus ?thesis using Suc.prems sock_step_refl by simp
  next
    case False
    then obtain go r1 W1 where f: "fetch_batch env r W = Some (go, r1, W1)" using Suc.prems by (auto split: option.splits)
    note s1 = fetch_sock [OF f]
    show ?thesis
    proof (cases go)
      case False
      thus ?thesis using Suc.prems \<open>rl_srt r \<noteq> None\<close> f s1 by simp
    next
      case True
      then obtain ex k2 ws2 r2 W2 where l: "send_loop env k ws r1 W1 = Some (ex, k2, ws2, r2, W2)"
        using Suc.prems \<open>rl_srt r \<noteq> None\<close> f by (auto split: option.splits)
      have s2: "sock_step r W r2 W2" using s1 send_loop_sock [OF l] sock_step_trans by blast
      have "sock_step r2 W2 r' W'" if "batch_loop n env k2 ws2 (r2\<lparr> rl_data_pos := 0, rl_data_len := 0 \<rparr>) W2 = Some (ret, r', W')"
        by (rule sock_step_change [OF _ refl conjI [OF refl refl] Suc.IH [OF that]]) (simp add: fd_of_def)
      thus ?thesis using Suc.prems \<open>rl_srt r \<noteq> None\<close> f True l s2 sock_step_trans
        by (auto split: send_exit.splits if_splits)
    qed
  qed
qed

lemma write_sock:
  assumes "handler_write_data env r W = Some (ret, r', W')"
  shows "sock_step r W r' W'"
proof -
  obtain p r0 W0 where g: "check_http_passed env r W = Some (p, r0, W0)"
    using assms by (auto simp: handler_write_data_def split: bind_splits)
  have "sock_step r0 W0 r' W'" using assms g sock_step_refl batch_sock by (auto simp: handler_write_data_def split: if_splits)
  thus ?thesis using gate_sock [OF g] sock_step_trans by blast
qed

lemma sample_sock: "sample_viewer_snd_drops env r W = (r', W') \<Longrightarrow> sock_step r W r' W'"
  by (rule sock_step_same(1))
    (auto simp: sample_viewer_snd_drops_def Let_def fd_of_def role_get_statistics_def split: if_splits option.splits)

lemma arming_sock: "update_egress_arming env r W = (r', W') \<Longrightarrow> sock_step r W r' W'"
proof -
  have "sock_step r W x V" if "set_epoll_out env b r W = (ret, x, V)" for b ret x V
  proof (cases "rl_srt r")
    case None
    thus ?thesis using that sock_step_refl by (simp add: set_epoll_out_def)
  next
    case (Some s)
    have "sock_step r W y (role_calls [Arm_out (s_fd s) b] W)" if "fd_of y = fd_of r" for y
      using sock_step_same(3) [of y r "s_fd s" _ W "Arm_out (s_fd s) b"] that Some by (simp add: fd_of_def uses_def role_calls_def)
    from this [of r] this [of "r\<lparr> rl_epoll_out_armed := b \<rparr>"] show ?thesis using that Some sock_step_refl
      by (auto simp: set_epoll_out_def Let_def fd_of_def split: if_splits)
  qed
  thus "update_egress_arming env r W = (r', W') \<Longrightarrow> sock_step r W r' W'" using sock_step_refl
    by (auto simp: update_egress_arming_def split: if_splits prod.splits)
qed

lemma add_to_epoll_sock: "add_to_epoll env eid r W = (ret, r', W') \<Longrightarrow> sock_step r W r' W'"
  by (auto simp: add_to_epoll_def libsrt_add_to_epoll_def role_calls_def sock_step_def sock_calls_def fd_of_def uses_def Let_def
      split: option.splits if_splits prod.splits)

section \<open>The classes\<close>

lemma relays_sock:
  assumes "on_relays f W = Some (x, W')"
  obtains V V' where "f V = Some (x, V')" "rw_trace W' = rw_trace W" "w_next V = w_next W" "w_roles V = w_roles W"
    "w_next V' = w_next W'" "w_roles V' = w_roles W'"
  using assms by (cases W) (auto simp: on_relays_def relay_world.defs)

lemma spawn_sock:
  assumes "try_spawn_dynamic_pusher env r W = Some (r', W')"
  shows "sock_step r (W :: 'a role_world) r' W'"
proof (cases "W' = W \<and> fd_of r' = fd_of r")
  case True
  thus ?thesis by (intro sock_step_same(1)) auto
next
  case False
  let ?f = "\<lambda>V :: 'a relay_world. map_option (\<lambda>(ret, M, V1). (M, V1)) (pusher_start (e_relay env) (e_root env) (e_now env) (dynamic_manager r) V)"
  obtain M where m: "on_relays ?f W = Some (M, W')" "fd_of r' = fd_of r"
    using assms False by (auto simp: try_spawn_dynamic_pusher_def drop_push_urls_def fd_of_def split: if_splits option.splits)
  obtain V V' where v: "?f V = Some (M, V')" "rw_trace W' = rw_trace W" "w_next V = w_next W" "w_roles V = w_roles W"
      "w_next V' = w_next W'" "w_roles V' = w_roles W'" by (rule relays_sock [OF m(1)])
  have "hands_off V V'" using v(1) pusher_start_hands_off by auto
  thus ?thesis using v m(2) sock_step_same(1) [of r' r W W] unfolding sock_step_def by simp
qed

lemma handler_sock:
  assumes "role_handler env r W = Some (ret, r', W')"
  shows "sock_step r W r' W'"
proof (cases "rl_kind r")
  case Publisher_role
  obtain t r1 W1 where h: "handler_read_data env r W = Some (ret, t, r1, W1)"
    using assms Publisher_role by (auto simp: role_handler_def publisher_handler_def split: bind_splits if_splits)
  have "sock_step r1 W1 r' W'" using assms Publisher_role h sock_step_refl spawn_sock
    by (auto simp: role_handler_def publisher_handler_def split: bind_splits if_splits)
  thus ?thesis using read_sock [OF h] sock_step_trans by blast
next
  case Player_role
  obtain r1 W1 where s: "sample_viewer_snd_drops env r W = (r1, W1)" by fastforce
  hence "handler_write_data env r1 W1 = Some (ret, r', W')" using assms Player_role by (simp add: role_handler_def player_handler_def)
  thus ?thesis using sample_sock [OF s] write_sock sock_step_trans by blast
next
  case Pusher_role
  thus ?thesis using assms write_sock sock_step_refl by (auto simp: role_handler_def pusher_handler_def Let_def split: if_splits)
next
  case Puller_role
  obtain v t r1 W1 where h: "handler_read_data env r W = Some (v, t, r1, W1)"
    using assms Puller_role by (auto simp: role_handler_def puller_handler_def split: bind_splits)
  have "sock_step r1 W1 r' W'" using assms Puller_role h sock_step_refl mark_invalid_sock
    by (auto simp: role_handler_def puller_handler_def Let_def split: bind_splits if_splits)
  thus ?thesis using read_sock [OF h] sock_step_trans by blast
qed

lemma uninit_sock:
  assumes "role_uninit env r W = Some (r', W')"
  shows "sock_step r W r' W'"
proof (cases "rl_kind r")
  case Publisher_role
  obtain r1 W1 where d: "detach_dynamic r W = Some (r1, W1)" "base_uninit env (r1\<lparr> rl_dynamic_pusher_manager := None \<rparr>) (publisher_leave r1 W1) = Some (r', W')"
    using assms Publisher_role by (auto simp: role_uninit_def publisher_uninit_def split: bind_splits)
  have "fd_of r1 = fd_of r \<and> rw_trace W1 = rw_trace W \<and> same_list W1 W"
  proof (cases "rl_dynamic_pusher_manager r")
    case None
    thus ?thesis using d(1) by (simp add: detach_dynamic_def)
  next
    case (Some M)
    then obtain M1 where m: "on_relays (\<lambda>V. Some (detach_child_relays M V)) W = Some (M1, W1)" "fd_of r1 = fd_of r"
      using d(1) by (auto simp: detach_dynamic_def fd_of_def)
    have dl: "w_next (detach_loop cs V) = w_next V \<and> w_roles (detach_loop cs V) = w_roles V" for cs and V :: "'a relay_world"
      by (induction cs arbitrary: V) (auto simp: update_relay_def split: option.splits)
    from m(1) show ?thesis using dl m(2) by (elim relays_sock) (auto simp: detach_child_relays_def)
  qed
  moreover have "rw_trace (publisher_leave r1 W1) = rw_trace W1" "same_list (publisher_leave r1 W1) W1" by (simp_all add: publisher_leave_def Let_def)
  ultimately show ?thesis using sock_step_change [OF _ _ _ base_uninit_sock [OF d(2)], of r W] by (simp add: fd_of_def)
next
  case Puller_role
  hence "base_uninit env r (puller_leave r W) = Some (r', W')" using assms by (simp add: role_uninit_def)
  from sock_step_change [OF refl _ _ base_uninit_sock [OF this]] show ?thesis by (simp add: puller_leave_def Let_def)
qed (use assms base_uninit_sock in \<open>simp_all add: role_uninit_def\<close>)

lemma tick_sock: "on_worker_tick env r W = Some (r', W') \<Longrightarrow> sock_step r W r' W'"
  using gate_sock sock_step_refl by (auto simp: on_worker_tick_def split: if_splits)

section \<open>A role's life\<close>

text \<open>The calls a worker makes on a role it holds.\<close>

datatype role_op = Handle role_env | Tick role_env | Arm role_env | State role_env time_ms | Mark role_env | Uninit role_env | Shut

fun role_do :: "role_op \<Rightarrow> CSLSRole \<Rightarrow> 'ca role_world \<Rightarrow> (CSLSRole \<times> 'ca role_world) option" where
  "role_do (Handle env) r W = map_option (\<lambda>(ret, r1, W1). (r1, W1)) (role_handler env r W)"
| "role_do (Tick env) r W = on_worker_tick env r W"
| "role_do (Arm env) r W = Some (update_egress_arming env r W)"
| "role_do (State env cur) r W = map_option (\<lambda>(st, r1, W1). (r1, W1)) (get_state env cur r W)"
| "role_do (Mark env) r W = mark_invalid env r W"
| "role_do (Uninit env) r W = role_uninit env r W"
| "role_do Shut r W = Some (role_close r W)"

fun role_run :: "role_op list \<Rightarrow> CSLSRole \<Rightarrow> 'ca role_world \<Rightarrow> (CSLSRole \<times> 'ca role_world) option" where
  "role_run [] r W = Some (r, W)"
| "role_run (x # xs) r W = (case role_do x r W of None \<Rightarrow> None | Some (r1, W1) \<Rightarrow> role_run xs r1 W1)"

lemma role_do_sock: "role_do x r W = Some (r', W') \<Longrightarrow> sock_step r W r' W'"
  by (cases x) (auto simp: handler_sock tick_sock arming_sock get_state_sock mark_invalid_sock uninit_sock role_close_sock)

text \<open>C7. A socket is released once and not used afterwards: over any sequence of the calls a worker makes on a role that
  holds a socket, either the role still holds it and everything was asked of that socket, or it was closed exactly
  once, only that socket was used before, and none after.\<close>

theorem socket_closed_once:
  assumes "rl_srt r = Some s" "s_fd s \<noteq> 0" "role_run xs r W = Some (r', W')"
  shows "\<exists>cs. rw_trace W' = rw_trace W @ cs \<and>
    (case rl_srt r' of
       Some s' \<Rightarrow> s_fd s' = s_fd s \<and> list_all (uses (s_fd s)) cs
     | None \<Rightarrow> (\<exists>as bs. cs = as @ Close_sock (s_fd s) # bs \<and> list_all (uses (s_fd s)) as \<and> list_all no_sock bs))"
proof -
  have "sock_step r W r' W'" using assms(3)
  proof (induction xs arbitrary: r W)
    case (Cons x xs)
    then obtain r1 W1 where "role_do x r W = Some (r1, W1)" "role_run xs r1 W1 = Some (r', W')" by (auto split: option.splits)
    thus ?case using role_do_sock Cons.IH sock_step_trans by blast
  qed (simp add: sock_step_refl)
  then obtain cs where cs: "rw_trace W' = rw_trace W @ cs" "sock_calls (Some (s_fd s)) (fd_of r') cs"
    using assms(1,2) by (auto simp: sock_step_def fd_of_def)
  show ?thesis
  proof (intro exI [of _ cs] conjI)
    show "case rl_srt r' of Some s' \<Rightarrow> s_fd s' = s_fd s \<and> list_all (uses (s_fd s)) cs
       | None \<Rightarrow> (\<exists>as bs. cs = as @ Close_sock (s_fd s) # bs \<and> list_all (uses (s_fd s)) as \<and> list_all no_sock bs)"
      using cs(2) by (cases "rl_srt r'") (simp_all add: sock_calls_def fd_of_def)
  qed (rule cs(1))
qed

theorem socket_closed_once_witness:
  "\<exists>r' W' cs. role_run [Mark (live_env 5 []), Uninit (live_env 6 []), Shut] (live_role Player_role) live_world = Some (r', W') \<and>
     rw_trace W' = rw_trace live_world @ cs \<and> (\<exists>as bs. cs = as @ Close_sock 7 # bs \<and> list_all (uses 7) as \<and> list_all no_sock bs)"
proof -
  let ?r = "live_role Player_role"
  have f: "rl_srt ?r = Some \<lparr> s_fd = 7, s_eid = 3 \<rparr>" "rl_kind ?r = Player_role" by (simp_all add: live_role_def role_new_def)
  have p: "e_post_ok (live_env a b)" for a b by (simp add: live_env_def)
  obtain r1 W1 where 1: "mark_invalid (live_env 5 []) ?r live_world = Some (r1, W1)"
    using invalid_srt_total [OF p] unfolding mark_invalid_def by blast
  have k: "rl_kind r1 = Player_role" "rl_srt r1 = None" using mark_invalid_quiet [OF 1] f by (simp_all add: quiet_def)
  obtain r2 W2 where 2: "base_uninit (live_env 6 []) r1 W1 = Some (r2, W2)" "rl_srt r2 = None"
    using k(2) by (cases "rl_state r1 = SLS_RS_UNINIT") (auto simp: base_uninit_def Let_def invalid_srt_def)
  have run: "role_run [Mark (live_env 5 []), Uninit (live_env 6 []), Shut] ?r live_world = Some (r2, W2)"
    using 1 2 k by (simp add: role_uninit_def role_close_def)
  show ?thesis using socket_closed_once [OF f(1) _ run] run 2(2) by auto
qed

end
