(* ===== verification/Group.thy ===== *)
theory Group
  imports Role_Socket
begin

text \<open>A worker: \<^verbatim>\<open>src/core/SLSGroup.cpp\<close>, with the part of a relay's teardown that talks to its manager,
  \<^verbatim>\<open>CSLSRelay::uninit\<close> of \<^verbatim>\<open>src/core/SLSRelay.cpp\<close>. The role objects of the server are a store from identities to roles; a
  worker holds identities. A dynamic pusher manager is part of the publisher that owns it, the others are in the relay
  table; a weak pointer to a manager is its identity, which resolves while the owner keeps it. What the surroundings
  answer during one pass is the argument \<open>group_env\<close>. The listener, which a worker also drives, is not among the
  roles here. The value \<^const>\<open>None\<close> is an exception that leaves the thread.\<close>

section \<open>State\<close>

record CSLSGroup =
  g_list_role :: bool
  g_list_wait_http_role :: "role_id list"
  g_map_role :: "(int \<times> role_id) list"
  g_list_reconnect_relay_manager :: "manager_ref list"
  g_worker_connections :: nat
  g_reload :: bool
  g_exit :: bool
  g_stat_post_last_tm_ms :: time_ms
  g_stat_post_interval :: int
  g_last_idle_check_ms :: time_ms
  g_stat_info :: "(role_id \<times> int) list"

record 'ca server =
  sv_roles :: "(role_id \<times> CSLSRole) list"
  sv_table :: "(string \<times> relay_manager) list"
  sv_world :: "'ca role_world"

text \<open>The clock and the epoll of a pass, the sockets that are ready (\<^const>\<open>None\<close> when the wait times out or fails), the
  surroundings of the \<open>k\<close>-th read, of each role in the egress pass and in the housekeeping, the times the relays were
  made, and the surroundings of relays that are opened.\<close>

record group_env =
  ge_now :: time_ms
  ge_eid :: int
  ge_poll :: "int list option"
  ge_read :: "nat \<Rightarrow> role_env"
  ge_pass :: "role_id \<Rightarrow> role_env"
  ge_house :: "role_id \<Rightarrow> role_env"
  ge_birth :: "role_id \<Rightarrow> time_ms"
  ge_relay :: "role_id \<Rightarrow> srt_env"
  ge_root :: "conf_vars option"

definition IDLE_CHECK_INTERVAL :: time_ms where
  "IDLE_CHECK_INTERVAL = 50"

definition HANDOFF_ADMISSION_TTL_MS :: time_ms where
  "HANDOFF_ADMISSION_TTL_MS = 5000"

definition group_new :: "time_ms \<Rightarrow> CSLSGroup" where
  "group_new now =
     \<lparr> g_list_role = False, g_list_wait_http_role = [], g_map_role = [], g_list_reconnect_relay_manager = [], g_worker_connections = 100,
       g_reload = False, g_exit = False, g_stat_post_last_tm_ms = now, g_stat_post_interval = 5, g_last_idle_check_ms = 0,
       g_stat_info = [] \<rparr>"

definition group_set_role_list :: "bool \<Rightarrow> CSLSGroup \<Rightarrow> CSLSGroup" where
  "group_set_role_list p G = G\<lparr> g_list_role := p \<rparr>"

definition set_worker_connections :: "nat \<Rightarrow> CSLSGroup \<Rightarrow> CSLSGroup" where
  "set_worker_connections n G = G\<lparr> g_worker_connections := n \<rparr>"

definition set_stat_post_interval :: "int \<Rightarrow> CSLSGroup \<Rightarrow> CSLSGroup" where
  "set_stat_post_interval interval G = G\<lparr> g_stat_post_interval := interval \<rparr>"

definition group_reload :: "CSLSGroup \<Rightarrow> CSLSGroup" where
  "group_reload G = G\<lparr> g_reload := True \<rparr>"

definition group_get_stat_info :: "(role_id \<times> int) list \<Rightarrow> CSLSGroup \<Rightarrow> (role_id \<times> int) list" where
  "group_get_stat_info info G = info @ g_stat_info G"

text \<open>A \<^verbatim>\<open>std::map\<close> with integer keys: sorted, one entry per key.\<close>

fun fd_put :: "int \<Rightarrow> 'v \<Rightarrow> (int \<times> 'v) list \<Rightarrow> (int \<times> 'v) list" where
  "fd_put k v [] = [(k, v)]"
| "fd_put k v ((j, w) # m) = (if k = j then (k, v) # m else if k < j then (k, v) # (j, w) # m else (j, w) # fd_put k v m)"

section \<open>Role objects\<close>

text \<open>The kick flag of a relay is part of its relay object.\<close>

definition load_role :: "role_id \<Rightarrow> 'ca server \<Rightarrow> CSLSRole option" where
  "load_role i S =
     map_option (\<lambda>r. r\<lparr> rl_kick_requested := rl_kick_requested r \<or>
         (case map_of (w_relays (sv_world S)) i of None \<Rightarrow> False | Some obj \<Rightarrow> ro_kicked obj) \<rparr>)
       (map_of (sv_roles S) i)"

definition on_role ::
  "role_id \<Rightarrow> (CSLSRole \<Rightarrow> 'ca role_world \<Rightarrow> ('a \<times> CSLSRole \<times> 'ca role_world) option) \<Rightarrow> 'ca server \<Rightarrow> ('a \<times> 'ca server) option" where
  "on_role i f S = do {
     r \<leftarrow> load_role i S;
     (x, r1, W1) \<leftarrow> f r (sv_world S);
     Some (x, S\<lparr> sv_roles := AList.update i r1 (sv_roles S), sv_world := W1 \<rparr>)
   }"

abbreviation no_result :: "(CSLSRole \<times> 'ca role_world) option \<Rightarrow> (unit \<times> CSLSRole \<times> 'ca role_world) option" where
  "no_result \<equiv> map_option (\<lambda>(r, W). ((), r, W))"

text \<open>A relay as a role: what \<^verbatim>\<open>connect\<close> and \<^verbatim>\<open>set_relay_param\<close> set of it.\<close>

definition role_of_relay :: "time_ms \<Rightarrow> role_id \<Rightarrow> relay_obj \<Rightarrow> CSLSRole" where
  "role_of_relay birth i obj =
     (snd (role_init (role_new i (if ro_puller obj then Puller_role else Pusher_role) birth)))
       \<lparr> rl_srt := map_option (\<lambda>fd. \<lparr> s_fd = fd, s_eid = 0 \<rparr>) (r_srt obj), rl_idle_streams_timeout := ro_idle_streams_timeout obj,
         rl_map_data_key := ro_map_data_key obj, rl_map_data := True, rl_map_publisher := True \<rparr>"

definition materialise :: "(role_id \<Rightarrow> time_ms) \<Rightarrow> role_id \<Rightarrow> 'ca server \<Rightarrow> 'ca server" where
  "materialise birth i S =
     (if map_of (sv_roles S) i \<noteq> None then S
      else case map_of (w_relays (sv_world S)) i of
        None \<Rightarrow> S
      | Some obj \<Rightarrow> S\<lparr> sv_roles := AList.update i (role_of_relay (birth i) i obj) (sv_roles S) \<rparr>)"

text \<open>The last reference to a role is dropped.\<close>

definition drop_role :: "role_id \<Rightarrow> 'ca server \<Rightarrow> 'ca server" where
  "drop_role i S =
     S\<lparr> sv_roles := AList.delete i (sv_roles S), sv_world := (sv_world S)\<lparr> w_relays := AList.delete i (w_relays (sv_world S)) \<rparr> \<rparr>"

section \<open>Managers\<close>

fun manager_self :: "relay_manager \<Rightarrow> manager_ref" where
  "manager_self (Pusher p) = m_self p"
| "manager_self (Puller p) = m_self p"

definition lock_manager :: "'ca server \<Rightarrow> manager_ref \<Rightarrow> relay_manager option" where
  "lock_manager S h =
     (case h of
        Of_publisher p \<Rightarrow> (case map_of (sv_roles S) p of None \<Rightarrow> None | Some r \<Rightarrow> map_option Pusher (rl_dynamic_pusher_manager r))
      | Of_table n \<Rightarrow> map_option snd (find (\<lambda>(key, m). manager_self m = h) (sv_table S)))"

definition put_dynamic :: "relay_manager option \<Rightarrow> CSLSRole \<Rightarrow> CSLSRole" where
  "put_dynamic m r =
     (case rl_dynamic_pusher_manager r of None \<Rightarrow> r
      | Some old \<Rightarrow> (case m of Some (Pusher q) \<Rightarrow> r\<lparr> rl_dynamic_pusher_manager := Some q \<rparr> | _ \<Rightarrow> r))"

definition put_managers :: "(manager_ref \<Rightarrow> relay_manager option) \<Rightarrow> 'ca server \<Rightarrow> 'ca server" where
  "put_managers ms S =
     S\<lparr> sv_roles := map (\<lambda>(i, r). (i, put_dynamic (ms (Of_publisher i)) r)) (sv_roles S),
        sv_table := map (\<lambda>(key, m). (key, case ms (manager_self m) of None \<Rightarrow> m | Some m1 \<Rightarrow> m1)) (sv_table S) \<rparr>"

definition lock_relay_manager :: "role_id \<Rightarrow> 'ca server \<Rightarrow> manager_ref option" where
  "lock_relay_manager i S =
     (case map_of (w_relays (sv_world S)) i of
        None \<Rightarrow> None
      | Some obj \<Rightarrow> (case ro_manager obj of None \<Rightarrow> None | Some h \<Rightarrow> if lock_manager S h = None then None else Some h))"

text \<open>The first part of \<^verbatim>\<open>CSLSRelay::uninit\<close>.\<close>

fun add_reconnect_stream :: "time_ms \<Rightarrow> string \<Rightarrow> relay_manager \<Rightarrow> relay_manager" where
  "add_reconnect_stream now url (Pusher p) = Pusher (snd (pusher_add_reconnect_stream now url p))"
| "add_reconnect_stream now url (Puller p) = Puller (snd (puller_add_reconnect_stream now p))"

definition relay_tell :: "time_ms \<Rightarrow> role_id \<Rightarrow> 'ca server \<Rightarrow> 'ca server" where
  "relay_tell now i S =
     (case lock_relay_manager i S of
        None \<Rightarrow> S
      | Some h \<Rightarrow>
          (case (lock_manager S h, map_of (w_relays (sv_world S)) i) of
             (Some m, Some obj) \<Rightarrow> put_managers [h \<mapsto> add_reconnect_stream now (r_url obj) m] S
           | _ \<Rightarrow> S))"

text \<open>The virtual \<^verbatim>\<open>uninit\<close> of a role of the store.\<close>

definition uninit_role :: "role_env \<Rightarrow> role_id \<Rightarrow> 'ca server \<Rightarrow> 'ca server option" where
  "uninit_role env i S = do {
     r \<leftarrow> load_role i S;
     if rl_kind r = Pusher_role \<or> rl_kind r = Puller_role then
       let S1 = (if rl_kind r = Puller_role then S\<lparr> sv_world := puller_leave r (sv_world S) \<rparr> else S) in
       map_option snd (on_role i (\<lambda>r W. no_result (base_uninit env r W)) (relay_tell (e_now env) i S1))
     else map_option snd (on_role i (\<lambda>r W. no_result (role_uninit env r W)) S)
   }"

section \<open>The data pass\<close>

definition find_role :: "int \<Rightarrow> CSLSGroup \<Rightarrow> role_id option" where
  "find_role fd G = map_of (g_map_role G) fd"

definition mark_role :: "role_env \<Rightarrow> role_id \<Rightarrow> 'ca server \<Rightarrow> 'ca server option" where
  "mark_role env i S = map_option snd (on_role i (\<lambda>r W. no_result (mark_invalid env r W)) S)"

text \<open>The reads: publishers and pullers whose socket is ready. \<open>k\<close> counts the entries.\<close>

fun read_loop :: "group_env \<Rightarrow> nat \<Rightarrow> int list \<Rightarrow> int \<Rightarrow> CSLSGroup \<Rightarrow> 'ca server \<Rightarrow> (int \<times> 'ca server) option" where
  "read_loop E k [] count G S = Some (count, S)"
| "read_loop E k (sock # socks) count G S =
     (case find_role sock G of
        None \<Rightarrow> read_loop E (Suc k) socks count G S
      | Some i \<Rightarrow> do {
          (ret, S1) \<leftarrow> on_role i (role_handler (ge_read E k)) S;
          if ret < 0 then do {
            S2 \<leftarrow> mark_role (ge_read E k) i S1;
            read_loop E (Suc k) socks count G S2
          }
          else read_loop E (Suc k) socks (count + ret) G S1
        })"

text \<open>The egress pass over the map.\<close>

fun egress_loop :: "group_env \<Rightarrow> (int \<times> role_id) list \<Rightarrow> int \<Rightarrow> 'ca server \<Rightarrow> (int \<times> 'ca server) option" where
  "egress_loop E [] count S = Some (count, S)"
| "egress_loop E ((fd, i) # es) count S = do {
     (u, S1) \<leftarrow> on_role i (\<lambda>r W. no_result (on_worker_tick (ge_pass E i) r W)) S;
     r \<leftarrow> load_role i S1;
     if \<not> rl_is_write r then egress_loop E es count S1
     else if rl_state r = SLS_RS_INVALID then egress_loop E es count S1
     else do {
       (ret, S2) \<leftarrow> on_role i (role_handler (ge_pass E i)) S1;
       if ret < 0 then do {
         S3 \<leftarrow> mark_role (ge_pass E i) i S2;
         egress_loop E es count S3
       }
       else do {
         (v, S3) \<leftarrow> on_role i (\<lambda>r W. Some ((), update_egress_arming (ge_pass E i) r W)) S2;
         egress_loop E es (count + ret) S3
       }
     }
   }"

section \<open>Housekeeping\<close>

definition check_new_role :: "group_env \<Rightarrow> CSLSGroup \<Rightarrow> 'ca server \<Rightarrow> (CSLSGroup \<times> 'ca server) option" where
  "check_new_role E G S =
     (if \<not> g_list_role G then Some (G, S)
      else if length (g_map_role G) \<ge> g_worker_connections G then Some (G, S)
      else case role_pop (w_roles (sv_world S)) of
        (None, rest) \<Rightarrow> Some (G, S)
      | (Some i, rest) \<Rightarrow>
          let S1 = materialise (ge_birth E) i (S\<lparr> sv_world := (sv_world S)\<lparr> w_roles := rest \<rparr> \<rparr>) in do {
            r \<leftarrow> load_role i S1;
            let fd = get_fd r;
            if fd = 0 then map_option (\<lambda>S2. (G, drop_role i S2)) (uninit_role (ge_house E i) i S1)
            else do {
              (ret, S2) \<leftarrow> on_role i (\<lambda>r W. Some (add_to_epoll (ge_house E i) (ge_eid E) r W)) S1;
              if ret = 0 then Some (G\<lparr> g_map_role := fd_put fd i (g_map_role G) \<rparr>, S2)
              else map_option (\<lambda>S3. (G, drop_role i S3)) (uninit_role (ge_house E i) i S2)
            }
          })"

fun check_wait_http_role :: "group_env \<Rightarrow> role_id list \<Rightarrow> 'ca server \<Rightarrow> (role_id list \<times> 'ca server) option" where
  "check_wait_http_role E [] S = Some ([], S)"
| "check_wait_http_role E (i # is) S = do {
     r \<leftarrow> load_role i S;
     if check_http_client r = SLS_ERROR then do {
       S1 \<leftarrow> uninit_role (ge_house E i) i S;
       check_wait_http_role E is (drop_role i S1)
     }
     else do {
       (ret, S1) \<leftarrow> on_role i (role_handler (ge_house E i)) S;
       (kept, S2) \<leftarrow> check_wait_http_role E is S1;
       Some (i # kept, S2)
     }
   }"

definition group_check_reconnect_relay :: "group_env \<Rightarrow> CSLSGroup \<Rightarrow> 'ca server \<Rightarrow> (CSLSGroup \<times> 'ca server) option" where
  "group_check_reconnect_relay E G S =
     (case on_relays (\<lambda>V. map_option (\<lambda>(hs, ms, V1). ((hs, ms), V1))
         (check_reconnect_relay (ge_relay E) (ge_root E) (ge_now E) (g_list_reconnect_relay_manager G) (lock_manager S) V)) (sv_world S) of
        None \<Rightarrow> None
      | Some ((hs, ms), W1) \<Rightarrow> Some (G\<lparr> g_list_reconnect_relay_manager := hs \<rparr>, put_managers ms (S\<lparr> sv_world := W1 \<rparr>)))"

text \<open>Queueing the manager of a relay that is about to go.\<close>

definition queue_manager :: "CSLSRole \<Rightarrow> role_id \<Rightarrow> 'ca server \<Rightarrow> manager_ref list \<Rightarrow> manager_ref list" where
  "queue_manager r i S q =
     (if \<not> rl_need_reconnect r then q
      else case lock_relay_manager i S of
        None \<Rightarrow> q
      | Some h \<Rightarrow> if h \<in> set q \<and> lock_manager S h \<noteq> None then q else q @ [h])"

text \<open>The loop of \<^verbatim>\<open>check_invalid_sock\<close>: the entries that stay, the statistics, the two queues.\<close>

fun invalid_loop ::
  "group_env \<Rightarrow> bool \<Rightarrow> (int \<times> role_id) list \<Rightarrow> (role_id \<times> int) list \<Rightarrow> manager_ref list \<Rightarrow> role_id list \<Rightarrow> 'ca server \<Rightarrow>
   ((int \<times> role_id) list \<times> (role_id \<times> int) list \<times> manager_ref list \<times> role_id list \<times> 'ca server) option" where
  "invalid_loop E upd [] stats q wait S = Some ([], stats, q, wait, S)"
| "invalid_loop E upd ((fd, i) # es) stats q wait S = do {
     r0 \<leftarrow> load_role i S;
     let stats1 = (if upd then stats @ [(i, rl_kbitrate r0)] else stats);
     (state, S1) \<leftarrow> on_role i (get_state (ge_house E i) (ge_now E)) S;
     if state = SLS_RS_INVALID \<or> state = SLS_RS_UNINIT then do {
       r \<leftarrow> load_role i S1;
       let q1 = queue_manager r i S1 q;
       S2 \<leftarrow> uninit_role (ge_house E i) i S1;
       r2 \<leftarrow> load_role i S2;
       if check_http_client r2 = SLS_OK then invalid_loop E upd es stats1 q1 (wait @ [i]) S2
       else invalid_loop E upd es stats1 q1 wait (drop_role i S2)
     }
     else do {
       (kept, x) \<leftarrow> invalid_loop E upd es stats1 q wait S1;
       Some ((fd, i) # kept, x)
     }
   }"

definition check_invalid_sock :: "group_env \<Rightarrow> CSLSGroup \<Rightarrow> 'ca server \<Rightarrow> (CSLSGroup \<times> 'ca server) option" where
  "check_invalid_sock E G S =
     (let d = signed_take_bit 31 (ge_now E - g_stat_post_last_tm_ms G);
          upd = (d \<ge> g_stat_post_interval G * 1000)
      in do {
        (kept, stats, q, wait, S1) \<leftarrow>
          invalid_loop E upd (g_map_role G) [] (g_list_reconnect_relay_manager G) (g_list_wait_http_role G) S;
        Some (G\<lparr> g_map_role := kept, g_list_reconnect_relay_manager := q, g_list_wait_http_role := wait,
                 g_stat_post_last_tm_ms := (if upd then ge_now E else g_stat_post_last_tm_ms G),
                 g_stat_info := (if upd then stats else g_stat_info G) \<rparr>, S1)
      })"

text \<open>The stale roles of the hand-off list are torn down in order.\<close>

fun uninit_all :: "group_env \<Rightarrow> role_id list \<Rightarrow> 'ca server \<Rightarrow> 'ca server option" where
  "uninit_all E [] S = Some S"
| "uninit_all E (i # is) S = do {
     S1 \<leftarrow> uninit_role (ge_house E i) i (materialise (ge_birth E) i S);
     uninit_all E is (drop_role i S1)
   }"

definition role_facts :: "group_env \<Rightarrow> 'ca server \<Rightarrow> role_info" where
  "role_facts E S i =
     (case map_of (sv_roles S) i of
        Some r \<Rightarrow> (Some (rl_role_name r), rl_stat_start_time r)
      | None \<Rightarrow> (Some ''relay'', ge_birth E i))"

definition reap_unadopted_backlog :: "group_env \<Rightarrow> CSLSGroup \<Rightarrow> 'ca server \<Rightarrow> 'ca server option" where
  "reap_unadopted_backlog E G S =
     (if \<not> g_list_role G then Some S
      else case reap_unadopted (role_facts E S) (ge_now E) HANDOFF_ADMISSION_TTL_MS (w_roles (sv_world S)) of
        (n, stale, kept) \<Rightarrow> uninit_all E stale (S\<lparr> sv_world := (sv_world S)\<lparr> w_roles := kept \<rparr> \<rparr>))"

definition idle_check :: "group_env \<Rightarrow> CSLSGroup \<Rightarrow> 'ca server \<Rightarrow> (CSLSGroup \<times> 'ca server) option" where
  "idle_check E G S = do {
     (wait, S1) \<leftarrow> check_wait_http_role E (g_list_wait_http_role G) S;
     (G2, S2) \<leftarrow> group_check_reconnect_relay E (G\<lparr> g_list_wait_http_role := wait \<rparr>) S1;
     (G3, S3) \<leftarrow> check_invalid_sock E G2 S2;
     S4 \<leftarrow> reap_unadopted_backlog E G3 S3;
     check_new_role E G3 S4
   }"

definition maybe_idle_check :: "group_env \<Rightarrow> CSLSGroup \<Rightarrow> 'ca server \<Rightarrow> (CSLSGroup \<times> 'ca server) option" where
  "maybe_idle_check E G S =
     (if ge_now E - g_last_idle_check_ms G < IDLE_CHECK_INTERVAL then Some (G, S)
      else idle_check E (G\<lparr> g_last_idle_check_ms := ge_now E \<rparr>) S)"

definition group_handler :: "group_env \<Rightarrow> CSLSGroup \<Rightarrow> 'ca server \<Rightarrow> (int \<times> CSLSGroup \<times> 'ca server) option" where
  "group_handler E G S =
     (if g_reload G \<and> g_map_role G = [] then Some (SLS_OK, G\<lparr> g_exit := True \<rparr>, S)
      else do {
        (count, S1) \<leftarrow> (case ge_poll E of None \<Rightarrow> Some (0, S) | Some socks \<Rightarrow> read_loop E 0 socks 0 G S);
        (count2, S2) \<leftarrow> egress_loop E (g_map_role G) count S1;
        (G3, S3) \<leftarrow> maybe_idle_check E G S2;
        Some (count2, G3, S3)
      })"

section \<open>The end of a worker\<close>

fun clear_loop :: "group_env \<Rightarrow> (int \<times> role_id) list \<Rightarrow> 'ca server \<Rightarrow> 'ca server option" where
  "clear_loop E [] S = Some S"
| "clear_loop E ((fd, i) # es) S = do {
     S1 \<leftarrow> uninit_role (ge_house E i) i S;
     clear_loop E es (drop_role i S1)
   }"

definition group_clear :: "group_env \<Rightarrow> CSLSGroup \<Rightarrow> 'ca server \<Rightarrow> (CSLSGroup \<times> 'ca server) option" where
  "group_clear E G S = map_option (\<lambda>S1. (G\<lparr> g_map_role := [] \<rparr>, S1)) (clear_loop E (g_map_role G) S)"

fun stop_loop :: "group_env \<Rightarrow> role_id list \<Rightarrow> 'ca server \<Rightarrow> 'ca server option" where
  "stop_loop E [] S = Some S"
| "stop_loop E (i # is) S = do {
     S1 \<leftarrow> uninit_role (ge_house E i) i S;
     stop_loop E is (drop_role i S1)
   }"

text \<open>\<^verbatim>\<open>CSLSThread::stop\<close> joins the thread and calls the virtual \<^verbatim>\<open>clear\<close> before the waiting list goes.\<close>

definition group_stop :: "group_env \<Rightarrow> CSLSGroup \<Rightarrow> 'ca server \<Rightarrow> (CSLSGroup \<times> 'ca server) option" where
  "group_stop E G S = do {
     (G1, S1) \<leftarrow> group_clear E (G\<lparr> g_exit := True \<rparr>) S;
     map_option (\<lambda>S2. (G1\<lparr> g_list_wait_http_role := [] \<rparr>, S2)) (stop_loop E (g_list_wait_http_role G1) S1)
   }"

end
