(* ===== verification/Group_Correct.thy ===== *)
theory Group_Correct
  imports Group
begin

text \<open>What a worker keeps over any sequence of its passes, and what its housekeeping reaps.\<close>

section \<open>The life of a role\<close>

text \<open>An invalid role holds no socket; \<open>life\<close> is the step that keeps it.\<close>

definition life :: "CSLSRole \<Rightarrow> CSLSRole \<Rightarrow> bool" where
  "life r r' \<longleftrightarrow> (rl_srt r = None \<longrightarrow> rl_srt r' = None) \<and>
     (rl_state r' = SLS_RS_INVALID \<longrightarrow> rl_state r = SLS_RS_INVALID \<or> rl_srt r' = None)"

definition dead_ok :: "CSLSRole \<Rightarrow> bool" where
  "dead_ok r \<longleftrightarrow> (rl_state r = SLS_RS_INVALID \<longrightarrow> rl_srt r = None)"

lemma life_dead_ok: "life r r' \<Longrightarrow> dead_ok r \<Longrightarrow> dead_ok r'"
  by (auto simp: life_def dead_ok_def)

lemma life_refl: "life r r"
  by (simp add: life_def)

lemma life_trans: "life r s \<Longrightarrow> life s t \<Longrightarrow> life r t"
  by (auto simp: life_def)

text \<open>The socket part follows from the trace; what is left is the state.\<close>

lemma life_of_sock: "sock_step r W r' W' \<Longrightarrow> rl_state r' = rl_state r \<Longrightarrow> life r r'"
  by (auto simp: life_def sock_step_def sock_calls_def fd_of_def)

lemma life_same: "rl_srt r' = rl_srt r \<Longrightarrow> rl_state r' = rl_state r \<Longrightarrow> life r r'"
  by (simp add: life_def)

lemma invalid_srt_life: "invalid_srt env r W = Some (r', W') \<Longrightarrow> life r r'"
  by (simp add: life_def invalid_srt_quiet(2))

lemma mark_invalid_life: "mark_invalid env r W = Some (r', W') \<Longrightarrow> life r r'"
  by (simp add: life_def mark_invalid_quiet(2))

lemma base_uninit_life:
  assumes "base_uninit env r W = Some (r', W')"
  shows "life r r'" "rl_state r' = SLS_RS_UNINIT"
  using assms invalid_srt_quiet(2,3) by (auto simp: base_uninit_def Let_def life_def split: if_splits) fastforce+

lemma gate_life:
  assumes "check_http_passed env r W = Some (ret, r', W')"
  shows "life r r'"
  using assms
proof (cases rule: gate_cases)
  case (expired r1)
  thus ?thesis using mark_invalid_quiet(2) [OF expired(8)] by (simp add: life_def)
next
  case (refused i resp r2 W2)
  thus ?thesis using invalid_srt_quiet(2) [OF refused(7)] by (simp add: life_def)
next
  case (granted i resp)
  thus ?thesis by (intro life_same) (simp_all add: harvest_quiet(3,4))
qed (simp_all add: life_refl)

lemma get_state_life: "get_state env cur r W = Some (st, r', W') \<Longrightarrow> life r r'"
  using mark_invalid_life life_refl by (auto simp: get_state_def split: if_splits)

lemma account_state: "rl_state (account_bitrate now n d r) = rl_state r" "rl_state (snd (role_limit now n r)) = rl_state r"
  "rl_srt (account_bitrate now n d r) = rl_srt r" "rl_srt (snd (role_limit now n r)) = rl_srt r"
  by (simp_all add: account_bitrate_def role_limit_def Let_def split: option.split prod.split)

lemma store_life:
  assumes "role_store env d n r W = Some (ret, t, r', W')"
  shows "life r r'"
proof -
  obtain ok r1 W1 where e: "ensure_ring env r W = Some (ok, r1, W1)" using assms by (auto simp: role_store_def split: bind_splits)
  have 1: "life r r1" using e by (intro life_same) (auto simp: ensure_ring_def Let_def split: if_splits bind_splits)
  have "life r1 r'" using assms e invalid_srt_life life_refl by (auto simp: role_store_def split: bind_splits if_splits)
  thus ?thesis using 1 life_trans by blast
qed

lemma read_life:
  assumes "handler_read_data env r W = Some (ret, t, r', W')"
  shows "life r r'"
proof -
  obtain p r0 W0 where g: "check_http_passed env r W = Some (p, r0, W0)"
    using assms by (auto simp: handler_read_data_def split: bind_splits)
  obtain n szData err where rd: "e_read env = (n, szData, err)" by (cases "e_read env") auto
  define r1 where "r1 = r0\<lparr> rl_invalid_begin_tm := e_now env, rl_last_recv_data_tm := e_now env \<rparr>"
  obtain res r2 where l: "role_limit (e_now env) n r1 = (res, r2)" by fastforce
  define r3 where "r3 = account_bitrate (e_now env) n (e_now env - rl_stat_bitrate_last_tm r2) r2"
  have f: "life r0 r2" "life r0 r3"
    using account_state(2,4) [of "e_now env" n r1] account_state(1,3) l by (auto simp: r3_def r1_def intro!: life_same)
  note e = assms [unfolded handler_read_data_def g bind.bind_lunit prod.case rd Let_def, folded r1_def, unfolded l prod.case, folded r3_def]
  have "life r0 r'"
    using e life_refl f life_trans [OF f(1) invalid_srt_life] life_trans [OF f(2) store_life] invalid_srt_life
    by (auto split: if_splits bind_splits)
  thus ?thesis using gate_life [OF g] life_trans by blast
qed

lemma send_loop_state: "send_loop env k ws r W = Some (ex, k', ws', r', W') \<Longrightarrow> rl_state r' = rl_state r"
proof (induction env k ws r W rule: send_loop.induct)
  case (1 env k ws r W)
  have b: "role_backpressure now ws r V = (v, x, U) \<Longrightarrow> rl_state x = rl_state r" for now v x U and V :: "'a role_world"
    by (auto simp: role_backpressure_def Let_def split: if_splits)
  note e = 1(2) [unfolded send_loop.simps [of env k ws r W]]
  show ?case
  proof (cases "rl_data_len r - rl_data_pos r < TS_UDP_LEN \<or> rl_srt r = None \<or> staged_chunk r = None \<or> fst (e_write env k) < TS_UDP_LEN")
    case True
    thus ?thesis using e b by (auto simp: Let_def split: if_splits option.splits prod.splits)
  next
    case False
    then obtain s chunk ret err where s: "rl_srt r = Some s" "staged_chunk r = Some chunk" "e_write env k = (ret, err)"
        "\<not> rl_data_len r - rl_data_pos r < TS_UDP_LEN" "\<not> ret < TS_UDP_LEN" by (cases "e_write env k") auto
    show ?thesis using e "1.IH" [OF s(4,1,2) s(3) [symmetric] refl s(5)] s by (simp add: Let_def)
  qed
qed

lemma batch_state: "batch_loop n env k ws r W = Some (ret, r', W') \<Longrightarrow> rl_state r' = rl_state r"
proof (induction n arbitrary: k ws r W)
  case (Suc n)
  have f: "rl_state r1 = rl_state r" if "fetch_batch env r W = Some (go, r1, W1)" for go r1 W1
    using that by (auto simp: fetch_batch_def Let_def account_state split: if_splits bind_splits)
  show ?case using Suc.prems Suc.IH by (auto dest!: f send_loop_state split: if_splits option.splits send_exit.splits)
qed simp

lemma write_life:
  assumes "handler_write_data env r W = Some (ret, r', W')"
  shows "life r r'"
proof -
  obtain p r0 W0 where g: "check_http_passed env r W = Some (p, r0, W0)"
    using assms by (auto simp: handler_write_data_def split: bind_splits)
  have "life r0 r'" using assms g life_refl life_of_sock [OF batch_sock batch_state]
    by (auto simp: handler_write_data_def split: if_splits)
  thus ?thesis using gate_life [OF g] life_trans by blast
qed

lemma handler_life:
  assumes "role_handler env r W = Some (ret, r', W')"
  shows "life r r'"
proof (cases "rl_kind r")
  case Publisher_role
  obtain t r1 W1 where h: "handler_read_data env r W = Some (ret, t, r1, W1)"
    using assms Publisher_role by (auto simp: role_handler_def publisher_handler_def split: bind_splits if_splits)
  have s: "life x y" if "try_spawn_dynamic_pusher env x V = Some (y, U)" for x y and V U :: "'a role_world"
    using that by (intro life_same) (auto simp: try_spawn_dynamic_pusher_def drop_push_urls_def split: if_splits option.splits)
  have "life r1 r'" using assms Publisher_role h life_refl s
    by (auto simp: role_handler_def publisher_handler_def split: bind_splits if_splits)
  thus ?thesis using read_life [OF h] life_trans by blast
next
  case Player_role
  obtain r1 W1 where s: "sample_viewer_snd_drops env r W = (r1, W1)" by fastforce
  hence "handler_write_data env r1 W1 = Some (ret, r', W')" using assms Player_role by (simp add: role_handler_def player_handler_def)
  moreover have "life r r1" using s
    by (intro life_same) (auto simp: sample_viewer_snd_drops_def Let_def role_get_statistics_def split: if_splits)
  ultimately show ?thesis using write_life life_trans by blast
next
  case Pusher_role
  thus ?thesis using assms write_life life_refl by (auto simp: role_handler_def pusher_handler_def Let_def split: if_splits)
next
  case Puller_role
  obtain v t r1 W1 where h: "handler_read_data env r W = Some (v, t, r1, W1)"
    using assms Puller_role by (auto simp: role_handler_def puller_handler_def split: bind_splits)
  have "life r1 r'" using assms Puller_role h life_refl mark_invalid_life
    by (auto simp: role_handler_def puller_handler_def Let_def split: bind_splits if_splits)
  thus ?thesis using read_life [OF h] life_trans by blast
qed

lemma tick_life: "on_worker_tick env r W = Some (r', W') \<Longrightarrow> life r r'"
  using gate_life life_refl by (auto simp: on_worker_tick_def split: if_splits)

lemma arming_life: "update_egress_arming env r W = (r', W') \<Longrightarrow> life r r'"
  by (intro life_same) (auto simp: update_egress_arming_def set_epoll_out_def Let_def split: if_splits option.splits prod.splits)

lemma add_to_epoll_life: "add_to_epoll env eid r W = (ret, r', W') \<Longrightarrow> life r r'"
  by (auto simp: add_to_epoll_def Let_def life_def split: option.splits prod.splits)

lemma role_uninit_life:
  assumes "role_uninit env r W = Some (r', W')"
  shows "life r r'" "rl_state r' = SLS_RS_UNINIT"
proof -
  have "\<exists>s V. base_uninit env s V = Some (r', W') \<and> rl_srt s = rl_srt r \<and> rl_state s = rl_state r"
  proof (cases "rl_kind r")
    case Publisher_role
    obtain r1 W1 where d: "detach_dynamic r W = Some (r1, W1)" "base_uninit env (r1\<lparr> rl_dynamic_pusher_manager := None \<rparr>) (publisher_leave r1 W1) = Some (r', W')"
      using assms Publisher_role by (auto simp: role_uninit_def publisher_uninit_def split: bind_splits)
    have "rl_srt r1 = rl_srt r \<and> rl_state r1 = rl_state r" using d(1) by (auto simp: detach_dynamic_def split: option.splits)
    thus ?thesis using d(2) by (intro exI [of _ "r1\<lparr> rl_dynamic_pusher_manager := None \<rparr>"]) auto
  qed (use assms in \<open>auto simp: role_uninit_def\<close>)
  thus "life r r'" "rl_state r' = SLS_RS_UNINIT" using base_uninit_life life_trans [OF life_same] by metis+
qed

section \<open>The role store\<close>

definition roles_ok :: "'ca server \<Rightarrow> bool" where
  "roles_ok S \<longleftrightarrow> (\<forall>(i, r) \<in> set (sv_roles S). dead_ok r)"

abbreviation stored :: "'ca server \<Rightarrow> role_id set" where
  "stored S \<equiv> fst ` set (sv_roles S)"

text \<open>A call on roles of the store: it hands off only fresh relays, keeps the store well formed, and forgets no role.\<close>

definition store_step :: "'ca server \<Rightarrow> 'ca server \<Rightarrow> bool" where
  "store_step S S' \<longleftrightarrow> hands_off (sv_world S) (sv_world S') \<and> (roles_ok S \<longrightarrow> roles_ok S') \<and> stored S \<subseteq> stored S'"

lemma store_step_refl: "store_step S S"
  by (simp add: store_step_def)

lemma store_step_trans: "store_step S T \<Longrightarrow> store_step T U \<Longrightarrow> store_step S U"
  by (auto simp: store_step_def intro: list_grows_trans)

lemma roles_ok_update: "roles_ok S \<Longrightarrow> dead_ok r \<Longrightarrow> roles_ok (S\<lparr> sv_roles := AList.update i r (sv_roles S), sv_world := W \<rparr>)"
proof -
  have "set (AList.update i r al) \<subseteq> insert (i, r) (set al)" for al :: "(role_id \<times> CSLSRole) list"
    by (induction al) auto
  thus "roles_ok S \<Longrightarrow> dead_ok r \<Longrightarrow> ?thesis" by (fastforce simp: roles_ok_def)
qed

lemma stored_update: "stored (S\<lparr> sv_roles := AList.update i r (sv_roles S), sv_world := W \<rparr>) = insert i (stored S)"
  using dom_update [of i r "sv_roles S"] by simp

lemma load_role_ok: "roles_ok S \<Longrightarrow> load_role i S = Some r \<Longrightarrow> dead_ok r"
  by (auto simp: load_role_def roles_ok_def dead_ok_def dest!: map_of_SomeD)

lemma load_stored: "load_role i S = Some r \<Longrightarrow> i \<in> stored S"
  by (auto simp: load_role_def dest!: map_of_SomeD intro!: image_eqI)

lemma on_role_step:
  assumes "on_role i f S = Some (x, S')"
    "\<And>r W x r' W'. f r W = Some (x, r', W') \<Longrightarrow> sock_step r W r' W' \<and> life r r'"
  shows "store_step S S'"
proof -
  obtain r r1 W1 where l: "load_role i S = Some r" "f r (sv_world S) = Some (x, r1, W1)"
      "S' = S\<lparr> sv_roles := AList.update i r1 (sv_roles S), sv_world := W1 \<rparr>"
    using assms(1) by (auto simp: on_role_def split: bind_splits)
  note s = assms(2) [OF l(2)]
  have "roles_ok S \<Longrightarrow> roles_ok S'"
    unfolding l(3) using roles_ok_update life_dead_ok load_role_ok [OF _ l(1)] s by blast
  moreover have "stored S \<subseteq> stored S'" unfolding l(3) stored_update by auto
  ultimately show ?thesis using s l(3) by (simp add: store_step_def sock_step_def)
qed

text \<open>The calls of a pass.\<close>

lemma handler_store: "on_role i (role_handler env) S = Some (x, S') \<Longrightarrow> store_step S S'"
  by (erule on_role_step) (simp add: handler_sock handler_life)

lemma tick_store: "on_role i (\<lambda>r W. no_result (on_worker_tick env r W)) S = Some (x, S') \<Longrightarrow> store_step S S'"
  by (erule on_role_step) (auto simp: tick_sock tick_life)

lemma arming_store: "on_role i (\<lambda>r W. Some ((), update_egress_arming env r W)) S = Some (x, S') \<Longrightarrow> store_step S S'"
  by (erule on_role_step) (auto simp: arming_sock arming_life)

lemma state_store: "on_role i (get_state env cur) S = Some (x, S') \<Longrightarrow> store_step S S'"
  by (erule on_role_step) (simp add: get_state_sock get_state_life)

lemma add_store: "on_role i (\<lambda>r W. Some (add_to_epoll env eid r W)) S = Some (x, S') \<Longrightarrow> store_step S S'"
  by (erule on_role_step) (auto simp: add_to_epoll_sock add_to_epoll_life)

lemma mark_store: "mark_role env i S = Some S' \<Longrightarrow> store_step S S'"
proof -
  assume m: "mark_role env i S = Some S'"
  then obtain x where "on_role i (\<lambda>r W. no_result (mark_invalid env r W)) S = Some (x, S')" by (auto simp: mark_role_def)
  thus ?thesis by (rule on_role_step) (auto simp: mark_invalid_sock mark_invalid_life)
qed

lemma base_store: "on_role i (\<lambda>r W. no_result (base_uninit env r W)) S = Some (x, S') \<Longrightarrow> store_step S S'"
  by (erule on_role_step) (auto simp: base_uninit_sock base_uninit_life)

lemma role_uninit_store: "on_role i (\<lambda>r W. no_result (role_uninit env r W)) S = Some (x, S') \<Longrightarrow> store_step S S'"
  by (erule on_role_step) (auto simp: uninit_sock role_uninit_life)

text \<open>Managers are stored in the roles that own them; the rest of a role stays.\<close>

lemma put_dynamic_frame [simp]:
  "rl_state (put_dynamic m r) = rl_state r" "rl_srt (put_dynamic m r) = rl_srt r" "rl_kind (put_dynamic m r) = rl_kind r"
  "rl_http_future (put_dynamic m r) = rl_http_future r" "rl_kick_requested (put_dynamic m r) = rl_kick_requested r"
  by (simp_all add: put_dynamic_def split: option.split relay_manager.split)

lemma put_managers_frame [simp]: "sv_world (put_managers ms S) = sv_world S" "stored (put_managers ms S) = stored S"
  by (simp_all add: put_managers_def image_image case_prod_unfold)

lemma put_managers_role:
  "map_of (sv_roles (put_managers ms S)) i = map_option (put_dynamic (ms (Of_publisher i))) (map_of (sv_roles S) i)"
proof -
  have "map_of (map (\<lambda>(i, r). (i, put_dynamic (ms (Of_publisher i)) r)) al) i = map_option (put_dynamic (ms (Of_publisher i))) (map_of al i)" for al
    by (induction al) auto
  thus ?thesis by (simp add: put_managers_def)
qed

lemma put_managers_ok: "roles_ok S \<Longrightarrow> roles_ok (put_managers ms S)"
  by (auto simp: roles_ok_def put_managers_def dead_ok_def)

lemma put_managers_store: "store_step S (put_managers ms S)"
  by (simp add: store_step_def put_managers_ok)

lemma relay_tell_store: "store_step S (relay_tell now i S)" "sv_world (relay_tell now i S) = sv_world S"
  by (auto simp: relay_tell_def put_managers_store store_step_refl split: option.split)

lemma uninit_store:
  assumes "uninit_role env i S = Some S'"
  shows "store_step S S'"
proof -
  obtain r where r: "load_role i S = Some r" using assms by (auto simp: uninit_role_def split: bind_splits)
  show ?thesis
  proof (cases "rl_kind r = Pusher_role \<or> rl_kind r = Puller_role")
    case True
    let ?S = "if rl_kind r = Puller_role then S\<lparr> sv_world := puller_leave r (sv_world S) \<rparr> else S"
    obtain x where "on_role i (\<lambda>r W. no_result (base_uninit env r W)) (relay_tell (e_now env) i ?S) = Some (x, S')"
      using assms r True by (auto simp: uninit_role_def Let_def)
    hence "store_step ?S S'" using base_store relay_tell_store(1) store_step_trans by blast
    moreover have "store_step S ?S" by (auto simp: store_step_def roles_ok_def puller_leave_def Let_def)
    ultimately show ?thesis using store_step_trans by blast
  next
    case False
    then obtain x where "on_role i (\<lambda>r W. no_result (role_uninit env r W)) S = Some (x, S')"
      using assms r by (auto simp: uninit_role_def)
    thus ?thesis by (rule role_uninit_store)
  qed
qed

lemma materialise_store: "store_step S (materialise birth i S)"
proof -
  have "dead_ok (role_of_relay t i obj)" for t obj by (simp add: dead_ok_def role_of_relay_def role_init_def)
  hence "roles_ok (S\<lparr> sv_roles := AList.update i (role_of_relay t i obj) (sv_roles S) \<rparr>)" if "roles_ok S" for t obj
    using roles_ok_update [OF that, where r = "role_of_relay t i obj" and i = i and W = "sv_world S"] by simp
  thus ?thesis using dom_update [of i _ "sv_roles S"]
    by (auto simp: store_step_def materialise_def split: option.split)
qed

lemma drop_frame: "roles_ok S \<Longrightarrow> roles_ok (drop_role i S)" "stored (drop_role i S) = stored S - {i}"
  "w_next (sv_world (drop_role i S)) = w_next (sv_world S)" "w_roles (sv_world (drop_role i S)) = w_roles (sv_world S)"
  by (auto simp: roles_ok_def drop_role_def AList.delete_eq image_iff)

section \<open>The passes\<close>

lemma read_loop_store: "read_loop E k socks count G S = Some (n, S') \<Longrightarrow> store_step S S'"
proof (induction socks arbitrary: k count S)
  case (Cons sock socks)
  show ?case
  proof (cases "find_role sock G")
    case None
    thus ?thesis using Cons by simp
  next
    case (Some i)
    then obtain ret S1 where h: "on_role i (role_handler (ge_read E k)) S = Some (ret, S1)" using Cons.prems by (auto split: bind_splits)
    note s = handler_store [OF h]
    have "store_step S1 S'" using Cons.prems Cons.IH Some h mark_store store_step_trans
      by (auto split: bind_splits if_splits) blast
    thus ?thesis using s store_step_trans by blast
  qed
qed (simp add: store_step_refl)

lemma egress_loop_store: "egress_loop E es count S = Some (n, S') \<Longrightarrow> store_step S S'"
proof (induction es arbitrary: count S)
  case (Cons e es)
  obtain fd i where e: "e = (fd, i)" by fastforce
  obtain u S1 where t: "on_role i (\<lambda>r W. no_result (on_worker_tick (ge_pass E i) r W)) S = Some (u, S1)"
    using Cons.prems e by (auto split: bind_splits)
  obtain r where r: "load_role i S1 = Some r" using Cons.prems e t by (auto split: bind_splits)
  have "store_step S1 S'"
  proof (cases "rl_is_write r \<and> rl_state r \<noteq> SLS_RS_INVALID")
    case False
    thus ?thesis using Cons.prems Cons.IH e t r by (auto split: if_splits)
  next
    case True
    then obtain ret S2 where h: "on_role i (role_handler (ge_pass E i)) S1 = Some (ret, S2)" using Cons.prems e t r by (auto split: bind_splits)
    have "store_step S2 S'" using Cons.prems Cons.IH e t r True h mark_store arming_store store_step_trans
      by (auto split: bind_splits if_splits) blast+
    thus ?thesis using handler_store [OF h] store_step_trans by blast
  qed
  thus ?case using tick_store [OF t] store_step_trans by blast
qed (simp add: store_step_refl)

text \<open>A role that was torn down by \<^verbatim>\<open>uninit\<close> has no request left when it had no socket.\<close>

lemma on_role_load: "on_role i f S = Some (x, S') \<Longrightarrow> \<exists>r r1 W1. load_role i S = Some r \<and> f r (sv_world S) = Some (x, r1, W1) \<and>
    map_of (sv_roles S') i = Some r1 \<and> sv_world S' = W1"
  by (auto simp: on_role_def map_of_update split: bind_splits)

lemma base_uninit_future:
  assumes "base_uninit env r W = Some (r', W')" "dead_ok r" "rl_state r \<noteq> SLS_RS_INITED"
  shows "rl_http_future r' = None" "rl_srt r' = rl_srt r"
  using assms by (cases "rl_state r"; auto simp: base_uninit_def dead_ok_def invalid_srt_def Let_def)+

lemma role_uninit_future:
  assumes "role_uninit env r W = Some (r', W')" "dead_ok r" "rl_state r \<noteq> SLS_RS_INITED"
  shows "rl_http_future r' = None"
proof -
  have "\<exists>s V. base_uninit env s V = Some (r', W') \<and> rl_srt s = rl_srt r \<and> rl_state s = rl_state r"
    using assms(1) by (auto simp: role_uninit_def publisher_uninit_def detach_dynamic_def split: role_kind.splits bind_splits option.splits)
  thus ?thesis using base_uninit_future(1) assms(2,3) unfolding dead_ok_def by metis
qed

lemma uninit_no_request:
  assumes "uninit_role env i S = Some S'" "load_role i S = Some r" "dead_ok r" "rl_state r \<noteq> SLS_RS_INITED" "load_role i S' = Some r'"
  shows "check_http_client r' = SLS_ERROR"
proof -
  have fut: "rl_http_future r' = None" if "map_of (sv_roles S') i = Some r1" "rl_http_future r1 = None" for r1
    using assms(5) that by (auto simp: load_role_def)
  show ?thesis
  proof (cases "rl_kind r = Pusher_role \<or> rl_kind r = Puller_role")
    case True
    let ?S = "relay_tell (e_now env) i (if rl_kind r = Puller_role then S\<lparr> sv_world := puller_leave r (sv_world S) \<rparr> else S)"
    obtain x where u: "on_role i (\<lambda>r W. no_result (base_uninit env r W)) ?S = Some (x, S')"
      using assms(1,2) True by (auto simp: uninit_role_def Let_def)
    then obtain s r1 W1 where s: "load_role i ?S = Some s" "base_uninit env s (sv_world ?S) = Some (r1, W1)" "map_of (sv_roles S') i = Some r1"
      using on_role_load [OF u] by auto
    have "rl_state s = rl_state r \<and> rl_srt s = rl_srt r"
      using s(1) assms(2) by (auto simp: load_role_def relay_tell_def put_managers_role split: option.splits if_splits)
    thus ?thesis using fut [OF s(3)] base_uninit_future(1) [OF s(2)] assms(3,4) by (simp add: dead_ok_def check_http_client_def)
  next
    case False
    then obtain x where u: "on_role i (\<lambda>r W. no_result (role_uninit env r W)) S = Some (x, S')"
      using assms(1,2) by (auto simp: uninit_role_def)
    then obtain r1 W1 where s: "role_uninit env r (sv_world S) = Some (r1, W1)" "map_of (sv_roles S') i = Some r1"
      using on_role_load [OF u] assms(2) by auto
    show ?thesis using fut [OF s(2)] role_uninit_future [OF s(1) assms(3,4)] by (simp add: check_http_client_def)
  qed
qed

section \<open>Roles that are not touched\<close>

text \<open>While a worker works on other roles, a role keeps everything but its dynamic manager, and it may be kicked.\<close>

definition kicks_stay :: "('ca, 'z) relay_world_scheme \<Rightarrow> ('ca, 'z) relay_world_scheme \<Rightarrow> bool" where
  "kicks_stay W W' \<longleftrightarrow> (\<forall>i obj. map_of (w_relays W) i = Some obj \<and> ro_kicked obj \<longrightarrow> (\<exists>obj'. map_of (w_relays W') i = Some obj' \<and> ro_kicked obj'))"

definition left_alone :: "role_id \<Rightarrow> 'ca server \<Rightarrow> 'ca server \<Rightarrow> bool" where
  "left_alone i S S' \<longleftrightarrow> (\<forall>r. load_role i S = Some r \<longrightarrow>
     (\<exists>m k. load_role i S' = Some (r\<lparr> rl_dynamic_pusher_manager := m, rl_kick_requested := k \<rparr>) \<and> (rl_kick_requested r \<longrightarrow> k)))"

lemma left_alone_refl: "left_alone i S S"
proof -
  have "r = r\<lparr> rl_dynamic_pusher_manager := rl_dynamic_pusher_manager r, rl_kick_requested := rl_kick_requested r \<rparr>" for r by simp
  thus ?thesis unfolding left_alone_def by metis
qed

lemma left_alone_trans: "left_alone i S T \<Longrightarrow> left_alone i T U \<Longrightarrow> left_alone i S U"
  unfolding left_alone_def by fastforce

lemma on_role_left_alone:
  assumes "on_role j f S = Some (x, S')" "i \<noteq> j" "\<And>r W x r' W'. f r W = Some (x, r', W') \<Longrightarrow> kicks_stay W W'"
  shows "left_alone i S S'"
proof -
  obtain r r1 W1 where l: "f r (sv_world S) = Some (x, r1, W1)" "S' = S\<lparr> sv_roles := AList.update j r1 (sv_roles S), sv_world := W1 \<rparr>"
    using assms(1) by (auto simp: on_role_def split: bind_splits)
  have k: "kicks_stay (sv_world S) W1" using assms(3) l(1) by blast
  show ?thesis unfolding left_alone_def
  proof (intro allI impI)
    fix s
    assume s: "load_role i S = Some s"
    then obtain s0 where s0: "map_of (sv_roles S) i = Some s0" "s = s0\<lparr> rl_kick_requested := rl_kick_requested s0 \<or>
        (case map_of (w_relays (sv_world S)) i of None \<Rightarrow> False | Some obj \<Rightarrow> ro_kicked obj) \<rparr>" by (auto simp: load_role_def)
    define k' where "k' = (rl_kick_requested s0 \<or> (case map_of (w_relays W1) i of None \<Rightarrow> False | Some obj \<Rightarrow> ro_kicked obj))"
    have "load_role i S' = Some (s\<lparr> rl_dynamic_pusher_manager := rl_dynamic_pusher_manager s, rl_kick_requested := k' \<rparr>)"
      using l(2) s0 assms(2) by (simp add: load_role_def map_of_update k'_def)
    moreover have "rl_kick_requested s \<longrightarrow> k'"
      using k s0(2) by (auto simp: kicks_stay_def k'_def split: option.splits)
    ultimately show "\<exists>m k. load_role i S' = Some (s\<lparr> rl_dynamic_pusher_manager := m, rl_kick_requested := k \<rparr>) \<and> (rl_kick_requested s \<longrightarrow> k)" by blast
  qed
qed

lemma kicks_same: "w_relays W' = w_relays W \<Longrightarrow> kicks_stay W W'"
  by (simp add: kicks_stay_def)

lemma mark_invalid_kicks: "mark_invalid env r W = Some (r', W') \<Longrightarrow> kicks_stay W W'"
  using mark_invalid_quiet(1) by (fastforce simp: quiet_def intro!: kicks_same)

lemma base_uninit_kicks: "base_uninit env r W = Some (r', W') \<Longrightarrow> kicks_stay W W'"
  by (auto simp: base_uninit_def Let_def quiet_def intro!: kicks_same dest!: invalid_srt_quiet(1) split: if_splits)

lemma detach_kicks: "kicks_stay W (detach_loop cs W)"
proof (induction cs arbitrary: W)
  case (Cons c cs)
  have "kicks_stay W (update_relay c (\<lambda>r. r\<lparr> ro_manager := None, ro_kicked := True \<rparr>) W)"
    by (auto simp: kicks_stay_def update_relay_def map_of_update split: option.splits)
  thus ?case using Cons.IH unfolding kicks_stay_def detach_loop.simps by metis
qed (simp add: kicks_stay_def)

lemma role_uninit_kicks:
  assumes "role_uninit env r W = Some (r', W')"
  shows "kicks_stay W W'"
proof (cases "rl_kind r")
  case Publisher_role
  obtain r1 W1 where d: "detach_dynamic r W = Some (r1, W1)" "base_uninit env (r1\<lparr> rl_dynamic_pusher_manager := None \<rparr>) (publisher_leave r1 W1) = Some (r', W')"
    using assms Publisher_role by (auto simp: role_uninit_def publisher_uninit_def split: bind_splits)
  have "kicks_stay W W1"
  proof (cases "rl_dynamic_pusher_manager r")
    case None
    thus ?thesis using d(1) by (simp add: detach_dynamic_def kicks_same)
  next
    case (Some M)
    hence "W1 = relay_world.extend (detach_loop (m_child_relays M) (relay_world.truncate W)) (relay_world.more W)"
      using d(1) by (auto simp: detach_dynamic_def on_relays_def detach_child_relays_def)
    thus ?thesis using detach_kicks [of "relay_world.truncate W" "m_child_relays M"] by (simp add: kicks_stay_def relay_world.defs)
  qed
  moreover have "w_relays (publisher_leave r1 W1) = w_relays W1" by (simp add: publisher_leave_def Let_def)
  ultimately show ?thesis using base_uninit_kicks [OF d(2)] by (simp add: kicks_stay_def)
next
  case Puller_role
  hence "base_uninit env r (puller_leave r W) = Some (r', W')" using assms by (simp add: role_uninit_def)
  moreover have "w_relays (puller_leave r W) = w_relays W" by (simp add: puller_leave_def Let_def)
  ultimately show ?thesis using base_uninit_kicks by (fastforce simp: kicks_stay_def)
qed (use assms base_uninit_kicks in \<open>simp_all add: role_uninit_def\<close>)

lemma put_managers_left_alone: "left_alone i S (put_managers ms S)"
  unfolding left_alone_def
proof (intro allI impI)
  fix r
  assume "load_role i S = Some r"
  then obtain z k where z: "map_of (sv_roles S) i = Some z" "r = z\<lparr> rl_kick_requested := rl_kick_requested z \<or> k \<rparr>"
      "k = (case map_of (w_relays (sv_world S)) i of None \<Rightarrow> False | Some obj \<Rightarrow> ro_kicked obj)" by (auto simp: load_role_def)
  let ?m = "rl_dynamic_pusher_manager (put_dynamic (ms (Of_publisher i)) z)"
  have "put_dynamic m z = z\<lparr> rl_dynamic_pusher_manager := rl_dynamic_pusher_manager (put_dynamic m z) \<rparr>" for m
    by (simp add: put_dynamic_def split: option.split relay_manager.split)
  hence "load_role i (put_managers ms S) = Some (z\<lparr> rl_dynamic_pusher_manager := ?m, rl_kick_requested := rl_kick_requested z \<or> k \<rparr>)"
    using z(1,3) by (simp add: load_role_def put_managers_role)
  hence "load_role i (put_managers ms S) = Some (r\<lparr> rl_dynamic_pusher_manager := ?m, rl_kick_requested := rl_kick_requested r \<rparr>)"
    unfolding z(2) by simp
  thus "\<exists>m k. load_role i (put_managers ms S) = Some (r\<lparr> rl_dynamic_pusher_manager := m, rl_kick_requested := k \<rparr>) \<and> (rl_kick_requested r \<longrightarrow> k)"
    by blast
qed

lemma relay_tell_left_alone: "left_alone i S (relay_tell now j S)"
  by (auto simp: relay_tell_def put_managers_left_alone left_alone_refl split: option.split)

lemma uninit_left_alone:
  assumes "uninit_role env j S = Some S'" "i \<noteq> j"
  shows "left_alone i S S'"
proof -
  obtain r where r: "load_role j S = Some r" using assms by (auto simp: uninit_role_def split: bind_splits)
  show ?thesis
  proof (cases "rl_kind r = Pusher_role \<or> rl_kind r = Puller_role")
    case True
    let ?S = "if rl_kind r = Puller_role then S\<lparr> sv_world := puller_leave r (sv_world S) \<rparr> else S"
    obtain x where u: "on_role j (\<lambda>r W. no_result (base_uninit env r W)) (relay_tell (e_now env) j ?S) = Some (x, S')"
      using assms r True by (auto simp: uninit_role_def Let_def)
    have "w_relays (sv_world ?S) = w_relays (sv_world S)" "sv_roles ?S = sv_roles S" by (simp_all add: puller_leave_def Let_def)
    hence "load_role i ?S = load_role i S" by (simp add: load_role_def)
    hence "left_alone i S ?S" using left_alone_refl [of i S] by (simp add: left_alone_def)
    moreover have "left_alone i (relay_tell (e_now env) j ?S) S'"
      by (rule on_role_left_alone [OF u assms(2)]) (auto dest: base_uninit_kicks)
    ultimately show ?thesis using relay_tell_left_alone left_alone_trans by blast
  next
    case False
    then obtain x where u: "on_role j (\<lambda>r W. no_result (role_uninit env r W)) S = Some (x, S')"
      using assms r by (auto simp: uninit_role_def)
    show ?thesis by (rule on_role_left_alone [OF u assms(2)]) (auto dest: role_uninit_kicks)
  qed
qed

lemma drop_left_alone: "i \<noteq> j \<Longrightarrow> left_alone i S (drop_role j S)"
proof -
  assume "i \<noteq> j"
  hence "load_role i (drop_role j S) = load_role i S" by (simp add: load_role_def drop_role_def)
  thus ?thesis using left_alone_refl [of i S] by (simp add: left_alone_def)
qed

lemma state_left_alone: "on_role j (get_state env cur) S = Some (x, S') \<Longrightarrow> i \<noteq> j \<Longrightarrow> left_alone i S S'"
  by (erule on_role_left_alone) (auto simp: get_state_def kicks_same dest: mark_invalid_kicks split: if_splits)

section \<open>Reaping\<close>

text \<open>The roles that housekeeping must end, and those it may keep.\<close>

definition sick :: "group_env \<Rightarrow> 'ca server \<Rightarrow> role_id \<Rightarrow> bool" where
  "sick E S i \<longleftrightarrow> (\<exists>r. load_role i S = Some r \<and> (rl_state r \<noteq> SLS_RS_INITED \<or> rl_kick_requested r \<or>
     check_idle_streams_duration (e_now (ge_house E i)) (ge_now E) r \<or> sock_dead (get_sock_state (ge_house E i) r)))"

definition alive :: "'ca server \<Rightarrow> role_id \<Rightarrow> bool" where
  "alive S i \<longleftrightarrow> (\<exists>r. load_role i S = Some r \<and> rl_state r = SLS_RS_INITED \<and> rl_srt r \<noteq> None)"

lemma left_alone_sick: "left_alone i S S' \<Longrightarrow> sick E S i \<Longrightarrow> sick E S' i"
  unfolding left_alone_def sick_def
  by (fastforce simp: check_idle_streams_duration_def get_sock_state_def)

lemma left_alone_alive: "left_alone i S S' \<Longrightarrow> alive S i \<Longrightarrow> alive S' i"
  unfolding left_alone_def alive_def by fastforce

lemma on_role_stored: "on_role i f S = Some (x, S') \<Longrightarrow> stored S' = stored S"
proof -
  assume o: "on_role i f S = Some (x, S')"
  then obtain r r1 W1 where "load_role i S = Some r" "S' = S\<lparr> sv_roles := AList.update i r1 (sv_roles S), sv_world := W1 \<rparr>"
    by (auto simp: on_role_def split: bind_splits)
  thus ?thesis using stored_update [where S = S and i = i and r = r1 and W = W1] load_stored [of i S r] by auto
qed

lemma relay_tell_stored: "stored (relay_tell now i S) = stored S"
  by (auto simp: relay_tell_def split: option.split)

lemma uninit_stored:
  assumes "uninit_role env i S = Some S'"
  shows "stored S' = stored S"
proof -
  obtain r where r: "load_role i S = Some r" using assms by (auto simp: uninit_role_def split: bind_splits)
  show ?thesis
  proof (cases "rl_kind r = Pusher_role \<or> rl_kind r = Puller_role")
    case True
    let ?S = "if rl_kind r = Puller_role then S\<lparr> sv_world := puller_leave r (sv_world S) \<rparr> else S"
    obtain x where "on_role i (\<lambda>r W. no_result (base_uninit env r W)) (relay_tell (e_now env) i ?S) = Some (x, S')"
      using assms r True by (auto simp: uninit_role_def Let_def)
    hence "stored S' = stored (relay_tell (e_now env) i ?S)" by (rule on_role_stored)
    also have "\<dots> = stored S" unfolding relay_tell_stored by simp
    finally show ?thesis .
  next
    case False
    then obtain x where "on_role i (\<lambda>r W. no_result (role_uninit env r W)) S = Some (x, S')"
      using assms r by (auto simp: uninit_role_def)
    thus ?thesis by (rule on_role_stored)
  qed
qed

lemma lock_relay_manager_some: "lock_relay_manager i S = Some h \<Longrightarrow> lock_manager S h \<noteq> None"
  by (auto simp: lock_relay_manager_def split: option.splits if_splits)

lemma get_state_verdict:
  assumes "get_state env cur r W = Some (st, r', W')"
  shows "rl_state r' = st"
    "st = SLS_RS_INITED \<Longrightarrow> r' = r \<and> W' = W \<and> rl_srt r \<noteq> None \<and> \<not> rl_kick_requested r \<and>
       \<not> check_idle_streams_duration (e_now env) cur r \<and> \<not> sock_dead (get_sock_state env r)"
proof -
  have s: "\<not> sock_dead (get_sock_state env r) \<Longrightarrow> rl_srt r \<noteq> None"
    by (auto simp: sock_dead_def get_sock_state_def split: option.splits)
  have m: "rl_state x = SLS_RS_INVALID" if "mark_invalid env r W = Some (x, V)" for x V using mark_invalid_quiet(3) [OF that] .
  show "rl_state r' = st" using assms by (auto simp: get_state_def split: if_splits)
  show "st = SLS_RS_INITED \<Longrightarrow> r' = r \<and> W' = W \<and> rl_srt r \<noteq> None \<and> \<not> rl_kick_requested r \<and>
       \<not> check_idle_streams_duration (e_now env) cur r \<and> \<not> sock_dead (get_sock_state env r)"
    using assms s by (auto simp: get_state_def dest: m split: if_splits)
qed

text \<open>What the loop over \<open>es\<close> leaves: \<open>kept\<close> are the entries that stay, all of them alive; the sick ones are gone from the
  store, and no other role is touched.\<close>

definition reaped :: "group_env \<Rightarrow> (int \<times> role_id) list \<Rightarrow> (int \<times> role_id) list \<Rightarrow> 'ca server \<Rightarrow> 'ca server \<Rightarrow> bool" where
  "reaped E es kept S S' \<longleftrightarrow> roles_ok S' \<and> hands_off (sv_world S) (sv_world S') \<and> (\<exists>P. kept = filter P es) \<and>
    (\<forall>e \<in> set kept. alive S' (snd e)) \<and> (\<forall>e \<in> set es. sick E S (snd e) \<longrightarrow> e \<notin> set kept) \<and>
    (\<forall>e \<in> set es. e \<notin> set kept \<longrightarrow> snd e \<notin> stored S') \<and> stored S' \<subseteq> stored S \<and> (\<forall>i. i \<notin> snd ` set es \<longrightarrow> left_alone i S S')"

lemma reapedD:
  assumes "reaped E es kept S S'"
  shows "roles_ok S'" "hands_off (sv_world S) (sv_world S')" "\<exists>P. kept = filter P es" "\<forall>e \<in> set kept. alive S' (snd e)"
    "\<forall>e \<in> set es. sick E S (snd e) \<longrightarrow> e \<notin> set kept" "\<forall>e \<in> set es. e \<notin> set kept \<longrightarrow> snd e \<notin> stored S'"
    "stored S' \<subseteq> stored S" "\<forall>i. i \<notin> snd ` set es \<longrightarrow> left_alone i S S'"
  using assms unfolding reaped_def by - (elim conjE, assumption)+

lemma reaped_cons:
  assumes "reaped E es kept T S'" "i \<notin> snd ` set es" "hands_off (sv_world S) (sv_world T)" "stored T \<subseteq> stored S"
    "\<And>j. j \<noteq> i \<Longrightarrow> left_alone j S T"
  shows "hands_off (sv_world S) (sv_world S')" "stored S' \<subseteq> stored S" "\<forall>j. j \<notin> snd ` set ((fd, i) # es) \<longrightarrow> left_alone j S S'"
    "x \<in> set es \<Longrightarrow> sick E S (snd x) \<Longrightarrow> x \<notin> set kept" "(fd, i) \<notin> set es" "(fd, i) \<notin> set kept"
proof -
  note d = reapedD [OF assms(1)]
  show "hands_off (sv_world S) (sv_world S')" by (rule list_grows_trans [OF assms(3) d(2)])
  show "stored S' \<subseteq> stored S" using d(7) assms(4) by (rule subset_trans)
  have u: "j \<notin> snd ` set es \<Longrightarrow> left_alone j T S'" for j using d(8) by blast
  show "\<forall>j. j \<notin> snd ` set ((fd, i) # es) \<longrightarrow> left_alone j S S'"
  proof (intro allI impI)
    fix j
    assume "j \<notin> snd ` set ((fd, i) # es)"
    hence "j \<noteq> i" "j \<notin> snd ` set es" by auto
    thus "left_alone j S S'" using left_alone_trans [OF assms(5) u] by blast
  qed
  show ne: "(fd, i) \<notin> set es" using assms(2) by force
  thus "(fd, i) \<notin> set kept" using d(3) by auto
  show "x \<in> set es \<Longrightarrow> sick E S (snd x) \<Longrightarrow> x \<notin> set kept"
  proof -
    assume x: "x \<in> set es" "sick E S (snd x)"
    hence "snd x \<noteq> i" using assms(2) by auto
    thus ?thesis using left_alone_sick [OF assms(5) x(2)] d(5) x(1) by blast
  qed
qed

lemma reaped_gone:
  assumes r: "reaped E es kept T S'" and i: "i \<notin> snd ` set es" "i \<notin> stored T" and h: "hands_off (sv_world S) (sv_world T)" "stored T \<subseteq> stored S"
    and u: "\<And>j. j \<noteq> i \<Longrightarrow> left_alone j S T"
  shows "reaped E ((fd, i) # es) kept S S'"
proof -
  note c = reaped_cons [OF r i(1) h u]
  note p = reapedD [OF r]
  obtain P where "kept = filter P es" using p(3) by blast
  hence "kept = filter (\<lambda>x. P x \<and> x \<noteq> (fd, i)) ((fd, i) # es)" using c(5) by (auto intro!: filter_cong)
  hence "\<exists>P. kept = filter P ((fd, i) # es)" by blast
  moreover have "i \<notin> stored S'" using p(7) i(2) by blast
  ultimately show ?thesis unfolding reaped_def using p(1,4,6) c by (intro conjI) auto
qed

lemma reaped_stays:
  assumes r: "reaped E es kept T S'" and i: "i \<notin> snd ` set es" "alive T i" "\<not> sick E S i"
    and h: "hands_off (sv_world S) (sv_world T)" "stored T \<subseteq> stored S" and u: "\<And>j. j \<noteq> i \<Longrightarrow> left_alone j S T"
  shows "reaped E ((fd, i) # es) ((fd, i) # kept) S S'"
proof -
  note c = reaped_cons [OF r i(1) h u]
  note p = reapedD [OF r]
  obtain P where "kept = filter P es" using p(3) by blast
  hence "(fd, i) # kept = filter (\<lambda>x. P x \<or> x = (fd, i)) ((fd, i) # es)" using c(5) by (auto intro!: filter_cong)
  hence "\<exists>P. (fd, i) # kept = filter P ((fd, i) # es)" by blast
  moreover have "alive S' i" using p(8) i(1) left_alone_alive [OF _ i(2)] by blast
  ultimately show ?thesis unfolding reaped_def using p(1,4,6) c i(3) by (intro conjI) auto
qed

lemma invalid_loop_reaps:
  assumes "roles_ok S" "distinct (map snd es)" "invalid_loop E upd es stats q wait S = Some (kept, stats', q', wait', S')"
  shows "wait' = wait \<and> (distinct q \<longrightarrow> distinct q') \<and> reaped E es kept S S'"
  using assms
proof (induction es arbitrary: stats q wait S kept)
  case Nil
  thus ?case by (simp add: reaped_def left_alone_refl)
next
  case (Cons e es)
  obtain fd i where e: "e = (fd, i)" by fastforce
  have i: "i \<notin> snd ` set es" "distinct (map snd es)" using Cons.prems(2) e by auto
  obtain r0 where r0: "load_role i S = Some r0" using Cons.prems(3) e by (auto split: bind_splits)
  define stats1 where "stats1 = (if upd then stats @ [(i, rl_kbitrate r0)] else stats)"
  obtain st S1 where g: "on_role i (get_state (ge_house E i) (ge_now E)) S = Some (st, S1)"
    using Cons.prems(3) e r0 by (auto simp: Let_def split: bind_splits)
  obtain r1 W1 where r1: "get_state (ge_house E i) (ge_now E) r0 (sv_world S) = Some (st, r1, W1)" "map_of (sv_roles S1) i = Some r1"
    using on_role_load [OF g] r0 by auto
  have S1: "roles_ok S1" "hands_off (sv_world S) (sv_world S1)" "stored S1 = stored S"
    using state_store [OF g] Cons.prems(1) on_role_stored [OF g] by (auto simp: store_step_def)
  show ?case
  proof (cases "st = SLS_RS_INVALID \<or> st = SLS_RS_UNINIT")
    case True
    obtain r where r: "load_role i S1 = Some r" using r1(2) by (auto simp: load_role_def)
    have ri: "rl_state r \<noteq> SLS_RS_INITED" "dead_ok r"
      using r r1(2) get_state_verdict(1) [OF r1(1)] True load_role_ok [OF S1(1) r] by (auto simp: load_role_def)
    obtain S2 r2 where u: "uninit_role (ge_house E i) i S1 = Some S2" "load_role i S2 = Some r2"
      using Cons.prems(3) e r0 g True r by (auto simp: Let_def split: bind_splits)
    have n: "check_http_client r2 \<noteq> SLS_OK" using uninit_no_request [OF u(1) r ri(2,1) u(2)] by (simp add: sls_codes)
    have l: "invalid_loop E upd es stats1 (queue_manager r i S1 q) wait (drop_role i S2) = Some (kept, stats', q', wait', S')"
      using Cons.prems(3) e r0 g True r u n unfolding stats1_def by (simp add: Let_def)
    note us = uninit_store [OF u(1), unfolded store_step_def] and d = drop_frame [where S = S2 and i = i]
    have ok: "roles_ok (drop_role i S2)" using us S1(1) d(1) by blast
    have q: "distinct q \<longrightarrow> distinct (queue_manager r i S1 q)"
      by (auto simp: queue_manager_def dest: lock_relay_manager_some split: option.split)
    have h: "hands_off (sv_world S) (sv_world (drop_role i S2))" using list_grows_trans [OF S1(2)] us d(3,4) by metis
    have un: "left_alone j S (drop_role i S2)" if "j \<noteq> i" for j
      using state_left_alone [OF g that] uninit_left_alone [OF u(1) that] drop_left_alone [OF that] left_alone_trans by blast
    have "reaped E (e # es) kept S S'" unfolding e
      by (rule reaped_gone [OF _ i(1) _ h _ un]) (use Cons.IH [OF ok i(2) l] d(2) uninit_stored [OF u(1)] S1(3) in auto)
    thus ?thesis using Cons.IH [OF ok i(2) l] q by blast
  next
    case False
    hence st: "st = SLS_RS_INITED" by (cases st) auto
    obtain kept1 where l: "invalid_loop E upd es stats1 q wait S1 = Some (kept1, stats', q', wait', S')" "kept = e # kept1"
      using Cons.prems(3) e r0 g False unfolding stats1_def by (auto simp: Let_def split: bind_splits)
    note v = get_state_verdict(2) [OF r1(1) st] get_state_verdict(1) [OF r1(1)]
    have al: "alive S1 i" using r1(2) v st unfolding alive_def by (auto simp: load_role_def)
    have well: "\<not> sick E S i" using r0 v st by (auto simp: sick_def)
    have "reaped E (e # es) kept S S'" unfolding e l(2)
      by (rule reaped_stays [OF _ i(1) al well S1(2) _ state_left_alone [OF g]]) (use Cons.IH [OF S1(1) i(2) l(1)] S1(3) in auto)
    thus ?thesis using Cons.IH [OF S1(1) i(2) l(1)] by blast
  qed
qed

section \<open>The invariant of a worker\<close>

text \<open>Every role is held once, by the map or by the hand-off list, and has a number that was given out.\<close>

definition placed :: "role_id list \<Rightarrow> ('ca, 'z) relay_world_scheme \<Rightarrow> bool" where
  "placed held W \<longleftrightarrow> distinct (held @ w_roles W) \<and> (\<forall>i \<in> set held \<union> set (w_roles W). i < w_next W)"

lemma placed_hands_off: "placed held W \<Longrightarrow> hands_off W W' \<Longrightarrow> placed held W'"
proof -
  assume p: "placed held W" and g: "hands_off W W'"
  obtain new where n: "w_roles W' = w_roles W @ new" "distinct new" "set new \<subseteq> {w_next W..<w_next W'}" "w_next W \<le> w_next W'"
    using g by (auto simp: list_grows_def)
  have old: "\<And>x. x \<in> set held \<union> set (w_roles W) \<Longrightarrow> x < w_next W" using p by (simp add: placed_def)
  have "set new \<inter> (set held \<union> set (w_roles W)) = {}" using n(3) old by (force simp: subset_iff)
  moreover have "x < w_next W'" if "x \<in> set held \<union> set (w_roles W) \<union> set new" for x
    using that old [of x] n(3,4) by (auto simp: subset_iff)
  ultimately show ?thesis using p n(1,2) by (auto simp: placed_def)
qed

lemma placed_among: "placed held W \<Longrightarrow> distinct held' \<Longrightarrow> set held' \<subseteq> set held \<Longrightarrow> placed held' W"
  unfolding placed_def distinct_append by blast

lemma placed_fewer:
  "placed held W \<Longrightarrow> placed (map snd (filter P es)) W" if "held = map snd es" for held es
  using that distinct_map_filter [of snd es P] by (auto simp: placed_def)

definition group_ok :: "CSLSGroup \<times> 'ca server \<Rightarrow> bool" where
  "group_ok X = (case X of (G, S) \<Rightarrow>
     sorted_wrt (<) (map fst (g_map_role G)) \<and> length (g_map_role G) \<le> g_worker_connections G \<and>
     placed (map snd (g_map_role G)) (sv_world S) \<and> snd ` set (g_map_role G) \<subseteq> stored S \<and> roles_ok S \<and>
     g_list_wait_http_role G = [] \<and> distinct (g_list_reconnect_relay_manager G))"

lemma group_ok_store:
  assumes "group_ok (G, S)" "store_step S S'"
  shows "group_ok (G, S')"
proof -
  have "snd ` set (g_map_role G) \<subseteq> stored S'" by (rule subset_trans [of _ "stored S"]) (use assms in \<open>simp_all add: group_ok_def store_step_def\<close>)
  moreover have "placed (map snd (g_map_role G)) (sv_world S')"
    by (rule placed_hands_off [of _ "sv_world S"]) (use assms in \<open>simp_all add: group_ok_def store_step_def\<close>)
  ultimately show ?thesis using assms by (simp add: group_ok_def store_step_def)
qed

lemma reconnect_ok:
  assumes "group_ok (G, S)" "group_check_reconnect_relay E G S = Some (G', S')"
  shows "group_ok (G', S')"
proof -
  let ?f = "\<lambda>V. map_option (\<lambda>(hs, ms, V1). ((hs, ms), V1))
         (check_reconnect_relay (ge_relay E) (ge_root E) (ge_now E) (g_list_reconnect_relay_manager G) (lock_manager S) V)"
  obtain hs ms W1 where o: "on_relays ?f (sv_world S) = Some ((hs, ms), W1)" "G' = G\<lparr> g_list_reconnect_relay_manager := hs \<rparr>"
      "S' = put_managers ms (S\<lparr> sv_world := W1 \<rparr>)"
    using assms(2) by (auto simp: group_check_reconnect_relay_def split: option.splits)
  have "hands_off (sv_world S) W1 \<and> (distinct (g_list_reconnect_relay_manager G) \<longrightarrow> distinct hs)"
    using o(1) check_reconnect_hands_off by (elim relays_sock) fastforce
  hence "store_step S S'" "distinct hs" using assms(1) put_managers_ok [of "S\<lparr> sv_world := W1 \<rparr>"] unfolding o(3)
    by (auto simp: store_step_def group_ok_def roles_ok_def)
  thus ?thesis using group_ok_store [OF assms(1)] unfolding o(2) by (simp add: group_ok_def)
qed

lemma invalid_sock_ok:
  assumes "group_ok (G, S)" "check_invalid_sock E G S = Some (G', S')"
  shows "group_ok (G', S')" "reaped E (g_map_role G) (g_map_role G') S S'" "g_worker_connections G' = g_worker_connections G"
    "g_last_idle_check_ms G' = g_last_idle_check_ms G"
proof -
  define upd where "upd = (signed_take_bit 31 (ge_now E - g_stat_post_last_tm_ms G) \<ge> g_stat_post_interval G * 1000)"
  obtain kept stats q wait where l: "invalid_loop E upd (g_map_role G) [] (g_list_reconnect_relay_manager G) (g_list_wait_http_role G) S =
      Some (kept, stats, q, wait, S')" "g_map_role G' = kept" "g_list_reconnect_relay_manager G' = q" "g_list_wait_http_role G' = wait"
      "g_worker_connections G' = g_worker_connections G" "g_last_idle_check_ms G' = g_last_idle_check_ms G"
    using assms(2) unfolding check_invalid_sock_def Let_def upd_def [symmetric] by (auto split: bind_splits)
  have g: "roles_ok S" "distinct (map snd (g_map_role G))" using assms(1) by (auto simp: group_ok_def placed_def)
  note r = invalid_loop_reaps [OF g l(1)]
  note d = reapedD [OF r [THEN conjunct2, THEN conjunct2]]
  obtain P where P: "kept = filter P (g_map_role G)" using d(3) by blast
  have "snd ` set kept \<subseteq> stored S'" using d(4) load_stored by (fastforce simp: alive_def)
  moreover have "placed (map snd kept) (sv_world S')"
    using placed_hands_off [OF placed_fewer [OF refl] d(2)] assms(1) unfolding P by (auto simp: group_ok_def)
  moreover have "sorted_wrt (<) (map fst kept)" using assms(1) unfolding P by (simp add: group_ok_def sorted_wrt_map sorted_wrt_filter)
  moreover have "length kept \<le> g_worker_connections G"
    using assms(1) le_trans [OF length_filter_le [of P "g_map_role G"]] unfolding P by (simp add: group_ok_def)
  ultimately show "group_ok (G', S')" using assms(1) r d(1) l(2-5) by (auto simp: group_ok_def)
  show "reaped E (g_map_role G) (g_map_role G') S S'" "g_worker_connections G' = g_worker_connections G"
    "g_last_idle_check_ms G' = g_last_idle_check_ms G" using r l(2,5,6) by auto
qed

lemma uninit_all_ok:
  "uninit_all E is S = Some S' \<Longrightarrow> roles_ok S \<Longrightarrow> roles_ok S' \<and> hands_off (sv_world S) (sv_world S') \<and> stored S - set is \<subseteq> stored S'"
proof (induction "is" arbitrary: S)
  case (Cons i "is")
  obtain S1 where u: "uninit_role (ge_house E i) i (materialise (ge_birth E) i S) = Some S1" "uninit_all E is (drop_role i S1) = Some S'"
    using Cons.prems(1) by (auto split: bind_splits)
  have s: "store_step S S1" using materialise_store uninit_store [OF u(1)] store_step_trans by blast
  have ok: "roles_ok (drop_role i S1)" using s Cons.prems(2) drop_frame(1) by (auto simp: store_step_def)
  note ih = Cons.IH [OF u(2) ok]
  have "hands_off (sv_world S) (sv_world S1)" "hands_off (sv_world S1) (sv_world S')" using s ih by (simp_all add: store_step_def drop_frame(3,4))
  hence "hands_off (sv_world S) (sv_world S')" by (rule list_grows_trans)
  moreover have "stored S - set (i # is) \<subseteq> stored S'" using s ih unfolding store_step_def drop_frame(2) by auto
  ultimately show ?case using ih by blast
qed simp

lemma backlog_ok:
  assumes "group_ok (G, S)" "reap_unadopted_backlog E G S = Some S'"
  shows "group_ok (G, S')"
proof (cases "g_list_role G")
  case True
  let ?stale = "filter (role_stale (role_facts E S) (ge_now E) HANDOFF_ADMISSION_TTL_MS) (w_roles (sv_world S))"
  let ?kept = "filter (\<lambda>r. \<not> role_stale (role_facts E S) (ge_now E) HANDOFF_ADMISSION_TTL_MS r) (w_roles (sv_world S))"
  let ?S = "S\<lparr> sv_world := (sv_world S)\<lparr> w_roles := ?kept \<rparr> \<rparr>"
  have u: "uninit_all E ?stale ?S = Some S'" using assms(2) True by (simp add: reap_unadopted_backlog_def reap_unadopted_eq)
  have g: "roles_ok ?S" "placed (map snd (g_map_role G)) (sv_world ?S)" using assms(1) by (auto simp: group_ok_def roles_ok_def placed_def)
  note a = uninit_all_ok [OF u g(1)]
  have "snd ` set (g_map_role G) \<inter> set ?stale = {}" using assms(1) by (auto simp: group_ok_def placed_def)
  moreover have "snd ` set (g_map_role G) \<subseteq> stored S" "stored S - set ?stale \<subseteq> stored S'" using a assms(1) by (simp_all add: group_ok_def)
  ultimately have "snd ` set (g_map_role G) \<subseteq> stored S'" by blast
  moreover have "placed (map snd (g_map_role G)) (sv_world S')" using placed_hands_off [OF g(2)] a by blast
  ultimately show ?thesis using a assms(1) by (simp add: group_ok_def)
qed (use assms in \<open>simp add: reap_unadopted_backlog_def\<close>)

lemma fd_put_frame:
  "set (map fst (fd_put k v m)) = insert k (set (map fst m))" "length (fd_put k v m) \<le> Suc (length m)"
  "sorted_wrt (<) (map fst m) \<Longrightarrow> sorted_wrt (<) (map fst (fd_put k v m))" "snd ` set (fd_put k v m) \<subseteq> insert v (snd ` set m)"
  "distinct (map snd m) \<Longrightarrow> v \<notin> snd ` set m \<Longrightarrow> distinct (map snd (fd_put k v m))"
proof -
  show s: "set (map fst (fd_put k v m)) = insert k (set (map fst m))" for m
    by (induction k v m rule: fd_put.induct) (simp_all add: insert_commute)
  show "length (fd_put k v m) \<le> Suc (length m)" by (induction k v m rule: fd_put.induct) auto
  show t: "snd ` set (fd_put k v m) \<subseteq> insert v (snd ` set m)" for m
    by (induction k v m rule: fd_put.induct) (auto split: if_splits)
  show "sorted_wrt (<) (map fst m) \<Longrightarrow> sorted_wrt (<) (map fst (fd_put k v m))"
  proof (induction m)
    case (Cons a m)
    show ?case
    proof (cases "k \<le> fst a")
      case True
      thus ?thesis using Cons.prems by (cases a) auto
    next
      case False
      moreover have "\<forall>x \<in> set (map fst (fd_put k v m)). fst a < x" using Cons.prems False unfolding s by simp
      ultimately show ?thesis using Cons by (cases a) simp
    qed
  qed simp
  show "distinct (map snd m) \<Longrightarrow> v \<notin> snd ` set m \<Longrightarrow> distinct (map snd (fd_put k v m))"
  proof (induction m)
    case (Cons a m)
    have "snd a \<notin> snd ` set (fd_put k v m)" using Cons.prems t [of m] by auto
    thus ?case using Cons by (cases a) auto
  qed simp
qed

lemma new_role_ok:
  assumes "group_ok (G, S)" "check_new_role E G S = Some (G', S')"
  shows "group_ok (G', S')"
proof (cases "g_list_role G \<and> length (g_map_role G) < g_worker_connections G \<and> w_roles (sv_world S) \<noteq> []")
  case False
  hence "check_new_role E G S = Some (G, S)" by (cases "g_list_role G"; cases "w_roles (sv_world S)") (auto simp: check_new_role_def role_pop_def)
  thus ?thesis using assms by simp
next
  case True
  then obtain i rest where w: "w_roles (sv_world S) = i # rest" by (cases "w_roles (sv_world S)") auto
  let ?S0 = "S\<lparr> sv_world := (sv_world S)\<lparr> w_roles := rest \<rparr> \<rparr>"
  let ?S1 = "materialise (ge_birth E) i ?S0"
  have g0: "group_ok (G, ?S0)" "i \<notin> set (map snd (g_map_role G))" "i \<notin> set rest" "i < w_next (sv_world S)"
    using assms(1) w by (auto simp: group_ok_def placed_def roles_ok_def)
  obtain r where r: "load_role i ?S1 = Some r" using assms(2) True w by (auto simp: check_new_role_def role_pop_def Let_def split: bind_splits)
  have kept: "group_ok (G, T)" if "store_step ?S0 T" for T using group_ok_store [OF g0(1) that] .
  have dropped: "group_ok (G, drop_role i T)" if s: "store_step ?S0 T" for T
  proof -
    have k: "snd ` set (g_map_role G) \<subseteq> stored T" "group_ok (G, T)" using kept [OF s] by (simp_all add: group_ok_def)
    hence "snd ` set (g_map_role G) \<subseteq> stored (drop_role i T)" using g0(2) unfolding drop_frame(2) by auto
    thus ?thesis using k(2) drop_frame(1) [of T i] drop_frame(3,4) [of i T] by (simp add: group_ok_def placed_def)
  qed
  have s1: "store_step ?S0 ?S1" by (rule materialise_store)
  show ?thesis
  proof (cases "get_fd r = 0")
    case fd0: True
    then obtain S2 where u: "uninit_role (ge_house E i) i ?S1 = Some S2" "G' = G" "S' = drop_role i S2"
      using assms(2) True w r by (auto simp: check_new_role_def role_pop_def Let_def)
    show ?thesis unfolding u(2,3) by (rule dropped [OF store_step_trans [OF s1 uninit_store [OF u(1)]]])
  next
    case fd: False
    obtain ret S2 where a: "on_role i (\<lambda>r W. Some (add_to_epoll (ge_house E i) (ge_eid E) r W)) ?S1 = Some (ret, S2)"
      using assms(2) True w r fd by (auto simp: check_new_role_def role_pop_def Let_def split: bind_splits)
    have s2: "store_step ?S0 S2" by (rule store_step_trans [OF s1 add_store [OF a]])
    show ?thesis
    proof (cases "ret = 0")
      case False
      then obtain S3 where u: "uninit_role (ge_house E i) i S2 = Some S3" "G' = G" "S' = drop_role i S3"
        using assms(2) True w r fd a by (auto simp: check_new_role_def role_pop_def Let_def)
      show ?thesis unfolding u(2,3) by (rule dropped [OF store_step_trans [OF s2 uninit_store [OF u(1)]]])
    next
      case ok: True
      have e: "G' = G\<lparr> g_map_role := fd_put (get_fd r) i (g_map_role G) \<rparr>" "S' = S2"
        using assms(2) True w r fd a ok by (auto simp: check_new_role_def role_pop_def Let_def)
      note k = kept [OF s2] and f = fd_put_frame [where k = "get_fd r" and v = i and m = "g_map_role G"]
      have st: "i \<in> stored S2" using on_role_stored [OF a] load_stored [OF r] by simp
      have pl: "placed (i # map snd (g_map_role G)) (sv_world S2)"
        by (rule placed_hands_off [of _ "sv_world ?S0"]) (use g0 s2 in \<open>simp_all add: group_ok_def placed_def store_step_def\<close>)
      have "placed (map snd (fd_put (get_fd r) i (g_map_role G))) (sv_world S2)"
        by (rule placed_among [OF pl]) (use f(4,5) g0(2) pl in \<open>simp_all add: placed_def\<close>)
      moreover have "snd ` set (fd_put (get_fd r) i (g_map_role G)) \<subseteq> stored S2"
        using subset_trans [OF f(4), of "stored S2"] st k by (simp add: group_ok_def)
      moreover have "length (fd_put (get_fd r) i (g_map_role G)) \<le> g_worker_connections G" using f(2) True by simp
      ultimately show ?thesis unfolding e using k f(3) by (simp add: group_ok_def)
    qed
  qed
qed

lemma idle_check_ok:
  assumes "group_ok (G, S)" "idle_check E G S = Some (G', S')"
  obtains G2 S2 G3 S3 S4 where "group_check_reconnect_relay E G S = Some (G2, S2)" "check_invalid_sock E G2 S2 = Some (G3, S3)"
    "reap_unadopted_backlog E G3 S3 = Some S4" "check_new_role E G3 S4 = Some (G', S')" "group_ok (G2, S2)" "group_ok (G3, S3)"
    "group_ok (G3, S4)" "group_ok (G', S')"
proof -
  have w: "g_list_wait_http_role G = []" using assms(1) by (simp add: group_ok_def)
  hence eq: "G\<lparr> g_list_wait_http_role := [] \<rparr> = G" by simp
  obtain G2 S2 G3 S3 S4 where s: "group_check_reconnect_relay E G S = Some (G2, S2)" "check_invalid_sock E G2 S2 = Some (G3, S3)"
      "reap_unadopted_backlog E G3 S3 = Some S4" "check_new_role E G3 S4 = Some (G', S')"
    using assms(2) unfolding idle_check_def w check_wait_http_role.simps bind.bind_lunit prod.case eq by (auto split: bind_splits)
  note g2 = reconnect_ok [OF assms(1) s(1)]
  note g3 = invalid_sock_ok(1) [OF g2 s(2)]
  note g4 = backlog_ok [OF g3 s(3)]
  show thesis by (rule that [OF s g2 g3 g4 new_role_ok [OF g4 s(4)]])
qed

lemma pass_ok:
  assumes "group_ok (G, S)" "group_handler E G S = Some (n, G', S')"
  shows "group_ok (G', S')"
proof (cases "g_reload G \<and> g_map_role G = []")
  case True
  thus ?thesis using assms by (auto simp: group_handler_def group_ok_def)
next
  case False
  obtain c S1 c2 S2 where r: "(case ge_poll E of None \<Rightarrow> Some (0, S) | Some socks \<Rightarrow> read_loop E 0 socks 0 G S) = Some (c, S1)"
      "egress_loop E (g_map_role G) c S1 = Some (c2, S2)" "maybe_idle_check E G S2 = Some (G', S')"
    using assms(2) False by (auto simp: group_handler_def split: bind_splits)
  have "store_step S S1" using r(1) read_loop_store store_step_refl by (auto split: option.splits)
  hence ok: "group_ok (G, S2)" using group_ok_store [OF assms(1)] egress_loop_store [OF r(2)] store_step_trans by blast
  show ?thesis
  proof (cases "ge_now E - g_last_idle_check_ms G < IDLE_CHECK_INTERVAL")
    case True
    thus ?thesis using r(3) ok by (simp add: maybe_idle_check_def)
  next
    case f: False
    have "idle_check E (G\<lparr> g_last_idle_check_ms := ge_now E \<rparr>) S2 = Some (G', S')" using r(3) f by (simp add: maybe_idle_check_def)
    moreover have "group_ok (G\<lparr> g_last_idle_check_ms := ge_now E \<rparr>, S2)" using ok by (simp add: group_ok_def)
    ultimately show ?thesis using idle_check_ok by metis
  qed
qed

section \<open>Housekeeping comes to an end\<close>

lemma on_role_total:
  assumes "i \<in> stored S" "\<And>r W. \<exists>x r' W'. f r W = Some (x, r', W')"
  shows "\<exists>x S'. on_role i f S = Some (x, S')"
proof -
  obtain r where r: "load_role i S = Some r" using assms(1) by (cases "map_of (sv_roles S) i") (auto simp: load_role_def map_of_eq_None_iff)
  obtain x r1 W1 where "f r (sv_world S) = Some (x, r1, W1)" using assms(2) by blast
  thus ?thesis using r by (simp add: on_role_def)
qed

lemma base_uninit_total: "e_post_ok env \<Longrightarrow> \<exists>r' W'. base_uninit env r W = Some (r', W')"
  using invalid_srt_total [of env] by (fastforce simp: base_uninit_def Let_def)

lemma role_uninit_total:
  assumes "e_post_ok env"
  shows "\<exists>r' W'. role_uninit env r W = Some (r', W')"
proof -
  have "\<exists>r1 W1. detach_dynamic r W = Some (r1, W1)" by (auto simp: detach_dynamic_def on_relays_def split: option.split prod.split)
  thus ?thesis using base_uninit_total [OF assms] by (cases "rl_kind r") (auto simp: role_uninit_def publisher_uninit_def)
qed

lemma uninit_total:
  assumes "e_post_ok env" "i \<in> stored S"
  shows "\<exists>S'. uninit_role env i S = Some S'"
proof -
  obtain r where r: "load_role i S = Some r" using assms(2) by (cases "map_of (sv_roles S) i") (auto simp: load_role_def map_of_eq_None_iff)
  let ?S = "relay_tell (e_now env) i (if rl_kind r = Puller_role then S\<lparr> sv_world := puller_leave r (sv_world S) \<rparr> else S)"
  have "i \<in> stored ?S" unfolding relay_tell_stored using assms(2) by simp
  hence "\<exists>x T. on_role i (\<lambda>r W. no_result (base_uninit env r W)) ?S = Some (x, T)"
    by (rule on_role_total) (use base_uninit_total [OF assms(1)] in \<open>fastforce\<close>)
  moreover have "\<exists>x T. on_role i (\<lambda>r W. no_result (role_uninit env r W)) S = Some (x, T)"
    by (rule on_role_total [OF assms(2)]) (use role_uninit_total [OF assms(1)] in \<open>fastforce\<close>)
  ultimately show ?thesis using r by (auto simp: uninit_role_def Let_def)
qed

lemma invalid_loop_total:
  assumes "\<And>i. e_post_ok (ge_house E i)" "distinct (map snd es)" "snd ` set es \<subseteq> stored S"
  shows "\<exists>x. invalid_loop E upd es stats q wait S = Some x"
  using assms(2,3)
proof (induction es arbitrary: stats q wait S)
  case (Cons e es)
  obtain fd i where e: "e = (fd, i)" by fastforce
  have i: "i \<in> stored S" "i \<notin> snd ` set es" "distinct (map snd es)" "snd ` set es \<subseteq> stored S" using Cons.prems e by auto
  have get: "\<exists>r. load_role i T = Some r" if "i \<in> stored T" for T :: "'a server"
    using that by (cases "map_of (sv_roles T) i") (auto simp: load_role_def map_of_eq_None_iff)
  have gs: "\<exists>x r' W'. get_state (ge_house E i) (ge_now E) r W = Some (x, r', W')" for r and W :: "'a role_world"
    using invalid_srt_total [OF assms(1) [of i], of "r\<lparr> rl_state := SLS_RS_INVALID \<rparr>" W] by (auto simp: get_state_def mark_invalid_def)
  obtain r0 where r0: "load_role i S = Some r0" using get i(1) by blast
  obtain st S1 where g: "on_role i (get_state (ge_house E i) (ge_now E)) S = Some (st, S1)"
    using on_role_total [OF i(1), where f = "get_state (ge_house E i) (ge_now E)"] gs by blast
  have s1: "stored S1 = stored S" by (rule on_role_stored [OF g])
  obtain S2 where u: "uninit_role (ge_house E i) i S1 = Some S2" using uninit_total [OF assms(1)] i(1) s1 by blast
  have s2: "stored S2 = stored S" using uninit_stored [OF u] s1 by simp
  obtain r r2 where r: "load_role i S1 = Some r" "load_role i S2 = Some r2" using get i(1) s1 s2 by metis
  have t: "snd ` set es \<subseteq> stored S1" "snd ` set es \<subseteq> stored S2" "snd ` set es \<subseteq> stored (drop_role i S2)"
    using i(2,4) unfolding drop_frame(2) s1 s2 by auto
  define stats1 where "stats1 = (if upd then stats @ [(i, rl_kbitrate r0)] else stats)"
  show ?case
  proof (cases "st = SLS_RS_INVALID \<or> st = SLS_RS_UNINIT")
    case True
    hence "invalid_loop E upd (e # es) stats q wait S =
        (if check_http_client r2 = SLS_OK then invalid_loop E upd es stats1 (queue_manager r i S1 q) (wait @ [i]) S2
         else invalid_loop E upd es stats1 (queue_manager r i S1 q) wait (drop_role i S2))"
      using r0 g u r by (simp add: e stats1_def Let_def)
    thus ?thesis using Cons.IH [OF i(3) t(2)] Cons.IH [OF i(3) t(3)] by presburger
  next
    case False
    hence "invalid_loop E upd (e # es) stats q wait S =
        invalid_loop E upd es stats1 q wait S1 \<bind> (\<lambda>(kept, x). Some ((fd, i) # kept, x))"
      using r0 g by (simp add: e stats1_def Let_def)
    moreover obtain kept x where "invalid_loop E upd es stats1 q wait S1 = Some (kept, x)" using Cons.IH [OF i(3) t(1)] by (metis surj_pair)
    ultimately show ?thesis by (intro exI [of _ "((fd, i) # kept, x)"]) simp
  qed
qed simp

lemma invalid_sock_total:
  assumes "group_ok (G, S)" "\<And>i. e_post_ok (ge_house E i)"
  shows "\<exists>G' S'. check_invalid_sock E G S = Some (G', S')"
proof -
  have g: "distinct (map snd (g_map_role G))" "snd ` set (g_map_role G) \<subseteq> stored S" using assms(1) by (simp_all add: group_ok_def placed_def)
  define upd where "upd = (signed_take_bit 31 (ge_now E - g_stat_post_last_tm_ms G) \<ge> g_stat_post_interval G * 1000)"
  obtain kept stats q wait S1 where "invalid_loop E upd (g_map_role G) [] (g_list_reconnect_relay_manager G) (g_list_wait_http_role G) S =
      Some (kept, stats, q, wait, S1)"
    using invalid_loop_total [OF assms(2) g] by (metis prod_cases5)
  thus ?thesis unfolding check_invalid_sock_def Let_def upd_def [symmetric] by simp
qed

lemma clear_loop_total:
  assumes "\<And>i. e_post_ok (ge_house E i)" "distinct (map snd es)" "snd ` set es \<subseteq> stored S"
  shows "\<exists>S'. clear_loop E es S = Some S' \<and> stored S' = stored S - snd ` set es"
  using assms(2,3)
proof (induction es arbitrary: S)
  case (Cons e es)
  obtain fd i where e: "e = (fd, i)" by fastforce
  have i: "i \<in> stored S" "distinct (map snd es)" using Cons.prems e by auto
  obtain S1 where u: "uninit_role (ge_house E i) i S = Some S1" using uninit_total [OF assms(1) i(1)] by blast
  have d: "stored (drop_role i S1) = stored S - {i}" using uninit_stored [OF u] unfolding drop_frame(2) by simp
  have "i \<notin> snd ` set es" "snd ` set es \<subseteq> stored S" using Cons.prems unfolding e by auto
  hence sub: "snd ` set es \<subseteq> stored (drop_role i S1)" unfolding d by blast
  obtain S' where c: "clear_loop E es (drop_role i S1) = Some S'" "stored S' = stored S - {i} - snd ` set es"
    using Cons.IH [OF i(2) sub, unfolded d] by (elim exE conjE)
  have "clear_loop E (e # es) S = Some S'" using u c(1) by (simp add: e)
  moreover have h: "snd ` set (e # es) = insert i (snd ` set es)" by (simp add: e)
  have "stored S' = stored S - snd ` set (e # es)" unfolding c(2) h by (rule Diff_insert2 [symmetric])
  ultimately show ?case by (intro exI [of _ S'] conjI)
qed simp

section \<open>A worker among the other threads\<close>

text \<open>What other threads do to what a worker shares with them: a listener hands off a role it accepted, another worker takes
  the first role of the list, and an API call kicks a role.\<close>

inductive worker_step :: "CSLSGroup \<times> 'ca server \<Rightarrow> CSLSGroup \<times> 'ca server \<Rightarrow> bool" where
  pass: "group_handler E G S = Some (n, G', S') \<Longrightarrow> worker_step (G, S) (G', S')"
| reload: "worker_step (G, S) (group_reload G, S)"
| accept: "i = w_next (sv_world S) \<Longrightarrow> role_push (Some i) (w_roles (sv_world S)) = (ret, rs) \<Longrightarrow> rl_state r = SLS_RS_INITED \<Longrightarrow>
    worker_step (G, S) (G, S\<lparr> sv_roles := AList.update i r (sv_roles S), sv_world := (sv_world S)\<lparr> w_roles := rs, w_next := Suc i \<rparr> \<rparr>)"
| taken: "role_pop (w_roles (sv_world S)) = (Some i, rs) \<Longrightarrow> worker_step (G, S) (G, S\<lparr> sv_world := (sv_world S)\<lparr> w_roles := rs \<rparr> \<rparr>)"
| kick: "map_of (sv_roles S) i = Some r \<Longrightarrow> worker_step (G, S) (G, S\<lparr> sv_roles := AList.update i (request_kick r) (sv_roles S) \<rparr>)"

text \<open>\<^verbatim>\<open>CSLSManager::start\<close> makes the workers and gives them the hand-off list; nothing was accepted so far.\<close>

definition worker_init :: "CSLSGroup \<times> 'ca server \<Rightarrow> bool" where
  "worker_init X = (case X of (G, S) \<Rightarrow>
     (\<exists>now n iv. G = set_stat_post_interval iv (set_worker_connections n (group_set_role_list True (group_new now)))) \<and>
     sv_roles S = [] \<and> w_roles (sv_world S) = [])"

lemma worker_init_ok: "worker_init X \<Longrightarrow> group_ok X"
  by (auto simp: worker_init_def group_ok_def placed_def roles_ok_def group_new_def set_stat_post_interval_def
      set_worker_connections_def group_set_role_list_def)

lemma worker_step_ok: "worker_step X Y \<Longrightarrow> group_ok X \<Longrightarrow> group_ok Y"
proof (induction rule: worker_step.induct)
  case (pass E G S n G' S')
  show ?case by (rule pass_ok [OF pass(2,1)])
next
  case (reload G S)
  thus ?case by (simp add: group_ok_def group_reload_def)
next
  case (accept i S ret rs r G)
  let ?W = "(sv_world S)\<lparr> w_roles := rs, w_next := Suc i \<rparr>"
  have "hands_off (sv_world S) ?W" using accept(1,2) by (auto simp: list_grows_def role_push_def)
  moreover have "roles_ok S \<Longrightarrow> roles_ok (S\<lparr> sv_roles := AList.update i r (sv_roles S), sv_world := ?W \<rparr>)"
    by (rule roles_ok_update) (use accept(3) in \<open>simp_all add: dead_ok_def\<close>)
  ultimately show ?case using stored_update [where S = S and i = i and r = r and W = ?W] by (intro group_ok_store [OF accept(4)]) (auto simp: store_step_def)
next
  case (taken S i rs G)
  have "w_roles (sv_world S) = i # rs" using taken(1) by (simp add: role_pop_def split: list.splits)
  thus ?case using taken(2) by (simp add: group_ok_def placed_def roles_ok_def)
next
  case (kick S i r G)
  let ?S = "S\<lparr> sv_roles := AList.update i (request_kick r) (sv_roles S), sv_world := sv_world S \<rparr>"
  have "dead_ok (request_kick r)" if "roles_ok S" using that map_of_SomeD [OF kick(1)] by (auto simp: roles_ok_def dead_ok_def request_kick_def)
  hence "roles_ok S \<Longrightarrow> roles_ok ?S" using roles_ok_update by blast
  hence "store_step S ?S" using stored_update [where S = S and i = i and r = "request_kick r" and W = "sv_world S"] by (auto simp: store_step_def)
  thus ?case using group_ok_store [OF kick(2)] by simp
qed

interpretation worker: component worker_init worker_step group_ok
  by unfold_locales (auto intro: worker_init_ok worker_step_ok)


text \<open>C14. Housekeeping reaps exactly the dead: in every reachable state \<^verbatim>\<open>check_invalid_sock\<close> comes to an end, a role that is invalid,
  uninitialised, kicked, idle for too long or whose socket broke is gone from the map and its object is dropped, and
  every role that stays was there before, was not sick, is initialised and still has its socket. Nothing is put aside to
  wait for a web hook.\<close>

theorem housekeeping_reaps:
  assumes "worker_init X" "worker_step\<^sup>*\<^sup>* X (G, S)" "\<And>i. e_post_ok (ge_house E i)"
  shows "\<exists>G' S'. check_invalid_sock E G S = Some (G', S') \<and> g_list_wait_http_role G' = [] \<and>
    (\<forall>e \<in> set (g_map_role G). sick E S (snd e) \<longrightarrow> e \<notin> set (g_map_role G') \<and> snd e \<notin> stored S') \<and>
    (\<forall>e \<in> set (g_map_role G'). e \<in> set (g_map_role G) \<and> \<not> sick E S (snd e) \<and> alive S' (snd e))"
proof -
  have ok: "group_ok (G, S)" by (rule worker.inv_reachable [OF assms(1,2)])
  obtain G' S' where c: "check_invalid_sock E G S = Some (G', S')" using invalid_sock_total [OF ok assms(3)] by blast
  note r = reapedD [OF invalid_sock_ok(2) [OF ok c]]
  obtain P where "g_map_role G' = filter P (g_map_role G)" using r(3) by blast
  hence sub: "\<forall>e \<in> set (g_map_role G'). e \<in> set (g_map_role G)" by simp
  have "g_list_wait_http_role G' = []" using invalid_sock_ok(1) [OF ok c] by (simp add: group_ok_def)
  thus ?thesis using c r(4,5,6) sub by (intro exI [of _ G'] exI [of _ S']) blast
qed



text \<open>A player with an open socket is accepted, adopted and then kicked.\<close>

definition demo_group :: CSLSGroup where
  "demo_group = set_stat_post_interval 5 (set_worker_connections 4 (group_set_role_list True (group_new 0)))"

definition demo_server :: "nat server" where
  "demo_server = \<lparr> sv_roles = [], sv_table = [], sv_world = live_world \<rparr>"

definition demo_env :: group_env where
  "demo_env = \<lparr> ge_now = 60, ge_eid = 3, ge_poll = None, ge_read = (\<lambda>k. live_env 60 []), ge_pass = (\<lambda>i. live_env 60 []),
     ge_house = (\<lambda>i. live_env 60 []), ge_birth = (\<lambda>i. 0), ge_relay = (\<lambda>i. net ''9000''), ge_root = None \<rparr>"

lemma demo_role: "rl_srt (live_role Player_role) = Some \<lparr> s_fd = 7, s_eid = 3 \<rparr>" "rl_state (live_role Player_role) = SLS_RS_INITED"
  "rl_stat_start_time (live_role Player_role) = 0" "rl_dynamic_pusher_manager (live_role Player_role) = None"
  by (simp_all add: live_role_def role_new_def)

lemma demo_envs: "ge_now demo_env = 60" "ge_eid demo_env = 3" "ge_poll demo_env = None" "ge_house demo_env i = live_env 60 []" "ge_relay demo_env = (\<lambda>i. net ''9000'')"
  "e_epoll_add (live_env t d) = (0, 0)" "e_post_ok (live_env t d)"
  by (simp_all add: demo_env_def live_env_def)

lemma demo_run:
  "worker_init (demo_group, demo_server)"
  "\<exists>G S. worker_step\<^sup>*\<^sup>* (demo_group, demo_server) (G, S) \<and> g_map_role G = [(7, 0)] \<and>
     (\<exists>r. load_role 0 S = Some r \<and> rl_kick_requested r)"
proof -
  show init: "worker_init (demo_group, demo_server)"
    unfolding worker_init_def demo_group_def demo_server_def live_world_def by auto
  let ?W = "live_world\<lparr> w_roles := [0], w_next := 1 \<rparr> :: nat role_world"
  let ?S = "demo_server\<lparr> sv_roles := [(0, live_role Player_role)], sv_world := ?W \<rparr>"
  have 1: "worker_step (demo_group, demo_server) (demo_group, ?S)"
    using worker_step.accept [of 0 demo_server 0 "[0]" "live_role Player_role" demo_group]
    by (simp add: demo_role demo_server_def live_world_def role_push_def)
  let ?G = "demo_group\<lparr> g_last_idle_check_ms := 60 \<rparr>"
  have g: "g_list_role ?G" "g_list_wait_http_role demo_group = []" "g_map_role demo_group = []" "g_list_reconnect_relay_manager ?G = []"
      "g_worker_connections ?G = 4" "\<not> g_reload demo_group" "g_last_idle_check_ms demo_group = 0" "g_stat_post_interval demo_group = 5"
      "g_stat_post_last_tm_ms demo_group = 0" "g_stat_info demo_group = []"
    by (simp_all add: demo_group_def set_stat_post_interval_def set_worker_connections_def group_set_role_list_def group_new_def)
  have w: "demo_group\<lparr> g_last_idle_check_ms := 60, g_list_wait_http_role := [] \<rparr> = ?G"
    by (simp add: demo_group_def set_stat_post_interval_def set_worker_connections_def group_set_role_list_def group_new_def)
  have t: "sv_table demo_server = []" "w_relays (live_world :: nat role_world) = []" by (simp_all add: demo_server_def live_world_def)
  have b: "group_check_reconnect_relay demo_env ?G ?S = Some (?G, ?S)"
    unfolding group_check_reconnect_relay_def g(4) using t
    by (simp add: on_relays_def put_managers_def put_dynamic_def demo_role relay_world.defs demo_server_def live_world_def g(4) [simplified])
  have c: "check_invalid_sock demo_env ?G ?S = Some (?G, ?S)"
    unfolding check_invalid_sock_def using g by (simp add: demo_envs Let_def)
  have d: "reap_unadopted_backlog demo_env ?G ?S = Some ?S"
    unfolding reap_unadopted_backlog_def reap_unadopted_eq
    by (simp add: role_facts_def role_stale_def HANDOFF_ADMISSION_TTL_MS_def demo_role demo_envs)
  have "\<exists>S2. check_new_role demo_env ?G ?S = Some (?G\<lparr> g_map_role := [(7, 0)] \<rparr>, S2)"
    unfolding check_new_role_def using g t
    by (simp add: Let_def role_pop_def materialise_def load_role_def get_fd_def on_role_def add_to_epoll_def libsrt_add_to_epoll_def demo_role demo_envs)
  then obtain S2 where n: "check_new_role demo_env ?G ?S = Some (?G\<lparr> g_map_role := [(7, 0)] \<rparr>, S2)" by blast
  show "\<exists>G S. worker_step\<^sup>*\<^sup>* (demo_group, demo_server) (G, S) \<and> g_map_role G = [(7, 0)] \<and>
     (\<exists>r. load_role 0 S = Some r \<and> rl_kick_requested r)"
  proof -
    have "group_handler demo_env demo_group ?S = Some (0, ?G\<lparr> g_map_role := [(7, 0)] \<rparr>, S2)"
      unfolding group_handler_def maybe_idle_check_def idle_check_def using g b c d n by (simp add: demo_envs IDLE_CHECK_INTERVAL_def w)
    hence 2: "worker_step (demo_group, ?S) (?G\<lparr> g_map_role := [(7, 0)] \<rparr>, S2)" by (rule worker_step.pass)
    have "group_ok (?G\<lparr> g_map_role := [(7, 0)] \<rparr>, S2)"
      using worker_step_ok 1 2 worker_init_ok [OF init] by blast
    hence "0 \<in> stored S2" by (simp add: group_ok_def)
    then obtain r where r: "map_of (sv_roles S2) 0 = Some r" by (cases "map_of (sv_roles S2) 0") (auto simp: map_of_eq_None_iff)
    note 3 = worker_step.kick [OF r, of "?G\<lparr> g_map_role := [(7, 0)] \<rparr>"]
    let ?S3 = "S2\<lparr> sv_roles := AList.update 0 (request_kick r) (sv_roles S2) \<rparr>"
    have "worker_step\<^sup>*\<^sup>* (demo_group, demo_server) (?G\<lparr> g_map_role := [(7, 0)] \<rparr>, ?S3)"
      using 1 2 3 by (meson rtranclp.rtrancl_into_rtrancl rtranclp.rtrancl_refl)
    moreover have "\<exists>x. load_role 0 ?S3 = Some x \<and> rl_kick_requested x" by (simp add: load_role_def map_of_update request_kick_def)
    ultimately show ?thesis by (intro exI [of _ "?G\<lparr> g_map_role := [(7, 0)] \<rparr>"] exI [of _ ?S3]) simp
  qed
qed


theorem housekeeping_reaps_witness:
  "\<exists>G S G' S'. worker_step\<^sup>*\<^sup>* (demo_group, demo_server) (G, S) \<and> g_map_role G = [(7, 0)] \<and>
     check_invalid_sock demo_env G S = Some (G', S') \<and> (7, 0) \<notin> set (g_map_role G') \<and> 0 \<notin> stored S'"
proof -
  obtain G S r where s: "worker_step\<^sup>*\<^sup>* (demo_group, demo_server) (G, S)" "g_map_role G = [(7, 0)]" "load_role 0 S = Some r" "rl_kick_requested r"
    using demo_run(2) by blast
  have "sick demo_env S 0" using s(3,4) by (auto simp: sick_def)
  moreover have "e_post_ok (ge_house demo_env i)" for i by (simp add: demo_envs)
  ultimately show ?thesis using housekeeping_reaps [OF demo_run(1) s(1), of demo_env] s(1,2) by fastforce
qed


end
