(* ===== verification/Player_Key.thy ===== *)
theory Player_Key
  imports Role
begin

text \<open>Player keys: \<^verbatim>\<open>src/core/SLSListenerAuth.cpp\<close>, and the fields of \<^verbatim>\<open>CSLSListener\<close> it works on. A key is looked up in a cache of
  answers; on a miss the web hook is asked and the answer is stored when it comes. A time of the steady clock is in
  nanoseconds. A request in flight is named by its place in the list of the requests sent; \<open>http\<close> are the answers that
  are there, \<open>parse\<close> is the JSON parser (\<^const>\<open>None\<close> when it throws), \<open>get_ok\<close> whether the pool takes a request, whose exception is
  not caught. Every call reads the clock once.\<close>

section \<open>State\<close>

type_synonym steady = int

definition milliseconds :: "int \<Rightarrow> steady" where
  "milliseconds n = n * 1000000"

definition MAX_PLAYER_KEY_CACHE_ENTRIES :: nat where
  "MAX_PLAYER_KEY_CACHE_ENTRIES = 50000"

definition PLAYER_KEY_CACHE_SWEEP_INTERVAL :: steady where
  "PLAYER_KEY_CACHE_SWEEP_INTERVAL = milliseconds 5000"

definition MAX_RATE_LIMIT_ENTRIES :: nat where
  "MAX_RATE_LIMIT_ENTRIES = 100000"

definition RATE_LIMIT_CLEANUP_INTERVAL :: steady where
  "RATE_LIMIT_CLEANUP_INTERVAL = milliseconds 1000"

definition MAX_PENDING_PLAYER_KEY_VALIDATIONS :: nat where
  "MAX_PENDING_PLAYER_KEY_VALIDATIONS = 1024"

record PlayerKeyCacheEntry =
  pk_resolved_stream_id :: string
  pk_expiry_time :: steady
  pk_is_valid :: bool
  pk_has_max_players_override :: bool
  pk_max_players_per_stream_override :: int

text \<open>The pattern of a key is a range of lengths over the printable characters.\<close>

record key_auth =
  ka_auth_url :: string
  ka_auth_timeout :: int
  ka_cache_duration :: int
  ka_rate_limit_requests :: int
  ka_rate_limit_window :: int
  ka_max_length :: int
  ka_min_length :: int
  ka_regex :: "nat \<times> nat"
  ka_cache :: "(string \<times> PlayerKeyCacheEntry) list"
  ka_last_cache_sweep :: steady
  ka_pending :: "(string \<times> nat) list"
  ka_rate_limit_map :: "(string \<times> steady list) list"
  ka_last_rate_limit_cleanup :: steady
  ka_gets :: "string list"

section \<open>The cache\<close>

definition live_keys :: "steady \<Rightarrow> (string \<times> PlayerKeyCacheEntry) list \<Rightarrow> (string \<times> PlayerKeyCacheEntry) list" where
  "live_keys now c = filter (\<lambda>(k, e). \<not> pk_expiry_time e \<le> now) c"

fun soonest_key :: "string \<times> PlayerKeyCacheEntry \<Rightarrow> (string \<times> PlayerKeyCacheEntry) list \<Rightarrow> string \<times> PlayerKeyCacheEntry" where
  "soonest_key victim [] = victim"
| "soonest_key victim (x # xs) = soonest_key (if pk_expiry_time (snd x) < pk_expiry_time (snd victim) then x else victim) xs"

definition evict_key :: "(string \<times> PlayerKeyCacheEntry) list \<Rightarrow> (string \<times> PlayerKeyCacheEntry) list" where
  "evict_key c = (case c of [] \<Rightarrow> [] | x # xs \<Rightarrow> AList.delete (fst (soonest_key x xs)) c)"

definition insert_player_key_cache_locked ::
  "steady \<Rightarrow> string \<Rightarrow> PlayerKeyCacheEntry \<Rightarrow> (string \<times> PlayerKeyCacheEntry) list \<Rightarrow> (string \<times> PlayerKeyCacheEntry) list" where
  "insert_player_key_cache_locked now key entry c =
     (if map_of c key \<noteq> None then std_put key entry c
      else if length c \<ge> MAX_PLAYER_KEY_CACHE_ENTRIES then
        (let c1 = live_keys now c in
         std_put key entry (if length c1 \<ge> MAX_PLAYER_KEY_CACHE_ENTRIES then evict_key c1 else c1))
      else std_put key entry c)"

definition sweep_player_key_cache :: "steady \<Rightarrow> 'z key_auth_scheme \<Rightarrow> 'z key_auth_scheme" where
  "sweep_player_key_cache now A =
     (if now - ka_last_cache_sweep A < PLAYER_KEY_CACHE_SWEEP_INTERVAL then A
      else A\<lparr> ka_last_cache_sweep := now, ka_cache := live_keys now (ka_cache A) \<rparr>)"

text \<open>The two lengths are converted to \<^verbatim>\<open>size_t\<close>.\<close>

definition validate_player_key_format :: "string option \<Rightarrow> 'z key_auth_scheme \<Rightarrow> bool" where
  "validate_player_key_format player_key A =
     (case player_key of None \<Rightarrow> False
      | Some key \<Rightarrow>
          if int (length key) < ka_min_length A mod 2 ^ 64 \<or> int (length key) > ka_max_length A mod 2 ^ 64 then False
          else fst (ka_regex A) \<le> length key \<and> length key \<le> snd (ka_regex A) \<and>
            list_all (\<lambda>ch. 0x20 \<le> (of_char ch :: nat) \<and> (of_char ch :: nat) \<le> 0x7E) key)"

section \<open>The rate limit\<close>

definition trim_times :: "steady \<Rightarrow> steady list \<Rightarrow> steady list" where
  "trim_times window_start ts = dropWhile (\<lambda>t. t < window_start) ts"

definition trim_map :: "steady \<Rightarrow> (string \<times> steady list) list \<Rightarrow> (string \<times> steady list) list" where
  "trim_map window_start m = filter (\<lambda>(ip, ts). ts \<noteq> []) (map (\<lambda>(ip, ts). (ip, trim_times window_start ts)) m)"

definition cleanup_expired_rate_limits :: "steady \<Rightarrow> 'z key_auth_scheme \<Rightarrow> 'z key_auth_scheme" where
  "cleanup_expired_rate_limits now A =
     (if now - ka_last_rate_limit_cleanup A < RATE_LIMIT_CLEANUP_INTERVAL then A
      else A\<lparr> ka_last_rate_limit_cleanup := now,
              ka_rate_limit_map := trim_map (now - milliseconds (ka_rate_limit_window A * 2)) (ka_rate_limit_map A) \<rparr>)"

definition is_rate_limited :: "steady \<Rightarrow> string \<Rightarrow> 'z key_auth_scheme \<Rightarrow> bool \<times> 'z key_auth_scheme" where
  "is_rate_limited now client_ip A =
     (if ka_rate_limit_requests A = -1 then (False, A)
      else if client_ip = [] then (False, A)
      else let A1 = cleanup_expired_rate_limits now A in
        case map_of (ka_rate_limit_map A1) client_ip of
          None \<Rightarrow> (False, A1)
        | Some ts \<Rightarrow>
            let ts1 = trim_times (now - milliseconds (ka_rate_limit_window A1)) ts in
            (int (length ts1) \<ge> ka_rate_limit_requests A1,
             A1\<lparr> ka_rate_limit_map := AList.update client_ip ts1 (ka_rate_limit_map A1) \<rparr>))"

text \<open>\<open>push_time\<close> is \<^verbatim>\<open>m_rate_limit_map[ip].request_times.push_back(now)\<close>.\<close>

definition push_time :: "steady \<Rightarrow> string \<Rightarrow> (string \<times> steady list) list \<Rightarrow> (string \<times> steady list) list" where
  "push_time now ip m = std_put ip ((case map_of m ip of None \<Rightarrow> [] | Some ts \<Rightarrow> ts) @ [now]) m"

definition update_rate_limit :: "steady \<Rightarrow> string \<Rightarrow> 'z key_auth_scheme \<Rightarrow> 'z key_auth_scheme" where
  "update_rate_limit now client_ip A =
     (if ka_rate_limit_requests A = -1 then A
      else if client_ip = [] then A
      else if map_of (ka_rate_limit_map A) client_ip = None \<and> length (ka_rate_limit_map A) \<ge> MAX_RATE_LIMIT_ENTRIES then
        (let m = trim_map (now - milliseconds (ka_rate_limit_window A * 2)) (ka_rate_limit_map A) in
         if length m \<ge> MAX_RATE_LIMIT_ENTRIES then A\<lparr> ka_rate_limit_map := m \<rparr>
         else A\<lparr> ka_rate_limit_map := push_time now client_ip m \<rparr>)
      else A\<lparr> ka_rate_limit_map := push_time now client_ip (ka_rate_limit_map A) \<rparr>)"

section \<open>Asking the web hook\<close>

definition key_url :: "string \<Rightarrow> 'z key_auth_scheme \<Rightarrow> string" where
  "key_url key A = ka_auth_url A @ ''?player_key='' @ url_encode key"

definition start_player_key_validation ::
  "bool \<Rightarrow> steady \<Rightarrow> string \<Rightarrow> string option \<Rightarrow> 'z key_auth_scheme \<Rightarrow> 'z key_auth_scheme option" where
  "start_player_key_validation get_ok now key client_ip A =
     (if map_of (ka_pending A) key \<noteq> None then Some A
      else if length (ka_pending A) \<ge> MAX_PENDING_PLAYER_KEY_VALIDATIONS then Some A
      else let A1 = (case client_ip of None \<Rightarrow> A | Some ip \<Rightarrow> update_rate_limit now ip A) in
        if length (ka_auth_url A1) > 2048 - 100 then Some A1
        else case snprintf_fits 4096 (key_url key A1) of
          None \<Rightarrow> Some A1
        | Some url \<Rightarrow>
            if get_ok then Some (A1\<lparr> ka_pending := std_put key (length (ka_gets A1)) (ka_pending A1), ka_gets := ka_gets A1 @ [url] \<rparr>)
            else None)"

text \<open>The answer of a key: the return code and what is copied to \<^verbatim>\<open>resolved_stream_id\<close>.\<close>

definition validate_player_key ::
  "bool \<Rightarrow> steady \<Rightarrow> string option \<Rightarrow> nat \<Rightarrow> string option \<Rightarrow> 'z key_auth_scheme \<Rightarrow> (int \<times> string option \<times> 'z key_auth_scheme) option" where
  "validate_player_key get_ok now player_key resolved_stream_id_size client_ip A =
     (if ka_auth_url A = [] then Some (SLS_ERROR, None, A)
      else if \<not> validate_player_key_format player_key A then Some (SLS_ERROR, None, A)
      else case (case client_ip of None \<Rightarrow> (False, A) | Some ip \<Rightarrow> is_rate_limited now ip A) of (limited, A1) \<Rightarrow>
        if limited then Some (SLS_ERROR, None, A1)
        else let key_str = (case player_key of None \<Rightarrow> [] | Some k \<Rightarrow> k);
                 miss = (\<lambda>A2. map_option (\<lambda>A3. (SLS_PENDING, None, A3)) (start_player_key_validation get_ok now key_str client_ip A2))
             in case map_of (ka_cache A1) key_str of
               None \<Rightarrow> miss A1
             | Some e \<Rightarrow>
                 if now < pk_expiry_time e then
                   (if pk_is_valid e then Some (SLS_OK, Some (take (resolved_stream_id_size - 1) (pk_resolved_stream_id e)), A1)
                    else Some (SLS_ERROR, None, A1))
                 else miss (A1\<lparr> ka_cache := AList.delete key_str (ka_cache A1) \<rparr>))"

section \<open>The answer of the web hook\<close>

definition cache_key :: "steady \<Rightarrow> string \<Rightarrow> PlayerKeyCacheEntry \<Rightarrow> 'z key_auth_scheme \<Rightarrow> 'z key_auth_scheme" where
  "cache_key now key e A = A\<lparr> ka_cache := insert_player_key_cache_locked now key e (ka_cache A) \<rparr>"

definition cache_negative :: "steady \<Rightarrow> string \<Rightarrow> 'z key_auth_scheme \<Rightarrow> 'z key_auth_scheme" where
  "cache_negative now key A =
     cache_key now key \<lparr> pk_resolved_stream_id = [], pk_expiry_time = now + milliseconds (cdiv (ka_cache_duration A) 4), pk_is_valid = False,
       pk_has_max_players_override = False, pk_max_players_per_stream_override = -1 \<rparr> A"

text \<open>The override of the number of players: present, and its value. \<^verbatim>\<open>get<int>\<close> narrows to 32 bits.\<close>

definition players_override :: "json \<Rightarrow> bool \<times> int" where
  "players_override j =
     (case json_get ''max_players_per_stream'' j of
        Some (JInteger n) \<Rightarrow> (let v = signed_take_bit 31 n in (\<not> v < -1, v))
      | _ \<Rightarrow> (False, -1))"

definition process_player_key_response ::
  "(string \<Rightarrow> json option) \<Rightarrow> steady \<Rightarrow> string \<Rightarrow> AsyncHttpResponse \<Rightarrow> 'z key_auth_scheme \<Rightarrow> 'z key_auth_scheme" where
  "process_player_key_response parse now key response A =
     (if \<not> resp_success response then cache_negative now key A
      else if resp_status_code response \<noteq> 200 then cache_negative now key A
      else case parse (resp_body response) of
        None \<Rightarrow> cache_negative now key A
      | Some j \<Rightarrow>
          (case json_get ''stream_id'' j of
             Some (JString stream_id) \<Rightarrow>
               if stream_id = [] \<or> length stream_id \<ge> 2048 then cache_negative now key A
               else cache_key now key \<lparr> pk_resolved_stream_id = stream_id, pk_expiry_time = now + milliseconds (ka_cache_duration A),
                 pk_is_valid = True, pk_has_max_players_override = fst (players_override j),
                 pk_max_players_per_stream_override = snd (players_override j) \<rparr> A
           | _ \<Rightarrow> cache_negative now key A))"

text \<open>The loop over the requests in flight: those that stay.\<close>

fun drain_loop ::
  "(string \<Rightarrow> json option) \<Rightarrow> (nat \<Rightarrow> AsyncHttpResponse option) \<Rightarrow> steady \<Rightarrow> (string \<times> nat) list \<Rightarrow> 'z key_auth_scheme \<Rightarrow>
   (string \<times> nat) list \<times> 'z key_auth_scheme" where
  "drain_loop parse http now [] A = ([], A)"
| "drain_loop parse http now ((key, i) # ps) A =
     (case http i of
        None \<Rightarrow> (case drain_loop parse http now ps A of (kept, A1) \<Rightarrow> ((key, i) # kept, A1))
      | Some response \<Rightarrow> drain_loop parse http now ps (process_player_key_response parse now key response A))"

definition drain_player_key_validations ::
  "(string \<Rightarrow> json option) \<Rightarrow> (nat \<Rightarrow> AsyncHttpResponse option) \<Rightarrow> steady \<Rightarrow> 'z key_auth_scheme \<Rightarrow> 'z key_auth_scheme" where
  "drain_player_key_validations parse http now A =
     (case drain_loop parse http now (ka_pending A) A of (kept, A1) \<Rightarrow> A1\<lparr> ka_pending := kept \<rparr>)"

end
