(* ===== verification/Player_Key_Correct.thy ===== *)
theory Player_Key_Correct
  imports Player_Key
begin

text \<open>What the player-key authorisation of a listener guarantees over any sequence of its calls: its tables are bounded, a key is
  accepted only on the word of the web hook, and a source that is tracked cannot make it ask more often than allowed.\<close>

section \<open>Tables\<close>

lemma ascending_wrt: "ascending m \<longleftrightarrow> sorted_wrt str_less (map fst m)"
  by (induction m rule: ascending.induct) auto

lemma std_put_length: "length (std_put k v m) \<le> Suc (length m)" "k \<in> fst ` set m \<Longrightarrow> ascending m \<Longrightarrow> length (std_put k v m) = length m"
proof -
  show "length (std_put k v m) \<le> Suc (length m)" by (induction k v m rule: std_put.induct) auto
  show "k \<in> fst ` set m \<Longrightarrow> ascending m \<Longrightarrow> length (std_put k v m) = length m"
  proof (induction k v m rule: std_put.induct)
    case (2 k v j w m)
    have "\<not> str_less k j" if "k \<noteq> j" using that 2(2,3) str_less_trans str_less_irrefl by fastforce
    thus ?case using 2 by auto
  qed simp
qed

lemma std_put_fits:
  assumes "ascending m" "length m \<le> N" "map_of m k \<noteq> None \<or> length m < N"
  shows "length (std_put k v m) \<le> N"
proof (cases "map_of m k = None")
  case True
  thus ?thesis using assms std_put_length(1) [of k v m] by simp
next
  case False
  hence "k \<in> fst ` set m" by (simp add: map_of_eq_None_iff)
  thus ?thesis using assms std_put_length(2) [of k m v] by simp
qed

lemma update_keys: "k \<in> fst ` set m \<Longrightarrow> map fst (AList.update k v m) = map fst m"
  by (induction m) auto

lemma soonest_mem: "soonest_key v xs \<in> insert v (set xs)"
  by (induction v xs rule: soonest_key.induct) (auto split: if_splits)

lemma evict_shrinks:
  assumes "c \<noteq> []"
  shows "length (evict_key c) < length c" "set (evict_key c) \<subseteq> set c" "ascending c \<Longrightarrow> ascending (evict_key c)"
proof -
  obtain x xs where c: "c = x # xs" using assms by (cases c) auto
  let ?v = "soonest_key x xs"
  have e: "evict_key c = filter (\<lambda>(k, v). fst ?v \<noteq> k) c" by (simp add: evict_key_def c AList.delete_eq)
  have "?v \<in> set c" using soonest_mem [of x xs] by (simp add: c)
  thus "length (evict_key c) < length c" unfolding e by (rule length_filter_less) (simp add: case_prod_unfold)
  show "set (evict_key c) \<subseteq> set c" unfolding e by auto
  show "ascending c \<Longrightarrow> ascending (evict_key c)" unfolding e by (rule ascending_filter)
qed

lemma live_keys_frame: "ascending c \<Longrightarrow> ascending (live_keys now c)" "length (live_keys now c) \<le> length c" "set (live_keys now c) \<subseteq> set c"
  by (auto simp: live_keys_def ascending_filter)

definition cache_fits :: "(string \<times> PlayerKeyCacheEntry) list \<Rightarrow> bool" where
  "cache_fits c \<longleftrightarrow> ascending c \<and> length c \<le> MAX_PLAYER_KEY_CACHE_ENTRIES"

lemma insert_key_fits:
  assumes "cache_fits c"
  shows "cache_fits (insert_player_key_cache_locked now key e c)"
    "set (insert_player_key_cache_locked now key e c) \<subseteq> insert (key, e) (set c)"
proof -
  have m: "0 < MAX_PLAYER_KEY_CACHE_ENTRIES" by (simp add: MAX_PLAYER_KEY_CACHE_ENTRIES_def)
  define b where "b = (if map_of c key \<noteq> None \<or> length c < MAX_PLAYER_KEY_CACHE_ENTRIES then c
     else if length (live_keys now c) \<ge> MAX_PLAYER_KEY_CACHE_ENTRIES then evict_key (live_keys now c) else live_keys now c)"
  have i: "insert_player_key_cache_locked now key e c = std_put key e b"
    by (auto simp: insert_player_key_cache_locked_def b_def Let_def)
  have c: "ascending c" "length c \<le> MAX_PLAYER_KEY_CACHE_ENTRIES" using assms by (simp_all add: cache_fits_def)
  note l = live_keys_frame [where c = c and now = now]
  have ne: "live_keys now c \<noteq> []" if "MAX_PLAYER_KEY_CACHE_ENTRIES \<le> length (live_keys now c)" using that m by auto
  have b: "ascending b" "set b \<subseteq> set c" "length b < MAX_PLAYER_KEY_CACHE_ENTRIES \<or> map_of c key \<noteq> None \<and> b = c"
    using c l le_trans [OF l(2) c(2)] evict_shrinks [of "live_keys now c", OF ne] by (auto simp: b_def not_less)
  have "length (std_put key e b) \<le> MAX_PLAYER_KEY_CACHE_ENTRIES"
    by (rule std_put_fits) (use b c in auto)
  thus "cache_fits (insert_player_key_cache_locked now key e c)" unfolding i using b(1) std_put_ascending by (simp add: cache_fits_def)
  have "set (std_put k v m) \<subseteq> insert (k, v) (set m)" for k v and m :: "(string \<times> PlayerKeyCacheEntry) list"
    by (induction k v m rule: std_put.induct) auto
  thus "set (insert_player_key_cache_locked now key e c) \<subseteq> insert (key, e) (set c)" unfolding i using b(2) by blast
qed

definition times_fit :: "(string \<times> steady list) list \<Rightarrow> bool" where
  "times_fit m \<longleftrightarrow> ascending m \<and> length m \<le> MAX_RATE_LIMIT_ENTRIES"

lemma trim_map_fits: "times_fit m \<Longrightarrow> times_fit (trim_map w m)"
proof -
  have "ascending (map (\<lambda>(ip, ts). (ip, trim_times w ts)) m)" if "ascending m" using that by (simp add: ascending_wrt case_prod_unfold comp_def)
  thus "times_fit m \<Longrightarrow> ?thesis"
    using le_trans [OF length_filter_le, of "map (\<lambda>(ip, ts). (ip, trim_times w ts)) m"] by (simp add: times_fit_def trim_map_def ascending_filter)
qed

section \<open>The invariant\<close>

text \<open>Every request in flight asked for the key it is filed under.\<close>

definition keys_ok :: "'z key_auth_scheme \<Rightarrow> bool" where
  "keys_ok A \<longleftrightarrow> cache_fits (ka_cache A) \<and> times_fit (ka_rate_limit_map A) \<and>
     ascending (ka_pending A) \<and> length (ka_pending A) \<le> MAX_PENDING_PLAYER_KEY_VALIDATIONS \<and>
     (\<forall>(k, i) \<in> set (ka_pending A). i < length (ka_gets A) \<and> ka_gets A ! i = key_url k A)"

text \<open>What the calls leave alone.\<close>

definition key_conf_same :: "'z key_auth_scheme \<Rightarrow> 'z key_auth_scheme \<Rightarrow> bool" where
  "key_conf_same A B \<longleftrightarrow> ka_auth_url B = ka_auth_url A \<and> ka_cache_duration B = ka_cache_duration A \<and>
     ka_rate_limit_requests B = ka_rate_limit_requests A \<and> ka_rate_limit_window B = ka_rate_limit_window A"

lemma key_conf_same_refl: "key_conf_same A A" and key_conf_same_trans: "key_conf_same A B \<Longrightarrow> key_conf_same B C \<Longrightarrow> key_conf_same A C"
  by (simp_all add: key_conf_same_def)

text \<open>The rate limit is apart from the rest.\<close>

definition rate_step :: "'z key_auth_scheme \<Rightarrow> 'z key_auth_scheme \<Rightarrow> bool" where
  "rate_step A B \<longleftrightarrow> key_conf_same A B \<and> ka_cache B = ka_cache A \<and> ka_pending B = ka_pending A \<and> ka_gets B = ka_gets A \<and>
     (times_fit (ka_rate_limit_map A) \<longrightarrow> times_fit (ka_rate_limit_map B))"

lemma rate_step_refl: "rate_step A A"
  by (simp add: rate_step_def key_conf_same_def)

lemma cleanup_step: "rate_step A (cleanup_expired_rate_limits now A)"
  using trim_map_fits by (simp add: rate_step_def key_conf_same_def cleanup_expired_rate_limits_def)

lemma times_fit_update: "times_fit m \<Longrightarrow> map_of m ip = Some ts \<Longrightarrow> times_fit (AList.update ip ts' m)"
proof -
  assume m: "times_fit m" "map_of m ip = Some ts"
  have k: "map fst (AList.update ip ts' m) = map fst m" using m(2) by (intro update_keys) (force dest: map_of_SomeD)
  have "length (AList.update ip ts' m) = length m" using arg_cong [OF k, of length] by simp
  thus ?thesis using m(1) k by (simp add: times_fit_def ascending_wrt)
qed

lemma limited_step: "is_rate_limited now ip A = (b, A') \<Longrightarrow> rate_step A A'"
  using cleanup_step [of A now] times_fit_update
  by (auto simp: is_rate_limited_def Let_def rate_step_refl rate_step_def key_conf_same_def split: if_splits option.splits)

lemma times_fit_push: "times_fit m \<Longrightarrow> map_of m ip \<noteq> None \<or> length m < MAX_RATE_LIMIT_ENTRIES \<Longrightarrow> times_fit (push_time now ip m)"
proof -
  assume m: "times_fit m" "map_of m ip \<noteq> None \<or> length m < MAX_RATE_LIMIT_ENTRIES"
  let ?v = "(case map_of m ip of None \<Rightarrow> [] | Some ts \<Rightarrow> ts) @ [now]"
  have "length (std_put ip ?v m) \<le> MAX_RATE_LIMIT_ENTRIES"
    by (rule std_put_fits) (use m in \<open>simp_all add: times_fit_def\<close>)
  thus ?thesis using m(1) std_put_ascending [of m ip ?v] by (simp add: times_fit_def push_time_def)
qed

lemma update_step: "rate_step A (update_rate_limit now ip A)"
  using trim_map_fits times_fit_push
  by (auto simp: update_rate_limit_def Let_def rate_step_def key_conf_same_def)

section \<open>The calls\<close>

text \<open>What a call does to the cache and to the requests in flight.\<close>

lemma start_outcome:
  assumes "start_player_key_validation ok now key ip A = Some A'"
  shows "key_conf_same A A' \<and> ka_cache A' = ka_cache A \<and> (keys_ok A \<longrightarrow> keys_ok A')"
proof -
  define A1 where "A1 = (case ip of None \<Rightarrow> A | Some i \<Rightarrow> update_rate_limit now i A)"
  have r: "rate_step A A1" using update_step rate_step_refl by (auto simp: A1_def split: option.split)
  have u: "key_url k A1 = key_url k A" for k using r by (simp add: rate_step_def key_conf_same_def key_url_def)
  have k1: "keys_ok A1" if "keys_ok A" using that r u by (simp add: keys_ok_def rate_step_def)
  show ?thesis
  proof (cases "A' = A \<or> A' = A1")
    case True
    thus ?thesis using r k1 by (auto simp: rate_step_def key_conf_same_refl)
  next
    case False
    hence p: "map_of (ka_pending A) key = None" "length (ka_pending A) < MAX_PENDING_PLAYER_KEY_VALIDATIONS"
        "A' = A1\<lparr> ka_pending := std_put key (length (ka_gets A1)) (ka_pending A1), ka_gets := ka_gets A1 @ [key_url key A1] \<rparr>"
      using assms unfolding start_player_key_validation_def A1_def [symmetric]
      by (auto simp: Let_def snprintf_fits_def split: if_splits)
    have s: "set (std_put key v m) \<subseteq> insert (key, v) (set m)" for v and m :: "(string \<times> nat) list"
      by (induction key v m rule: std_put.induct) auto
    have "keys_ok A'" if ok: "keys_ok A"
    proof -
      have a: "keys_ok A1" "ka_pending A1 = ka_pending A" using k1 [OF ok] r by (simp_all add: rate_step_def)
      have "length (std_put key (length (ka_gets A1)) (ka_pending A1)) \<le> MAX_PENDING_PLAYER_KEY_VALIDATIONS"
        using std_put_length(1) [of key "length (ka_gets A1)" "ka_pending A1"] p(2) a(2) by simp
      moreover have "i < length (ka_gets A') \<and> ka_gets A' ! i = key_url k A'" if "(k, i) \<in> set (ka_pending A')" for k i
        using that s [of "length (ka_gets A1)" "ka_pending A1"] a(1) by (fastforce simp: p(3) keys_ok_def key_url_def nth_append)
      ultimately show ?thesis using a(1) std_put_ascending [of "ka_pending A1"] by (auto simp: p(3) keys_ok_def key_url_def)
    qed
    thus ?thesis using r by (simp add: p(3) rate_step_def key_conf_same_def)
  qed
qed

lemma validate_outcome:
  assumes "validate_player_key ok now pk n ip A = Some (ret, sid, A')"
  shows "key_conf_same A A' \<and> set (ka_cache A') \<subseteq> set (ka_cache A) \<and> (keys_ok A \<longrightarrow> keys_ok A') \<and>
    (ret = SLS_OK \<longrightarrow> (\<exists>key e. pk = Some key \<and> map_of (ka_cache A) key = Some e \<and> now < pk_expiry_time e \<and> pk_is_valid e \<and>
       sid = Some (take (n - 1) (pk_resolved_stream_id e))))"
proof (cases "ka_auth_url A = [] \<or> \<not> validate_player_key_format pk A")
  case True
  hence "ret = SLS_ERROR \<and> A' = A" using assms by (cases "ka_auth_url A = []") (simp_all add: validate_player_key_def)
  thus ?thesis by (simp add: sls_codes key_conf_same_refl)
next
  case False
  obtain key where key: "pk = Some key" using False by (auto simp: validate_player_key_format_def split: option.splits)
  obtain b A1 where l: "(case ip of None \<Rightarrow> (False, A) | Some i \<Rightarrow> is_rate_limited now i A) = (b, A1)" by fastforce
  have r: "rate_step A A1" using l limited_step rate_step_refl by (auto split: option.splits)
  have u: "key_url k A1 = key_url k A" for k using r by (simp add: rate_step_def key_conf_same_def key_url_def)
  have k1: "keys_ok A1" if "keys_ok A" using that r u by (simp add: keys_ok_def rate_step_def)
  have sub: "set (AList.delete key c) \<subseteq> set c" for c :: "(string \<times> PlayerKeyCacheEntry) list" by (auto simp: AList.delete_eq)
  have k2: "keys_ok (A1\<lparr> ka_cache := AList.delete key (ka_cache A1) \<rparr>)" if "keys_ok A"
    using k1 [OF that] ascending_filter [of "ka_cache A1"] le_trans [OF length_filter_le, of "ka_cache A1"]
    by (simp add: keys_ok_def cache_fits_def AList.delete_eq key_url_def)
  note e = assms [unfolded validate_player_key_def l prod.case key option.case]
  show ?thesis
  proof (cases "b \<or> (\<exists>e. map_of (ka_cache A1) key = Some e \<and> now < pk_expiry_time e)")
    case True
    thus ?thesis using e False r k1 key by (auto simp: rate_step_def sls_codes split: if_splits option.splits)
  next
    case f: False
    define A2 where "A2 = (case map_of (ka_cache A1) key of None \<Rightarrow> A1 | Some x \<Rightarrow> A1\<lparr> ka_cache := AList.delete key (ka_cache A1) \<rparr>)"
    have m: "start_player_key_validation ok now key ip A2 = Some A'" "ret = SLS_PENDING"
      using e False f key by (auto simp: A2_def Let_def split: option.splits)
    have "key_conf_same A A2" "set (ka_cache A2) \<subseteq> set (ka_cache A)" "keys_ok A \<longrightarrow> keys_ok A2"
      using r k1 k2 sub by (auto simp: A2_def rate_step_def key_conf_same_def split: option.split)
    thus ?thesis using start_outcome [OF m(1)] m(2) key_conf_same_trans by (auto simp: sls_codes)
  qed
qed


text \<open>An answer that accepts a key for a stream.\<close>

definition grants :: "(string \<Rightarrow> json option) \<Rightarrow> AsyncHttpResponse \<Rightarrow> string \<Rightarrow> bool" where
  "grants parse response sid \<longleftrightarrow> resp_success response \<and> resp_status_code response = 200 \<and> sid \<noteq> [] \<and> length sid < 2048 \<and>
     (\<exists>j. parse (resp_body response) = Some j \<and> json_get ''stream_id'' j = Some (JString sid))"

lemma process_outcome:
  assumes "B = process_player_key_response parse now key response A"
  shows "key_conf_same A B" "ka_pending B = ka_pending A" "ka_gets B = ka_gets A" "ka_rate_limit_map B = ka_rate_limit_map A"
    "cache_fits (ka_cache A) \<Longrightarrow> cache_fits (ka_cache B) \<and> (\<exists>e. set (ka_cache B) \<subseteq> insert (key, e) (set (ka_cache A)) \<and>
       (pk_is_valid e \<longrightarrow> grants parse response (pk_resolved_stream_id e) \<and> pk_expiry_time e = now + milliseconds (ka_cache_duration A)))"
proof -
  have "\<exists>e. B = cache_key now key e A \<and>
      (pk_is_valid e \<longrightarrow> grants parse response (pk_resolved_stream_id e) \<and> pk_expiry_time e = now + milliseconds (ka_cache_duration A))"
    by (auto simp: assms process_player_key_response_def cache_negative_def grants_def split: option.split json.split)
  then obtain e where e: "B = cache_key now key e A"
      "pk_is_valid e \<longrightarrow> grants parse response (pk_resolved_stream_id e) \<and> pk_expiry_time e = now + milliseconds (ka_cache_duration A)" by blast
  show "key_conf_same A B" "ka_pending B = ka_pending A" "ka_gets B = ka_gets A" "ka_rate_limit_map B = ka_rate_limit_map A"
    by (simp_all add: e(1) cache_key_def key_conf_same_def)
  show "cache_fits (ka_cache A) \<Longrightarrow> cache_fits (ka_cache B) \<and> (\<exists>e. set (ka_cache B) \<subseteq> insert (key, e) (set (ka_cache A)) \<and>
       (pk_is_valid e \<longrightarrow> grants parse response (pk_resolved_stream_id e) \<and> pk_expiry_time e = now + milliseconds (ka_cache_duration A)))"
    using insert_key_fits [of "ka_cache A" now key e] e by (intro conjI exI [of _ e]) (simp_all add: cache_key_def)
qed

text \<open>Where the entries of the cache come from after a drain.\<close>

definition drained ::
  "(string \<Rightarrow> json option) \<Rightarrow> (nat \<Rightarrow> AsyncHttpResponse option) \<Rightarrow> steady \<Rightarrow> (string \<times> nat) list \<Rightarrow> 'z key_auth_scheme \<Rightarrow> 'z key_auth_scheme \<Rightarrow> bool" where
  "drained parse http now ps A B \<longleftrightarrow>
     (\<forall>(k, e) \<in> set (ka_cache B). (k, e) \<in> set (ka_cache A) \<or> \<not> pk_is_valid e \<or>
       (\<exists>i response. (k, i) \<in> set ps \<and> http i = Some response \<and> grants parse response (pk_resolved_stream_id e) \<and>
         pk_expiry_time e = now + milliseconds (ka_cache_duration A)))"

lemma drain_loop_outcome:
  "drain_loop parse http now ps A = (kept, B) \<Longrightarrow> cache_fits (ka_cache A) \<Longrightarrow>
   key_conf_same A B \<and> ka_gets B = ka_gets A \<and> ka_rate_limit_map B = ka_rate_limit_map A \<and> cache_fits (ka_cache B) \<and>
   kept = filter (\<lambda>(k, i). http i = None) ps \<and> drained parse http now ps A B"
proof (induction ps arbitrary: A kept)
  case Nil
  thus ?case by (auto simp: key_conf_same_refl drained_def)
next
  case (Cons p ps)
  obtain k i where p: "p = (k, i)" by fastforce
  show ?case
  proof (cases "http i")
    case None
    then obtain kept1 where l: "drain_loop parse http now ps A = (kept1, B)" "kept = p # kept1"
      using Cons.prems(1) p by (auto split: prod.splits)
    show ?thesis using Cons.IH [OF l(1) Cons.prems(2)] l(2) None p by (fastforce simp: drained_def)
  next
    case (Some response)
    let ?A = "process_player_key_response parse now k response A"
    have l: "drain_loop parse http now ps ?A = (kept, B)" using Cons.prems(1) p Some by simp
    note o = process_outcome [OF refl, where A = A and parse = parse and now = now and key = k and response = response]
    obtain e where e: "cache_fits (ka_cache ?A)" "set (ka_cache ?A) \<subseteq> insert (k, e) (set (ka_cache A))"
        "pk_is_valid e \<longrightarrow> grants parse response (pk_resolved_stream_id e) \<and> pk_expiry_time e = now + milliseconds (ka_cache_duration A)"
      using o(5) [OF Cons.prems(2)] by blast
    note ih = Cons.IH [OF l e(1)]
    have d: "ka_cache_duration ?A = ka_cache_duration A" using o(1) by (simp add: key_conf_same_def)
    let ?from = "\<lambda>qs j x. \<exists>i r. (j, i) \<in> set qs \<and> http i = Some r \<and> grants parse r (pk_resolved_stream_id x) \<and>
        pk_expiry_time x = now + milliseconds (ka_cache_duration A)"
    have "(j, x) \<in> set (ka_cache A) \<or> \<not> pk_is_valid x \<or> ?from (p # ps) j x" if x: "(j, x) \<in> set (ka_cache B)" for j x
    proof -
      have "(j, x) \<in> set (ka_cache ?A) \<or> \<not> pk_is_valid x \<or> ?from ps j x" using ih x d by (auto simp: drained_def)
      thus ?thesis using e(2,3) Some p by auto
    qed
    hence "drained parse http now (p # ps) A B" unfolding drained_def by blast
    thus ?thesis using ih o key_conf_same_trans p Some by auto
  qed
qed

lemma drain_outcome:
  assumes "keys_ok A"
  shows "keys_ok (drain_player_key_validations parse http now A)" "key_conf_same A (drain_player_key_validations parse http now A)"
    "drained parse http now (ka_pending A) A (drain_player_key_validations parse http now A)"
    "ka_rate_limit_map (drain_player_key_validations parse http now A) = ka_rate_limit_map A"
proof -
  obtain kept B where l: "drain_loop parse http now (ka_pending A) A = (kept, B)" by fastforce
  have d: "drain_player_key_validations parse http now A = B\<lparr> ka_pending := kept \<rparr>" by (simp add: drain_player_key_validations_def l)
  have o: "key_conf_same A B" "ka_gets B = ka_gets A" "ka_rate_limit_map B = ka_rate_limit_map A" "cache_fits (ka_cache B)"
      "kept = filter (\<lambda>(k, i). http i = None) (ka_pending A)" "drained parse http now (ka_pending A) A B"
    using drain_loop_outcome [OF l] assms by (simp_all add: keys_ok_def)
  show "keys_ok (drain_player_key_validations parse http now A)"
    using assms o ascending_filter [of "ka_pending A"] le_trans [OF length_filter_le, of "ka_pending A"]
    unfolding d by (auto simp: keys_ok_def key_url_def key_conf_same_def)
  show "key_conf_same A (drain_player_key_validations parse http now A)" "ka_rate_limit_map (drain_player_key_validations parse http now A) = ka_rate_limit_map A"
    using o unfolding d by (simp_all add: key_conf_same_def)
  show "drained parse http now (ka_pending A) A (drain_player_key_validations parse http now A)" using o(6) unfolding d by (simp add: drained_def)
qed

section \<open>Sequences of calls\<close>

datatype key_op = Ask bool steady "string option" nat "string option"
  | Drain "string \<Rightarrow> json option" "nat \<Rightarrow> AsyncHttpResponse option" steady | Sweep steady

fun key_do :: "key_op \<Rightarrow> 'z key_auth_scheme \<Rightarrow> 'z key_auth_scheme option" where
  "key_do (Ask ok now pk n ip) A = map_option (\<lambda>(ret, sid, B). B) (validate_player_key ok now pk n ip A)"
| "key_do (Drain parse http now) A = Some (drain_player_key_validations parse http now A)"
| "key_do (Sweep now) A = Some (sweep_player_key_cache now A)"

fun key_run :: "key_op list \<Rightarrow> 'z key_auth_scheme \<Rightarrow> 'z key_auth_scheme option" where
  "key_run [] A = Some A"
| "key_run (x # xs) A = (case key_do x A of None \<Rightarrow> None | Some B \<Rightarrow> key_run xs B)"

definition key_fresh :: "'z key_auth_scheme \<Rightarrow> bool" where
  "key_fresh A \<longleftrightarrow> ka_cache A = [] \<and> ka_pending A = [] \<and> ka_rate_limit_map A = [] \<and> ka_gets A = []"

definition key_auth_step :: "'z key_auth_scheme \<Rightarrow> 'z key_auth_scheme \<Rightarrow> bool" where
  "key_auth_step A B \<longleftrightarrow> (\<exists>x. key_do x A = Some B)"

lemma sweep_outcome: "keys_ok A \<Longrightarrow> keys_ok (sweep_player_key_cache now A)" "key_conf_same A (sweep_player_key_cache now A)"
  using live_keys_frame [where c = "ka_cache A" and now = now] le_trans [OF live_keys_frame(2) [where c = "ka_cache A" and now = now]]
  by (simp_all add: sweep_player_key_cache_def keys_ok_def cache_fits_def key_url_def key_conf_same_def)

lemma key_do_outcome: "key_do x A = Some B \<Longrightarrow> keys_ok A \<Longrightarrow> keys_ok B \<and> key_conf_same A B"
proof (cases x)
  case (Ask ok now pk n ip)
  assume "key_do x A = Some B" "keys_ok A"
  thus ?thesis using Ask validate_outcome [of ok now pk n ip A] by auto
next
  case (Drain parse http now)
  assume "key_do x A = Some B" "keys_ok A"
  thus ?thesis using Drain drain_outcome(1,2) by auto
next
  case (Sweep now)
  assume "key_do x A = Some B" "keys_ok A"
  thus ?thesis using Sweep sweep_outcome by auto
qed

interpretation key_table: component key_fresh key_auth_step keys_ok
proof unfold_locales
  show "keys_ok A" if "key_fresh A" for A :: "'z key_auth_scheme"
    using that by (simp add: key_fresh_def keys_ok_def cache_fits_def times_fit_def)
  show "keys_ok B" if "keys_ok A" "key_auth_step A B" for A B :: "'z key_auth_scheme" using that key_do_outcome by (auto simp: key_auth_step_def)
qed

lemma key_run_steps: "key_run xs A = Some B \<Longrightarrow> key_auth_step\<^sup>*\<^sup>* A B"
proof (induction xs arbitrary: A)
  case (Cons x xs)
  then obtain C where "key_do x A = Some C" "key_run xs C = Some B" by (auto split: option.splits)
  thus ?case using Cons.IH [of C] converse_rtranclp_into_rtranclp [of key_auth_step A C B] unfolding key_auth_step_def by blast
qed simp

lemma key_run_ok: "key_fresh A \<Longrightarrow> key_run xs A = Some B \<Longrightarrow> keys_ok B"
  using key_table.inv_reachable key_run_steps by blast

lemma key_run_snoc: "key_run (xs @ [x]) A = (case key_run xs A of None \<Rightarrow> None | Some B \<Rightarrow> key_do x B)"
  by (induction xs arbitrary: A) (auto split: option.splits)

lemma key_run_conf: "key_run xs A = Some B \<Longrightarrow> keys_ok A \<Longrightarrow> key_conf_same A B"
proof (induction xs arbitrary: A)
  case (Cons x xs)
  then obtain C where "key_do x A = Some C" "key_run xs C = Some B" by (auto split: option.splits)
  thus ?case using Cons key_do_outcome key_conf_same_trans by blast
qed (simp add: key_conf_same_refl)

text \<open>The tables of the player keys cannot be grown by a flood: over any sequence of questions, answers and sweeps the cache has at
  most 50000 entries, at most 1024 requests are in flight and at most 100000 sources are tracked, and each request in flight asks
  the web hook for the key it is filed under.\<close>

theorem key_tables_bounded:
  assumes "key_fresh A" "key_run xs A = Some B"
  shows "length (ka_cache B) \<le> 50000 \<and> length (ka_pending B) \<le> 1024 \<and> length (ka_rate_limit_map B) \<le> 100000 \<and>
    distinct (map fst (ka_pending B)) \<and> (\<forall>(k, i) \<in> set (ka_pending B). i < length (ka_gets B) \<and> ka_gets B ! i = key_url k B)"
  using key_run_ok [OF assms] ascending_distinct
  by (auto simp: keys_ok_def cache_fits_def times_fit_def MAX_PLAYER_KEY_CACHE_ENTRIES_def MAX_PENDING_PLAYER_KEY_VALIDATIONS_def MAX_RATE_LIMIT_ENTRIES_def)

text \<open>The origin of an accepting entry.\<close>

definition granted_by :: "key_op list \<Rightarrow> 'z key_auth_scheme \<Rightarrow> string \<Rightarrow> string \<Rightarrow> steady \<Rightarrow> bool" where
  "granted_by xs A key sid expiry \<longleftrightarrow>
     (\<exists>ys parse http t zs B i response. xs = ys @ Drain parse http t # zs \<and> key_run ys A = Some B \<and> (key, i) \<in> set (ka_pending B) \<and>
        ka_gets B ! i = key_url key A \<and> http i = Some response \<and> grants parse response sid \<and> expiry = t + milliseconds (ka_cache_duration A))"

lemma granted_by_snoc: "granted_by xs A key sid t \<Longrightarrow> granted_by (xs @ [x]) A key sid t"
  unfolding granted_by_def by (metis append_Cons append_assoc)

lemma granted_entries:
  "key_fresh A \<Longrightarrow> key_run xs A = Some B \<Longrightarrow> (k, e) \<in> set (ka_cache B) \<Longrightarrow> pk_is_valid e \<Longrightarrow>
   granted_by xs A k (pk_resolved_stream_id e) (pk_expiry_time e)"
proof (induction xs arbitrary: B k e rule: rev_induct)
  case Nil
  thus ?case by (simp add: key_fresh_def)
next
  case (snoc x xs)
  obtain B1 where b: "key_run xs A = Some B1" "key_do x B1 = Some B" using snoc.prems(2) by (auto simp: key_run_snoc split: option.splits)
  have ok: "keys_ok B1" by (rule key_run_ok [OF snoc.prems(1) b(1)])
  have old: "granted_by (xs @ [x]) A k (pk_resolved_stream_id e) (pk_expiry_time e)" if "(k, e) \<in> set (ka_cache B1)"
    using snoc.IH [OF snoc.prems(1) b(1) that snoc.prems(4)] granted_by_snoc by blast
  show ?case
  proof (cases x)
    case (Ask ok' now pk n ip)
    thus ?thesis using b(2) validate_outcome snoc.prems(3) old by fastforce
  next
    case (Sweep now)
    thus ?thesis using b(2) snoc.prems(3) old live_keys_frame(3) by (fastforce simp: sweep_player_key_cache_def split: if_splits)
  next
    case (Drain parse http now)
    have d: "drained parse http now (ka_pending B1) B1 B" using b(2) drain_outcome(3) [OF ok] Drain by auto
    have c: "key_conf_same A B1" using key_run_conf [OF b(1)] key_run_ok [OF snoc.prems(1), of "[]"] by simp
    show ?thesis
    proof (cases "(k, e) \<in> set (ka_cache B1)")
      case True
      thus ?thesis by (rule old)
    next
      case False
      then obtain i response where i: "(k, i) \<in> set (ka_pending B1)" "http i = Some response" "grants parse response (pk_resolved_stream_id e)"
          "pk_expiry_time e = now + milliseconds (ka_cache_duration B1)"
        using d snoc.prems(3,4) by (fastforce simp: drained_def)
      have "ka_gets B1 ! i = key_url k A" using ok i(1) c by (auto simp: keys_ok_def key_url_def key_conf_same_def)
      thus ?thesis unfolding granted_by_def using i b(1) c Drain
        by (intro exI [of _ xs] exI [of _ parse] exI [of _ http] exI [of _ now] exI [of _ "[]"] exI [of _ B1] exI [of _ i] exI [of _ response])
          (simp add: key_conf_same_def)
    qed
  qed
qed

text \<open>C15. A key opens a stream only on the word of the web hook: whenever a key is accepted, the web hook was asked for exactly that key
  before, an answer with status 200 that names the stream was processed, and the cache duration has not passed since.\<close>

theorem key_accept_authentic:
  assumes "key_fresh A" "key_run xs A = Some B" "validate_player_key ok now (Some key) n ip B = Some (SLS_OK, Some sid, C)"
  shows "\<exists>full expiry. sid = take (n - 1) full \<and> now < expiry \<and> granted_by xs A key full expiry"
proof -
  obtain e where e: "map_of (ka_cache B) key = Some e" "now < pk_expiry_time e" "pk_is_valid e" "sid = take (n - 1) (pk_resolved_stream_id e)"
    using validate_outcome [OF assms(3)] by auto
  thus ?thesis using granted_entries [OF assms(1,2) map_of_SomeD [OF e(1)] e(3)] by blast
qed


section \<open>The rate of requests\<close>

definition times_of :: "string \<Rightarrow> (string \<times> steady list) list \<Rightarrow> steady list" where
  "times_of ip m = (case map_of m ip of None \<Rightarrow> [] | Some ts \<Rightarrow> ts)"

lemma trim_sorted: "sorted ts \<Longrightarrow> trim_times s ts = filter (\<lambda>t. s \<le> t) ts"
proof (induction ts)
  case (Cons a ts)
  have "filter (\<lambda>t. s \<le> t) ts = ts" if "s \<le> a" using that Cons.prems by (intro filter_True) auto
  thus ?case using Cons by (auto simp: trim_times_def)
qed (simp add: trim_times_def)

lemma times_of_trim: "ascending m \<Longrightarrow> times_of ip (trim_map s m) = trim_times s (times_of ip m)"
proof (induction m rule: ascending.induct)
  case (2 k ts m)
  have n: "map_of m k = None" using 2(2) str_less_irrefl by (force simp: map_of_eq_None_iff)
  have "map_of (trim_map s m) k = None" using n by (force simp: trim_map_def map_of_eq_None_iff)
  thus ?case using 2 n by (auto simp: times_of_def trim_map_def)
qed (simp add: times_of_def trim_map_def trim_times_def)

lemma times_of_push: "times_of ip (push_time now j m) = times_of ip m @ (if j = ip then [now] else [])"
  by (simp add: times_of_def push_time_def std_put_lookup)

lemma times_of_update: "times_of ip (AList.update j ts m) = (if j = ip then ts else times_of ip m)"
  by (simp add: times_of_def map_of_update)

text \<open>The tracked times of a source cover every request made for it within the window.\<close>

definition recent :: "steady \<Rightarrow> steady list \<Rightarrow> steady list" where
  "recent s ts = filter (\<lambda>t. s \<le> t) ts"

definition covers :: "string \<Rightarrow> steady list \<Rightarrow> steady \<Rightarrow> 'z key_auth_scheme \<Rightarrow> bool" where
  "covers ip ds T A \<longleftrightarrow> (let ts = times_of ip (ka_rate_limit_map A) in
     sorted ts \<and> (\<forall>t \<in> set ts. t \<le> T) \<and>
     (\<forall>s \<ge> T - milliseconds (ka_rate_limit_window A). length (recent s ds) \<le> length (recent s ts)))"

lemma covers_trimmed:
  assumes "covers ip ds T A" "T \<le> now" "0 \<le> ka_rate_limit_window A" "key_conf_same A B"
    "times_of ip (ka_rate_limit_map B) = trim_times s (times_of ip (ka_rate_limit_map A))" "s \<le> now - milliseconds (ka_rate_limit_window A)"
  shows "covers ip ds now B"
proof -
  let ?ts = "times_of ip (ka_rate_limit_map A)"
  have ts: "sorted ?ts" "\<forall>t \<in> set ?ts. t \<le> T" using assms(1) by (simp_all add: covers_def Let_def)
  have e: "times_of ip (ka_rate_limit_map B) = recent s ?ts" using assms(5) trim_sorted [OF ts(1)] by (simp add: recent_def)
  have w: "ka_rate_limit_window B = ka_rate_limit_window A" using assms(4) by (simp add: key_conf_same_def)
  have r: "recent x (recent s ?ts) = recent x ?ts" if "x \<ge> now - milliseconds (ka_rate_limit_window A)" for x
    using that assms(6) by (auto simp: recent_def filter_filter intro!: filter_cong)
  have "length (recent x ds) \<le> length (recent x ?ts)" if "x \<ge> now - milliseconds (ka_rate_limit_window A)" for x
    using that assms(1,2) by (simp add: covers_def Let_def)
  thus ?thesis using ts assms(2) r w unfolding covers_def Let_def e by (auto simp: recent_def sorted_wrt_filter)
qed

lemma covers_same: "covers ip ds T A \<Longrightarrow> T \<le> now \<Longrightarrow> key_conf_same A B \<Longrightarrow>
    times_of ip (ka_rate_limit_map B) = times_of ip (ka_rate_limit_map A) \<Longrightarrow> covers ip ds now B"
  by (force simp: covers_def Let_def key_conf_same_def)

lemma limited_covers:
  assumes "is_rate_limited now j A = (b, B)" "covers ip ds T A" "T \<le> now" "0 \<le> ka_rate_limit_window A" "ascending (ka_rate_limit_map A)"
  shows "covers ip ds now B" "length (ka_rate_limit_map B) \<le> length (ka_rate_limit_map A)"
    "j = ip \<Longrightarrow> \<not> b \<Longrightarrow> ka_rate_limit_requests A \<noteq> -1 \<Longrightarrow> ip \<noteq> [] \<Longrightarrow>
       length (recent (now - milliseconds (ka_rate_limit_window A)) ds) \<le> nat (ka_rate_limit_requests A - 1)"
proof -
  let ?W = "milliseconds (ka_rate_limit_window A)" and ?A1 = "cleanup_expired_rate_limits now A"
  have w: "milliseconds (ka_rate_limit_window A * 2) \<ge> ?W" using assms(4) by (simp add: milliseconds_def)
  have k1: "key_conf_same A ?A1" using cleanup_step [of A now] by (simp add: rate_step_def)
  have "times_of ip (ka_rate_limit_map ?A1) = times_of ip (ka_rate_limit_map A) \<or>
      times_of ip (ka_rate_limit_map ?A1) = trim_times (now - milliseconds (ka_rate_limit_window A * 2)) (times_of ip (ka_rate_limit_map A))"
    using times_of_trim [OF assms(5)] by (simp add: cleanup_expired_rate_limits_def)
  hence c1: "covers ip ds now ?A1" using covers_same [OF assms(2,3) k1] covers_trimmed [OF assms(2-4) k1] w by force
  have l1: "length (ka_rate_limit_map ?A1) \<le> length (ka_rate_limit_map A)"
    using le_trans [OF length_filter_le, of "map f (ka_rate_limit_map A)" for f] by (simp add: cleanup_expired_rate_limits_def trim_map_def)
  have w1: "ka_rate_limit_window ?A1 = ka_rate_limit_window A" "ka_rate_limit_requests ?A1 = ka_rate_limit_requests A"
    using k1 by (simp_all add: key_conf_same_def)
  have "covers ip ds now B \<and> length (ka_rate_limit_map B) \<le> length (ka_rate_limit_map A) \<and>
    (j = ip \<longrightarrow> \<not> b \<longrightarrow> ka_rate_limit_requests A \<noteq> -1 \<longrightarrow> ip \<noteq> [] \<longrightarrow> length (recent (now - ?W) ds) \<le> nat (ka_rate_limit_requests A - 1))"
  proof (cases "ka_rate_limit_requests A = -1 \<or> j = []")
    case True
    hence "B = A" using assms(1) by (auto simp: is_rate_limited_def split: if_splits)
    thus ?thesis using covers_same [OF assms(2,3) key_conf_same_refl] True by auto
  next
    case False
    have n: "length (recent (now - ?W) ds) \<le> length (recent (now - ?W) (times_of ip (ka_rate_limit_map ?A1)))"
      using c1 w1 by (simp add: covers_def Let_def)
    show ?thesis
    proof (cases "map_of (ka_rate_limit_map ?A1) j")
      case None
      hence "B = ?A1" using assms(1) False by (auto simp: is_rate_limited_def)
      thus ?thesis using c1 l1 n None by (auto simp: times_of_def recent_def)
    next
      case (Some ts)
      let ?ts = "trim_times (now - ?W) ts"
      have B: "B = ?A1\<lparr> ka_rate_limit_map := AList.update j ?ts (ka_rate_limit_map ?A1) \<rparr>" "b = (int (length ?ts) \<ge> ka_rate_limit_requests A)"
        using assms(1) False Some w1 by (auto simp: is_rate_limited_def Let_def)
      have kb: "key_conf_same ?A1 B" by (simp add: B key_conf_same_def)
      have "j \<in> fst ` set (ka_rate_limit_map ?A1)" using map_of_SomeD [OF Some] by force
      hence lb: "length (ka_rate_limit_map B) = length (ka_rate_limit_map ?A1)"
        using arg_cong [OF update_keys [of j "ka_rate_limit_map ?A1" ?ts], of length] by (simp add: B)
      show ?thesis
      proof (cases "j = ip")
        case True
        have t: "times_of ip (ka_rate_limit_map ?A1) = ts" using Some True by (simp add: times_of_def)
        hence tb: "times_of ip (ka_rate_limit_map B) = ?ts" using True by (simp add: B times_of_update)
        have "sorted ts" using c1 t by (simp add: covers_def Let_def)
        hence r: "recent (now - ?W) ts = ?ts" using trim_sorted by (simp add: recent_def)
        have cb: "covers ip ds now B" using covers_trimmed [OF c1 order_refl _ kb, of "now - ?W"] t tb w1 assms(4) by simp
        thus ?thesis using l1 lb n t r B(2) by auto
      next
        case nj: False
        hence "times_of ip (ka_rate_limit_map B) = times_of ip (ka_rate_limit_map ?A1)" by (simp add: B times_of_update)
        thus ?thesis using covers_same [OF c1 order_refl kb] l1 lb nj by auto
      qed
    qed
  qed
  thus "covers ip ds now B" "length (ka_rate_limit_map B) \<le> length (ka_rate_limit_map A)"
    "j = ip \<Longrightarrow> \<not> b \<Longrightarrow> ka_rate_limit_requests A \<noteq> -1 \<Longrightarrow> ip \<noteq> [] \<Longrightarrow>
       length (recent (now - ?W) ds) \<le> nat (ka_rate_limit_requests A - 1)" by blast+
qed

lemma covers_pushed:
  assumes "covers ip ds now A" "length (ka_rate_limit_map A) < MAX_RATE_LIMIT_ENTRIES" "ka_rate_limit_requests A \<noteq> -1" "ip \<noteq> []"
  shows "covers ip ds now (update_rate_limit now j A)" "length (ka_rate_limit_map (update_rate_limit now j A)) \<le> Suc (length (ka_rate_limit_map A))"
    "j = ip \<Longrightarrow> covers ip (ds @ [now]) now (update_rate_limit now j A)"
proof -
  let ?ts = "times_of ip (ka_rate_limit_map A)" and ?B = "update_rate_limit now j A"
  have t: "times_of ip (ka_rate_limit_map ?B) = ?ts @ (if j = ip then [now] else [])"
      "length (ka_rate_limit_map ?B) \<le> Suc (length (ka_rate_limit_map A))" "ka_rate_limit_window ?B = ka_rate_limit_window A"
    using assms(2-4) std_put_length(1) [of j _ "ka_rate_limit_map A"] times_of_push [of ip now j]
    by (auto simp: update_rate_limit_def push_time_def Let_def)
  show "length (ka_rate_limit_map ?B) \<le> Suc (length (ka_rate_limit_map A))" by (rule t(2))
  show "covers ip ds now ?B" using assms(1) unfolding covers_def Let_def t by (auto simp: sorted_append recent_def intro: le_SucI)
  show "covers ip (ds @ [now]) now ?B" if "j = ip" using that assms(1) unfolding covers_def Let_def t by (auto simp: sorted_append recent_def)
qed


text \<open>The times at which a request was sent for a source.\<close>

fun asked :: "string \<Rightarrow> key_op list \<Rightarrow> 'z key_auth_scheme \<Rightarrow> steady list" where
  "asked ip [] A = []"
| "asked ip (x # xs) A =
     (case key_do x A of None \<Rightarrow> []
      | Some B \<Rightarrow>
          (case x of Ask ok now pk n src \<Rightarrow> if src = Some ip \<and> length (ka_gets A) < length (ka_gets B) then [now] else [] | _ \<Rightarrow> []) @
          asked ip xs B)"

fun key_time :: "key_op \<Rightarrow> steady" where
  "key_time (Ask ok now pk n ip) = now"
| "key_time (Drain parse http now) = now"
| "key_time (Sweep now) = now"

lemma ask_covers:
  assumes "validate_player_key ok now pk n src A = Some (ret, sid, B)" "keys_ok A" "covers ip ds T A" "T \<le> now" "0 \<le> ka_rate_limit_window A"
    "ka_rate_limit_requests A \<noteq> -1" "ip \<noteq> []" "length (ka_rate_limit_map A) < MAX_RATE_LIMIT_ENTRIES"
  shows "length (ka_rate_limit_map B) \<le> Suc (length (ka_rate_limit_map A)) \<and>
    (if src = Some ip \<and> length (ka_gets A) < length (ka_gets B)
     then covers ip (ds @ [now]) now B \<and> length (recent (now - milliseconds (ka_rate_limit_window A)) ds) \<le> nat (ka_rate_limit_requests A - 1)
     else covers ip ds now B)"
proof (cases "ka_auth_url A = [] \<or> \<not> validate_player_key_format pk A")
  case True
  hence "B = A" using assms(1) by (cases "ka_auth_url A = []") (simp_all add: validate_player_key_def)
  thus ?thesis using covers_same [OF assms(3,4) key_conf_same_refl] by simp
next
  case False
  obtain key where key: "pk = Some key" using False by (auto simp: validate_player_key_format_def split: option.splits)
  obtain b A1 where l: "(case src of None \<Rightarrow> (False, A) | Some i \<Rightarrow> is_rate_limited now i A) = (b, A1)" by fastforce
  have asc: "ascending (ka_rate_limit_map A)" using assms(2) by (simp add: keys_ok_def times_fit_def)
  have c1: "covers ip ds now A1" "length (ka_rate_limit_map A1) \<le> length (ka_rate_limit_map A)"
    using l limited_covers(1,2) [OF _ assms(3-5) asc] covers_same [OF assms(3,4) key_conf_same_refl] by (auto split: option.splits)
  have n1: "length (recent (now - milliseconds (ka_rate_limit_window A)) ds) \<le> nat (ka_rate_limit_requests A - 1)" if "src = Some ip" "\<not> b"
    using l limited_covers(3) [OF _ assms(3-5) asc refl] that assms(6,7) by auto
  have r: "rate_step A A1" using l limited_step rate_step_refl by (auto split: option.splits)
  note e = assms(1) [unfolded validate_player_key_def l prod.case key option.case]
  show ?thesis
  proof (cases "b \<or> (\<exists>e. map_of (ka_cache A1) key = Some e \<and> now < pk_expiry_time e)")
    case True
    hence "B = A1" using e False key by (auto split: if_splits option.splits)
    thus ?thesis using r c1 by (auto simp: rate_step_def)
  next
    case f: False
    define A2 where "A2 = (case map_of (ka_cache A1) key of None \<Rightarrow> A1 | Some x \<Rightarrow> A1\<lparr> ka_cache := AList.delete key (ka_cache A1) \<rparr>)"
    have m: "start_player_key_validation ok now key src A2 = Some B" using e False f key by (auto simp: A2_def Let_def split: option.splits)
    have a2: "ka_rate_limit_map A2 = ka_rate_limit_map A1" "ka_gets A2 = ka_gets A" "key_conf_same A A2"
      using r by (auto simp: A2_def rate_step_def key_conf_same_def split: option.split)
    have c2: "covers ip ds now A2" using c1(1) a2(1,3) r by (simp add: covers_def key_conf_same_def rate_step_def)
    have p: "length (ka_rate_limit_map A2) < MAX_RATE_LIMIT_ENTRIES" "ka_rate_limit_requests A2 \<noteq> -1" using assms(6,8) c1(2) a2 by (simp_all add: key_conf_same_def)
    define A3 where "A3 = (case src of None \<Rightarrow> A2 | Some i \<Rightarrow> update_rate_limit now i A2)"
    note u = covers_pushed [OF c2 p assms(7)]
    have a3: "covers ip ds now A3" "length (ka_rate_limit_map A3) \<le> Suc (length (ka_rate_limit_map A))" "src = Some ip \<Longrightarrow> covers ip (ds @ [now]) now A3"
        "ka_gets A3 = ka_gets A2"
      using u(1,3) c2 c1(2) a2(1) u(2) update_step [of A2 now] le_trans [OF u(2)] by (auto simp: A3_def rate_step_def split: option.split)
    have B: "B = A2 \<or> B = A3 \<or> (\<exists>x y. B = A3\<lparr> ka_pending := x, ka_gets := y \<rparr>)"
      using m unfolding start_player_key_validation_def A3_def [symmetric] by (auto simp: Let_def split: if_splits option.splits)
    show ?thesis using B
    proof (elim disjE exE)
      assume "B = A2"
      thus ?thesis using c2 c1(2) a2 by auto
    next
      assume "B = A3"
      thus ?thesis using a3 a2 by auto
    next
      fix x y
      assume b: "B = A3\<lparr> ka_pending := x, ka_gets := y \<rparr>"
      thus ?thesis using a3 f n1 by (auto simp: covers_def)
    qed
  qed
qed


text \<open>The requests of a source within any window.\<close>

definition within :: "steady \<Rightarrow> steady \<Rightarrow> steady list \<Rightarrow> steady list" where
  "within w t ds = filter (\<lambda>d. t - w \<le> d \<and> d \<le> t) ds"

lemma within_snoc:
  assumes "\<forall>t. length (within w t ds) \<le> max 1 N" "length (recent (now - w) ds) \<le> N - 1" "\<forall>d \<in> set ds. d \<le> now"
  shows "length (within w t (ds @ [now])) \<le> max 1 N"
proof (cases "t < now")
  case True
  hence "within w t (ds @ [now]) = within w t ds" by (simp add: within_def)
  thus ?thesis using assms(1) by simp
next
  case False
  have "length (within w t ds) \<le> length (recent (now - w) ds)"
  proof -
    have "within w t ds = filter (\<lambda>d. t - w \<le> d \<and> d \<le> t) (recent (now - w) ds)"
      using False by (auto simp: within_def recent_def intro!: filter_cong)
    thus ?thesis by simp
  qed
  moreover have "length (within w t (ds @ [now])) \<le> Suc (length (within w t ds))" by (simp add: within_def)
  ultimately show ?thesis using assms(2) by (cases N) auto
qed

lemma asked_within:
  assumes "keys_ok A" "covers ip ds T A" "\<forall>x \<in> set xs. T \<le> key_time x" "sorted (map key_time xs)" "\<forall>d \<in> set ds. d \<le> T"
    "\<forall>t. length (within (milliseconds (ka_rate_limit_window A)) t ds) \<le> max 1 (nat (ka_rate_limit_requests A))"
    "0 \<le> ka_rate_limit_window A" "ka_rate_limit_requests A \<noteq> -1" "ip \<noteq> []" "length (ka_rate_limit_map A) + length xs \<le> MAX_RATE_LIMIT_ENTRIES"
  shows "length (within (milliseconds (ka_rate_limit_window A)) t (ds @ asked ip xs A)) \<le> max 1 (nat (ka_rate_limit_requests A))"
  using assms
proof (induction xs arbitrary: A ds T)
  case (Cons x xs)
  let ?W = "milliseconds (ka_rate_limit_window A)" and ?N = "nat (ka_rate_limit_requests A)"
  show ?case
  proof (cases "key_do x A")
    case None
    thus ?thesis using Cons.prems(6) by simp
  next
    case (Some B)
    have o: "keys_ok B" "key_conf_same A B" using key_do_outcome [OF Some Cons.prems(1)] by simp_all
    have w: "ka_rate_limit_window B = ka_rate_limit_window A" "ka_rate_limit_requests B = ka_rate_limit_requests A" using o(2) by (simp_all add: key_conf_same_def)
    define d where "d = (case x of Ask ok now pk n src \<Rightarrow> if src = Some ip \<and> length (ka_gets A) < length (ka_gets B) then [now] else [] | _ \<Rightarrow> [])"
    have s: "length (ka_rate_limit_map B) \<le> Suc (length (ka_rate_limit_map A)) \<and> covers ip (ds @ d) (key_time x) B \<and>
        (d = [] \<or> d = [key_time x] \<and> length (recent (key_time x - ?W) ds) \<le> ?N - 1)"
    proof (cases x)
      case (Ask ok now pk n src)
      obtain ret sid where v: "validate_player_key ok now pk n src A = Some (ret, sid, B)" using Some Ask by auto
      have "T \<le> now" "length (ka_rate_limit_map A) < MAX_RATE_LIMIT_ENTRIES" using Cons.prems(3,10) Ask by auto
      from ask_covers [OF v Cons.prems(1,2) this(1) Cons.prems(7,8,9) this(2)] show ?thesis
        using Ask by (auto simp: d_def nat_diff_distrib split: if_splits)
    next
      case (Drain parse http now)
      have "ka_rate_limit_map B = ka_rate_limit_map A" "T \<le> now" using Some Drain drain_outcome(4) [OF Cons.prems(1)] Cons.prems(3) by auto
      thus ?thesis using covers_same [OF Cons.prems(2) _ o(2)] Drain by (simp add: d_def)
    next
      case (Sweep now)
      have "ka_rate_limit_map B = ka_rate_limit_map A" "T \<le> now" using Some Sweep Cons.prems(3) by (auto simp: sweep_player_key_cache_def)
      thus ?thesis using covers_same [OF Cons.prems(2) _ o(2)] Sweep by (simp add: d_def)
    qed
    have le: "\<forall>e \<in> set (ds @ d). e \<le> key_time x" using Cons.prems(3,5) s by fastforce
    have b: "\<forall>t. length (within ?W t (ds @ d)) \<le> max 1 ?N" using Cons.prems(6) s within_snoc [OF Cons.prems(6)] le by auto
    have "length (within (milliseconds (ka_rate_limit_window B)) t ((ds @ d) @ asked ip xs B)) \<le> max 1 (nat (ka_rate_limit_requests B))"
      by (rule Cons.IH [of B "ds @ d" "key_time x"]) (use o(1) s le b w Cons.prems in auto)
    thus ?thesis using Some w by (simp add: d_def)
  qed
qed simp


section \<open>Examples\<close>

definition demo_keys :: key_auth where
  "demo_keys = \<lparr> ka_auth_url = ''http://h/k'', ka_auth_timeout = 2000, ka_cache_duration = 60000, ka_rate_limit_requests = 2,
     ka_rate_limit_window = 60000, ka_max_length = 64, ka_min_length = 8, ka_regex = (8, 64), ka_cache = [], ka_last_cache_sweep = 0,
     ka_pending = [], ka_rate_limit_map = [], ka_last_rate_limit_cleanup = 0, ka_gets = [] \<rparr>"

definition demo_hook :: "string \<Rightarrow> json option" where
  "demo_hook s = Some (JObject [(''stream_id'', JString ''u/a/x'')])"

definition demo_ops :: "key_op list" where
  "demo_ops = [Ask True 1 (Some ''12345678'') 2048 (Some ''1.2.3.4''),
     Drain demo_hook (\<lambda>i. Some \<lparr> resp_success = True, resp_status_code = 200, resp_body = ''{}'' \<rparr>) 2]"

lemma demo_fresh: "key_fresh demo_keys"
  by (simp add: key_fresh_def demo_keys_def)

lemma demo_url: "url_encode ''12345678'' = ''12345678''" by code_simp

lemma demo_ask: "\<exists>B. key_do (Ask True 1 (Some ''12345678'') 2048 (Some ''1.2.3.4'')) demo_keys = Some B \<and> ka_pending B = [(''12345678'', 0)] \<and>
    ka_cache B = [] \<and> ka_cache_duration B = 60000 \<and> ka_gets B = [''http://h/k?player_key=12345678''] \<and> ka_auth_url B = ''http://h/k'' \<and>
    ka_rate_limit_map B = [(''1.2.3.4'', [1])] \<and> ka_rate_limit_requests B = 2 \<and> ka_last_rate_limit_cleanup B = 0 \<and> ka_regex B = (8, 64) \<and>
    ka_min_length B = 8 \<and> ka_max_length B = 64 \<and> ka_rate_limit_window B = 60000"
  by (simp add: validate_player_key_def demo_keys_def validate_player_key_format_def is_rate_limited_def cleanup_expired_rate_limits_def
      start_player_key_validation_def update_rate_limit_def push_time_def key_url_def demo_url snprintf_fits_def RATE_LIMIT_CLEANUP_INTERVAL_def
      milliseconds_def MAX_RATE_LIMIT_ENTRIES_def MAX_PENDING_PLAYER_KEY_VALIDATIONS_def Let_def of_char_of)

lemma demo_drain:
  assumes "key_do (Ask True 1 (Some ''12345678'') 2048 (Some ''1.2.3.4'')) demo_keys = Some B"
  shows "\<exists>C. key_run demo_ops demo_keys = Some C \<and> (\<exists>D. validate_player_key True 3 (Some ''12345678'') 2048 None C = Some (SLS_OK, Some ''u/a/x'', D))"
proof -
  have b: "ka_pending B = [(''12345678'', 0)]" "ka_cache B = []" "ka_cache_duration B = 60000" "ka_auth_url B = ''http://h/k''"
      "ka_rate_limit_map B = [(''1.2.3.4'', [1])]" "ka_rate_limit_requests B = 2" "ka_last_rate_limit_cleanup B = 0" "ka_regex B = (8, 64)"
      "ka_min_length B = 8" "ka_max_length B = 64" "ka_rate_limit_window B = 60000"
    using demo_ask assms by auto
  let ?h = "\<lambda>i :: nat. Some \<lparr> resp_success = True, resp_status_code = 200, resp_body = ''{}'' \<rparr>"
  let ?e = "\<lparr> pk_resolved_stream_id = ''u/a/x'', pk_expiry_time = 60000000002, pk_is_valid = True, pk_has_max_players_override = False,
     pk_max_players_per_stream_override = -1 \<rparr>"
  let ?C = "B\<lparr> ka_cache := [(''12345678'', ?e)], ka_pending := [] \<rparr>"
  have d: "drain_player_key_validations demo_hook ?h 2 B = ?C"
    by (simp add: b drain_player_key_validations_def process_player_key_response_def demo_hook_def json_get_def cache_key_def players_override_def
        insert_player_key_cache_locked_def MAX_PLAYER_KEY_CACHE_ENTRIES_def milliseconds_def)
  have "key_run demo_ops demo_keys = Some ?C" unfolding demo_ops_def key_run.simps assms option.case key_do.simps(2) d by simp
  moreover have "validate_player_key True 3 (Some ''12345678'') 2048 None ?C = Some (SLS_OK, Some ''u/a/x'', ?C)"
    by (simp add: b validate_player_key_def validate_player_key_format_def Let_def of_char_of)
  ultimately show ?thesis by blast
qed

theorem key_tables_bounded_witness:
  "\<exists>B. key_run demo_ops demo_keys = Some B \<and> length (ka_cache B) \<le> 50000"
proof -
  obtain B where "key_run demo_ops demo_keys = Some B" using demo_ask demo_drain by blast
  thus ?thesis using key_tables_bounded [OF demo_fresh, of demo_ops] by blast
qed

theorem key_accept_authentic_witness:
  "\<exists>full expiry. ''u/a/x'' = take 2047 full \<and> 3 < expiry \<and> granted_by demo_ops demo_keys ''12345678'' full expiry"
proof -
  obtain B D where "key_run demo_ops demo_keys = Some B"
      "validate_player_key True 3 (Some ''12345678'') 2048 None B = Some (SLS_OK, Some ''u/a/x'', D)" using demo_ask demo_drain by blast
  thus ?thesis using key_accept_authentic [OF demo_fresh] by force
qed


end
