(* ===== verification/Listener.thy ===== *)
theory Listener
  imports Group Player_Key
begin

text \<open>The listener: \<^verbatim>\<open>src/core/SLSListenerHandler.cpp\<close>, \<^verbatim>\<open>SLSListenerCore.cpp\<close> and \<^verbatim>\<open>SLSListenerConfig.cpp\<close>. A listener accepts a
  socket, decides who the peer is, and either closes the socket, holds it while a web hook is asked, or makes a role of it
  and hands that to the workers. It works on the role store of the server, the relay tables and the player registry. A
  call is one step; every call reads each clock once. The name of a session, the texts of the statistics, the logs and the blocking
  mode of a socket are left out. The value \<^const>\<open>None\<close> is an exception that leaves the thread, or a use of a null pointer.\<close>

section \<open>State\<close>

definition MAX_HANDOFF_BACKLOG :: nat where
  "MAX_HANDOFF_BACKLOG = 4096"

definition MAX_PENDING_PLAYER_CONNECTIONS :: nat where
  "MAX_PENDING_PLAYER_CONNECTIONS = 1024"

definition MAX_PENDING_PUBLISHER_CONNECTIONS :: nat where
  "MAX_PENDING_PUBLISHER_CONNECTIONS = 1024"

definition ACTIVE_INCUMBENT_RECV_WINDOW_MS :: time_ms where
  "ACTIVE_INCUMBENT_RECV_WINDOW_MS = 1000"

record PendingPlayerConnection =
  pp_srt :: CSLSSrt
  pp_app_uplive :: string
  pp_player_key :: string
  pp_peer_name :: string
  pp_final_latency :: int
  pp_deadline :: steady

record PendingPublisherConnection =
  pb_publisher :: role_id
  pb_app_uplive :: string
  pb_stream_name :: string
  pb_key_stream_name :: string

record StreamPlayerLimitEntry =
  sl_has_override :: bool
  sl_max_players_per_stream :: int
  sl_expiry_time :: steady

text \<open>The block of a server with the blocks of its apps and their relays, in the order of the file.\<close>

record app_conf =
  app_vars :: conf_vars
  app_relays :: "conf_vars list"

record server_conf =
  sc_vars :: conf_vars
  sc_apps :: "app_conf list"

datatype listen_callback = Publisher_gate bool | Player_gate

text \<open>The tables a listener is given are there or null; the publisher table always is. The last fields are what was set on
  the listening socket.\<close>

record CSLSListener = key_auth +
  li_conf :: "server_conf option"
  li_srt :: "CSLSSrt option"
  li_state :: SLS_ROLE_STATE
  li_role_name :: string
  li_list_role :: bool
  li_player_registry :: bool
  li_map_puller :: bool
  li_map_pusher :: bool
  li_auth_reject_cache :: bool
  li_is_publisher_listener :: bool
  li_is_srtla_listener :: bool
  li_is_legacy_listener :: bool
  li_port_override :: int
  li_port :: int
  li_back_log :: int
  li_idle_streams_timeout_role :: int
  li_player_idle_streams_timeout_role :: int
  li_publisher_first_data_grace_role :: int
  li_default_sid :: string
  li_http_url_role :: string
  li_domain_players :: "string list"
  li_domain_publisher :: string
  li_app_players :: "string list"
  li_pending_player_connections :: "PendingPlayerConnection list"
  li_pending_publisher_connections :: "PendingPublisherConnection list"
  li_stream_player_limit_map :: "(string \<times> StreamPlayerLimitEntry) list"
  li_latency :: "int option"
  li_passphrase :: "(string \<times> int) option"
  li_peer_idle_timeout :: "int option"
  li_callback :: "listen_callback option"

text \<open>What the listeners share: the server, the relay blocks of the two relay tables, the player registry, and the next
  numbers for a manager and for a snapshot.\<close>

record listener_world =
  lw_server :: "conf_vars server"
  lw_pull_info :: "(string \<times> SLS_RELAY_INFO) list"
  lw_push_info :: "(string \<times> SLS_RELAY_INFO) list"
  lw_registry :: player_registry
  lw_next_manager :: nat
  lw_next_snapshot :: nat

text \<open>The surroundings of a call: the two clocks, what \<^verbatim>\<open>srt_accept\<close> returns, the name of the peer (\<^const>\<open>None\<close> on failure), the
  latency option (result, value, length), the stream id option (\<^const>\<open>None\<close> on failure), the address of the peer of a socket
  (\<^const>\<open>None\<close> on failure), the surroundings of each role and of each relay that is opened, whether the pool takes a request,
  the answers of the web hook, the JSON parser, and the two keyed hashes of the player registry.\<close>

record listener_env =
  le_now :: time_ms
  le_steady :: steady
  le_accept :: int
  le_peer :: "(string \<times> int) option"
  le_latency :: "int \<times> int \<times> int"
  le_streamid :: "string option"
  le_peer_raw :: "int \<Rightarrow> sockaddr option"
  le_role :: "role_id \<Rightarrow> role_env"
  le_relay :: "role_id \<Rightarrow> srt_env"
  le_root :: "conf_vars option"
  le_get_ok :: bool
  le_http :: "nat \<Rightarrow> AsyncHttpResponse option"
  le_json :: "string \<Rightarrow> json option"
  le_client_id :: "string \<Rightarrow> string"
  le_key_id :: "string \<Rightarrow> string"

abbreviation lw_world :: "listener_world \<Rightarrow> conf_vars role_world" where
  "lw_world X \<equiv> sv_world (lw_server X)"

abbreviation lw_pub :: "listener_world \<Rightarrow> conf_vars CSLSMapPublisher" where
  "lw_pub X \<equiv> w_pub (sv_world (lw_server X))"

text \<open>\<^verbatim>\<open>srt->libsrt_close (); delete srt;\<close>\<close>

definition refuse :: "CSLSSrt \<Rightarrow> listener_world \<Rightarrow> listener_world" where
  "refuse s X = X\<lparr> lw_server := (lw_server X)\<lparr> sv_world := role_calls (libsrt_close s) (lw_world X) \<rparr> \<rparr>"

text \<open>A role object that was just made, and its end: \<^verbatim>\<open>uninit\<close> and the drop of the last reference.\<close>

definition add_role :: "CSLSRole \<Rightarrow> 'ca server \<Rightarrow> 'ca server" where
  "add_role r S =
     S\<lparr> sv_roles := AList.update (rl_id r) r (sv_roles S), sv_world := (sv_world S)\<lparr> w_next := Suc (w_next (sv_world S)) \<rparr> \<rparr>"

definition discard_role :: "role_env \<Rightarrow> role_id \<Rightarrow> 'ca server \<Rightarrow> 'ca server option" where
  "discard_role env i S = map_option (drop_role i) (uninit_role env i S)"

definition push_role :: "CSLSListener \<Rightarrow> role_id \<Rightarrow> 'ca server \<Rightarrow> 'ca server option" where
  "push_role L i S =
     (if li_list_role L then Some (S\<lparr> sv_world := (sv_world S)\<lparr> w_roles := snd (role_push (Some i) (w_roles (sv_world S))) \<rparr> \<rparr>) else None)"

section \<open>The address rules\<close>

datatype AclMatch = Acl_ACCEPT | Acl_DENY | Acl_NO_MATCH

definition acl_matches :: "sls_ip_access_t \<Rightarrow> int \<Rightarrow> byte list \<Rightarrow> bool \<Rightarrow> bool" where
  "acl_matches e peer_addr_v4 peer_addr_v6 peer_is_ipv6 =
     (case ip_family e of
        WILDCARD \<Rightarrow> True
      | V4 \<Rightarrow> \<not> peer_is_ipv6 \<and> ip_address e = peer_addr_v4
      | V6 \<Rightarrow> peer_is_ipv6 \<and> ip_address6 e = peer_addr_v6)"

fun sls_check_ip_acl :: "sls_ip_access_t list \<Rightarrow> int \<Rightarrow> byte list \<Rightarrow> bool \<Rightarrow> AclMatch" where
  "sls_check_ip_acl [] v4 v6 is6 = Acl_NO_MATCH"
| "sls_check_ip_acl (e # es) v4 v6 is6 =
     (if \<not> acl_matches e v4 v6 is6 then sls_check_ip_acl es v4 v6 is6
      else case ip_action e of ACCEPT \<Rightarrow> Acl_ACCEPT | DENY \<Rightarrow> Acl_DENY)"

text \<open>\<^verbatim>\<open>libsrt_getpeeraddr_raw\<close> of a socket object that is asked for the first time: the result, the address of either family
  and \<^verbatim>\<open>m_is_ipv6\<close>. The address of another family leaves the result of \<^verbatim>\<open>srt_getpeername\<close>, zero.\<close>

definition v4_mapped :: "byte list \<Rightarrow> bool" where
  "v4_mapped a \<longleftrightarrow> take 10 a = replicate 10 0 \<and> take 2 (drop 10 a) = [255, 255]"

definition be32 :: "byte list \<Rightarrow> int" where
  "be32 bs = foldl (\<lambda>acc b. acc * 256 + uint b) 0 bs"

definition libsrt_getpeeraddr_raw :: "sockaddr option \<Rightarrow> int \<times> int \<times> byte list \<times> bool" where
  "libsrt_getpeeraddr_raw peer =
     (case peer of
        None \<Rightarrow> (SLS_ERROR, 0, zero_ip6, False)
      | Some (AF_INET v p) \<Rightarrow> (SLS_OK, uint v, zero_ip6, False)
      | Some (AF_INET6 a p) \<Rightarrow> if v4_mapped a then (SLS_OK, be32 (take 4 (drop 12 a)), zero_ip6, False) else (SLS_OK, 0, a, True)
      | Some AF_OTHER \<Rightarrow> (0, 0, zero_ip6, False))"

definition acl_refuses :: "sls_ip_access_t list \<Rightarrow> sockaddr option \<Rightarrow> bool" where
  "acl_refuses entries peer =
     (case libsrt_getpeeraddr_raw peer of (ret, v4, v6, is6) \<Rightarrow> ret \<noteq> SLS_OK \<or> sls_check_ip_acl entries v4 v6 is6 = Acl_DENY)"

section \<open>Relays of a stream\<close>

text \<open>The managers of both relay tables are in the server; \<^verbatim>\<open>init_conf_app\<close> puts only pull blocks into the one table and only push blocks
  into the other, so the class of a manager says which table it is in.\<close>

fun is_puller :: "relay_manager \<Rightarrow> bool" where
  "is_puller (Pusher p) = False"
| "is_puller (Puller p) = True"

definition relay_table :: "bool \<Rightarrow> listener_world \<Rightarrow> CSLSMapRelay" where
  "relay_table pull X =
     \<lparr> m_map_relay_manager = filter (\<lambda>(key, m). is_puller m = pull) (sv_table (lw_server X)),
       m_map_relay_info = (if pull then lw_pull_info X else lw_push_info X) \<rparr>"

definition put_table :: "bool \<Rightarrow> CSLSMapRelay \<Rightarrow> 'ca server \<Rightarrow> 'ca server" where
  "put_table pull T S = S\<lparr> sv_table := filter (\<lambda>(key, m). is_puller m \<noteq> pull) (sv_table S) @ m_map_relay_manager T \<rparr>"

fun manager_pointers :: "CSLSListener \<Rightarrow> relay_manager \<Rightarrow> relay_manager" where
  "manager_pointers L (Pusher p) =
     Pusher (set_listen_port (li_port L) (set_role_list (li_list_role L) (set_map_publisher True (set_map_data True p))))"
| "manager_pointers L (Puller p) =
     Puller (set_listen_port (li_port L) (set_role_list (li_list_role L) (set_map_publisher True (set_map_data True p))))"

fun start_manager ::
  "listener_env \<Rightarrow> relay_manager \<Rightarrow> 'ca relay_world \<Rightarrow> (int \<times> relay_manager \<times> 'ca relay_world) option" where
  "start_manager E (Pusher p) V =
     map_option (\<lambda>(ret, p1, V1). (ret, Pusher p1, V1)) (pusher_start (le_relay E) (le_root E) (le_now E) p V)"
| "start_manager E (Puller p) V =
     map_option (\<lambda>(ret, p1, V1). (ret, Puller p1, V1)) (puller_start (le_now E) (le_relay E) (le_root E) p V)"

text \<open>The object of a manager in the table after a call of it.\<close>

definition store_manager :: "manager_ref \<Rightarrow> relay_manager \<Rightarrow> 'ca server \<Rightarrow> 'ca server" where
  "store_manager h m1 S = S\<lparr> sv_table := map (\<lambda>(key, m). (key, if manager_self m = h then m1 else m)) (sv_table S) \<rparr>"

text \<open>A manager for the stream is found or made, given its pointers and started: \<^const>\<open>None\<close> without one, else what \<^verbatim>\<open>start\<close> returns.\<close>

definition start_relay :: "listener_env \<Rightarrow> bool \<Rightarrow> string \<Rightarrow> string \<Rightarrow> CSLSListener \<Rightarrow> listener_world \<Rightarrow> (int option \<times> listener_world) option" where
  "start_relay E pull app_uplive stream_name L X =
     (case add_relay_manager (lw_next_manager X) app_uplive stream_name (relay_table pull X) of
        (None, T) \<Rightarrow> Some (None, X)
      | (Some m, T) \<Rightarrow> do {
          let S = put_table pull T (lw_server X);
          ((ret, m1), W1) \<leftarrow> on_relays (\<lambda>V. map_option (\<lambda>(ret, m1, V1). ((ret, m1), V1)) (start_manager E (manager_pointers L m) V)) (sv_world S);
          Some (Some ret, X\<lparr> lw_server := store_manager (manager_self m) m1 (S\<lparr> sv_world := W1 \<rparr>), lw_next_manager := Suc (lw_next_manager X) \<rparr>)
        })"

section \<open>Players\<close>

definition stream_key_of :: "string \<Rightarrow> string \<Rightarrow> string" where
  "stream_key_of app_uplive stream_name = take 2047 (app_uplive @ ''/'' @ stream_name)"

text \<open>The entry of a key that sets the number of players of its stream.\<close>

definition key_override :: "steady \<Rightarrow> string \<Rightarrow> CSLSListener \<Rightarrow> PlayerKeyCacheEntry option" where
  "key_override now_ts player_key L =
     (case map_of (ka_cache L) player_key of
        Some e \<Rightarrow> if pk_is_valid e \<and> now_ts < pk_expiry_time e \<and> pk_has_max_players_override e then Some e else None
      | None \<Rightarrow> None)"

definition remember_override :: "steady \<Rightarrow> string \<Rightarrow> string option \<Rightarrow> CSLSListener \<Rightarrow> CSLSListener" where
  "remember_override now_ts key_stream_name player_key L =
     (case player_key of None \<Rightarrow> L
      | Some key \<Rightarrow>
          (case key_override now_ts key L of None \<Rightarrow> L
           | Some e \<Rightarrow> L\<lparr> li_stream_player_limit_map := std_put key_stream_name
                 \<lparr> sl_has_override = True, sl_max_players_per_stream = pk_max_players_per_stream_override e, sl_expiry_time = pk_expiry_time e \<rparr>
                 (li_stream_player_limit_map L) \<rparr>))"

text \<open>The publisher of the stream, after a pull relay was started when there was none.\<close>

definition player_source ::
  "listener_env \<Rightarrow> string \<Rightarrow> string \<Rightarrow> CSLSListener \<Rightarrow> listener_world \<Rightarrow> (bool \<times> listener_world) option" where
  "player_source E app_uplive stream_name L X =
     (let key_stream_name = stream_key_of app_uplive stream_name in
      if get_publisher key_stream_name (lw_pub X) \<noteq> None then Some (True, X)
      else if \<not> li_map_puller L then Some (False, X)
      else do {
        (ret, X1) \<leftarrow> start_relay E True app_uplive stream_name L X;
        Some (ret = Some SLS_OK \<and> get_publisher key_stream_name (lw_pub X1) \<noteq> None, X1)
      })"

text \<open>The number of players the stream may have; an entry that has expired is erased.\<close>

definition effective_max_players :: "steady \<Rightarrow> string \<Rightarrow> string option \<Rightarrow> conf_vars \<Rightarrow> CSLSListener \<Rightarrow> int \<times> CSLSListener" where
  "effective_max_players now_ts key_stream_name player_key ca L =
     (let base = var_int ''max_players_per_stream'' ca;
          of_key = (\<lambda>L1. case player_key of None \<Rightarrow> base
            | Some key \<Rightarrow> (case key_override now_ts key L1 of None \<Rightarrow> base | Some e \<Rightarrow> pk_max_players_per_stream_override e))
      in case map_of (li_stream_player_limit_map L) key_stream_name of
           None \<Rightarrow> (of_key L, L)
         | Some sentry \<Rightarrow>
             if sl_has_override sentry \<and> now_ts < sl_expiry_time sentry then (sl_max_players_per_stream sentry, L)
             else if now_ts \<ge> sl_expiry_time sentry then
               (let L1 = L\<lparr> li_stream_player_limit_map := AList.delete key_stream_name (li_stream_player_limit_map L) \<rparr> in (of_key L1, L1))
             else (of_key L, L))"

text \<open>What the registry sees of the roles: an object is freed when the store has let go of it.\<close>

definition registry_world :: "'ca server \<Rightarrow> world" where
  "registry_world S = \<lparr> role_freed = (\<lambda>i. map_of (sv_roles S) i = None), snapshot_at = rw_snapshot (sv_world S) \<rparr>"

definition player_limit_reached :: "string \<Rightarrow> int \<Rightarrow> CSLSListener \<Rightarrow> listener_world \<Rightarrow> bool \<times> listener_world" where
  "player_limit_reached key_stream_name limit L X =
     (if limit > 0 \<and> li_player_registry L then
        (case registry_count (registry_world (lw_server X)) key_stream_name (lw_registry X) of
           (n, R) \<Rightarrow> (n \<ge> limit, X\<lparr> lw_registry := R \<rparr>))
      else (False, X))"

definition new_snapshot :: PlayerStatsSnapshot where
  "new_snapshot = \<lparr> snap_rtt_ms = 0, snap_mbps_send_rate = 0, snap_pkt_snd_drop_total = 0, snap_pkt_retrans_total = 0, snap_closed = False \<rparr>"

definition new_player :: "listener_env \<Rightarrow> role_id \<Rightarrow> CSLSSrt \<Rightarrow> string \<Rightarrow> string \<Rightarrow> int \<Rightarrow> CSLSListener \<Rightarrow> CSLSRole" where
  "new_player E i s key_stream_name effective_sid final_latency L =
     (let r1 = (snd (role_init (role_new i Player_role (le_now E))))\<lparr> rl_idle_streams_timeout := li_player_idle_streams_timeout_role L \<rparr>;
          r2 = (snd (set_srt s r1))\<lparr> rl_map_data_key := take 2047 key_stream_name, rl_map_data := True, rl_latency := final_latency \<rparr>
      in set_http_url (Some (li_http_url_role L)) (set_streamid (Some effective_sid) r2))"

text \<open>The registration of a player: a snapshot for its statistics and an entry of the registry.\<close>

definition register_player ::
  "listener_env \<Rightarrow> role_id \<Rightarrow> string \<Rightarrow> string option \<Rightarrow> string \<Rightarrow> int \<Rightarrow> CSLSListener \<Rightarrow> listener_world \<Rightarrow> listener_world" where
  "register_player E i key_stream_name player_key peer_name final_latency L X =
     (if \<not> li_player_registry L then X
      else let n = lw_next_snapshot X; S = lw_server X;
               roles = (case map_of (sv_roles S) i of None \<Rightarrow> sv_roles S
                 | Some r \<Rightarrow> AList.update i (r\<lparr> rl_player_snapshot := Some n \<rparr>) (sv_roles S));
               S1 = S\<lparr> sv_roles := roles, sv_world := (sv_world S)\<lparr> rw_snapshot := (rw_snapshot (sv_world S))(n := new_snapshot) \<rparr> \<rparr>;
               reg = \<lparr> stream_key = key_stream_name, client_id = le_client_id E peer_name,
                       player_key_id = (case player_key of None \<Rightarrow> [] | Some key \<Rightarrow> le_key_id E key),
                       connected_at_ms = le_now E, latency_ms = final_latency, liveness = i, snapshot = Some n \<rparr>
           in X\<lparr> lw_server := S1, lw_next_snapshot := Suc n, lw_registry := registry_add (registry_world S1) reg (lw_registry X) \<rparr>)"

definition admit_player ::
  "listener_env \<Rightarrow> CSLSSrt \<Rightarrow> string \<Rightarrow> string \<Rightarrow> string option \<Rightarrow> string \<Rightarrow> int \<Rightarrow> CSLSListener \<Rightarrow> listener_world \<Rightarrow> listener_world option" where
  "admit_player E s key_stream_name effective_sid player_key peer_name final_latency L X =
     (let i = w_next (lw_world X) in do {
        (ret, S1) \<leftarrow> on_role i (\<lambda>r W. Some (on_connect (le_role E i) r W))
          (add_role (new_player E i s key_stream_name effective_sid final_latency L) (lw_server X));
        let X2 = register_player E i key_stream_name player_key peer_name final_latency L (X\<lparr> lw_server := S1 \<rparr>);
        S3 \<leftarrow> push_role L i (lw_server X2);
        Some (X2\<lparr> lw_server := S3 \<rparr>)
      })"

definition admit_within_limit ::
  "listener_env \<Rightarrow> CSLSSrt \<Rightarrow> string \<Rightarrow> string \<Rightarrow> string option \<Rightarrow> string \<Rightarrow> int \<Rightarrow> conf_vars \<Rightarrow> CSLSListener \<Rightarrow> listener_world \<Rightarrow>
   (CSLSListener \<times> listener_world) option" where
  "admit_within_limit E s key_stream_name effective_sid player_key peer_name final_latency ca L X =
     (case effective_max_players (le_steady E) key_stream_name player_key ca L of (limit, L1) \<Rightarrow>
        case player_limit_reached key_stream_name limit L1 X of (reached, X1) \<Rightarrow>
          if reached then Some (L1, refuse s X1)
          else map_option (Pair L1) (admit_player E s key_stream_name effective_sid player_key peer_name final_latency L1 X1))"

text \<open>\<open>player_key\<close> is the key when one had to be validated.\<close>

definition finish_player_accept ::
  "listener_env \<Rightarrow> CSLSSrt \<Rightarrow> string \<Rightarrow> string \<Rightarrow> string \<Rightarrow> string option \<Rightarrow> string \<Rightarrow> int \<Rightarrow> CSLSListener \<Rightarrow> listener_world \<Rightarrow>
   (CSLSListener \<times> listener_world) option" where
  "finish_player_accept E s app_uplive stream_name effective_sid player_key peer_name final_latency L X =
     (let key_stream_name = stream_key_of app_uplive stream_name;
          L1 = remember_override (le_steady E) key_stream_name player_key L
      in do {
        (found, X1) \<leftarrow> player_source E app_uplive stream_name L1 X;
        if \<not> found then Some (L1, refuse s X1)
        else case get_ca app_uplive (lw_pub X1) of
          None \<Rightarrow> Some (L1, refuse s X1)
        | Some ca \<Rightarrow>
            if acl_refuses (acl_play (var_acl ''ip_actions'' ca)) (le_peer_raw E (s_fd s)) then Some (L1, refuse s X1)
            else if get_publisher key_stream_name (lw_pub X1) = None then Some (L1, refuse s X1)
            else admit_within_limit E s key_stream_name effective_sid player_key peer_name final_latency ca L1 X1
      })"

section \<open>Publishers\<close>

definition new_publisher :: "listener_env \<Rightarrow> role_id \<Rightarrow> CSLSSrt \<Rightarrow> conf_vars \<Rightarrow> int \<Rightarrow> CSLSListener \<Rightarrow> CSLSRole" where
  "new_publisher E i s ca final_latency L =
     (let r1 = (snd (set_srt s (role_new i Publisher_role (le_now E))))\<lparr> rl_conf := Some ca \<rparr>;
          r2 = (snd (publisher_init (le_now E) r1))\<lparr> rl_idle_streams_timeout := li_idle_streams_timeout_role L \<rparr>;
          first_data_deadline =
            (if li_publisher_first_data_grace_role L > 0 then final_latency + li_publisher_first_data_grace_role L else 0);
          r3 = (set_first_data_timeout (le_now E) first_data_deadline r2)\<lparr> rl_latency := final_latency \<rparr>
      in (set_http_url (Some (li_http_url_role L)) r3)\<lparr> rl_auth_reject_cache := li_auth_reject_cache L \<rparr>)"

text \<open>The kick flag of a relay that no worker has adopted yet is part of its relay object.\<close>

definition kick_role :: "role_id \<Rightarrow> 'ca server \<Rightarrow> 'ca server" where
  "kick_role i S =
     (case map_of (sv_roles S) i of
        Some r \<Rightarrow> S\<lparr> sv_roles := AList.update i (request_kick r) (sv_roles S) \<rparr>
      | None \<Rightarrow>
          (case map_of (w_relays (sv_world S)) i of None \<Rightarrow> S
           | Some obj \<Rightarrow> S\<lparr> sv_world := (sv_world S)\<lparr> w_relays := AList.update i (obj\<lparr> ro_kicked := True \<rparr>) (w_relays (sv_world S)) \<rparr> \<rparr>))"

text \<open>The incumbent of a stream that delivered media just now.\<close>

definition incumbent_active :: "time_ms \<Rightarrow> role_id \<Rightarrow> 'ca server \<Rightarrow> bool" where
  "incumbent_active now i S \<longleftrightarrow>
     (case map_of (sv_roles S) i of None \<Rightarrow> False
      | Some r \<Rightarrow> is_takeover_protected r \<and> has_recent_recv_data now ACTIVE_INCUMBENT_RECV_WINDOW_MS r)"

definition bind_publisher :: "string \<Rightarrow> CSLSListener \<Rightarrow> CSLSRole \<Rightarrow> 'ca role_world \<Rightarrow> CSLSRole \<times> 'ca role_world" where
  "bind_publisher key_stream_name L r W =
     (case role_set_map_data (Some key_stream_name) True (r\<lparr> rl_map_publisher := True \<rparr>) W of (r1, W1) \<Rightarrow>
        (r1\<lparr> rl_role_list := li_list_role L, rl_listen_port := li_port L \<rparr>, W1))"

definition finish_publisher_accept ::
  "listener_env \<Rightarrow> PendingPublisherConnection \<Rightarrow> CSLSListener \<Rightarrow> listener_world \<Rightarrow> (int \<times> listener_world) option" where
  "finish_publisher_accept E pending L X =
     (let i = pb_publisher pending; key = pb_key_stream_name pending; S = lw_server X in
      case get_publisher key (lw_pub X) of
        Some incumbent \<Rightarrow> do {
          let S1 = (if incumbent_active (le_now E) incumbent S then S else kick_role incumbent S);
          S2 \<leftarrow> discard_role (le_role E i) i S1;
          Some (SLS_ERROR, X\<lparr> lw_server := S2 \<rparr>)
        }
      | None \<Rightarrow> do {
          (u, S1) \<leftarrow> on_role i (\<lambda>r W. Some ((), bind_publisher key L r W)) S;
          case set_push_2_publisher key i (w_pub (sv_world S1)) of (ret, P) \<Rightarrow>
            if ret \<noteq> SLS_OK then do {
              S2 \<leftarrow> discard_role (le_role E i) i S1;
              Some (SLS_ERROR, X\<lparr> lw_server := S2 \<rparr>)
            }
            else do {
              S2 \<leftarrow> push_role L i (S1\<lparr> sv_world := (sv_world S1)\<lparr> w_pub := P \<rparr> \<rparr>);
              let X2 = X\<lparr> lw_server := S2 \<rparr>;
              if \<not> li_map_pusher L then Some (SLS_OK, X2)
              else do {
                (ret2, X3) \<leftarrow> start_relay E False (pb_app_uplive pending) (pb_stream_name pending) L X2;
                Some (SLS_OK, X3)
              }
            }
        })"

text \<open>The publisher's part of \<^verbatim>\<open>handler\<close>: after the first poll of the authorisation the publisher is admitted, ended or held.\<close>

definition settle_publisher ::
  "listener_env \<Rightarrow> PendingPublisherConnection \<Rightarrow> CSLSListener \<Rightarrow> listener_world \<Rightarrow> (CSLSListener \<times> listener_world) option" where
  "settle_publisher E pending L X =
     (let i = pb_publisher pending in do {
        (passed, S1) \<leftarrow> on_role i (check_http_passed (le_role E i)) (lw_server X);
        if passed = SLS_OK then map_option (\<lambda>(ret, X2). (L, X2)) (finish_publisher_accept E pending L (X\<lparr> lw_server := S1 \<rparr>))
        else do {
          r \<leftarrow> load_role i S1;
          if rl_state r = SLS_RS_INVALID then map_option (\<lambda>S2. (L, X\<lparr> lw_server := S2 \<rparr>)) (discard_role (le_role E i) i S1)
          else Some (L\<lparr> li_pending_publisher_connections := li_pending_publisher_connections L @ [pending] \<rparr>, X\<lparr> lw_server := S1 \<rparr>)
        }
      })"

text \<open>The role is made and its authorisation is dispatched.\<close>

definition dispatch_publisher ::
  "listener_env \<Rightarrow> CSLSSrt \<Rightarrow> conf_vars \<Rightarrow> string \<Rightarrow> string \<Rightarrow> int \<Rightarrow> CSLSListener \<Rightarrow> listener_world \<Rightarrow> (CSLSListener \<times> listener_world) option" where
  "dispatch_publisher E s ca app_uplive stream_name final_latency L X =
     (let i = w_next (lw_world X) in do {
        (ret, S1) \<leftarrow> on_role i (\<lambda>r W. Some (on_connect (le_role E i) r W)) (add_role (new_publisher E i s ca final_latency L) (lw_server X));
        if ret \<noteq> SLS_OK then map_option (\<lambda>S2. (L, X\<lparr> lw_server := S2 \<rparr>)) (discard_role (le_role E i) i S1)
        else settle_publisher E \<lparr> pb_publisher = i, pb_app_uplive = app_uplive, pb_stream_name = stream_name,
            pb_key_stream_name = stream_key_of app_uplive stream_name \<rparr> L (X\<lparr> lw_server := S1 \<rparr>)
      })"

definition publisher_accept ::
  "listener_env \<Rightarrow> CSLSSrt \<Rightarrow> string \<Rightarrow> string \<Rightarrow> int \<Rightarrow> CSLSListener \<Rightarrow> listener_world \<Rightarrow> (CSLSListener \<times> listener_world) option" where
  "publisher_accept E s app_uplive stream_name final_latency L X =
     (case get_ca app_uplive (lw_pub X) of
        None \<Rightarrow> Some (L, refuse s X)
      | Some ca \<Rightarrow>
          if acl_refuses (acl_publish (var_acl ''ip_actions'' ca)) (le_peer_raw E (s_fd s)) then Some (L, refuse s X)
          else if li_http_url_role L \<noteq> [] \<and> length (li_pending_publisher_connections L) \<ge> MAX_PENDING_PUBLISHER_CONNECTIONS
          then Some (L, refuse s X)
          else if li_http_url_role L \<noteq> [] \<and> stream_key_of app_uplive stream_name \<in> pb_key_stream_name ` set (li_pending_publisher_connections L)
          then Some (L, refuse s X)
          else dispatch_publisher E s ca app_uplive stream_name final_latency L X)"

section \<open>The handler\<close>

text \<open>The latency to use, \<^const>\<open>None\<close> when the connection is refused for it.\<close>

definition accept_latency :: "conf_vars \<Rightarrow> int \<times> int \<times> int \<Rightarrow> int option" where
  "accept_latency conf_server opt =
     (case opt of (ret, negotiated_latency, latency_len) \<Rightarrow>
        if ret \<noteq> 0 \<or> latency_len \<noteq> 4
        then Some (if var_int ''latency_min'' conf_server > 0 then var_int ''latency_min'' conf_server else 120)
        else if var_int ''latency_max'' conf_server > 0 \<and> negotiated_latency > var_int ''latency_max'' conf_server then None
        else Some negotiated_latency)"

text \<open>Host, app and stream of a parsed stream id, if all three are there and safe.\<close>

definition names_of_sid :: "(string \<rightharpoonup> string) \<Rightarrow> (string \<times> string \<times> string) option" where
  "names_of_sid kv = do { h \<leftarrow> kv ''h''; a \<leftarrow> kv ''sls_app''; r \<leftarrow> kv ''r''; Some (h, a, r) }"

definition safe_names :: "string \<times> string \<times> string \<Rightarrow> bool" where
  "safe_names n = (case n of (h, a, r) \<Rightarrow> sls_is_safe_name (Some h) \<and> sls_is_safe_name (Some a) \<and> sls_is_safe_name (Some r))"

definition accepted_names :: "(string \<rightharpoonup> string) \<Rightarrow> (string \<times> string \<times> string) option" where
  "accepted_names kv =
     (case names_of_sid kv of None \<Rightarrow> None
      | Some (h, a, r) \<Rightarrow> let n = (take 2047 h, take 2047 a, take 2047 r) in if safe_names n then Some n else None)"

definition connection_allowed :: "CSLSListener \<Rightarrow> bool \<Rightarrow> bool" where
  "connection_allowed L is_player_connection \<longleftrightarrow>
     li_is_legacy_listener L \<or> (li_is_publisher_listener L \<or> is_player_connection) \<and> \<not> (li_is_publisher_listener L \<and> is_player_connection)"

text \<open>The key of a player: the third part of the stream id, when the first two name a player domain and a player app.\<close>

definition requested_key :: "string \<Rightarrow> CSLSListener \<Rightarrow> string option" where
  "requested_key sid L =
     (case strtok_loop ''/'' sid of
        d # a # k # rest \<Rightarrow>
          if sls_trim d \<in> set (li_domain_players L) \<and> sls_trim a \<in> set (li_app_players L) \<and> ka_auth_url L \<noteq> []
          then Some (sls_trim k) else None
      | _ \<Rightarrow> None)"

text \<open>A key that is cached for a stream without a publisher.\<close>

definition cached_key_offline :: "steady \<Rightarrow> string \<Rightarrow> CSLSListener \<Rightarrow> listener_world \<Rightarrow> bool option" where
  "cached_key_offline now player_key L X =
     (case map_of (ka_cache L) player_key of
        None \<Rightarrow> Some False
      | Some e \<Rightarrow>
          if now < pk_expiry_time e \<and> pk_is_valid e then do {
            kv \<leftarrow> sls_parse_streamid (Some (take 1023 (pk_resolved_stream_id e)));
            Some (case names_of_sid kv of None \<Rightarrow> False
              | Some (h, a, r) \<Rightarrow>
                  let uplive = get_uplive (take 2047 (h @ ''/'' @ a)) (lw_pub X) in
                  uplive \<noteq> [] \<and> get_publisher (take 2047 (uplive @ ''/'' @ r)) (lw_pub X) = None \<and> \<not> li_map_puller L)
          }
          else Some False)"

definition hold_player ::
  "listener_env \<Rightarrow> CSLSSrt \<Rightarrow> string \<Rightarrow> string \<Rightarrow> string \<Rightarrow> int \<Rightarrow> CSLSListener \<Rightarrow> listener_world \<Rightarrow> CSLSListener \<times> listener_world" where
  "hold_player E s app_uplive player_key peer_name final_latency L X =
     (if length (li_pending_player_connections L) \<ge> MAX_PENDING_PLAYER_CONNECTIONS then (L, refuse s X)
      else (L\<lparr> li_pending_player_connections := li_pending_player_connections L @
          [\<lparr> pp_srt = s, pp_app_uplive = app_uplive, pp_player_key = player_key, pp_peer_name = peer_name, pp_final_latency = final_latency,
             pp_deadline = le_steady E + milliseconds (ka_auth_timeout L + 2000) \<rparr>] \<rparr>, X))"

text \<open>After the names are known: a player when the app is a player's app, else a publisher.\<close>

definition route_connection ::
  "listener_env \<Rightarrow> CSLSSrt \<Rightarrow> string \<Rightarrow> int \<Rightarrow> string \<Rightarrow> string \<Rightarrow> string \<Rightarrow> string \<Rightarrow> string option \<Rightarrow> CSLSListener \<Rightarrow> listener_world \<Rightarrow>
   (CSLSListener \<times> listener_world) option" where
  "route_connection E s peer_name final_latency sid stream_name key_app app_uplive player_key L X =
     (if app_uplive \<noteq> [] then finish_player_accept E s app_uplive stream_name sid player_key peer_name final_latency L X
      else publisher_accept E s key_app stream_name final_latency L X)"

text \<open>The part of \<^verbatim>\<open>handler\<close> for a player key.\<close>

definition key_accept ::
  "listener_env \<Rightarrow> CSLSSrt \<Rightarrow> string \<Rightarrow> int \<Rightarrow> string \<Rightarrow> string \<Rightarrow> CSLSListener \<Rightarrow> listener_world \<Rightarrow> (CSLSListener \<times> listener_world) option" where
  "key_accept E s peer_name final_latency app_uplive player_key L X = do {
     offline \<leftarrow> cached_key_offline (le_steady E) player_key L X;
     if offline then Some (L, refuse s X)
     else do {
       (ret, resolved, L1) \<leftarrow> validate_player_key (le_get_ok E) (le_steady E) (Some player_key) 2048 (Some peer_name) L;
       if ret = SLS_PENDING then Some (hold_player E s app_uplive player_key peer_name final_latency L1 X)
       else if ret \<noteq> SLS_OK then Some (L1, refuse s X)
       else do {
         let sid = take 1023 (case resolved of None \<Rightarrow> [] | Some t \<Rightarrow> t);
         kv \<leftarrow> sls_parse_streamid (Some sid);
         case accepted_names kv of
           None \<Rightarrow> Some (L1, refuse s X)
         | Some (host_name, app_name, stream_name) \<Rightarrow>
             (case snprintf_fits 2048 (host_name @ ''/'' @ app_name) of
                None \<Rightarrow> Some (L1, refuse s X)
              | Some key_app \<Rightarrow> route_connection E s peer_name final_latency sid stream_name key_app app_uplive (Some player_key) L1 X)
       }
     }
   }"

definition listener_handler :: "listener_env \<Rightarrow> CSLSListener \<Rightarrow> listener_world \<Rightarrow> (int \<times> CSLSListener \<times> listener_world) option" where
  "listener_handler E L X =
     (if le_accept E < 0 then Some (0, L, X)
      else let s = \<lparr> s_fd = le_accept E, s_eid = 0 \<rparr>; refused = Some (1, L, refuse s X) in
        case le_peer E of
          None \<Rightarrow> refused
        | Some (peer_name, peer_port) \<Rightarrow>
            if li_list_role L \<and> role_size (w_roles (lw_world X)) \<ge> int MAX_HANDOFF_BACKLOG then refused
            else do {
              conf_server \<leftarrow> li_conf L;
              case accept_latency (sc_vars conf_server) (le_latency E) of
                None \<Rightarrow> refused
              | Some final_latency \<Rightarrow>
                  (case le_streamid E of
                     None \<Rightarrow> refused
                   | Some sid \<Rightarrow>
                       if sid = [] then refused
                       else do {
                         kv \<leftarrow> sls_parse_streamid (Some sid);
                         case accepted_names kv of
                           None \<Rightarrow> refused
                         | Some (host_name, app_name, stream_name) \<Rightarrow>
                             let key_app = take 2047 (host_name @ ''/'' @ app_name);
                                 app_uplive = get_uplive key_app (lw_pub X) in
                             if \<not> connection_allowed L (app_uplive \<noteq> []) then refused
                             else map_option (Pair 1)
                               (case requested_key sid L of
                                  None \<Rightarrow> route_connection E s peer_name final_latency sid stream_name key_app app_uplive None L X
                                | Some player_key \<Rightarrow> key_accept E s peer_name final_latency app_uplive player_key L X)
                       })
            })"

section \<open>The tick\<close>

definition cleanupExpiredStreamOverrides :: "steady \<Rightarrow> CSLSListener \<Rightarrow> CSLSListener" where
  "cleanupExpiredStreamOverrides now_ts L =
     L\<lparr> li_stream_player_limit_map := filter (\<lambda>(k, e). \<not> sl_expiry_time e \<le> now_ts) (li_stream_player_limit_map L) \<rparr>"

text \<open>The publishers that stay held.\<close>

fun drive_publishers ::
  "listener_env \<Rightarrow> PendingPublisherConnection list \<Rightarrow> CSLSListener \<Rightarrow> listener_world \<Rightarrow> (PendingPublisherConnection list \<times> listener_world) option" where
  "drive_publishers E [] L X = Some ([], X)"
| "drive_publishers E (p # ps) L X =
     (let i = pb_publisher p in do {
        (passed, S1) \<leftarrow> on_role i (check_http_passed (le_role E i)) (lw_server X);
        if passed = SLS_OK then do {
          (ret, X2) \<leftarrow> finish_publisher_accept E p L (X\<lparr> lw_server := S1 \<rparr>);
          drive_publishers E ps L X2
        }
        else do {
          r \<leftarrow> load_role i S1;
          if rl_state r = SLS_RS_INVALID then do {
            S2 \<leftarrow> discard_role (le_role E i) i S1;
            drive_publishers E ps L (X\<lparr> lw_server := S2 \<rparr>)
          }
          else do {
            (kept, X3) \<leftarrow> drive_publishers E ps L (X\<lparr> lw_server := S1 \<rparr>);
            Some (p # kept, X3)
          }
        }
      })"

definition drive_pending_publisher_connections :: "listener_env \<Rightarrow> CSLSListener \<Rightarrow> listener_world \<Rightarrow> (CSLSListener \<times> listener_world) option" where
  "drive_pending_publisher_connections E L X = do {
     (kept, X1) \<leftarrow> drive_publishers E (li_pending_publisher_connections L) L X;
     Some (L\<lparr> li_pending_publisher_connections := kept \<rparr>, X1)
   }"

text \<open>A held player whose key was accepted.\<close>

definition finish_held_player ::
  "listener_env \<Rightarrow> PendingPlayerConnection \<Rightarrow> string \<Rightarrow> CSLSListener \<Rightarrow> listener_world \<Rightarrow> (CSLSListener \<times> listener_world) option" where
  "finish_held_player E p resolved L X = do {
     kv \<leftarrow> sls_parse_streamid (Some (take 1023 resolved));
     case names_of_sid kv of
       None \<Rightarrow> Some (L, refuse (pp_srt p) X)
     | Some (h, a, r) \<Rightarrow>
         if safe_names (h, a, r)
         then finish_player_accept E (pp_srt p) (pp_app_uplive p) r resolved (Some (pp_player_key p)) (pp_peer_name p) (pp_final_latency p) L X
         else Some (L, refuse (pp_srt p) X)
   }"

fun drive_players ::
  "listener_env \<Rightarrow> PendingPlayerConnection list \<Rightarrow> CSLSListener \<Rightarrow> listener_world \<Rightarrow>
   (PendingPlayerConnection list \<times> CSLSListener \<times> listener_world) option" where
  "drive_players E [] L X = Some ([], L, X)"
| "drive_players E (p # ps) L X =
     (let found = (case map_of (ka_cache L) (pp_player_key p) of None \<Rightarrow> None
        | Some e \<Rightarrow> if le_steady E < pk_expiry_time e then Some e else None) in
      case found of
        Some e \<Rightarrow>
          if pk_is_valid e then do {
            (L1, X1) \<leftarrow> finish_held_player E p (pk_resolved_stream_id e) L X;
            drive_players E ps L1 X1
          }
          else drive_players E ps L (refuse (pp_srt p) X)
      | None \<Rightarrow>
          if le_steady E \<ge> pp_deadline p then drive_players E ps L (refuse (pp_srt p) X)
          else do {
            (kept, L1, X1) \<leftarrow> drive_players E ps L X;
            Some (p # kept, L1, X1)
          })"

definition drive_pending_player_connections :: "listener_env \<Rightarrow> CSLSListener \<Rightarrow> listener_world \<Rightarrow> (CSLSListener \<times> listener_world) option" where
  "drive_pending_player_connections E L X = do {
     (kept, L1, X1) \<leftarrow> drive_players E (li_pending_player_connections L) L X;
     Some (L1\<lparr> li_pending_player_connections := kept \<rparr>, X1)
   }"

definition listener_tick :: "listener_env \<Rightarrow> CSLSListener \<Rightarrow> listener_world \<Rightarrow> (CSLSListener \<times> listener_world) option" where
  "listener_tick E L X =
     (if li_srt L = None \<or> li_state L = SLS_RS_INVALID then Some (L, X)
      else do {
        let L1 = sweep_player_key_cache (le_steady E) (cleanupExpiredStreamOverrides (le_steady E) L);
        let L2 = drain_player_key_validations (le_json E) (le_http E) (le_steady E) L1;
        (L3, X3) \<leftarrow> drive_pending_publisher_connections E L2 X;
        drive_pending_player_connections E L3 X3
      })"

section \<open>Teardown\<close>

fun uninit_publishers :: "listener_env \<Rightarrow> PendingPublisherConnection list \<Rightarrow> 'ca server \<Rightarrow> 'ca server option" where
  "uninit_publishers E [] S = Some S"
| "uninit_publishers E (p # ps) S = do {
     S1 \<leftarrow> discard_role (le_role E (pb_publisher p)) (pb_publisher p) S;
     uninit_publishers E ps S1
   }"

text \<open>\<^verbatim>\<open>CSLSRole::uninit\<close> of a listener closes the listening socket; its own event URL is empty.\<close>

definition listener_uninit :: "listener_env \<Rightarrow> CSLSListener \<Rightarrow> listener_world \<Rightarrow> (CSLSListener \<times> listener_world) option" where
  "listener_uninit E L X = do {
     S1 \<leftarrow> uninit_publishers E (li_pending_publisher_connections L) (lw_server X);
     let L1 = L\<lparr> li_pending_publisher_connections := [] \<rparr>;
     let X1 = X\<lparr> lw_server := S1 \<rparr>;
     if li_state L1 = SLS_RS_UNINIT then Some (L1, X1)
     else Some (case li_srt L1 of
         None \<Rightarrow> (L1\<lparr> li_state := SLS_RS_UNINIT \<rparr>, X1)
       | Some s \<Rightarrow> (L1\<lparr> li_state := SLS_RS_UNINIT, li_srt := None \<rparr>,
           X1\<lparr> lw_server := S1\<lparr> sv_world := role_calls (libsrt_remove_from_epoll s @ libsrt_close s) (sv_world S1) \<rparr> \<rparr>))
   }"

end
