(* ===== verification/Listener_Setup.thy ===== *)
theory Listener_Setup
  imports Listener
begin

text \<open>How a listener is made and configured: the constructor, the setters and \<^verbatim>\<open>start\<close> of \<^verbatim>\<open>src/core/SLSListenerCore.cpp\<close>, and
  \<^verbatim>\<open>src/core/SLSListenerConfig.cpp\<close>, which enters the apps of a server into the publisher table and the relay tables. What
  \<^verbatim>\<open>libsrt_setup\<close> and \<^verbatim>\<open>libsrt_listen\<close> return are arguments of \<open>listener_start\<close>.\<close>

section \<open>Construction\<close>

definition listener_new :: CSLSListener where
  "listener_new =
     \<lparr> ka_auth_url = [], ka_auth_timeout = 2000, ka_cache_duration = 60000, ka_rate_limit_requests = -1, ka_rate_limit_window = 60000,
       ka_max_length = 64, ka_min_length = 8, ka_regex = (8, 64), ka_cache = [], ka_last_cache_sweep = 0, ka_pending = [],
       ka_rate_limit_map = [], ka_last_rate_limit_cleanup = 0, ka_gets = [],
       li_conf = None, li_srt = None, li_state = SLS_RS_UNINIT, li_role_name = ''listener'', li_list_role = False,
       li_player_registry = False, li_map_puller = False, li_map_pusher = False, li_auth_reject_cache = False,
       li_is_publisher_listener = False, li_is_srtla_listener = False, li_is_legacy_listener = False, li_port_override = 0,
       li_port = 0, li_back_log = 1024, li_idle_streams_timeout_role = 0, li_player_idle_streams_timeout_role = 0,
       li_publisher_first_data_grace_role = 0, li_default_sid = [], li_http_url_role = [], li_domain_players = [],
       li_domain_publisher = [], li_app_players = [], li_pending_player_connections = [], li_pending_publisher_connections = [],
       li_stream_player_limit_map = [], li_latency = None, li_passphrase = None, li_peer_idle_timeout = None, li_callback = None \<rparr>"

definition listener_init :: "CSLSListener \<Rightarrow> CSLSListener" where
  "listener_init L = L\<lparr> li_state := SLS_RS_INITED \<rparr>"

definition listener_set_role_list :: "bool \<Rightarrow> CSLSListener \<Rightarrow> CSLSListener" where
  "listener_set_role_list p L = L\<lparr> li_list_role := p \<rparr>"

definition set_player_registry :: "bool \<Rightarrow> CSLSListener \<Rightarrow> CSLSListener" where
  "set_player_registry p L = L\<lparr> li_player_registry := p \<rparr>"

definition set_map_puller :: "bool \<Rightarrow> CSLSListener \<Rightarrow> CSLSListener" where
  "set_map_puller p L = L\<lparr> li_map_puller := p \<rparr>"

definition set_map_pusher :: "bool \<Rightarrow> CSLSListener \<Rightarrow> CSLSListener" where
  "set_map_pusher p L = L\<lparr> li_map_pusher := p \<rparr>"

definition set_listener_type :: "bool \<Rightarrow> CSLSListener \<Rightarrow> CSLSListener" where
  "set_listener_type is_publisher L =
     L\<lparr> li_is_publisher_listener := is_publisher, li_role_name := (if is_publisher then ''listener-publisher'' else ''listener-player'') \<rparr>"

definition set_srtla_mode :: "bool \<Rightarrow> CSLSListener \<Rightarrow> CSLSListener" where
  "set_srtla_mode is_srtla L =
     (let L1 = L\<lparr> li_is_srtla_listener := is_srtla \<rparr> in
      if is_srtla \<and> li_is_publisher_listener L1 then L1\<lparr> li_role_name := ''listener-publisher-srtla'' \<rparr> else L1)"

definition set_legacy_mode :: "bool \<Rightarrow> CSLSListener \<Rightarrow> CSLSListener" where
  "set_legacy_mode is_legacy L =
     (let L1 = L\<lparr> li_is_legacy_listener := is_legacy \<rparr> in
      if is_legacy then L1\<lparr> li_role_name := (if li_is_publisher_listener L1 then ''listener-legacy'' else ''listener-legacy-player'') \<rparr> else L1)"

definition set_port_override :: "int \<Rightarrow> CSLSListener \<Rightarrow> CSLSListener" where
  "set_port_override port L = L\<lparr> li_port_override := port \<rparr>"

section \<open>Configuration\<close>

fun app_handled :: "string \<Rightarrow> bool \<Rightarrow> bool \<Rightarrow> app_conf list \<Rightarrow> bool" where
  "app_handled app_name is_publisher_connection is_publisher_listener [] = False"
| "app_handled app_name is_publisher_connection is_publisher_listener (ca # cas) =
     (if is_publisher_connection \<and> app_name = var_text ''app_publisher'' (app_vars ca) then is_publisher_listener
      else if \<not> is_publisher_connection \<and> app_name = var_text ''app_player'' (app_vars ca) then \<not> is_publisher_listener
      else app_handled app_name is_publisher_connection is_publisher_listener cas)"

definition should_handle_app :: "string \<Rightarrow> bool \<Rightarrow> CSLSListener \<Rightarrow> bool" where
  "should_handle_app app_name is_publisher_connection L =
     (case li_conf L of None \<Rightarrow> True
      | Some conf_server \<Rightarrow>
          if sc_apps conf_server = [] then True
          else if li_is_legacy_listener L then True
          else app_handled app_name is_publisher_connection (li_is_publisher_listener L) (sc_apps conf_server))"

definition SLS_DEFAULT_PUBLISHER_FIRST_DATA_GRACE_MS :: int where
  "SLS_DEFAULT_PUBLISHER_FIRST_DATA_GRACE_MS = 3000"

text \<open>The scalar settings. The pattern of a key is \<^verbatim>\<open>{min,max}\<close> over the printable characters; \<^verbatim>\<open>std::regex\<close> refuses a negative bound and
  a range whose ends are in the wrong order.\<close>

definition key_pattern :: "int \<Rightarrow> int \<Rightarrow> nat \<times> nat" where
  "key_pattern min_length max_length =
     (if 0 \<le> min_length \<and> min_length \<le> max_length then (nat min_length, nat max_length) else (8, 64))"

definition conf_scalars :: "conf_vars \<Rightarrow> CSLSListener \<Rightarrow> CSLSListener" where
  "conf_scalars v L =
     (let idle = var_int ''idle_streams_timeout'' v; player_idle = var_int ''player_idle_streams_timeout'' v;
          grace = var_int ''publisher_first_data_grace'' v;
          min_len = var_int ''player_key_min_length'' v; max_len = var_int ''player_key_max_length'' v
      in L\<lparr> li_back_log := var_int ''backlog'' v,
            li_idle_streams_timeout_role := idle,
            li_player_idle_streams_timeout_role := (if player_idle \<noteq> 0 then player_idle else idle),
            li_publisher_first_data_grace_role :=
              (if grace = 0 then SLS_DEFAULT_PUBLISHER_FIRST_DATA_GRACE_MS else if grace < 0 then 0 else grace),
            li_http_url_role := take 2047 (var_text ''on_event_url'' v),
            ka_auth_url := take 2047 (var_text ''player_key_auth_url'' v),
            ka_auth_timeout := var_int ''player_key_auth_timeout'' v,
            ka_cache_duration := var_int ''player_key_cache_duration'' v,
            ka_rate_limit_requests := var_int ''player_key_rate_limit_requests'' v,
            ka_rate_limit_window := var_int ''player_key_rate_limit_window'' v,
            ka_max_length := max_len,
            ka_min_length := min_len,
            ka_regex := key_pattern min_len max_len,
            li_default_sid := take 1023 (var_text ''default_sid'' v) \<rparr>)"

text \<open>The player domains of an app.\<close>

fun map_domains :: "string list \<Rightarrow> string \<Rightarrow> string \<Rightarrow> 'ca CSLSMapPublisher \<Rightarrow> int \<times> 'ca CSLSMapPublisher" where
  "map_domains [] strLive strUplive P = (SLS_OK, P)"
| "map_domains (strLiveDomain # ds) strLive strUplive P =
     (let strTemp = strLiveDomain @ ''/'' @ strLive in
      if strUplive = strTemp then (SLS_ERROR, P)
      else case set_live_2_uplive strTemp strUplive P of (ret, P1) \<Rightarrow>
        if ret \<noteq> SLS_OK then
          (let existing_uplive = get_uplive strTemp P1 in
           if existing_uplive \<noteq> [] \<and> existing_uplive = strUplive then map_domains ds strLive strUplive P1 else (SLS_ERROR, P1))
        else map_domains ds strLive strUplive P1)"

text \<open>The relay blocks of an app; the result of \<^verbatim>\<open>add_relay_conf\<close> is only logged.\<close>

definition add_info :: "string \<Rightarrow> conf_vars \<Rightarrow> (string \<times> SLS_RELAY_INFO) list \<Rightarrow> (string \<times> SLS_RELAY_INFO) list" where
  "add_info strUplive cr infos = m_map_relay_info (snd (add_relay_conf strUplive (Some cr) \<lparr> m_map_relay_manager = [], m_map_relay_info = infos \<rparr>))"

fun map_relays :: "conf_vars list \<Rightarrow> string \<Rightarrow> listener_world \<Rightarrow> int \<times> listener_world" where
  "map_relays [] strUplive X = (SLS_OK, X)"
| "map_relays (cr # crs) strUplive X =
     (if var_text ''type'' cr = ''pull'' then map_relays crs strUplive (X\<lparr> lw_pull_info := add_info strUplive cr (lw_pull_info X) \<rparr>)
      else if var_text ''type'' cr = ''push'' then map_relays crs strUplive (X\<lparr> lw_push_info := add_info strUplive cr (lw_push_info X) \<rparr>)
      else (SLS_ERROR, X))"

definition put_pub :: "conf_vars CSLSMapPublisher \<Rightarrow> listener_world \<Rightarrow> listener_world" where
  "put_pub P X = X\<lparr> lw_server := (lw_server X)\<lparr> sv_world := (lw_world X)\<lparr> w_pub := P \<rparr> \<rparr> \<rparr>"

fun map_apps :: "string list \<Rightarrow> string \<Rightarrow> app_conf list \<Rightarrow> CSLSListener \<Rightarrow> listener_world \<Rightarrow> int \<times> CSLSListener \<times> listener_world" where
  "map_apps domain_players strUpliveDomain [] L X = (SLS_OK, L, X)"
| "map_apps domain_players strUpliveDomain (ca # cas) L X =
     (if var_text ''app_publisher'' (app_vars ca) = [] then (SLS_ERROR, L, X)
      else let strUplive = strUpliveDomain @ ''/'' @ var_text ''app_publisher'' (app_vars ca) in
        case set_conf strUplive (app_vars ca) (lw_pub X) of (ret, P1) \<Rightarrow>
          if ret \<noteq> SLS_OK \<and> get_ca strUplive P1 = None then (SLS_ERROR, L, put_pub P1 X)
          else if var_text ''app_player'' (app_vars ca) = [] then (SLS_ERROR, L, put_pub P1 X)
          else let strLive = var_text ''app_player'' (app_vars ca);
                   L1 = L\<lparr> li_app_players := li_app_players L @ [strLive] \<rparr>
            in case map_domains domain_players strLive strUplive P1 of (ret2, P2) \<Rightarrow>
              if ret2 \<noteq> SLS_OK then (SLS_ERROR, L1, put_pub P2 X)
              else case map_relays (app_relays ca) strUplive (put_pub P2 X) of (ret3, X3) \<Rightarrow>
                if ret3 \<noteq> SLS_OK then (SLS_ERROR, L1, X3) else map_apps domain_players strUpliveDomain cas L1 X3)"

definition init_conf_app :: "CSLSListener \<Rightarrow> listener_world \<Rightarrow> int \<times> CSLSListener \<times> listener_world" where
  "init_conf_app L X =
     (if \<not> li_map_puller L then (SLS_ERROR, L, X)
      else if \<not> li_map_pusher L then (SLS_ERROR, L, X)
      else case li_conf L of
        None \<Rightarrow> (SLS_ERROR, L, X)
      | Some conf_server \<Rightarrow>
          let v = sc_vars conf_server; L1 = conf_scalars v L;
              X1 = (if li_auth_reject_cache L1
                    then X\<lparr> lw_server := (lw_server X)\<lparr> sv_world := (lw_world X)\<lparr> rw_cache := set_ttl (var_int ''auth_reject_cache_ttl'' v) (rw_cache (lw_world X)) \<rparr> \<rparr> \<rparr>
                    else X);
              domain_players = sls_conf_string_split (var_text ''domain_player'' v) '' '';
              strUpliveDomain = var_text ''domain_publisher'' v
          in if domain_players = [] then (SLS_ERROR, L1, X1)
             else if strUpliveDomain = [] then (SLS_ERROR, L1, X1)
             else let L2 = L1\<lparr> li_domain_players := domain_players, li_domain_publisher := strUpliveDomain \<rparr> in
               if sc_apps conf_server = [] then (SLS_ERROR, L2, X1)
               else map_apps domain_players strUpliveDomain (sc_apps conf_server) L2 X1)"

section \<open>Start\<close>

text \<open>\<open>setup port srtla\<close> is what \<^verbatim>\<open>libsrt_setup\<close> returns with the socket it opened, \<open>listening\<close> what \<^verbatim>\<open>libsrt_listen\<close> returns. The second
  component says whether the listener was put on the hand-off list. The last part of \<^verbatim>\<open>start\<close> opens the socket.\<close>

definition listener_listen ::
  "(int \<Rightarrow> bool \<Rightarrow> int \<times> int) \<Rightarrow> int \<Rightarrow> CSLSListener \<Rightarrow> listener_world \<Rightarrow> int \<times> bool \<times> CSLSListener \<times> listener_world" where
  "listener_listen setup listening L X =
     (case setup (li_port L) (li_is_srtla_listener L) of (ret, fd) \<Rightarrow>
        if ret \<noteq> SLS_OK then (ret, False, L, X)
        else let L1 = L\<lparr> li_srt := Some \<lparr> s_fd = fd, s_eid = 0 \<rparr> \<rparr> in
          if listening \<noteq> SLS_OK then (listening, False, L1, X)
          else let gate = (if li_is_publisher_listener L1 then Publisher_gate (li_auth_reject_cache L1) else Player_gate);
                   L2 = L1\<lparr> li_callback := Some gate \<rparr>
            in (SLS_OK, li_list_role L2, L2, X))"

definition listener_start ::
  "(int \<Rightarrow> bool \<Rightarrow> int \<times> int) \<Rightarrow> int \<Rightarrow> CSLSListener \<Rightarrow> listener_world \<Rightarrow> int \<times> bool \<times> CSLSListener \<times> listener_world" where
  "listener_start setup listening L X =
     (case li_conf L of
        None \<Rightarrow> (SLS_ERROR, False, L, X)
      | Some conf_server \<Rightarrow>
          (case init_conf_app L X of (ret, L0, X1) \<Rightarrow>
             if ret \<noteq> SLS_OK then (SLS_ERROR, False, L0, X1)
             else let v = sc_vars conf_server; pass = var_text ''srt_passphrase'' v; pbkeylen = var_int ''srt_pbkeylen'' v;
                      L1 = L0\<lparr> li_srt := Some (case li_srt L0 of None \<Rightarrow> \<lparr> s_fd = 0, s_eid = 0 \<rparr> | Some s \<Rightarrow> s),
                        li_latency := (if var_int ''latency_min'' v > 0 then Some (var_int ''latency_min'' v) else li_latency L0),
                        li_port := (if li_port_override L0 > 0 then li_port_override L0 else var_int ''listen'' v) \<rparr>
               in if li_port L1 \<le> 0 then (SLS_ERROR, False, L1, X1)
                  else if pbkeylen \<noteq> 0 \<and> pbkeylen \<noteq> 16 \<and> pbkeylen \<noteq> 24 \<and> pbkeylen \<noteq> 32 then (SLS_ERROR, False, L1, X1)
                  else if pass \<noteq> [] \<and> (length pass < 10 \<or> length pass > 79) then (SLS_ERROR, False, L1, X1)
                  else let L2 = L1\<lparr> li_passphrase := (if pass \<noteq> [] then Some (pass, pbkeylen) else li_passphrase L1),
                         li_peer_idle_timeout := (if var_int ''peer_idle_timeout'' v > 0 then Some (var_int ''peer_idle_timeout'' v) else li_peer_idle_timeout L1) \<rparr>
                    in listener_listen setup listening L2 X1))"

end
