(* ===== verification/Listener_Frame.thy ===== *)
theory Listener_Frame
  imports Listener_Setup Group_Correct Player_Key_Correct
begin

text \<open>What the calls of a listener leave alone. The relay managers it starts only add relays that did not exist before.\<close>

section \<open>Relations over relay managers\<close>

text \<open>A relation that every connect keeps is kept by every start of a manager.\<close>

locale relay_runs =
  fixes R :: "'ca relay_world \<Rightarrow> 'ca relay_world \<Rightarrow> bool"
  assumes run_refl: "R W W" and run_trans: "R W V \<Longrightarrow> R V U \<Longrightarrow> R W U"
    and run_push: "push_connect env root url va M W = Some (ret, M', W') \<Longrightarrow> R W W'"
    and run_pull: "pull_connect now env root url va P W = Some (ret, P', W') \<Longrightarrow> R W W'"
begin

lemma all_loop:
  "connect_all_loop env root now ups vetted ret all_ret M W = Some (r, M', W') \<Longrightarrow> R W W'"
proof (induction ups arbitrary: vetted ret all_ret M W)
  case (Cons up ups)
  show ?case
  proof (cases "snprintf_fits 1024 (push_url up (m_stream_name M))")
    case None
    thus ?thesis using Cons by simp
  next
    case (Some szURL)
    then obtain ret1 M1 W1 where c: "push_connect env root szURL (case vetted of [] \<Rightarrow> None | a # _ \<Rightarrow> Some a) M W = Some (ret1, M1, W1)"
      using Cons.prems by (auto split: option.splits)
    have "R W1 W'" using Cons.prems Some c by (intro Cons.IH) (auto split: if_splits)
    thus ?thesis using run_push [OF c] run_trans by blast
  qed
qed (simp add: run_refl)

lemma loop_from:
  assumes "connect_loop_from now env root ups index M W = Some (ret, M', W')"
  shows "R W W'"
proof -
  have "R W (snd (snd (ret, M', W')))"
  proof (rule connect_loop_from.raw_induct [where P = "\<lambda>now env root ups index M W y. R W (snd (snd y))", OF _ assms])
    fix f :: "time_ms \<Rightarrow> (role_id \<Rightarrow> srt_env) \<Rightarrow> conf_vars option \<Rightarrow> string list \<Rightarrow> int \<Rightarrow> puller_manager \<Rightarrow> 'ca relay_world \<Rightarrow>
        (int \<times> puller_manager \<times> 'ca relay_world) option"
    fix now env root ups index0 M W y
    assume ih: "\<And>now env root ups index M W y. f now env root ups index M W = Some y \<Longrightarrow> R W (snd (snd y))"
    assume e: "(let index = if int (length ups) \<le> index0 then 0 else index0
        in if index < 0 \<or> int (length ups) \<le> index then None
           else case snprintf_fits 2048 (upstream_url (ups ! nat index) (m_stream_name M)) of None \<Rightarrow> Some (SLS_ERROR, M, W)
             | Some szURL \<Rightarrow> pull_connect now env root szURL None M W \<bind>
                 (\<lambda>(ret, M1, W1). if ret = SLS_OK \<or> index = m_cur_loop_index M then Some (ret, M1\<lparr> m_cur_loop_index := index \<rparr>, W1)
                    else f now env root ups (index + 1) M1 W1)) = Some y"
    define index where "index = (if int (length ups) \<le> index0 then 0 else index0)"
    note e = e [folded index_def, unfolded Let_def]
    show "R W (snd (snd y))"
    proof (cases "snprintf_fits 2048 (upstream_url (ups ! nat index) (m_stream_name M))")
      case None
      thus ?thesis using e run_refl by (auto split: if_splits)
    next
      case (Some szURL)
      then obtain ret M1 W1 where c: "pull_connect now env root szURL None M W = Some (ret, M1, W1)"
        using e by (auto simp: index_def [symmetric] split: if_splits bind_splits)
      have "y = (ret, M1\<lparr> m_cur_loop_index := index \<rparr>, W1) \<or> f now env root ups (index + 1) M1 W1 = Some y"
        using e Some c by (auto split: if_splits)
      thus ?thesis
      proof
        assume "f now env root ups (index + 1) M1 W1 = Some y"
        thus ?thesis using run_trans [OF run_pull [OF c] ih] by blast
      qed (use run_pull [OF c] in simp)
    qed
  qed
  thus ?thesis by simp
qed

lemma start:
  assumes "start_manager E m W = Some (ret, m', W')"
  shows "R W W'"
proof (cases m)
  case (Pusher p)
  then obtain q where "pusher_start (le_relay E) (le_root E) (le_now E) p W = Some (ret, q, W')" using assms by auto
  thus ?thesis using all_loop run_push run_refl
    by (auto simp: pusher_start_def connect_all_def connect_hash_def Let_def split: option.splits if_splits SLS_PULL_MODE.splits)
next
  case (Puller p)
  then obtain q where "puller_start (le_now E) (le_relay E) (le_root E) p W = Some (ret, q, W')" using assms by auto
  thus ?thesis using loop_from run_pull run_refl
    by (auto simp: puller_start_def connect_loop_def connect_hash_def Let_def split: option.splits if_splits SLS_PULL_MODE.splits)
qed

end

section \<open>Numbers\<close>

text \<open>Every number in use was given out.\<close>

definition relay_wf :: "('ca, 'z) relay_world_scheme \<Rightarrow> bool" where
  "relay_wf W \<longleftrightarrow> publisher_ok (w_pub W) \<and> (\<forall>k j. get_publisher k (w_pub W) = Some j \<longrightarrow> j < w_next W) \<and>
     (\<forall>j. map_of (w_relays W) j \<noteq> None \<longrightarrow> j < w_next W) \<and> (\<forall>j \<in> set (w_roles W). j < w_next W)"

text \<open>Nothing is taken away, and what is new has a new number.\<close>

definition relay_grows :: "('ca, 'z) relay_world_scheme \<Rightarrow> ('ca, 'z) relay_world_scheme \<Rightarrow> bool" where
  "relay_grows W W' \<longleftrightarrow> (relay_wf W \<longrightarrow> relay_wf W' \<and> hands_off W W' \<and>
     (\<forall>k j. get_publisher k (w_pub W) = Some j \<longrightarrow> get_publisher k (w_pub W') = Some j) \<and>
     (\<forall>k j. get_publisher k (w_pub W') = Some j \<longrightarrow> get_publisher k (w_pub W) = Some j \<or> w_next W \<le> j \<and> map_of (w_relays W') j \<noteq> None) \<and>
     (\<forall>j < w_next W. map_of (w_relays W') j = map_of (w_relays W) j) \<and>
     m_map_uplive_2_conf (w_pub W') = m_map_uplive_2_conf (w_pub W) \<and> m_map_live_2_uplive (w_pub W') = m_map_live_2_uplive (w_pub W))"

lemma relay_grows_refl: "relay_grows W W"
  by (simp add: relay_grows_def)

lemma hands_off_next: "hands_off W W' \<Longrightarrow> w_next W \<le> w_next W'"
  by (simp add: list_grows_def)

lemma relay_grows_trans:
  assumes "relay_grows W V" "relay_grows V U"
  shows "relay_grows W U"
proof -
  have "relay_grows W U" if w: "relay_wf W"
  proof -
    have 1: "relay_wf V" "hands_off W V" using assms(1) w by (auto simp: relay_grows_def)
    have 2: "relay_wf U" "hands_off V U" using assms(2) 1 by (auto simp: relay_grows_def)
    note n = hands_off_next [OF 1(2)]
    have "map_of (w_relays U) j = map_of (w_relays W) j" if "j < w_next W" for j
      using assms w 1(1) that n unfolding relay_grows_def by (metis less_le_trans)
    moreover have "get_publisher k (w_pub W) = Some j \<or> w_next W \<le> j \<and> map_of (w_relays U) j \<noteq> None"
      if u: "get_publisher k (w_pub U) = Some j" for k j
    proof (cases "get_publisher k (w_pub V) = Some j")
      case True
      hence v: "get_publisher k (w_pub W) = Some j \<or> w_next W \<le> j \<and> map_of (w_relays V) j \<noteq> None"
        using assms(1) w unfolding relay_grows_def by metis
      have "j < w_next V" using 1(1) True by (auto simp: relay_wf_def)
      hence "map_of (w_relays U) j = map_of (w_relays V) j" using assms(2) 1(1) unfolding relay_grows_def by metis
      thus ?thesis using v by auto
    next
      case False
      thus ?thesis using assms(2) 1(1) u n unfolding relay_grows_def by (metis le_trans)
    qed
    moreover have "get_publisher k (w_pub U) = Some j" if "get_publisher k (w_pub W) = Some j" for k j
      using assms w 1(1) that unfolding relay_grows_def by metis
    ultimately show ?thesis using assms w 1 2 list_grows_trans [OF 1(2) 2(2)] unfolding relay_grows_def by metis
  qed
  thus ?thesis by (auto simp: relay_grows_def)
qed

text \<open>What \<^verbatim>\<open>set_relay_param\<close> does to the publisher table: a claim for the relay, or nothing.\<close>

definition claimed :: "role_id \<Rightarrow> 'ca CSLSMapPublisher \<Rightarrow> 'ca CSLSMapPublisher \<Rightarrow> bool" where
  "claimed i P P' \<longleftrightarrow> (\<exists>k. get_publisher k P = None \<and> P' = P\<lparr> m_map_push_2_publisher := std_put k i (m_map_push_2_publisher P) \<rparr>)"

definition param_pub ::
  "(role_id \<Rightarrow> 'z CSLSRelayManager_scheme \<Rightarrow> 'ca relay_world \<Rightarrow> (int \<times> 'z CSLSRelayManager_scheme \<times> 'ca relay_world) option) \<Rightarrow> bool" where
  "param_pub param \<longleftrightarrow> (\<forall>i M W ret M' W'. param i M W = Some (ret, M', W') \<longrightarrow> i \<notin> snd ` set (m_map_push_2_publisher (w_pub W)) \<longrightarrow>
     (w_pub W' = w_pub W \<or> ret = SLS_OK \<and> claimed i (w_pub W) (w_pub W')) \<and>
     (\<forall>j. j \<noteq> i \<longrightarrow> map_of (w_relays W') j = map_of (w_relays W) j) \<and>
     (map_of (w_relays W) i \<noteq> None \<longrightarrow> map_of (w_relays W') i \<noteq> None) \<and> w_roles W' = (if ret = SLS_OK then w_roles W @ [i] else w_roles W))"

lemma pusher_param_pub: "param_pub pusher_set_relay_param"
  unfolding param_pub_def
  by (auto simp: pusher_set_relay_param_def update_relay_def role_push_def Let_def map_of_update sls_codes
      split: option.splits if_splits)

lemma puller_param_pub: "param_pub (puller_set_relay_param now)"
  unfolding param_pub_def
proof (intro allI impI)
  fix i M and W :: "'a relay_world" and ret M' W'
  assume p: "puller_set_relay_param now i M W = Some (ret, M', W')" and i: "i \<notin> snd ` set (m_map_push_2_publisher (w_pub W))"
  have u: "map_of (w_relays (update_relay i f V)) j = map_of (w_relays V) j" if "j \<noteq> i" for f j and V :: "'a relay_world"
    using that by (auto simp: update_relay_def map_of_update split: option.splits)
  have ui: "map_of (w_relays (update_relay i f V)) i \<noteq> None" if "map_of (w_relays V) i \<noteq> None" for f and V :: "'a relay_world"
    using that by (auto simp: update_relay_def map_of_update split: option.splits)
  have uw: "w_pub (update_relay i f V) = w_pub V" "w_roles (update_relay i f V) = w_roles V" for f and V :: "'a relay_world"
    by (auto simp: update_relay_def split: option.splits)
  have e: "(SLS_ERROR = SLS_OK) = False" by (simp add: sls_codes)
  obtain r1 P1 where s: "set_push_2_publisher (stream_key_text M) i (w_pub W) = (r1, P1)" by fastforce
  have undo: "snd (publisher_remove i P1) = w_pub W" if "r1 = SLS_OK"
    using s that i erase_put [of "m_map_push_2_publisher (w_pub W)" "stream_key_text M" i]
    by (auto simp: set_push_2_publisher_def publisher_remove_def e split: option.splits)
  have fwd: "claimed i (w_pub W) P1" if "r1 = SLS_OK"
    using s that by (auto simp: claimed_def set_push_2_publisher_def get_publisher_def e split: option.splits)
  have same: "P1 = w_pub W" if "r1 \<noteq> SLS_OK" using s that by (auto simp: set_push_2_publisher_def split: option.splits)
  show "(w_pub W' = w_pub W \<or> ret = SLS_OK \<and> claimed i (w_pub W) (w_pub W')) \<and>
     (\<forall>j. j \<noteq> i \<longrightarrow> map_of (w_relays W') j = map_of (w_relays W) j) \<and>
     (map_of (w_relays W) i \<noteq> None \<longrightarrow> map_of (w_relays W') i \<noteq> None) \<and> w_roles W' = (if ret = SLS_OK then w_roles W @ [i] else w_roles W)"
    using p s undo fwd same u ui uw
    by (auto simp: puller_set_relay_param_def snprintf_fits_def role_push_def e split: if_splits bind_splits option.splits)
qed

lemma connect_grows:
  assumes "param_pub param" "param_ok param" "connect param env root url va M W = Some (ret, M', W')"
  shows "relay_grows W W'"
proof (cases "url = [] \<or> \<not> relay_wf W")
  case True
  thus ?thesis using assms(3) relay_grows_refl by (auto simp: connect_def relay_grows_def)
next
  case False
  hence wf: "relay_wf W" and url: "url \<noteq> []" by auto
  let ?i = "w_next W" and ?r0 = "case va of None \<Rightarrow> relay_new | Some a \<Rightarrow> set_vetted_addr a relay_new"
  obtain q r cs where o: "relay_open (env ?i) root url ?r0 = Inr (q, r, cs)"
    using assms(3) url by (auto simp: connect_def Let_def split: sum.splits)
  have h: "hands_off W W'" by (rule connect_hands_off [OF assms(2,3)])
  show ?thesis
  proof (cases "q = SLS_OK")
    case False
    hence W': "W' = relay_uninit ?i r (W\<lparr> w_next := Suc ?i, w_calls := w_calls W @ cs \<rparr>)"
      using assms(3) o url by (auto simp: connect_def Let_def)
    have "relay_wf W'" using wf by (auto simp: relay_wf_def W' relay_uninit_def delete_conv' less_SucI)
    thus ?thesis using h by (auto simp: relay_grows_def W' relay_uninit_def delete_conv')
  next
    case True
    obtain V p M2 W2 where p: "param ?i M V = Some (p, M2, W2)" "w_next V = Suc ?i" "w_roles V = w_roles W" "w_pub V = w_pub W"
        "\<forall>j. j \<noteq> ?i \<longrightarrow> map_of (w_relays V) j = map_of (w_relays W) j" "map_of (w_relays V) ?i \<noteq> None" "W' = (if p \<noteq> SLS_OK then relay_uninit ?i r W2 else W2)"
      using assms(3) o url True by (auto simp: connect_def Let_def bind_eq_Some_conv map_of_update)
    have "?i \<notin> snd ` set (m_map_push_2_publisher (w_pub V))"
    proof
      assume "?i \<in> snd ` set (m_map_push_2_publisher (w_pub V))"
      then obtain k where "(k, ?i) \<in> set (m_map_push_2_publisher (w_pub W))" using p(4) by auto
      hence "get_publisher k (w_pub W) = Some ?i" using wf
        by (simp add: relay_wf_def publisher_ok_def get_publisher_def ascending_distinct map_of_is_SomeI)
      thus False using wf by (auto simp: relay_wf_def)
    qed
    from assms(1) [unfolded param_pub_def, rule_format, OF p(1) this] p(4)
    have pub: "w_pub W2 = w_pub W \<or> p = SLS_OK \<and> claimed ?i (w_pub W) (w_pub W2)" and own: "map_of (w_relays W2) ?i \<noteq> None"
      and rel: "\<And>j. j \<noteq> ?i \<Longrightarrow> map_of (w_relays W2) j = map_of (w_relays W) j" using p(5,6) by auto
    have n: "w_next W2 = Suc ?i" using assms(2) p(1,2) unfolding param_ok_def by metis
    have w': "w_pub W' = w_pub W2" "w_next W' = Suc ?i" "\<And>j. j \<noteq> ?i \<Longrightarrow> map_of (w_relays W') j = map_of (w_relays W) j"
      using p(7) n rel by (auto simp: relay_uninit_def delete_conv')
    have own': "map_of (w_relays W') ?i \<noteq> None" if "p = SLS_OK" using p(7) own that by simp
    have rl: "j < w_next W'" if "map_of (w_relays W') j \<noteq> None" for j
      using that w'(2) w'(3) [of j] wf by (cases "j = ?i") (auto simp: relay_wf_def less_SucI)
    have lr: "j < w_next W'" if "j \<in> set (w_roles W')" for j
      using that h wf w'(2) by (auto simp: list_grows_def relay_wf_def less_SucI)
    from pub have pb: "publisher_ok (w_pub W') \<and> (\<forall>k j. get_publisher k (w_pub W') = Some j \<longrightarrow> get_publisher k (w_pub W) = Some j \<or> j = ?i \<and> map_of (w_relays W') ?i \<noteq> None) \<and>
        (\<forall>k j. get_publisher k (w_pub W) = Some j \<longrightarrow> get_publisher k (w_pub W') = Some j) \<and>
        m_map_uplive_2_conf (w_pub W') = m_map_uplive_2_conf (w_pub W) \<and> m_map_live_2_uplive (w_pub W') = m_map_live_2_uplive (w_pub W)"
      using wf own' by (auto simp: w'(1) claimed_def relay_wf_def publisher_ok_def get_publisher_def std_put_ascending std_put_lookup split: if_splits)
    hence "relay_wf W'" using wf rl lr w'(2) unfolding relay_wf_def by (metis less_SucI lessI)
    thus ?thesis using pb h w'(3) unfolding relay_grows_def by (metis less_irrefl order_refl)
  qed
qed

interpretation fresh_relays: relay_runs relay_grows
  by unfold_locales (auto intro: relay_grows_refl relay_grows_trans
      connect_grows [OF pusher_param_pub params_ok(1)] connect_grows [OF puller_param_pub params_ok(2)])

end
