(* ===== verification/Listener_Keeps.thy ===== *)
theory Listener_Keeps
  imports Listener_Frame
begin

text \<open>What a call of a listener keeps of the server: the roles that are not its own, the claims in the publisher table, and
  the count of every socket.\<close>

section \<open>Other roles\<close>

definition server_wf :: "'ca server \<Rightarrow> bool" where
  "server_wf S \<longleftrightarrow> relay_wf (sv_world S) \<and> (\<forall>j. map_of (sv_roles S) j \<noteq> None \<longrightarrow> j < w_next (sv_world S))"

text \<open>A role that is not the call's own stays as it is; only an incumbent that is not active may be kicked.\<close>

definition role_kept :: "time_ms \<Rightarrow> role_id \<Rightarrow> 'ca server \<Rightarrow> 'ca server \<Rightarrow> bool" where
  "role_kept now j S S' \<longleftrightarrow> map_of (sv_roles S') j = map_of (sv_roles S) j \<or>
     (\<exists>k. get_publisher k (w_pub (sv_world S)) = Some j) \<and> \<not> incumbent_active now j S \<and>
     map_of (sv_roles S') j = map_option request_kick (map_of (sv_roles S) j)"

text \<open>\<open>P\<close> are the roles the call works on, \<open>A\<close> holds of those it may publish.\<close>

definition keeps :: "time_ms \<Rightarrow> (role_id \<Rightarrow> bool) \<Rightarrow> role_id set \<Rightarrow> 'ca server \<Rightarrow> 'ca server \<Rightarrow> bool" where
  "keeps now A P S S' \<longleftrightarrow> (server_wf S \<longrightarrow> server_wf S' \<and> w_next (sv_world S) \<le> w_next (sv_world S') \<and>
     (\<forall>j < w_next (sv_world S). j \<notin> P \<longrightarrow> role_kept now j S S') \<and>
     (\<forall>j < w_next (sv_world S). map_of (w_relays (sv_world S')) j = None \<longleftrightarrow> map_of (w_relays (sv_world S)) j = None) \<and>
     (\<forall>k j. get_publisher k (w_pub (sv_world S)) = Some j \<longrightarrow> get_publisher k (w_pub (sv_world S')) = Some j) \<and>
     (\<forall>k j. get_publisher k (w_pub (sv_world S')) = Some j \<longrightarrow> get_publisher k (w_pub (sv_world S)) = Some j \<or>
        (j \<in> P \<or> w_next (sv_world S) \<le> j) \<and> (map_of (w_relays (sv_world S')) j \<noteq> None \<or> A j)) \<and>
     (\<exists>new. w_roles (sv_world S') = w_roles (sv_world S) @ new \<and> set new \<subseteq> P \<union> {w_next (sv_world S)..}) \<and>
     m_map_uplive_2_conf (w_pub (sv_world S')) = m_map_uplive_2_conf (w_pub (sv_world S)) \<and>
     m_map_live_2_uplive (w_pub (sv_world S')) = m_map_live_2_uplive (w_pub (sv_world S)))"

lemma keepsD:
  assumes "keeps now A P S S'" "server_wf S"
  shows "server_wf S'" "w_next (sv_world S) \<le> w_next (sv_world S')" "j < w_next (sv_world S) \<Longrightarrow> j \<notin> P \<Longrightarrow> role_kept now j S S'"
    "j < w_next (sv_world S) \<Longrightarrow> map_of (w_relays (sv_world S')) j = None \<longleftrightarrow> map_of (w_relays (sv_world S)) j = None"
    "get_publisher k (w_pub (sv_world S)) = Some j \<Longrightarrow> get_publisher k (w_pub (sv_world S')) = Some j"
    "get_publisher k (w_pub (sv_world S')) = Some j \<Longrightarrow> get_publisher k (w_pub (sv_world S)) = Some j \<or>
        (j \<in> P \<or> w_next (sv_world S) \<le> j) \<and> (map_of (w_relays (sv_world S')) j \<noteq> None \<or> A j)"
    "\<exists>new. w_roles (sv_world S') = w_roles (sv_world S) @ new \<and> set new \<subseteq> P \<union> {w_next (sv_world S)..}"
    "m_map_uplive_2_conf (w_pub (sv_world S')) = m_map_uplive_2_conf (w_pub (sv_world S))"
    "m_map_live_2_uplive (w_pub (sv_world S')) = m_map_live_2_uplive (w_pub (sv_world S))"
  using assms unfolding keeps_def by blast+

lemma keepsI:
  assumes "server_wf S \<Longrightarrow> server_wf S'" "server_wf S \<Longrightarrow> w_next (sv_world S) \<le> w_next (sv_world S')"
    "\<And>j. server_wf S \<Longrightarrow> j < w_next (sv_world S) \<Longrightarrow> j \<notin> P \<Longrightarrow> role_kept now j S S'"
    "\<And>j. server_wf S \<Longrightarrow> j < w_next (sv_world S) \<Longrightarrow> map_of (w_relays (sv_world S')) j = None \<longleftrightarrow> map_of (w_relays (sv_world S)) j = None"
    "\<And>k j. server_wf S \<Longrightarrow> get_publisher k (w_pub (sv_world S)) = Some j \<Longrightarrow> get_publisher k (w_pub (sv_world S')) = Some j"
    "\<And>k j. server_wf S \<Longrightarrow> get_publisher k (w_pub (sv_world S')) = Some j \<Longrightarrow> get_publisher k (w_pub (sv_world S)) = Some j \<or>
        (j \<in> P \<or> w_next (sv_world S) \<le> j) \<and> (map_of (w_relays (sv_world S')) j \<noteq> None \<or> A j)"
    "server_wf S \<Longrightarrow> \<exists>new. w_roles (sv_world S') = w_roles (sv_world S) @ new \<and> set new \<subseteq> P \<union> {w_next (sv_world S)..}"
    "server_wf S \<Longrightarrow> m_map_uplive_2_conf (w_pub (sv_world S')) = m_map_uplive_2_conf (w_pub (sv_world S))"
    "server_wf S \<Longrightarrow> m_map_live_2_uplive (w_pub (sv_world S')) = m_map_live_2_uplive (w_pub (sv_world S))"
  shows "keeps now A P S S'"
  using assms unfolding keeps_def by blast

lemma kick_twice: "map_option request_kick (map_option request_kick x) = map_option request_kick x"
  by (cases x) (simp_all add: request_kick_def)

lemma active_kick: "map_of (sv_roles S') j = map_option request_kick (map_of (sv_roles S) j) \<Longrightarrow> incumbent_active now j S' = incumbent_active now j S"
  by (cases "map_of (sv_roles S) j") (simp_all add: incumbent_active_def is_takeover_protected_def has_recent_recv_data_def request_kick_def)

lemma keeps_refl: "keeps now A P S S"
  by (rule keepsI) (auto simp: role_kept_def)

lemma keeps_trans:
  assumes k: "keeps now A P S T" "keeps now A Q T U" and q: "\<And>j. j \<in> Q \<Longrightarrow> j \<in> P \<or> w_next (sv_world S) \<le> j"
  shows "keeps now A P S U"
proof (rule keepsI)
  assume w: "server_wf S"
  note d = keepsD [OF k(1) w] and e = keepsD [OF k(2) keepsD(1) [OF k(1) w]]
  show "server_wf U" "w_next (sv_world S) \<le> w_next (sv_world U)" using d(2) e(1,2) by auto
  show "m_map_uplive_2_conf (w_pub (sv_world U)) = m_map_uplive_2_conf (w_pub (sv_world S))"
    "m_map_live_2_uplive (w_pub (sv_world U)) = m_map_live_2_uplive (w_pub (sv_world S))" using d(8,9) e(8,9) by simp_all
  obtain x y where "w_roles (sv_world U) = w_roles (sv_world S) @ x @ y" "set x \<subseteq> P \<union> {w_next (sv_world S)..}" "set y \<subseteq> Q \<union> {w_next (sv_world T)..}"
    using d(7) e(7) by auto
  moreover have "Q \<union> {w_next (sv_world T)..} \<subseteq> P \<union> {w_next (sv_world S)..}" using q d(2) by auto
  ultimately show "\<exists>new. w_roles (sv_world U) = w_roles (sv_world S) @ new \<and> set new \<subseteq> P \<union> {w_next (sv_world S)..}"
    by (intro exI [of _ "x @ y"]) auto
  show "map_of (w_relays (sv_world U)) j = None \<longleftrightarrow> map_of (w_relays (sv_world S)) j = None" if "j < w_next (sv_world S)" for j
    using that d(2,4) e(4) by auto
  show "get_publisher k (w_pub (sv_world U)) = Some j" if "get_publisher k (w_pub (sv_world S)) = Some j" for k j
    using that d(5) e(5) by blast
  show "get_publisher k (w_pub (sv_world S)) = Some j \<or> (j \<in> P \<or> w_next (sv_world S) \<le> j) \<and> (map_of (w_relays (sv_world U)) j \<noteq> None \<or> A j)"
    if u: "get_publisher k (w_pub (sv_world U)) = Some j" for k j
  proof (cases "get_publisher k (w_pub (sv_world T)) = Some j")
    case True
    have "j < w_next (sv_world T)" using True d(1) by (auto simp: server_wf_def relay_wf_def)
    from e(4) [OF this] d(6) [OF True] show ?thesis by simp
  next
    case False
    thus ?thesis using e(6) [OF u] q d(2) by force
  qed
  show "role_kept now j S U" if "j < w_next (sv_world S)" "j \<notin> P" for j
  proof -
    have q': "j \<notin> Q" "j < w_next (sv_world T)" using that q [of j] d(2) by auto
    have 1: "role_kept now j S T" and 2: "role_kept now j T U" using d(3) e(3) that q' by auto
    have p: "\<exists>k. get_publisher k (w_pub (sv_world S)) = Some j" if "\<exists>k. get_publisher k (w_pub (sv_world T)) = Some j"
      using that d(6) \<open>j < w_next (sv_world S)\<close> \<open>j \<notin> P\<close> by (meson leD)
    have a: "incumbent_active now j T = incumbent_active now j S"
      using 1 active_kick [of T j S now] unfolding role_kept_def by (auto simp: incumbent_active_def)
    show ?thesis using 1 2 p a kick_twice unfolding role_kept_def by metis
  qed
qed

lemma keeps_mono: "keeps now A P S S' \<Longrightarrow> P \<subseteq> Q \<Longrightarrow> keeps now A Q S S'"
  unfolding keeps_def by (smt (verit) Un_mono order_refl order_trans subset_iff)

text \<open>A call that leaves the tables alone and changes at most the roles \<open>P\<close>.\<close>

lemma relay_wf_later:
  assumes "relay_wf W" "w_pub W' = w_pub W" "w_roles W' = w_roles W" "\<And>j. map_of (w_relays W') j = None \<longleftrightarrow> map_of (w_relays W) j = None" "w_next W \<le> w_next W'"
  shows "relay_wf W'"
proof -
  have "j < w_next W'" if "get_publisher k (w_pub W') = Some j" for k j
    using that assms(1,2,5) by (auto simp: relay_wf_def intro: less_le_trans)
  moreover have "j < w_next W'" if "map_of (w_relays W') j \<noteq> None" for j
    using that assms(1,4,5) unfolding relay_wf_def by (meson less_le_trans)
  moreover have "j < w_next W'" if "j \<in> set (w_roles W')" for j
    using that assms(1,3,5) by (auto simp: relay_wf_def intro: less_le_trans)
  ultimately show ?thesis using assms(1,2) by (simp add: relay_wf_def)
qed

lemma keeps_quiet:
  assumes "\<And>j. j \<notin> P \<Longrightarrow> map_of (sv_roles S') j = map_of (sv_roles S) j"
    "\<And>j. map_of (sv_roles S') j \<noteq> None \<Longrightarrow> map_of (sv_roles S) j \<noteq> None \<or> j < w_next (sv_world S')"
    "w_pub (sv_world S') = w_pub (sv_world S)" "w_roles (sv_world S') = w_roles (sv_world S)"
    "\<And>j. map_of (w_relays (sv_world S')) j = None \<longleftrightarrow> map_of (w_relays (sv_world S)) j = None"
    "w_next (sv_world S) \<le> w_next (sv_world S')"
  shows "keeps now A P S S'"
proof (rule keepsI)
  assume w: "server_wf S"
  have "j < w_next (sv_world S')" if "map_of (sv_roles S') j \<noteq> None" for j
    using assms(2) [OF that] assms(6) w unfolding server_wf_def by (meson less_le_trans)
  moreover have "relay_wf (sv_world S')" using w relay_wf_later [OF _ assms(3-6)] by (simp add: server_wf_def)
  ultimately show "server_wf S'" unfolding server_wf_def by blast
qed (use assms in \<open>simp_all add: role_kept_def\<close>)

section \<open>Sockets\<close>

text \<open>A socket is counted once for every role that holds it and once for every time it was closed.\<close>

definition closes :: "int \<Rightarrow> role_call list \<Rightarrow> nat" where
  "closes fd cs = length (filter (\<lambda>c. c = Close_sock fd) cs)"

definition fd_at :: "'ca server \<Rightarrow> role_id \<Rightarrow> int option" where
  "fd_at S i = Option.bind (map_of (sv_roles S) i) fd_of"

definition sockets :: "int \<Rightarrow> 'ca server \<Rightarrow> nat" where
  "sockets fd S = card {i. fd_at S i = Some fd} + closes fd (rw_trace (sv_world S))"

lemma closes_append [simp]: "closes fd (as @ bs) = closes fd as + closes fd bs"
  by (simp add: closes_def)

lemma closes_none: "list_all (uses f) cs \<Longrightarrow> closes fd cs = 0" "list_all no_sock cs \<Longrightarrow> closes fd cs = 0"
  by (induction cs) (auto simp: closes_def uses_def no_sock_def split: role_call.splits)

lemma closes_of_step:
  assumes "sock_calls a b cs"
  shows "closes fd cs = (if a = Some fd \<and> b = None then 1 else 0)"
proof (cases a)
  case (Some f)
  show ?thesis
  proof (cases b)
    case None
    then obtain as bs where "cs = as @ Close_sock f # bs" "list_all (uses f) as" "list_all no_sock bs" using assms Some by (auto simp: sock_calls_def)
    thus ?thesis using Some None closes_none(1) [of f as fd] closes_none(2) [of bs fd] by (auto simp: closes_def)
  qed (use assms Some closes_none(1) in \<open>auto simp: sock_calls_def\<close>)
qed (use assms closes_none(2) in \<open>auto simp: sock_calls_def\<close>)

lemma finite_holders: "finite {i. fd_at S i = Some fd}"
proof (rule finite_subset)
  show "{i. fd_at S i = Some fd} \<subseteq> dom (map_of (sv_roles S))" by (auto simp: fd_at_def bind_eq_Some_conv)
qed (rule finite_dom_map_of)

text \<open>One role changes.\<close>

lemma holders_change:
  fixes S S' :: "'a server"
  assumes "\<And>j. j \<noteq> i \<Longrightarrow> fd_at S' j = fd_at S j"
  shows "card {i. fd_at S' i = Some fd} + (if fd_at S i = Some fd then 1 else 0) = card {i. fd_at S i = Some fd} + (if fd_at S' i = Some fd then 1 else 0)"
proof -
  let ?R = "{j. j \<noteq> i \<and> fd_at S j = Some fd}"
  have f: "finite ?R" by (rule finite_subset [OF _ finite_holders [of S fd]]) auto
  have "{i. fd_at T i = Some fd} = (if fd_at T i = Some fd then insert i ?R else ?R)" if "\<And>j. j \<noteq> i \<Longrightarrow> fd_at T j = fd_at S j" for T :: "'a server"
  proof (rule set_eqI)
    fix x
    show "x \<in> {i. fd_at T i = Some fd} \<longleftrightarrow> x \<in> (if fd_at T i = Some fd then insert i ?R else ?R)" by (cases "x = i") (auto simp: that)
  qed
  from this [of S] this [OF assms] show ?thesis using f by simp
qed

end
