(* ===== verification/Listener_Own.thy ===== *)
theory Listener_Own
  imports Listener_Keeps
begin

text \<open>The calls of a listener on the server, one by one.\<close>

section \<open>Its own roles\<close>

text \<open>A publisher that is not in any table yet.\<close>

definition held_ok :: "CSLSRole \<Rightarrow> bool" where
  "held_ok r \<longleftrightarrow> rl_kind r = Publisher_role \<and> \<not> rl_map_publisher r \<and> \<not> rl_map_data r \<and> rl_dynamic_pusher_manager r = None \<and>
     (rl_state r = SLS_RS_UNINIT \<longrightarrow> rl_srt r = None) \<and> fd_of r \<noteq> Some 0"

lemma load_own: "map_of (w_relays (sv_world S)) i = None \<Longrightarrow> load_role i S = map_of (sv_roles S) i"
  by (cases "map_of (sv_roles S) i") (simp_all add: load_role_def)

lemma load_fd: "load_role i S = Some r \<Longrightarrow> fd_at S i = fd_of r"
  by (auto simp: load_role_def fd_at_def fd_of_def)

text \<open>A call on a role of the store that leaves the tables alone.\<close>

lemma on_role_keeps:
  assumes "on_role i f S = Some (x, S')"
    and step: "\<And>r r' W'. load_role i S = Some r \<Longrightarrow> f r (sv_world S) = Some (x, r', W') \<Longrightarrow> sock_step r (sv_world S) r' W' \<and>
      w_pub W' = w_pub (sv_world S) \<and> w_relays W' = w_relays (sv_world S) \<and> w_roles W' = w_roles (sv_world S)"
  shows "keeps now A {i} S S'" "fd_at S i \<noteq> Some 0 \<Longrightarrow> sockets z S' = sockets z S"
proof -
  obtain r r1 W1 where l: "load_role i S = Some r" "f r (sv_world S) = Some (x, r1, W1)"
      "S' = S\<lparr> sv_roles := AList.update i r1 (sv_roles S), sv_world := W1 \<rparr>"
    using assms(1) by (auto simp: on_role_def split: bind_splits)
  note s = step [OF l(1,2)]
  have i: "map_of (sv_roles S) i \<noteq> None" using l(1) by (auto simp: load_role_def)
  show "keeps now A {i} S S'"
  proof (rule keeps_quiet)
    show "w_next (sv_world S) \<le> w_next (sv_world S')" using s l(3) by (simp add: sock_step_def list_grows_def)
  qed (use s i l(3) in \<open>auto simp: map_of_update split: if_splits\<close>)
  assume nz: "fd_at S i \<noteq> Some 0"
  note fd = load_fd [OF l(1)]
  obtain cs where cs: "rw_trace W1 = rw_trace (sv_world S) @ cs" "sock_calls (fd_of r) (fd_of r1) cs"
    using s nz fd by (auto simp: sock_step_def)
  have n: "fd_at S' i = fd_of r1" "\<And>j. j \<noteq> i \<Longrightarrow> fd_at S' j = fd_at S j" by (simp_all add: l(3) fd_at_def map_of_update)
  have "fd_of r1 = None \<or> fd_of r1 = fd_of r" using cs(2) by (auto simp: sock_calls_def split: option.splits)
  moreover have "rw_trace (sv_world S') = rw_trace (sv_world S) @ cs" using cs(1) l(3) by simp
  ultimately show "sockets z S' = sockets z S"
    using holders_change [where i = i and S = S and S' = S' and fd = z, OF n(2)] closes_of_step [OF cs(2), where fd = z] fd n(1)
    by (auto simp: sockets_def split: if_splits)
qed

lemma on_connect_own:
  assumes "on_connect env r W = (ret, r', W')"
  shows "sock_step r W r' W'" "w_pub W' = w_pub W" "w_relays W' = w_relays W" "w_roles W' = w_roles W"
    "held_ok r \<Longrightarrow> held_ok r'" "rl_http_passed r' = rl_http_passed r" "rl_state r' = rl_state r" "rl_kind r' = rl_kind r" "rl_id r' = rl_id r"
    "rl_srt r' = rl_srt r" "rl_http_url r' = rl_http_url r"
proof -
  have e: "fd_of r' = fd_of r \<and> same_list W W' \<and> w_pub W' = w_pub W \<and> w_relays W' = w_relays W \<and>
      (rw_trace W' = rw_trace W \<or> (\<exists>u. rw_trace W' = rw_trace W @ [Post u])) \<and> rl_kind r' = rl_kind r \<and> rl_map_publisher r' = rl_map_publisher r \<and>
      rl_map_data r' = rl_map_data r \<and> rl_dynamic_pusher_manager r' = rl_dynamic_pusher_manager r \<and> rl_state r' = rl_state r \<and>
      rl_srt r' = rl_srt r \<and> rl_http_passed r' = rl_http_passed r \<and> rl_id r' = rl_id r \<and> rl_http_url r' = rl_http_url r"
    using assms by (auto simp: on_connect_def get_streamid_def learn_peer_def post_async_def fd_of_def split: if_splits option.splits prod.splits)
  show "sock_step r W r' W'" using e sock_step_same(1) [of r' r W' W] sock_step_same(2) [of r' r W' W] by (auto simp: no_sock_def)
qed (use assms in \<open>auto simp: on_connect_def get_streamid_def learn_peer_def post_async_def held_ok_def fd_of_def split: if_splits option.splits prod.splits\<close>)

lemma gate_own:
  assumes "check_http_passed env r W = Some (ret, r', W')"
  shows "sock_step r W r' W'" "w_pub W' = w_pub W" "w_relays W' = w_relays W" "w_roles W' = w_roles W" "held_ok r \<Longrightarrow> held_ok r'"
    "rl_id r' = rl_id r" "ret = SLS_OK \<longleftrightarrow> rl_http_passed r'"
proof -
  show "sock_step r W r' W'" by (rule gate_sock [OF assms])
  note q = check_http_passed_quiet [OF assms]
  show "w_pub W' = w_pub W" "w_relays W' = w_relays W" "w_roles W' = w_roles W" "rl_id r' = rl_id r" "ret = SLS_OK \<longleftrightarrow> rl_http_passed r'"
    using q by (auto simp: quiet_def)
  have c: "rl_dynamic_pusher_manager r2 = rl_dynamic_pusher_manager s" if "on_close env s V = Some (x, r2, V')" for s V x r2 V'
    using that by (auto simp: on_close_def get_streamid_def learn_peer_def split: if_splits option.splits prod.splits)
  have i: "rl_dynamic_pusher_manager r2 = rl_dynamic_pusher_manager s" if "invalid_srt env s V = Some (r2, V')" for s V r2 V'
    using that c by (fastforce simp: invalid_srt_def Let_def split: option.splits)
  have h: "rl_dynamic_pusher_manager (harvest_push_urls env b s) = rl_dynamic_pusher_manager s" for b s
    by (simp add: harvest_push_urls_def Let_def split: option.split json.split)
  have f: "rl_dynamic_pusher_manager s2 = rl_dynamic_pusher_manager s" if "cache_refusal env x s V = Some (s2, V')" for x s V s2 V'
    using that by (auto simp: cache_refusal_def get_streamid_def split: if_splits option.splits)
  have d: "rl_dynamic_pusher_manager r' = rl_dynamic_pusher_manager r"
    using assms by (auto simp: check_http_passed_def mark_invalid_def Let_def h dest!: i f split: if_splits option.splits bind_splits)
  have "(rl_state r' = rl_state r \<or> rl_srt r' = None) \<and> (rl_srt r' = rl_srt r \<or> rl_srt r' = None)"
    using assms
  proof (cases rule: gate_cases)
    case (expired r1)
    thus ?thesis using mark_invalid_quiet(2) [OF expired(8)] by simp
  next
    case (refused k resp r2 W2)
    thus ?thesis using invalid_srt_quiet(2) [OF refused(7)] by simp
  qed (simp_all add: harvest_quiet(3,4))
  thus "held_ok r \<Longrightarrow> held_ok r'" using q d by (auto simp: held_ok_def quiet_def fd_of_def)
qed

text \<open>The end of a publisher that was never published.\<close>

lemma base_uninit_srt: "base_uninit env r W = Some (r', W') \<Longrightarrow> rl_state r = SLS_RS_UNINIT \<longrightarrow> rl_srt r = None \<Longrightarrow> rl_srt r' = None"
  using invalid_srt_quiet(2) by (auto simp: base_uninit_def Let_def split: if_splits)

lemma base_uninit_tables: "base_uninit env r W = Some (r', W') \<Longrightarrow> w_pub W' = w_pub W \<and> w_relays W' = w_relays W \<and> w_roles W' = w_roles W"
  using invalid_srt_quiet(1) by (fastforce simp: base_uninit_def Let_def quiet_def split: if_splits)

lemma held_uninit:
  assumes "role_uninit env r W = Some (r', W')" "held_ok r"
  shows "sock_step r W r' W'" "w_pub W' = w_pub W" "w_relays W' = w_relays W" "w_roles W' = w_roles W" "rl_srt r' = None"
proof -
  have d: "r\<lparr> rl_dynamic_pusher_manager := None \<rparr> = r" using assms(2) by (simp add: held_ok_def)
  have "base_uninit env (r\<lparr> rl_dynamic_pusher_manager := None \<rparr>) W = Some (r', W')"
    using assms by (simp add: held_ok_def role_uninit_def publisher_uninit_def detach_dynamic_def publisher_leave_def)
  hence b: "base_uninit env r W = Some (r', W')" unfolding d .
  show "sock_step r W r' W'" by (rule base_uninit_sock [OF b])
  show "w_pub W' = w_pub W" "w_relays W' = w_relays W" "w_roles W' = w_roles W" using base_uninit_tables [OF b] by auto
  show "rl_srt r' = None" using base_uninit_srt [OF b] assms(2) by (simp add: held_ok_def)
qed

lemma drop_keeps:
  assumes "map_of (w_relays (sv_world S)) i = None" "fd_at S i = None"
  shows "keeps now A {i} S (drop_role i S)" "sockets z (drop_role i S) = sockets z S"
proof -
  show "keeps now A {i} S (drop_role i S)"
    by (rule keeps_quiet) (use assms(1) in \<open>auto simp: drop_role_def delete_conv' split: if_splits\<close>)
  have "fd_at (drop_role i S) j = fd_at S j" for j using assms(2) by (simp add: fd_at_def drop_role_def delete_conv')
  thus "sockets z (drop_role i S) = sockets z S" by (simp add: sockets_def drop_role_def)
qed

lemma discard_keeps:
  assumes "discard_role env i S = Some S'" "map_of (sv_roles S) i = Some r" "held_ok r" "map_of (w_relays (sv_world S)) i = None"
  shows "keeps now A {i} S S'" "sockets z S' = sockets z S" "map_of (sv_roles S') i = None"
proof -
  have l: "load_role i S = Some r" using load_own [OF assms(4)] assms(2) by simp
  have k: "\<not> (rl_kind r = Pusher_role \<or> rl_kind r = Puller_role)" using assms(3) by (simp add: held_ok_def)
  obtain x S1 where u: "on_role i (\<lambda>r W. no_result (role_uninit env r W)) S = Some (x, S1)" "S' = drop_role i S1"
    using assms(1) l k by (auto simp: discard_role_def uninit_role_def split: bind_splits)
  have st: "sock_step s (sv_world S) s' W' \<and> w_pub W' = w_pub (sv_world S) \<and> w_relays W' = w_relays (sv_world S) \<and> w_roles W' = w_roles (sv_world S)"
    if "load_role i S = Some s" "no_result (role_uninit env s (sv_world S)) = Some (x, s', W')" for s s' W'
    using that l held_uninit [OF _ assms(3)] by auto
  obtain r1 W1 where r1: "role_uninit env r (sv_world S) = Some (r1, W1)" "map_of (sv_roles S1) i = Some r1" "sv_world S1 = W1"
    using on_role_load [OF u(1)] l by auto
  have d: "map_of (w_relays (sv_world S1)) i = None" "fd_at S1 i = None"
    using held_uninit [OF r1(1) assms(3)] r1 assms(4) by (simp_all add: fd_at_def fd_of_def)
  have nz: "fd_at S i \<noteq> Some 0" using assms(2,3) by (simp add: fd_at_def held_ok_def)
  show "keeps now A {i} S S'"
    unfolding u(2) by (rule keeps_trans [OF on_role_keeps(1) [OF u(1) st] drop_keeps(1) [OF d]]) auto
  show "sockets z S' = sockets z S" unfolding u(2) drop_keeps(2) [OF d] by (rule on_role_keeps(2) [OF u(1) st nz])
  show "map_of (sv_roles S') i = None" by (simp add: u(2) drop_role_def delete_conv')
qed

section \<open>Making and publishing a role\<close>

lemma refuse_keeps:
  "keeps now A P (lw_server X) (lw_server (refuse s X))"
  "s_fd s \<noteq> 0 \<Longrightarrow> sockets z (lw_server (refuse s X)) = sockets z (lw_server X) + (if z = s_fd s then 1 else 0)"
proof -
  show "keeps now A P (lw_server X) (lw_server (refuse s X))" by (rule keeps_quiet) (simp_all add: refuse_def role_calls_def)
  assume "s_fd s \<noteq> 0"
  thus "sockets z (lw_server (refuse s X)) = sockets z (lw_server X) + (if z = s_fd s then 1 else 0)"
    by (simp add: sockets_def refuse_def role_calls_def libsrt_close_def closes_def fd_at_def)
qed

lemma add_role_keeps:
  assumes "rl_id r = w_next (sv_world S)" "server_wf S"
  shows "keeps now A {} S (add_role r S)" "sockets z (add_role r S) = sockets z S + (if fd_of r = Some z then 1 else 0)"
proof -
  have f: "map_of (sv_roles S) (rl_id r) = None" using assms by (auto simp: server_wf_def)
  have n: "\<not> j < rl_id r" if "j = rl_id r" for j using that by simp
  show "keeps now A {} S (add_role r S)"
  proof (rule keepsI)
    show "server_wf (add_role r S)"
      using assms(2) relay_wf_later [of "sv_world S" "sv_world (add_role r S)"]
      by (auto simp: server_wf_def add_role_def map_of_update assms(1) less_SucI split: if_splits)
  qed (use assms(1) in \<open>auto simp: add_role_def role_kept_def map_of_update\<close>)
  have "fd_at (add_role r S) j = fd_at S j" if "j \<noteq> rl_id r" for j using that by (simp add: fd_at_def add_role_def map_of_update)
  from holders_change [where i = "rl_id r" and S = S and fd = z, OF this]
  show "sockets z (add_role r S) = sockets z S + (if fd_of r = Some z then 1 else 0)"
    using f by (auto simp: sockets_def fd_at_def add_role_def map_of_update split: if_splits)
qed

lemma push_role_keeps:
  assumes "push_role L i S = Some S'" "i < w_next (sv_world S)"
  shows "keeps now A {i} S S'" "sockets z S' = sockets z S" "sv_roles S' = sv_roles S" "w_relays (sv_world S') = w_relays (sv_world S)"
proof -
  have e: "S' = S\<lparr> sv_world := (sv_world S)\<lparr> w_roles := w_roles (sv_world S) @ [i] \<rparr> \<rparr>"
    using assms(1) by (auto simp: push_role_def role_push_def split: if_splits)
  show "keeps now A {i} S S'"
  proof (rule keepsI)
    show "server_wf S \<Longrightarrow> server_wf S'" using assms(2) by (auto simp: e server_wf_def relay_wf_def)
  qed (auto simp: e role_kept_def)
  show "sockets z S' = sockets z S" "sv_roles S' = sv_roles S" "w_relays (sv_world S') = w_relays (sv_world S)" by (simp_all add: e sockets_def fd_at_def)
qed

lemma publish_keeps:
  assumes "set_push_2_publisher k i (w_pub (sv_world S)) = (SLS_OK, P')" "i < w_next (sv_world S)" "A i"
    "S' = S\<lparr> sv_world := (sv_world S)\<lparr> w_pub := P' \<rparr> \<rparr>"
  shows "keeps now A {i} S S'" "sockets z S' = sockets z S" "sv_roles S' = sv_roles S" "w_relays (sv_world S') = w_relays (sv_world S)"
proof -
  have e: "map_of (m_map_push_2_publisher (w_pub (sv_world S))) k = None"
      "P' = (w_pub (sv_world S))\<lparr> m_map_push_2_publisher := std_put k i (m_map_push_2_publisher (w_pub (sv_world S))) \<rparr>"
    using assms(1) by (auto simp: set_push_2_publisher_def sls_codes split: option.splits)
  show "keeps now A {i} S S'"
  proof (rule keepsI)
    assume w: "server_wf S"
    show "server_wf S'" using w assms(2) e(1)
      by (auto simp: assms(4) e(2) server_wf_def relay_wf_def publisher_ok_def get_publisher_def std_put_ascending std_put_lookup split: if_splits)
    show "get_publisher q (w_pub (sv_world S')) = Some j" if "get_publisher q (w_pub (sv_world S)) = Some j" for q j
      using that e(1) by (auto simp: assms(4) e(2) get_publisher_def std_put_lookup)
    show "get_publisher q (w_pub (sv_world S)) = Some j \<or> (j \<in> {i} \<or> w_next (sv_world S) \<le> j) \<and> (map_of (w_relays (sv_world S')) j \<noteq> None \<or> A j)"
      if "get_publisher q (w_pub (sv_world S')) = Some j" for q j
      using that assms(3) by (auto simp: assms(4) e(2) get_publisher_def std_put_lookup split: if_splits)
  qed (auto simp: assms(4) e(2) role_kept_def)
  show "sockets z S' = sockets z S" "sv_roles S' = sv_roles S" "w_relays (sv_world S') = w_relays (sv_world S)"
    by (simp_all add: assms(4) sockets_def fd_at_def)
qed

lemma kick_keeps:
  assumes "get_publisher k (w_pub (sv_world S)) = Some i" "\<not> incumbent_active now i S"
  shows "keeps now A {} S (kick_role i S)" "sockets z (kick_role i S) = sockets z S" "j \<noteq> i \<Longrightarrow> map_of (sv_roles (kick_role i S)) j = map_of (sv_roles S) j"
    "map_of (w_relays (sv_world (kick_role i S))) j = None \<longleftrightarrow> map_of (w_relays (sv_world S)) j = None"
proof -
  have w: "server_wf (kick_role i S)" if "server_wf S"
    using that by (auto simp: kick_role_def server_wf_def relay_wf_def map_of_update split: option.splits if_splits)
  show "keeps now A {} S (kick_role i S)"
  proof (rule keepsI)
    show "role_kept now j S (kick_role i S)" for j
      using assms by (auto simp: role_kept_def kick_role_def map_of_update split: option.splits)
  qed (use w in \<open>auto simp: kick_role_def map_of_update split: option.splits\<close>)
  have "fd_at (kick_role i S) j = fd_at S j" for j
    by (auto simp: kick_role_def fd_at_def map_of_update request_kick_def fd_of_def split: option.splits)
  thus "sockets z (kick_role i S) = sockets z S" by (simp add: sockets_def kick_role_def split: option.splits)
  show "j \<noteq> i \<Longrightarrow> map_of (sv_roles (kick_role i S)) j = map_of (sv_roles S) j"
    "map_of (w_relays (sv_world (kick_role i S))) j = None \<longleftrightarrow> map_of (w_relays (sv_world S)) j = None"
    by (auto simp: kick_role_def map_of_update split: option.splits)
qed

end
