(* ===== verification/Listener_Calls.thy ===== *)
theory Listener_Calls
  imports Listener_Own
begin

text \<open>What the calls of a listener do to the server and to what the listener holds.\<close>

lemma map_pair_SomeD: "map_option (\<lambda>(q, x). (l, x)) y = Some (l', x') \<Longrightarrow> l' = l \<and> (\<exists>q. y = Some (q, x'))"
  by auto

lemma map_const_SomeD: "map_option (\<lambda>x. (l, g x)) y = Some (l', x') \<Longrightarrow> l' = l \<and> (\<exists>x. y = Some x \<and> x' = g x)"
  by auto

section \<open>Relays\<close>

lemma on_relays_frame:
  fixes W :: "'ca role_world"
  assumes "on_relays f W = Some (x, W')"
  obtains V' where "f (relay_world.truncate W) = Some (x, V')" "rw_trace W' = rw_trace W"
    "relay_grows (relay_world.truncate W) V' \<longrightarrow> relay_grows W W'"
proof -
  obtain V' where v: "f (relay_world.truncate W) = Some (x, V')" "W' = relay_world.extend V' (relay_world.more W)"
    using assms by (auto simp: on_relays_def)
  have "relay_grows W W'" if "relay_grows (relay_world.truncate W) V'"
    using that unfolding v(2) by (cases W; cases V') (simp add: relay_grows_def relay_wf_def relay_world.defs)
  moreover have "rw_trace W' = rw_trace W" unfolding v(2) by (cases W; cases V') (simp add: relay_world.defs)
  ultimately show thesis using that v(1) by blast
qed

lemma relay_grows_keeps:
  assumes "relay_grows (sv_world S) (sv_world S')" "sv_roles S' = sv_roles S"
  shows "keeps now A P S S'"
proof (rule keepsI)
  assume w: "server_wf S"
  hence g: "relay_wf (sv_world S')" "hands_off (sv_world S) (sv_world S')"
    and p: "\<And>k j. get_publisher k (w_pub (sv_world S)) = Some j \<Longrightarrow> get_publisher k (w_pub (sv_world S')) = Some j"
    and q: "\<And>k j. get_publisher k (w_pub (sv_world S')) = Some j \<Longrightarrow> get_publisher k (w_pub (sv_world S)) = Some j \<or>
        w_next (sv_world S) \<le> j \<and> map_of (w_relays (sv_world S')) j \<noteq> None"
    and r: "\<And>j. j < w_next (sv_world S) \<Longrightarrow> map_of (w_relays (sv_world S')) j = map_of (w_relays (sv_world S)) j"
    and c: "m_map_uplive_2_conf (w_pub (sv_world S')) = m_map_uplive_2_conf (w_pub (sv_world S))"
      "m_map_live_2_uplive (w_pub (sv_world S')) = m_map_live_2_uplive (w_pub (sv_world S))"
    using assms(1) unfolding relay_grows_def server_wf_def by metis+
  note n = hands_off_next [OF g(2)]
  show "w_next (sv_world S) \<le> w_next (sv_world S')" by (rule n)
  show "server_wf S'" using w g(1) n assms(2) unfolding server_wf_def by (metis less_le_trans)
  show "\<exists>new. w_roles (sv_world S') = w_roles (sv_world S) @ new \<and> set new \<subseteq> P \<union> {w_next (sv_world S)..}"
    using g(2) by (auto simp: list_grows_def subset_iff)
  show "get_publisher k (w_pub (sv_world S')) = Some j" if "get_publisher k (w_pub (sv_world S)) = Some j" for k j by (rule p [OF that])
  show "get_publisher k (w_pub (sv_world S)) = Some j \<or> (j \<in> P \<or> w_next (sv_world S) \<le> j) \<and> (map_of (w_relays (sv_world S')) j \<noteq> None \<or> A j)"
    if "get_publisher k (w_pub (sv_world S')) = Some j" for k j using q [OF that] by blast
  show "map_of (w_relays (sv_world S')) j = None \<longleftrightarrow> map_of (w_relays (sv_world S)) j = None" if "j < w_next (sv_world S)" for j
    using r [OF that] by simp
  show "m_map_uplive_2_conf (w_pub (sv_world S')) = m_map_uplive_2_conf (w_pub (sv_world S))"
    "m_map_live_2_uplive (w_pub (sv_world S')) = m_map_live_2_uplive (w_pub (sv_world S))" by (rule c)+
qed (simp add: role_kept_def assms(2))

lemma start_relay_keeps:
  assumes "start_relay E pull a s L X = Some (ret, X')"
  shows "keeps now A P (lw_server X) (lw_server X')" "sockets z (lw_server X') = sockets z (lw_server X)"
    "sv_roles (lw_server X') = sv_roles (lw_server X)" "lw_registry X' = lw_registry X"
proof -
  have "keeps now A P (lw_server X) (lw_server X') \<and> rw_trace (lw_world X') = rw_trace (lw_world X) \<and>
      sv_roles (lw_server X') = sv_roles (lw_server X) \<and> lw_registry X' = lw_registry X"
  proof (cases "fst (add_relay_manager (lw_next_manager X) a s (relay_table pull X))")
    case None
    hence "X' = X" using assms by (auto simp: start_relay_def split: prod.splits option.splits)
    thus ?thesis by (simp add: keeps_refl)
  next
    case (Some m)
    then obtain T where t: "add_relay_manager (lw_next_manager X) a s (relay_table pull X) = (Some m, T)" by (metis prod.collapse)
    let ?S = "put_table pull T (lw_server X)"
    let ?f = "\<lambda>V :: conf_vars relay_world. map_option (\<lambda>(ret, m1, V1). ((ret, m1), V1)) (start_manager E (manager_pointers L m) V)"
    obtain q m1 W1 where o: "on_relays ?f (sv_world ?S) = Some ((q, m1), W1)"
        "X' = X\<lparr> lw_server := store_manager (manager_self m) m1 (?S\<lparr> sv_world := W1 \<rparr>), lw_next_manager := Suc (lw_next_manager X) \<rparr>"
      using assms t by (auto simp: start_relay_def Let_def split: bind_splits)
    obtain V' where v: "?f (relay_world.truncate (sv_world ?S)) = Some ((q, m1), V')" "rw_trace W1 = rw_trace (sv_world ?S)"
        "relay_grows (relay_world.truncate (sv_world ?S)) V' \<longrightarrow> relay_grows (sv_world ?S) W1" by (rule on_relays_frame [OF o(1)])
    have "start_manager E (manager_pointers L m) (relay_world.truncate (sv_world ?S)) = Some (q, m1, V')" using v(1) by auto
    from fresh_relays.start [OF this] v(3) have "relay_grows (lw_world X) W1" by (simp add: put_table_def)
    hence "keeps now A P (lw_server X) (lw_server X')" by (intro relay_grows_keeps) (simp_all add: o(2) store_manager_def put_table_def)
    thus ?thesis using v(2) by (simp add: o(2) store_manager_def put_table_def)
  qed
  thus "keeps now A P (lw_server X) (lw_server X')" "sockets z (lw_server X') = sockets z (lw_server X)"
    "sv_roles (lw_server X') = sv_roles (lw_server X)" "lw_registry X' = lw_registry X" by (auto simp: sockets_def fd_at_def)
qed

section \<open>Publishers\<close>

text \<open>The web hook let the publisher in, or there is none.\<close>

definition authorised :: "listener_env \<Rightarrow> string \<Rightarrow> role_id \<Rightarrow> bool" where
  "authorised E url i \<longleftrightarrow> url = [] \<or> (\<exists>n resp. e_http (le_role E i) n = Some resp \<and> resp_success resp \<and> resp_status_code resp = 200)"

text \<open>A publisher the listener holds.\<close>

definition held_in :: "'ca server \<Rightarrow> role_id \<Rightarrow> CSLSRole \<Rightarrow> bool" where
  "held_in S i r \<longleftrightarrow> map_of (sv_roles S) i = Some r \<and> held_ok r \<and> i < w_next (sv_world S) \<and> map_of (w_relays (sv_world S)) i = None \<and>
     i \<notin> set (w_roles (sv_world S)) \<and> (\<forall>k. get_publisher k (w_pub (sv_world S)) \<noteq> Some i)"

lemma held_in_kept:
  assumes "keeps now A P S S'" "server_wf S" "held_in S i r" "i \<notin> P"
  shows "held_in S' i r"
proof -
  note k = keepsD [OF assms(1,2)]
  have h: "i < w_next (sv_world S)" "\<And>k. get_publisher k (w_pub (sv_world S)) \<noteq> Some i" "i \<notin> set (w_roles (sv_world S))"
      "map_of (w_relays (sv_world S)) i = None" "map_of (sv_roles S) i = Some r" "held_ok r" using assms(3) by (auto simp: held_in_def)
  have "map_of (sv_roles S') i = Some r" using k(3) [OF h(1) assms(4)] h(2,5) by (simp add: role_kept_def)
  moreover have "get_publisher q (w_pub (sv_world S')) \<noteq> Some i" for q
  proof
    assume "get_publisher q (w_pub (sv_world S')) = Some i"
    from k(6) [OF this] show False using h(1,2) assms(4) by auto
  qed
  moreover have "i \<notin> set (w_roles (sv_world S'))" using k(7) h(1,3) assms(4) by auto
  moreover have "map_of (w_relays (sv_world S')) i = None" using k(4) [OF h(1)] h(4) by simp
  ultimately show ?thesis using h(1,6) k(2) by (simp add: held_in_def)
qed

lemma bind_own:
  assumes "bind_publisher key L r W = (r', W')"
  shows "sock_step r W r' W'" "w_pub W' = w_pub W" "w_relays W' = w_relays W" "w_roles W' = w_roles W"
  using assms sock_step_same(1) [of r' r W' W]
  by (auto simp: bind_publisher_def role_set_map_data_def on_map_data_set_def fd_of_def Let_def split: prod.splits if_splits option.splits)

lemma finish_publisher_keeps:
  assumes "finish_publisher_accept E p L X = Some (ret, X')" "held_in (lw_server X) (pb_publisher p) r" "A (pb_publisher p)"
  shows "keeps (le_now E) A {pb_publisher p} (lw_server X) (lw_server X')" "sockets z (lw_server X') = sockets z (lw_server X)"
proof -
  define i where "i = pb_publisher p"
  define key where "key = pb_key_stream_name p"
  have h: "map_of (sv_roles (lw_server X)) i = Some r" "held_ok r" "i < w_next (lw_world X)" "map_of (w_relays (lw_world X)) i = None"
      "\<And>k. get_publisher k (lw_pub X) \<noteq> Some i" using assms(2) by (auto simp: held_in_def i_def)
  have "keeps (le_now E) A {i} (lw_server X) (lw_server X') \<and> sockets z (lw_server X') = sockets z (lw_server X)"
  proof (cases "get_publisher key (lw_pub X)")
    case (Some inc)
    define S1 where "S1 = (if incumbent_active (le_now E) inc (lw_server X) then lw_server X else kick_role inc (lw_server X))"
    obtain S2 where d: "discard_role (le_role E i) i S1 = Some S2" "X' = X\<lparr> lw_server := S2 \<rparr>"
      using assms(1) Some by (auto simp: finish_publisher_accept_def Let_def key_def [symmetric] i_def [symmetric] S1_def [symmetric] split: bind_splits)
    have n: "i \<noteq> inc" using h(5) [of key] Some by auto
    have k: "keeps (le_now E) A {} (lw_server X) S1" "sockets z S1 = sockets z (lw_server X)" "map_of (sv_roles S1) i = Some r"
        "map_of (w_relays (sv_world S1)) i = None"
      using kick_keeps [OF Some, of "le_now E"] n h(1,4) keeps_refl by (auto simp: S1_def)
    show ?thesis
      using keeps_trans [OF keeps_mono [OF k(1)] discard_keeps(1) [OF d(1) k(3) h(2) k(4)], of "{i}"] discard_keeps(2) [OF d(1) k(3) h(2) k(4)] k(2)
      by (simp add: d(2))
  next
    case None
    obtain u S1 where b: "on_role i (\<lambda>r W. Some ((), bind_publisher key L r W)) (lw_server X) = Some (u, S1)"
      using assms(1) None by (auto simp: finish_publisher_accept_def Let_def key_def [symmetric] i_def [symmetric] split: bind_splits)
    have st: "sock_step s (lw_world X) s' W' \<and> w_pub W' = w_pub (lw_world X) \<and> w_relays W' = w_relays (lw_world X) \<and> w_roles W' = w_roles (lw_world X)"
      if "Some ((), bind_publisher key L s (lw_world X)) = Some (u, s', W')" for s s' W'
      using that bind_own [of key L s "lw_world X" s' W'] by auto
    have nz: "fd_at (lw_server X) i \<noteq> Some 0" using h(1,2) by (simp add: fd_at_def held_ok_def)
    have k1: "keeps (le_now E) A {i} (lw_server X) S1" "sockets z S1 = sockets z (lw_server X)"
      using on_role_keeps [OF b st] nz by auto
    have w1: "w_pub (sv_world S1) = lw_pub X" "w_next (lw_world X) \<le> w_next (sv_world S1)"
      using on_role_load [OF b] st by (auto simp: sock_step_def list_grows_def)
    obtain P' where s: "set_push_2_publisher key i (w_pub (sv_world S1)) = (SLS_OK, P')"
      using None w1(1) by (simp add: set_push_2_publisher_def get_publisher_def)
    let ?S = "S1\<lparr> sv_world := (sv_world S1)\<lparr> w_pub := P' \<rparr> \<rparr>"
    obtain S2 where p: "push_role L i ?S = Some S2"
        "if li_map_pusher L then \<exists>q. start_relay E False (pb_app_uplive p) (pb_stream_name p) L (X\<lparr> lw_server := S2 \<rparr>) = Some (q, X')
         else X' = X\<lparr> lw_server := S2 \<rparr>"
      using assms(1) None b s
      by (auto simp: finish_publisher_accept_def Let_def key_def [symmetric] i_def [symmetric] split: bind_splits if_splits)
    have i1: "i < w_next (sv_world S1)" using h(3) w1(2) by simp
    note k2 = publish_keeps [OF s i1, of A, OF assms(3) [folded i_def] refl]
    note k3 = push_role_keeps [OF p(1)]
    have k4: "keeps (le_now E) A {i} S2 (lw_server X')" "sockets z (lw_server X') = sockets z S2"
      using p(2) start_relay_keeps(1,2) [of E False "pb_app_uplive p" "pb_stream_name p" L "X\<lparr> lw_server := S2 \<rparr>"] keeps_refl
      by (auto split: if_splits)
    have "keeps (le_now E) A {i} (lw_server X) S2"
      by (rule keeps_trans [OF keeps_trans [OF k1(1) k2(1)] k3(1)]) (use i1 in auto)
    hence "keeps (le_now E) A {i} (lw_server X) (lw_server X')" by (rule keeps_trans [OF _ k4(1)]) auto
    thus ?thesis using k1(2) k2(2) k3(2) k4(2) i1 by simp
  qed
  thus "keeps (le_now E) A {pb_publisher p} (lw_server X) (lw_server X')" "sockets z (lw_server X') = sockets z (lw_server X)" by (auto simp: i_def)
qed

lemma new_publisher_fields:
  "rl_id (new_publisher E i s ca lat L) = i" "fd_of (new_publisher E i s ca lat L) = Some (s_fd s)"
  "s_fd s \<noteq> 0 \<Longrightarrow> held_ok (new_publisher E i s ca lat L)" "rl_http_passed (new_publisher E i s ca lat L) \<longleftrightarrow> li_http_url_role L = []"
proof -
  have b: "rl_id (snd (init_bitrate_limiter n a b c r)) = rl_id r" "rl_srt (snd (init_bitrate_limiter n a b c r)) = rl_srt r"
    "rl_kind (snd (init_bitrate_limiter n a b c r)) = rl_kind r" "rl_map_publisher (snd (init_bitrate_limiter n a b c r)) = rl_map_publisher r"
    "rl_map_data (snd (init_bitrate_limiter n a b c r)) = rl_map_data r" "rl_state (snd (init_bitrate_limiter n a b c r)) = rl_state r"
    "rl_dynamic_pusher_manager (snd (init_bitrate_limiter n a b c r)) = rl_dynamic_pusher_manager r"
    "rl_http_passed (snd (init_bitrate_limiter n a b c r)) = rl_http_passed r" for n a b c r
    by (auto simp: init_bitrate_limiter_def Let_def split: prod.split)
  note d = new_publisher_def set_srt_def role_new_def publisher_init_def role_init_def set_first_data_timeout_def set_http_url_def Let_def b
  show "rl_id (new_publisher E i s ca lat L) = i" "fd_of (new_publisher E i s ca lat L) = Some (s_fd s)"
    "rl_http_passed (new_publisher E i s ca lat L) \<longleftrightarrow> li_http_url_role L = []" by (simp_all add: d fd_of_def)
  assume "s_fd s \<noteq> 0"
  thus "held_ok (new_publisher E i s ca lat L)" by (simp add: d fd_of_def held_ok_def)
qed

text \<open>A call on a held publisher.\<close>

lemma on_role_held:
  assumes "on_role i f S = Some (x, S')" "held_in S i r"
    "\<And>r' W'. f r (sv_world S) = Some (x, r', W') \<Longrightarrow> sock_step r (sv_world S) r' W' \<and> w_pub W' = w_pub (sv_world S) \<and>
       w_relays W' = w_relays (sv_world S) \<and> w_roles W' = w_roles (sv_world S) \<and> held_ok r'"
  shows "\<exists>r' W'. f r (sv_world S) = Some (x, r', W') \<and> held_in S' i r'" "keeps now A {i} S S'" "sockets z S' = sockets z S"
proof -
  have h: "map_of (sv_roles S) i = Some r" "map_of (w_relays (sv_world S)) i = None" "held_ok r" using assms(2) by (auto simp: held_in_def)
  have l: "load_role i S = Some r" using load_own [OF h(2)] h(1) by simp
  obtain r' W' where o: "f r (sv_world S) = Some (x, r', W')" "map_of (sv_roles S') i = Some r'" "sv_world S' = W'"
    using on_role_load [OF assms(1)] l by auto
  note s = assms(3) [OF o(1)]
  have "w_next (sv_world S) \<le> w_next W'" using s by (simp add: sock_step_def list_grows_def)
  hence "held_in S' i r'" using assms(2) o s by (simp add: held_in_def)
  thus "\<exists>r' W'. f r (sv_world S) = Some (x, r', W') \<and> held_in S' i r'" using o(1) by blast
  have st: "sock_step s (sv_world S) s' V \<and> w_pub V = w_pub (sv_world S) \<and> w_relays V = w_relays (sv_world S) \<and> w_roles V = w_roles (sv_world S)"
    if "load_role i S = Some s" "f s (sv_world S) = Some (x, s', V)" for s s' V
    using assms(3) [of s' V] that l by simp
  have nz: "fd_at S i \<noteq> Some 0" using h(1,3) by (simp add: fd_at_def held_ok_def)
  show "keeps now A {i} S S'" "sockets z S' = sockets z S" using on_role_keeps [OF assms(1) st] nz by auto
qed

lemma gate_held:
  assumes "on_role i (check_http_passed env) S = Some (ret, S')" "held_in S i r"
  shows "\<exists>r'. held_in S' i r' \<and> (ret = SLS_OK \<longleftrightarrow> rl_http_passed r')" "keeps now A {i} S S'" "sockets z S' = sockets z S"
    "ret = SLS_OK \<Longrightarrow> rl_http_passed r \<or> (\<exists>n resp. e_http env n = Some resp \<and> resp_success resp \<and> resp_status_code resp = 200)"
proof -
  have h: "held_ok r" using assms(2) by (simp add: held_in_def)
  have st: "sock_step r (sv_world S) r' W' \<and> w_pub W' = w_pub (sv_world S) \<and> w_relays W' = w_relays (sv_world S) \<and>
      w_roles W' = w_roles (sv_world S) \<and> held_ok r'" if "check_http_passed env r (sv_world S) = Some (ret, r', W')" for r' W'
    using gate_own [OF that] h by simp
  obtain r' W' where c: "check_http_passed env r (sv_world S) = Some (ret, r', W')" "held_in S' i r'"
    using on_role_held(1) [OF assms st] by blast
  show "\<exists>r'. held_in S' i r' \<and> (ret = SLS_OK \<longleftrightarrow> rl_http_passed r')" using c(2) gate_own(7) [OF c(1)] by blast
  show "keeps now A {i} S S'" "sockets z S' = sockets z S" using on_role_held(2,3) [OF assms st] by auto
  assume "ret = SLS_OK"
  thus "rl_http_passed r \<or> (\<exists>n resp. e_http env n = Some resp \<and> resp_success resp \<and> resp_status_code resp = 200)"
    using gate_opens [of env r "sv_world S" r' W'] c(1) by (auto simp: accepted_def)
qed

lemma connect_held:
  assumes "on_role i (\<lambda>r W. Some (on_connect env r W)) S = Some (ret, S')" "held_in S i r"
  shows "\<exists>r'. held_in S' i r' \<and> rl_http_passed r' = rl_http_passed r" "keeps now A {i} S S'" "sockets z S' = sockets z S"
proof -
  have h: "held_ok r" using assms(2) by (simp add: held_in_def)
  have st: "sock_step r (sv_world S) r' W' \<and> w_pub W' = w_pub (sv_world S) \<and> w_relays W' = w_relays (sv_world S) \<and>
      w_roles W' = w_roles (sv_world S) \<and> held_ok r'" if "Some (on_connect env r (sv_world S)) = Some (ret, r', W')" for r' W'
    using on_connect_own [of env r "sv_world S" ret r' W'] that h by simp
  obtain r' W' where c: "on_connect env r (sv_world S) = (ret, r', W')" "held_in S' i r'"
    using on_role_held(1) [OF assms st] by blast
  show "\<exists>r'. held_in S' i r' \<and> rl_http_passed r' = rl_http_passed r" using c(2) on_connect_own(6) [OF c(1)] by blast
  show "keeps now A {i} S S'" "sockets z S' = sockets z S" using on_role_held(2,3) [OF assms st] by auto
qed

lemma discard_held:
  assumes "discard_role env i S = Some S'" "held_in S i r"
  shows "keeps now A {i} S S'" "sockets z S' = sockets z S"
  using discard_keeps [OF assms(1)] assms(2) by (auto simp: held_in_def)

lemma add_held:
  assumes "server_wf S" "rl_id r = w_next (sv_world S)" "held_ok r"
  shows "held_in (add_role r S) (w_next (sv_world S)) r"
  using assms by (auto simp: held_in_def add_role_def map_of_update server_wf_def relay_wf_def)

text \<open>A call that may hold one more publisher.\<close>

definition holds_more :: "role_id \<Rightarrow> CSLSListener \<Rightarrow> CSLSListener \<Rightarrow> conf_vars server \<Rightarrow> bool" where
  "holds_more n L L' S' \<longleftrightarrow> li_http_url_role L' = li_http_url_role L \<and>
     (li_pending_publisher_connections L' = li_pending_publisher_connections L \<or>
      (\<exists>p r. li_pending_publisher_connections L' = li_pending_publisher_connections L @ [p] \<and>
         length (li_pending_publisher_connections L) < MAX_PENDING_PUBLISHER_CONNECTIONS \<and>
         pb_key_stream_name p \<notin> pb_key_stream_name ` set (li_pending_publisher_connections L) \<and>
         n \<le> pb_publisher p \<and> held_in S' (pb_publisher p) r \<and> \<not> rl_http_passed r))"

lemma settle_keeps:
  assumes "settle_publisher E p L X = Some (L', X')" "held_in (lw_server X) (pb_publisher p) r"
    "rl_http_passed r \<longleftrightarrow> li_http_url_role L = []"
    "li_http_url_role L \<noteq> [] \<Longrightarrow> length (li_pending_publisher_connections L) < MAX_PENDING_PUBLISHER_CONNECTIONS \<and>
       pb_key_stream_name p \<notin> pb_key_stream_name ` set (li_pending_publisher_connections L)" "n \<le> pb_publisher p"
  shows "keeps (le_now E) (authorised E (li_http_url_role L)) {pb_publisher p} (lw_server X) (lw_server X') \<and>
    sockets z (lw_server X') = sockets z (lw_server X) \<and> holds_more n L L' (lw_server X') \<and>
    li_pending_player_connections L' = li_pending_player_connections L"
proof -
  let ?A = "authorised E (li_http_url_role L)" and ?S = "lw_server X"
  define i where "i = pb_publisher p"
  note h1 = assms(2) [folded i_def]
  obtain passed S2 where g: "on_role i (check_http_passed (le_role E i)) ?S = Some (passed, S2)"
    using assms(1) by (auto simp: settle_publisher_def Let_def i_def [symmetric] split: bind_splits)
  note a = assms(1) [unfolded settle_publisher_def Let_def, folded i_def, unfolded g bind.bind_lunit prod.case]
  obtain r2 where h2: "held_in S2 i r2" "passed = SLS_OK \<longleftrightarrow> rl_http_passed r2" using gate_held(1) [OF g h1] by blast
  have k2: "keeps (le_now E) ?A {i} ?S S2" "sockets z S2 = sockets z ?S" using gate_held(2,3) [OF g h1] by auto
  show ?thesis
  proof (cases "passed = SLS_OK")
    case True
    obtain q where f: "finish_publisher_accept E p L (X\<lparr> lw_server := S2 \<rparr>) = Some (q, X')" "L' = L"
      using map_pair_SomeD [OF a [unfolded if_P [OF True]]] by (elim conjE exE)
    have auth: "?A (pb_publisher p)" using gate_held(4) [OF g h1 True] assms(3) by (auto simp: authorised_def i_def)
    have h3: "held_in (lw_server (X\<lparr> lw_server := S2 \<rparr>)) (pb_publisher p) r2" using h2(1) by (simp add: i_def)
    note fin = finish_publisher_keeps [OF f(1) h3, of ?A, OF auth]
    have "keeps (le_now E) ?A {i} ?S (lw_server X')" by (rule keeps_trans [OF k2(1), of "{i}"]) (use fin in \<open>simp_all add: i_def\<close>)
    thus ?thesis using fin(2) k2(2) f(2) by (simp add: i_def holds_more_def)
  next
    case False
    obtain r3 where l: "load_role i S2 = Some r3" using load_own [of S2 i] h2(1) by (auto simp: held_in_def)
    note a = a [unfolded if_not_P [OF False] l bind.bind_lunit]
    show ?thesis
    proof (cases "rl_state r3 = SLS_RS_INVALID")
      case True
      obtain S3 where d: "discard_role (le_role E i) i S2 = Some S3" "X' = X\<lparr> lw_server := S3 \<rparr>" "L' = L"
        using map_const_SomeD [OF a [unfolded if_P [OF True]]] by (elim conjE exE)
      have "keeps (le_now E) ?A {i} ?S S3" by (rule keeps_trans [OF k2(1) discard_held(1) [OF d(1) h2(1)] disjI1])
      thus ?thesis using discard_held(2) [OF d(1) h2(1)] k2(2) d(2,3) by (simp add: i_def holds_more_def)
    next
      case held: False
      have e: "L' = L\<lparr> li_pending_publisher_connections := li_pending_publisher_connections L @ [p] \<rparr>" "X' = X\<lparr> lw_server := S2 \<rparr>"
        using a [unfolded if_not_P [OF held] option.inject prod.inject] by (elim conjE, simp only:)+
      have url: "li_http_url_role L \<noteq> []"
      proof
        assume "li_http_url_role L = []"
        hence "rl_http_passed r" using assms(3) by simp
        moreover obtain W3 r4 where "check_http_passed (le_role E i) r (sv_world ?S) = Some (passed, r4, W3)"
          using on_role_load [OF g] load_own [of ?S i] h1 by (auto simp: held_in_def)
        ultimately show False using False by (simp add: check_http_passed_def)
      qed
      have "holds_more n L L' S2" unfolding holds_more_def
        using e(1) assms(4) [OF url] assms(5) h2 False by (intro conjI disjI2 exI [of _ p] exI [of _ r2]) (simp_all add: i_def)
      thus ?thesis using k2 by (simp add: e i_def)
    qed
  qed
qed

lemma dispatch_keeps:
  assumes "dispatch_publisher E s ca app stream lat L X = Some (L', X')" "server_wf (lw_server X)" "s_fd s \<noteq> 0"
    "li_http_url_role L \<noteq> [] \<Longrightarrow> length (li_pending_publisher_connections L) < MAX_PENDING_PUBLISHER_CONNECTIONS \<and>
       stream_key_of app stream \<notin> pb_key_stream_name ` set (li_pending_publisher_connections L)"
  shows "keeps (le_now E) (authorised E (li_http_url_role L)) {} (lw_server X) (lw_server X') \<and>
    sockets z (lw_server X') = sockets z (lw_server X) + (if z = s_fd s then 1 else 0) \<and> holds_more (w_next (lw_world X)) L L' (lw_server X') \<and>
    li_pending_player_connections L' = li_pending_player_connections L"
proof -
  let ?A = "authorised E (li_http_url_role L)" and ?S = "lw_server X"
  define i where "i = w_next (lw_world X)"
  define r where "r = new_publisher E i s ca lat L"
  define S0 where "S0 = add_role r ?S"
  define p where "p = \<lparr> pb_publisher = i, pb_app_uplive = app, pb_stream_name = stream, pb_key_stream_name = stream_key_of app stream \<rparr>"
  note nf = new_publisher_fields [where E = E and i = i and s = s and ca = ca and lat = lat and L = L, folded r_def]
  have h0: "held_in S0 i r" using add_held [OF assms(2) nf(1) [unfolded i_def] nf(3) [OF assms(3)]] by (simp add: S0_def i_def)
  have k0: "keeps (le_now E) ?A {} ?S S0" "sockets z S0 = sockets z ?S + (if z = s_fd s then 1 else 0)"
    using add_role_keeps [OF nf(1) [unfolded i_def] assms(2)] nf(2) by (auto simp: S0_def)
  obtain ret S1 where c: "on_role i (\<lambda>r W. Some (on_connect (le_role E i) r W)) S0 = Some (ret, S1)"
    using assms(1) by (auto simp: dispatch_publisher_def Let_def i_def [symmetric] r_def [symmetric] S0_def [symmetric] split: bind_splits)
  note a = assms(1) [unfolded dispatch_publisher_def Let_def, folded i_def, folded r_def, folded S0_def, unfolded c bind.bind_lunit prod.case, folded p_def]
  obtain r1 where h1: "held_in S1 i r1" "rl_http_passed r1 = rl_http_passed r" using connect_held(1) [OF c h0] by blast
  have own: "j \<in> {} \<or> w_next (sv_world ?S) \<le> j" if "j \<in> {i}" for j using that by (simp add: i_def)
  have k1: "keeps (le_now E) ?A {} ?S S1" "sockets z S1 = sockets z ?S + (if z = s_fd s then 1 else 0)"
    using keeps_trans [OF k0(1) connect_held(2) [OF c h0] own] connect_held(3) [OF c h0] k0(2) by auto
  show ?thesis
  proof (cases "ret \<noteq> SLS_OK")
    case True
    obtain S2 where d: "discard_role (le_role E i) i S1 = Some S2" "X' = X\<lparr> lw_server := S2 \<rparr>" "L' = L"
      using map_const_SomeD [OF a [unfolded if_P [OF True]]] by (elim conjE exE)
    show ?thesis using keeps_trans [OF k1(1) discard_held(1) [OF d(1) h1(1)] own] discard_held(2) [OF d(1) h1(1)] k1(2) d(2,3)
      by (simp add: holds_more_def)
  next
    case False
    have s: "settle_publisher E p L (X\<lparr> lw_server := S1 \<rparr>) = Some (L', X')" using a [unfolded if_not_P [OF False]] .
    have h: "held_in (lw_server (X\<lparr> lw_server := S1 \<rparr>)) (pb_publisher p) r1" using h1(1) by (simp add: p_def)
    have g: "li_http_url_role L \<noteq> [] \<Longrightarrow> length (li_pending_publisher_connections L) < MAX_PENDING_PUBLISHER_CONNECTIONS \<and>
       pb_key_stream_name p \<notin> pb_key_stream_name ` set (li_pending_publisher_connections L)" using assms(4) by (simp add: p_def)
    have pw: "rl_http_passed r1 \<longleftrightarrow> li_http_url_role L = []" using h1(2) nf(4) by simp
    have n: "w_next (lw_world X) \<le> pb_publisher p" by (simp add: p_def i_def)
    have t: "keeps (le_now E) ?A {i} S1 (lw_server X')" "sockets z (lw_server X') = sockets z S1" "holds_more (w_next (lw_world X)) L L' (lw_server X')"
        "li_pending_player_connections L' = li_pending_player_connections L"
      using settle_keeps [OF s h pw g n] by (simp_all add: p_def)
    show ?thesis using keeps_trans [OF k1(1) t(1) own] t(2-4) k1(2) by simp
  qed
qed

lemma publisher_accept_keeps:
  assumes "publisher_accept E s app stream lat L X = Some (L', X')" "server_wf (lw_server X)" "s_fd s \<noteq> 0"
  shows "keeps (le_now E) (authorised E (li_http_url_role L)) {} (lw_server X) (lw_server X') \<and>
    sockets z (lw_server X') = sockets z (lw_server X) + (if z = s_fd s then 1 else 0) \<and> holds_more (w_next (lw_world X)) L L' (lw_server X') \<and>
    li_pending_player_connections L' = li_pending_player_connections L"
proof (cases "X' = refuse s X \<and> L' = L")
  case True
  thus ?thesis using refuse_keeps assms(3) by (simp add: holds_more_def)
next
  case False
  then obtain ca where "dispatch_publisher E s ca app stream lat L X = Some (L', X')"
      "li_http_url_role L \<noteq> [] \<Longrightarrow> length (li_pending_publisher_connections L) < MAX_PENDING_PUBLISHER_CONNECTIONS \<and>
         stream_key_of app stream \<notin> pb_key_stream_name ` set (li_pending_publisher_connections L)"
    using assms(1) by (auto simp: publisher_accept_def split: option.splits if_splits)
  thus ?thesis by (rule dispatch_keeps [OF _ assms(2,3)])
qed

end
