(* ===== verification/Listener_Players.thy ===== *)
theory Listener_Players
  imports Listener_Calls
begin

text \<open>What the calls of a listener for players keep.\<close>

lemma new_player_fields:
  "rl_id (new_player E i s key sid lat L) = i" "fd_of (new_player E i s key sid lat L) = Some (s_fd s)"
  "rl_kind (new_player E i s key sid lat L) = Player_role"
  by (simp_all add: new_player_def role_init_def role_new_def set_srt_def set_streamid_def set_http_url_def Let_def fd_of_def)

lemma register_keeps:
  "keeps now A {i} (lw_server X) (lw_server (register_player E i key pk peer lat L X))"
  "sockets z (lw_server (register_player E i key pk peer lat L X)) = sockets z (lw_server X)"
  "w_next (lw_world (register_player E i key pk peer lat L X)) = w_next (lw_world X)"
proof -
  let ?Y = "register_player E i key pk peer lat L X"
  have r: "map_of (sv_roles (lw_server ?Y)) j = (if j = i then (case map_of (sv_roles (lw_server X)) i of None \<Rightarrow> None
        | Some r \<Rightarrow> Some (if li_player_registry L then r\<lparr> rl_player_snapshot := Some (lw_next_snapshot X) \<rparr> else r))
      else map_of (sv_roles (lw_server X)) j)" for j
    by (simp add: register_player_def Let_def map_of_update split: option.split)
  have w: "w_pub (lw_world ?Y) = lw_pub X" "w_roles (lw_world ?Y) = w_roles (lw_world X)" "w_relays (lw_world ?Y) = w_relays (lw_world X)"
      "w_next (lw_world ?Y) = w_next (lw_world X)" "rw_trace (lw_world ?Y) = rw_trace (lw_world X)"
    by (simp_all add: register_player_def Let_def)
  show "w_next (lw_world ?Y) = w_next (lw_world X)" by (rule w(4))
  show "keeps now A {i} (lw_server X) (lw_server ?Y)"
    by (rule keeps_quiet) (simp_all add: r w split: if_splits option.splits)
  have "fd_at (lw_server ?Y) j = fd_at (lw_server X) j" for j by (simp add: fd_at_def r fd_of_def split: option.split)
  thus "sockets z (lw_server ?Y) = sockets z (lw_server X)" by (simp add: sockets_def w(5))
qed

lemma admit_keeps:
  assumes "admit_player E s key sid pk peer lat L X = Some X'" "server_wf (lw_server X)" "s_fd s \<noteq> 0"
  shows "keeps now A {} (lw_server X) (lw_server X')" "sockets z (lw_server X') = sockets z (lw_server X) + (if z = s_fd s then 1 else 0)"
    "w_roles (lw_world X') = w_roles (lw_world X) @ [w_next (lw_world X)]"
proof -
  define i where "i = w_next (lw_world X)"
  define r where "r = new_player E i s key sid lat L"
  define S0 where "S0 = add_role r (lw_server X)"
  note nf = new_player_fields [where E = E and i = i and s = s and key = key and sid = sid and lat = lat and L = L, folded r_def]
  obtain ret S1 where c: "on_role i (\<lambda>r W. Some (on_connect (le_role E i) r W)) S0 = Some (ret, S1)"
    using assms(1) by (auto simp: admit_player_def Let_def i_def [symmetric] r_def [symmetric] S0_def [symmetric] split: bind_splits)
  define X2 where "X2 = register_player E i key pk peer lat L (X\<lparr> lw_server := S1 \<rparr>)"
  note a = assms(1) [unfolded admit_player_def Let_def, folded i_def, folded r_def, folded S0_def, unfolded c bind.bind_lunit prod.case, folded X2_def]
  obtain S3 where p: "push_role L i (lw_server X2) = Some S3" "X' = X2\<lparr> lw_server := S3 \<rparr>" using a by (auto split: bind_splits)
  have st: "sock_step s (sv_world S0) s' W' \<and> w_pub W' = w_pub (sv_world S0) \<and> w_relays W' = w_relays (sv_world S0) \<and> w_roles W' = w_roles (sv_world S0)"
    if "Some (on_connect (le_role E i) s (sv_world S0)) = Some (ret, s', W')" for s s' W'
    using that on_connect_own [of "le_role E i" s "sv_world S0" ret s' W'] by auto
  have own: "j \<in> {} \<or> w_next (sv_world (lw_server X)) \<le> j" if "j \<in> {i}" for j using that by (simp add: i_def)
  have k0: "keeps now A {} (lw_server X) S0" "sockets z S0 = sockets z (lw_server X) + (if z = s_fd s then 1 else 0)"
    using add_role_keeps [OF nf(1) [unfolded i_def] assms(2)] nf(2) by (auto simp: S0_def)
  have nz: "fd_at S0 i \<noteq> Some 0" using nf(1,2) assms(3) by (simp add: fd_at_def S0_def add_role_def map_of_update)
  have k1: "keeps now A {} (lw_server X) S1" "sockets z S1 = sockets z S0"
    using keeps_trans [OF k0(1) on_role_keeps(1) [OF c st] own] on_role_keeps(2) [OF c st nz] by auto
  have k2: "keeps now A {i} S1 (lw_server X2)" "sockets z (lw_server X2) = sockets z S1" "w_next (lw_world X2) = w_next (sv_world S1)"
    using register_keeps [where X = "X\<lparr> lw_server := S1 \<rparr>"] by (simp_all add: X2_def)
  have k12: "keeps now A {} (lw_server X) (lw_server X2)" by (rule keeps_trans [OF k1(1) k2(1) own])
  have n0: "w_next (sv_world S0) = Suc i" by (simp add: S0_def add_role_def i_def)
  have n1: "Suc i \<le> w_next (sv_world S1)" using on_role_load [OF c] st n0 by (auto simp: sock_step_def list_grows_def)
  have i2: "i < w_next (lw_world X2)" using n1 k2(3) by simp
  note k3 = push_role_keeps [OF p(1) i2]
  show "keeps now A {} (lw_server X) (lw_server X')" using keeps_trans [OF k12 k3(1) own] by (simp add: p(2))
  show "sockets z (lw_server X') = sockets z (lw_server X) + (if z = s_fd s then 1 else 0)" using k3(2) k2(2) k1(2) k0(2) by (simp add: p(2))
  have "w_roles (sv_world S1) = w_roles (lw_world X)" using on_role_load [OF c] st by (auto simp: S0_def add_role_def)
  moreover have "w_roles (lw_world X2) = w_roles (sv_world S1)" by (simp add: X2_def register_player_def Let_def)
  ultimately show "w_roles (lw_world X') = w_roles (lw_world X) @ [w_next (lw_world X)]"
    using p by (auto simp: push_role_def role_push_def i_def split: if_splits)
qed

text \<open>What a call leaves alone of the listener.\<close>

definition same_held :: "CSLSListener \<Rightarrow> CSLSListener \<Rightarrow> bool" where
  "same_held L L' \<longleftrightarrow> li_pending_player_connections L' = li_pending_player_connections L \<and>
     li_pending_publisher_connections L' = li_pending_publisher_connections L \<and> li_http_url_role L' = li_http_url_role L \<and>
     ka_cache L' = ka_cache L"

lemma same_held_steps:
  "same_held L L" "same_held L M \<Longrightarrow> same_held M N \<Longrightarrow> same_held L N"
  "same_held L (remember_override t key pk L)" "effective_max_players t key pk ca L = (n, L') \<Longrightarrow> same_held L L'"
  by (auto simp: same_held_def remember_override_def effective_max_players_def Let_def split: option.splits if_splits)

lemma source_keeps:
  assumes "player_source E app stream L X = Some (found, X')"
  shows "keeps now A P (lw_server X) (lw_server X')" "sockets z (lw_server X') = sockets z (lw_server X)"
  using assms start_relay_keeps(1,2) keeps_refl by (auto simp: player_source_def Let_def split: if_splits bind_splits)

lemma limit_frame: "player_limit_reached key n L X = (b, X') \<Longrightarrow> lw_server X' = lw_server X"
  by (auto simp: player_limit_reached_def split: if_splits prod.splits)

lemma within_limit_keeps:
  assumes "admit_within_limit E s key sid pk peer lat ca L X = Some (L', X')" "server_wf (lw_server X)" "s_fd s \<noteq> 0"
  shows "keeps now A {} (lw_server X) (lw_server X') \<and> sockets z (lw_server X') = sockets z (lw_server X) + (if z = s_fd s then 1 else 0) \<and> same_held L L'"
proof -
  obtain limit L1 b X1 where e: "effective_max_players (le_steady E) key pk ca L = (limit, L1)" "player_limit_reached key limit L1 X = (b, X1)"
    by (metis prod.collapse)
  note a = assms(1) [unfolded admit_within_limit_def e prod.case]
  note s1 = limit_frame [OF e(2)] and l1 = same_held_steps(4) [OF e(1)]
  show ?thesis
  proof (cases b)
    case True
    thus ?thesis using a refuse_keeps(1) [where X = X1 and s = s and P = "{}"] refuse_keeps(2) [OF assms(3), where X = X1] s1 l1 by simp
  next
    case False
    obtain Y where y: "admit_player E s key sid pk peer lat L1 X1 = Some Y" "(L1, Y) = (L', X')" using a False by (auto simp only: if_False map_option_eq_Some)
    have ad: "admit_player E s key sid pk peer lat L1 X1 = Some X'" "L' = L1" using y by simp_all
    show ?thesis using admit_keeps(1,2) [OF ad(1) _ assms(3)] assms(2) s1 l1 ad(2) by simp
  qed
qed

lemma finish_player_keeps:
  assumes "finish_player_accept E s app stream sid pk peer lat L X = Some (L', X')" "server_wf (lw_server X)" "s_fd s \<noteq> 0"
  shows "keeps now A {} (lw_server X) (lw_server X')" "sockets z (lw_server X') = sockets z (lw_server X) + (if z = s_fd s then 1 else 0)"
    "same_held L L'"
proof -
  let ?G = "\<lambda>L' X'. keeps now A {} (lw_server X) (lw_server X') \<and>
      sockets z (lw_server X') = sockets z (lw_server X) + (if z = s_fd s then 1 else 0) \<and> same_held L L'"
  define key where "key = stream_key_of app stream"
  define L1 where "L1 = remember_override (le_steady E) key pk L"
  have l1: "same_held L L1" by (simp add: L1_def same_held_steps)
  obtain found X1 where f: "player_source E app stream L1 X = Some (found, X1)"
    using assms(1) by (auto simp: finish_player_accept_def Let_def key_def [symmetric] L1_def [symmetric] split: bind_splits)
  note a = assms(1) [unfolded finish_player_accept_def Let_def, folded key_def, folded L1_def, unfolded f bind.bind_lunit prod.case]
  note k1 = source_keeps [OF f]
  have "?G L' X'"
  proof (cases "Some (L1, refuse s X1) = Some (L', X')")
    case True
    thus ?thesis using keeps_trans [OF k1(1) refuse_keeps(1) [where P = "{}" and X = X1 and s = s]] refuse_keeps(2) [OF assms(3), where X = X1] k1(2) l1 by simp
  next
    case False
    then obtain ca where w: "admit_within_limit E s key sid pk peer lat ca L1 X1 = Some (L', X')"
      using a by (cases "get_ca app (lw_pub X1)") (simp_all split: if_splits)
    have wf: "server_wf (lw_server X1)" by (rule keepsD(1) [OF k1(1) assms(2)])
    note v = within_limit_keeps [OF w wf assms(3)]
    have "keeps now A {} (lw_server X) (lw_server X')" by (rule keeps_trans [OF k1(1), where Q = "{}"]) (use v in simp_all)
    thus ?thesis using v k1(2) same_held_steps(2) [OF l1] by simp
  qed
  thus "keeps now A {} (lw_server X) (lw_server X')" "sockets z (lw_server X') = sockets z (lw_server X) + (if z = s_fd s then 1 else 0)"
    "same_held L L'" by auto
qed

end
