(* ===== verification/Listener_Handler.thy ===== *)
theory Listener_Handler
  imports Listener_Players
begin

text \<open>The handler and the tick as a whole.\<close>

section \<open>The handler\<close>

text \<open>The calls on the player keys touch nothing else of the listener.\<close>

lemma more_frame:
  assumes "key_auth.more L' = key_auth.more (L :: CSLSListener)"
  shows "li_pending_player_connections L' = li_pending_player_connections L" "li_pending_publisher_connections L' = li_pending_publisher_connections L"
    "li_http_url_role L' = li_http_url_role L"
  using assms by (cases L; cases L'; simp)+

lemma update_rate_more: "key_auth.more (update_rate_limit t ip A) = key_auth.more A"
  by (simp add: update_rate_limit_def Let_def)

lemma start_more: "start_player_key_validation ok t key ip A = Some A' \<Longrightarrow> key_auth.more A' = key_auth.more A"
  by (auto simp: start_player_key_validation_def Let_def update_rate_more split: if_splits option.splits)

lemma rate_limited_more: "key_auth.more (snd (is_rate_limited t ip A)) = key_auth.more A"
  by (simp add: is_rate_limited_def cleanup_expired_rate_limits_def Let_def split: option.split)

lemma validate_more:
  assumes "validate_player_key ok t pk n ip A = Some (ret, res, A')"
  shows "key_auth.more A' = key_auth.more A"
proof -
  define y where "y = (case ip of None \<Rightarrow> (False, A) | Some i \<Rightarrow> is_rate_limited t i A)"
  have y: "key_auth.more (snd y) = key_auth.more A" by (simp add: y_def rate_limited_more split: option.split)
  obtain b A1 where e: "y = (b, A1)" by fastforce
  have "key_auth.more A1 = key_auth.more A" using y e by simp
  thus ?thesis using assms unfolding validate_player_key_def y_def [symmetric] e
    by (auto simp: Let_def split: if_splits option.splits dest!: start_more)
qed

text \<open>The outcome for one accepted socket: it was used up, or a player is held with it.\<close>

definition handled :: "listener_env \<Rightarrow> CSLSSrt \<Rightarrow> CSLSListener \<Rightarrow> listener_world \<Rightarrow> CSLSListener \<Rightarrow> listener_world \<Rightarrow> bool" where
  "handled E s L X L' X' \<longleftrightarrow> keeps (le_now E) (authorised E (li_http_url_role L)) {} (lw_server X) (lw_server X') \<and>
     holds_more (w_next (lw_world X)) L L' (lw_server X') \<and>
     (li_pending_player_connections L' = li_pending_player_connections L \<and>
        (\<forall>z. sockets z (lw_server X') = sockets z (lw_server X) + (if z = s_fd s then 1 else 0)) \<or>
      (\<exists>p. li_pending_player_connections L' = li_pending_player_connections L @ [p] \<and> pp_srt p = s \<and>
        length (li_pending_player_connections L) < MAX_PENDING_PLAYER_CONNECTIONS \<and> X' = X))"

lemma handled_refuse:
  assumes "s_fd s \<noteq> 0" "key_auth.more L' = key_auth.more L"
  shows "handled E s L X L' (refuse s X)"
  using refuse_keeps assms(1) more_frame [OF assms(2)] by (simp add: handled_def holds_more_def)

lemma holds_more_cong:
  assumes "holds_more n L1 L' S" "li_pending_publisher_connections L1 = li_pending_publisher_connections L" "li_http_url_role L1 = li_http_url_role L"
  shows "holds_more n L L' S"
  using assms by (simp add: holds_more_def)

lemma route_handled:
  assumes "route_connection E s peer lat sid stream key_app uplive pk L1 X = Some (L', X')" "server_wf (lw_server X)" "s_fd s \<noteq> 0"
    "key_auth.more L1 = key_auth.more L"
  shows "handled E s L X L' X'"
proof -
  note f = more_frame [OF assms(4)]
  show ?thesis
  proof (cases "uplive = []")
    case True
    hence p: "publisher_accept E s key_app stream lat L1 X = Some (L', X')" using assms(1) by (simp add: route_connection_def)
    note a = publisher_accept_keeps [OF p assms(2,3)]
    show ?thesis using a holds_more_cong [OF _ f(2,3)] f by (simp add: handled_def)
  next
    case False
    hence p: "finish_player_accept E s uplive stream sid pk peer lat L1 X = Some (L', X')" using assms(1) by (simp add: route_connection_def)
    show ?thesis using finish_player_keeps [OF p assms(2,3)] f by (simp add: handled_def same_held_def holds_more_def)
  qed
qed

lemma key_accept_handled:
  assumes "key_accept E s peer lat uplive key L X = Some (L', X')" "server_wf (lw_server X)" "s_fd s \<noteq> 0"
  shows "handled E s L X L' X'"
proof -
  obtain off where o: "cached_key_offline (le_steady E) key L X = Some off" using assms(1) by (auto simp: key_accept_def split: bind_splits)
  note a = assms(1) [unfolded key_accept_def o bind.bind_lunit]
  show ?thesis
  proof (cases off)
    case True
    thus ?thesis using a handled_refuse [OF assms(3) refl, of E L X] by simp
  next
    case False
    then obtain ret res L1 where v: "validate_player_key (le_get_ok E) (le_steady E) (Some key) 2048 (Some peer) L = Some (ret, res, L1)"
      using a by (auto split: bind_splits)
    note m = validate_more [OF v] and a = a [unfolded v bind.bind_lunit prod.case]
    note f = more_frame [OF m] and r = handled_refuse [OF assms(3) m, of E X]
    show ?thesis
    proof (cases "ret = SLS_PENDING")
      case True
      hence h: "hold_player E s uplive key peer lat L1 X = (L', X')" using a False by simp
      show ?thesis
      proof (cases "length (li_pending_player_connections L1) \<ge> MAX_PENDING_PLAYER_CONNECTIONS")
        case True
        thus ?thesis using h r by (simp add: hold_player_def)
      next
        case False
        thus ?thesis using h f keeps_refl by (auto simp: hold_player_def handled_def holds_more_def)
      qed
    next
      case pending: False
      show ?thesis
      proof (cases "ret = SLS_OK")
        case False
        thus ?thesis using a pending \<open>\<not> off\<close> r by simp
      next
        case True
        then obtain kv where kv: "sls_parse_streamid (Some (take 1023 (case res of None \<Rightarrow> [] | Some t \<Rightarrow> t))) = Some kv"
          using a pending \<open>\<not> off\<close> by (auto simp: Let_def split: bind_splits)
        note a = a [unfolded Let_def kv bind.bind_lunit]
        show ?thesis
        proof (cases "Some (L1, refuse s X) = Some (L', X')")
          case True
          thus ?thesis using r by simp
        next
          case False
          then obtain sid stream key_app where "route_connection E s peer lat sid stream key_app uplive (Some key) L1 X = Some (L', X')"
            using a pending \<open>\<not> off\<close> True by (cases "accepted_names kv") (auto split: option.splits prod.splits)
          thus ?thesis by (rule route_handled [OF _ assms(2,3) m])
        qed
      qed
    qed
  qed
qed

lemma handler_handled:
  assumes "listener_handler E L X = Some (n, L', X')" "server_wf (lw_server X)" "le_accept E \<noteq> 0"
  shows "if le_accept E < 0 then L' = L \<and> X' = X else handled E \<lparr> s_fd = le_accept E, s_eid = 0 \<rparr> L X L' X'"
proof (cases "le_accept E < 0")
  case True
  thus ?thesis using assms(1) by (simp add: listener_handler_def)
next
  case False
  define s where "s = \<lparr> s_fd = le_accept E, s_eid = 0 \<rparr>"
  have s: "s_fd s \<noteq> 0" using assms(3) by (simp add: s_def)
  note r = handled_refuse [OF s refl, of E L X]
  have "handled E s L X L' X'"
  proof (cases "Some (1, L, refuse s X) = Some (n, L', X')")
    case True
    thus ?thesis using r by simp
  next
    case no: False
    note a = assms(1) [unfolded listener_handler_def Let_def, folded s_def, unfolded if_not_P [OF False]]
    obtain peer port where p: "le_peer E = Some (peer, port)" using a no by (cases "le_peer E") auto
    note a = a [unfolded p option.case prod.case]
    have b: "\<not> (li_list_role L \<and> role_size (w_roles (lw_world X)) \<ge> int MAX_HANDOFF_BACKLOG)" using a no by (auto split: if_splits)
    note a = a [unfolded if_not_P [OF b]]
    obtain conf where c: "li_conf L = Some conf" using a by (cases "li_conf L") auto
    note a = a [unfolded c bind.bind_lunit]
    obtain lat where l: "accept_latency (sc_vars conf) (le_latency E) = Some lat" using a no by (cases "accept_latency (sc_vars conf) (le_latency E)") auto
    note a = a [unfolded l option.case]
    obtain sid where d: "le_streamid E = Some sid" using a no by (cases "le_streamid E") auto
    note a = a [unfolded d option.case]
    have e: "sid \<noteq> []" using a no by (auto split: if_splits)
    note a = a [unfolded if_not_P [OF e]]
    obtain kv where kv: "sls_parse_streamid (Some sid) = Some kv" using a by (cases "sls_parse_streamid (Some sid)") auto
    note a = a [unfolded kv bind.bind_lunit]
    obtain h m t where nm: "accepted_names kv = Some (h, m, t)" using a no by (cases "accepted_names kv") auto
    note a = a [unfolded nm option.case prod.case]
    let ?u = "get_uplive (take 2047 (h @ ''/'' @ m)) (lw_pub X)"
    have al: "\<not> \<not> connection_allowed L (?u \<noteq> [])" using a no by (auto split: if_splits)
    note a = a [unfolded if_not_P [OF al]]
    show ?thesis
    proof (cases "requested_key sid L")
      case None
      from a [unfolded None option.case] have "route_connection E s peer lat sid t (take 2047 (h @ ''/'' @ m)) ?u None L X = Some (L', X')" by auto
      thus ?thesis by (rule route_handled [OF _ assms(2) s refl])
    next
      case (Some key)
      from a [unfolded Some option.case] have "key_accept E s peer lat ?u key L X = Some (L', X')" by auto
      thus ?thesis by (rule key_accept_handled [OF _ assms(2) s])
    qed
  qed
  thus ?thesis using False by (simp add: s_def)
qed

end
