(* ===== verification/Listener_Correct.thy ===== *)
theory Listener_Correct
  imports Listener_Handler
begin

text \<open>What a listener guarantees over any sequence of its calls, interleaved with the workers and the other listeners.\<close>

section \<open>The tick\<close>

text \<open>The publishers a listener holds: known to nobody else, and not authorised yet.\<close>

definition all_held :: "conf_vars server \<Rightarrow> PendingPublisherConnection list \<Rightarrow> bool" where
  "all_held S ps \<longleftrightarrow> (\<forall>p \<in> set ps. \<exists>r. held_in S (pb_publisher p) r \<and> \<not> rl_http_passed r)"

lemma all_held_kept:
  assumes "all_held S ps" "keeps now A P S S'" "server_wf S" "pb_publisher ` set ps \<inter> P = {}"
  shows "all_held S' ps"
  unfolding all_held_def
proof
  fix p assume p: "p \<in> set ps"
  then obtain r where r: "held_in S (pb_publisher p) r" "\<not> rl_http_passed r" using assms(1) by (auto simp: all_held_def)
  have "pb_publisher p \<notin> P" using p assms(4) by auto
  from held_in_kept [OF assms(2,3) r(1) this] r(2) show "\<exists>r. held_in S' (pb_publisher p) r \<and> \<not> rl_http_passed r" by blast
qed

lemma filter_Cons_ex:
  assumes "\<exists>F. ks = filter F ps" "x \<notin> set ps"
  shows "\<exists>F. ks = filter F (x # ps)" "\<exists>F. x # ks = filter F (x # ps)"
proof -
  obtain F where f: "ks = filter F ps" using assms(1) by blast
  have "filter (\<lambda>y. F y \<and> y \<noteq> x) ps = filter F ps" "filter (\<lambda>y. F y \<or> y = x) ps = filter F ps"
    using assms(2) by (auto intro!: filter_cong)
  hence "ks = filter (\<lambda>y. F y \<and> y \<noteq> x) (x # ps)" "x # ks = filter (\<lambda>y. F y \<or> y = x) (x # ps)" by (simp_all add: f)
  thus "\<exists>F. ks = filter F (x # ps)" "\<exists>F. x # ks = filter F (x # ps)" by blast+
qed

lemma drive_publishers_keeps:
  "drive_publishers E ps L X = Some (kept, X') \<Longrightarrow> server_wf (lw_server X) \<Longrightarrow> all_held (lw_server X) ps \<Longrightarrow> distinct (map pb_publisher ps) \<Longrightarrow>
   keeps (le_now E) (authorised E url) (pb_publisher ` set ps) (lw_server X) (lw_server X') \<and> sockets z (lw_server X') = sockets z (lw_server X) \<and>
   all_held (lw_server X') kept \<and> (\<exists>F. kept = filter F ps)"
proof (induction ps arbitrary: X kept)
  case Nil
  thus ?case by (auto simp: keeps_refl all_held_def)
next
  case (Cons p ps)
  let ?A = "authorised E url" and ?S = "lw_server X" and ?I = "pb_publisher ` set (p # ps)"
  define i where "i = pb_publisher p"
  obtain r where h: "held_in ?S i r" "\<not> rl_http_passed r" using Cons.prems(3) by (auto simp: all_held_def i_def)
  have ni: "i \<notin> pb_publisher ` set ps" and np: "p \<notin> set ps" using Cons.prems(4) by (auto simp: i_def)
  have rest: "all_held ?S ps" "distinct (map pb_publisher ps)" using Cons.prems(3,4) by (simp_all add: all_held_def)
  obtain passed S1 where g: "on_role i (check_http_passed (le_role E i)) ?S = Some (passed, S1)"
    using Cons.prems(1) by (auto simp: Let_def i_def [symmetric] split: bind_splits)
  note a = Cons.prems(1) [unfolded drive_publishers.simps Let_def, folded i_def, unfolded g bind.bind_lunit prod.case]
  obtain r1 where h1: "held_in S1 i r1" "passed = SLS_OK \<longleftrightarrow> rl_http_passed r1" using gate_held(1) [OF g h(1)] by blast
  note k1 = gate_held(2) [OF g h(1), where A = ?A and now = "le_now E"] gate_held(3) [OF g h(1), where z = z]
  note wf1 = keepsD(1) [OF k1(1) Cons.prems(2)]
  have step: ?case if s: "keeps (le_now E) ?A {i} ?S (lw_server Y)" "sockets z (lw_server Y) = sockets z ?S"
      "drive_publishers E ps L Y = Some (ks, X')" "kept = ks \<or> kept = p # ks \<and> held_in (lw_server Y) i r1 \<and> \<not> rl_http_passed r1" for Y ks
  proof -
    have wf: "server_wf (lw_server Y)" by (rule keepsD(1) [OF s(1) Cons.prems(2)])
    have ah: "all_held (lw_server Y) ps" by (rule all_held_kept [OF rest(1) s(1) Cons.prems(2)]) (use ni in auto)
    note ih = Cons.IH [OF s(3) wf ah rest(2)]
    have k: "keeps (le_now E) ?A ?I ?S (lw_server X')"
      by (rule keeps_trans [OF keeps_mono [OF s(1)], where Q = "pb_publisher ` set ps"]) (use ih in \<open>auto simp: i_def\<close>)
    have "all_held (lw_server X') kept"
    proof (cases "kept = ks")
      case False
      hence hp: "kept = p # ks" "held_in (lw_server Y) i r1" "\<not> rl_http_passed r1" using s(4) by auto
      have "held_in (lw_server X') i r1" using held_in_kept [OF _ wf hp(2) ni] ih by blast
      thus ?thesis using hp ih by (auto simp: all_held_def i_def)
    qed (use ih in simp)
    moreover have "\<exists>F. kept = filter F (p # ps)" using s(4) ih filter_Cons_ex [OF _ np] by blast
    ultimately show ?case using k ih s(2) by simp
  qed
  show ?case
  proof (cases "passed = SLS_OK")
    case True
    have auth: "?A (pb_publisher p)" using gate_held(4) [OF g h(1) True] h(2) by (auto simp: authorised_def i_def)
    from a [unfolded if_P [OF True]] obtain q X2 where f: "finish_publisher_accept E p L (X\<lparr> lw_server := S1 \<rparr>) = Some (q, X2)"
        "drive_publishers E ps L X2 = Some (kept, X')" by (auto split: bind_splits)
    have h3: "held_in (lw_server (X\<lparr> lw_server := S1 \<rparr>)) (pb_publisher p) r1" using h1(1) by (simp add: i_def)
    note fin = finish_publisher_keeps(1) [OF f(1) h3, of ?A, OF auth] finish_publisher_keeps(2) [OF f(1) h3, of ?A, OF auth, where z = z]
    have "keeps (le_now E) ?A {i} ?S (lw_server X2)" by (rule keeps_trans [OF k1(1), where Q = "{i}"]) (use fin(1) in \<open>simp_all add: i_def\<close>)
    thus ?thesis using step [of X2 kept] fin(2) k1(2) f(2) by simp
  next
    case False
    obtain r3 where l: "load_role i S1 = Some r3" using load_own [of S1 i] h1(1) by (auto simp: held_in_def)
    note a = a [unfolded if_not_P [OF False] l bind.bind_lunit]
    show ?thesis
    proof (cases "rl_state r3 = SLS_RS_INVALID")
      case True
      from a [unfolded if_P [OF True]] obtain S2 where d: "discard_role (le_role E i) i S1 = Some S2"
          "drive_publishers E ps L (X\<lparr> lw_server := S2 \<rparr>) = Some (kept, X')" by (auto split: bind_splits)
      have "keeps (le_now E) ?A {i} ?S S2" by (rule keeps_trans [OF k1(1) discard_held(1) [OF d(1) h1(1)] disjI1])
      thus ?thesis using step [of "X\<lparr> lw_server := S2 \<rparr>" kept] d(2) discard_held(2) [OF d(1) h1(1)] k1(2) by simp
    next
      case held: False
      from a [unfolded if_not_P [OF held]] obtain ks where d: "drive_publishers E ps L (X\<lparr> lw_server := S1 \<rparr>) = Some (ks, X')" "kept = p # ks"
        by (auto split: bind_splits)
      thus ?thesis using step [of "X\<lparr> lw_server := S1 \<rparr>" ks] k1 h1 False by simp
    qed
  qed
qed

text \<open>The sockets of the players a listener holds.\<close>

definition held_sockets :: "int \<Rightarrow> PendingPlayerConnection list \<Rightarrow> nat" where
  "held_sockets z ps = length (filter (\<lambda>p. s_fd (pp_srt p) = z) ps)"

lemma held_sockets_simps [simp]: "held_sockets z [] = 0" "held_sockets z (p # ps) = (if z = s_fd (pp_srt p) then 1 else 0) + held_sockets z ps"
  "held_sockets z (ps @ qs) = held_sockets z ps + held_sockets z qs"
  by (auto simp: held_sockets_def)

lemma held_finish_keeps:
  assumes "finish_held_player E p t L X = Some (L', X')" "server_wf (lw_server X)" "s_fd (pp_srt p) \<noteq> 0"
  shows "keeps now A {} (lw_server X) (lw_server X')" "same_held L L'"
    "sockets z (lw_server X') = sockets z (lw_server X) + (if z = s_fd (pp_srt p) then 1 else 0)"
proof -
  obtain kv where kv: "sls_parse_streamid (Some (take 1023 t)) = Some kv" using assms(1) by (auto simp: finish_held_player_def split: bind_splits)
  note a = assms(1) [unfolded finish_held_player_def kv bind.bind_lunit]
  have "keeps now A {} (lw_server X) (lw_server X') \<and> same_held L L' \<and>
      sockets z (lw_server X') = sockets z (lw_server X) + (if z = s_fd (pp_srt p) then 1 else 0)"
  proof (cases "Some (L, refuse (pp_srt p) X) = Some (L', X')")
    case True
    thus ?thesis using refuse_keeps(1) [where X = X and s = "pp_srt p" and P = "{}"] refuse_keeps(2) [OF assms(3), where X = X] same_held_steps(1) [of L] by simp
  next
    case False
    then obtain r where "finish_player_accept E (pp_srt p) (pp_app_uplive p) r t (Some (pp_player_key p)) (pp_peer_name p) (pp_final_latency p) L X = Some (L', X')"
      using a by (cases "names_of_sid kv") (auto split: if_splits)
    thus ?thesis using finish_player_keeps [OF _ assms(2,3)] by simp
  qed
  thus "keeps now A {} (lw_server X) (lw_server X')" "same_held L L'"
    "sockets z (lw_server X') = sockets z (lw_server X) + (if z = s_fd (pp_srt p) then 1 else 0)" by auto
qed

lemma drive_players_keeps:
  "drive_players E ps L X = Some (kept, L', X') \<Longrightarrow> server_wf (lw_server X) \<Longrightarrow> \<forall>p \<in> set ps. s_fd (pp_srt p) \<noteq> 0 \<Longrightarrow>
   keeps now A {} (lw_server X) (lw_server X') \<and> same_held L L' \<and>
   sockets z (lw_server X') + held_sockets z kept = sockets z (lw_server X) + held_sockets z ps \<and>
   set kept \<subseteq> set ps \<and> length kept \<le> length ps \<and> (\<forall>p \<in> set kept. le_steady E < pp_deadline p)"
proof (induction ps arbitrary: L X kept)
  case Nil
  thus ?case by (auto simp: keeps_refl same_held_steps)
next
  case (Cons p ps)
  let ?S = "lw_server X"
  have nz: "s_fd (pp_srt p) \<noteq> 0" "\<forall>p \<in> set ps. s_fd (pp_srt p) \<noteq> 0" using Cons.prems(3) by auto
  have used: ?case if s: "keeps now A {} ?S (lw_server Y)" "same_held L M" "sockets z (lw_server Y) = sockets z ?S + (if z = s_fd (pp_srt p) then 1 else 0)"
      "drive_players E ps M Y = Some (kept, L', X')" for M Y
  proof -
    note ih = Cons.IH [OF s(4) keepsD(1) [OF s(1) Cons.prems(2)] nz(2)]
    have "keeps now A {} ?S (lw_server X')" by (rule keeps_trans [OF s(1), where Q = "{}"]) (use ih in simp_all)
    thus ?case using ih s(2,3) same_held_steps(2) by auto
  qed
  have refused: ?case if "drive_players E ps L (refuse (pp_srt p) X) = Some (kept, L', X')"
    by (rule used [OF refuse_keeps(1) same_held_steps(1) refuse_keeps(2) [OF nz(1)] that])
  define found where "found = (case map_of (ka_cache L) (pp_player_key p) of None \<Rightarrow> None
      | Some e \<Rightarrow> if le_steady E < pk_expiry_time e then Some e else None)"
  note a = Cons.prems(1) [unfolded drive_players.simps Let_def, folded found_def]
  show ?case
  proof (cases found)
    case None
    show ?thesis
    proof (cases "le_steady E \<ge> pp_deadline p")
      case True
      thus ?thesis using a None refused by simp
    next
      case False
      then obtain ks where d: "drive_players E ps L X = Some (ks, L', X')" "kept = p # ks" using a None by (auto split: bind_splits)
      show ?thesis using Cons.IH [OF d(1) Cons.prems(2) nz(2)] d(2) False by auto
    qed
  next
    case (Some e)
    show ?thesis
    proof (cases "pk_is_valid e")
      case True
      obtain M Y where d: "finish_held_player E p (pk_resolved_stream_id e) L X = Some (M, Y)" "drive_players E ps M Y = Some (kept, L', X')"
        using a Some True by (auto split: bind_splits)
      note f = held_finish_keeps [OF d(1) Cons.prems(2) nz(1)]
      show ?thesis by (rule used [OF f(1,2,3) d(2)])
    next
      case False
      thus ?thesis using a Some refused by simp
    qed
  qed
qed

text \<open>The clean-ups at the start of a tick touch neither of the lists.\<close>

lemma sweep_more: "key_auth.more (sweep_player_key_cache t A) = key_auth.more A"
  by (simp add: sweep_player_key_cache_def)

lemma process_more: "key_auth.more (process_player_key_response parse t key resp A) = key_auth.more A"
  by (simp add: process_player_key_response_def cache_key_def cache_negative_def split: option.split json.split)

lemma drain_loop_more: "key_auth.more (snd (drain_loop parse http t ps A)) = key_auth.more A"
  by (induction ps arbitrary: A) (auto simp: process_more split: option.split prod.split, metis snd_conv)

lemma drain_more: "key_auth.more (drain_player_key_validations parse http t A) = key_auth.more A"
  using drain_loop_more [of parse http t "ka_pending A" A] by (auto simp: drain_player_key_validations_def split: prod.split)

lemma tick_lists:
  assumes "M = drain_player_key_validations parse http t (sweep_player_key_cache t (cleanupExpiredStreamOverrides t L))"
  shows "li_pending_player_connections M = li_pending_player_connections L" "li_pending_publisher_connections M = li_pending_publisher_connections L"
    "li_http_url_role M = li_http_url_role L"
proof -
  have "key_auth.more M = key_auth.more (cleanupExpiredStreamOverrides t L)" by (simp add: assms drain_more sweep_more)
  note f = more_frame [OF this]
  show "li_pending_player_connections M = li_pending_player_connections L" "li_pending_publisher_connections M = li_pending_publisher_connections L"
    "li_http_url_role M = li_http_url_role L" using f by (simp_all add: cleanupExpiredStreamOverrides_def)
qed

text \<open>A tick of a listener.\<close>

definition ticked :: "listener_env \<Rightarrow> CSLSListener \<Rightarrow> listener_world \<Rightarrow> CSLSListener \<Rightarrow> listener_world \<Rightarrow> bool" where
  "ticked E L X L' X' \<longleftrightarrow>
     keeps (le_now E) (authorised E (li_http_url_role L)) (pb_publisher ` set (li_pending_publisher_connections L)) (lw_server X) (lw_server X') \<and>
     (\<forall>z. sockets z (lw_server X') + held_sockets z (li_pending_player_connections L') =
          sockets z (lw_server X) + held_sockets z (li_pending_player_connections L)) \<and>
     all_held (lw_server X') (li_pending_publisher_connections L') \<and>
     (\<exists>F. li_pending_publisher_connections L' = filter F (li_pending_publisher_connections L)) \<and>
     set (li_pending_player_connections L') \<subseteq> set (li_pending_player_connections L) \<and>
     length (li_pending_player_connections L') \<le> length (li_pending_player_connections L) \<and>
     (li_srt L \<noteq> None \<and> li_state L \<noteq> SLS_RS_INVALID \<longrightarrow> (\<forall>p \<in> set (li_pending_player_connections L'). le_steady E < pp_deadline p))"

lemma tick_ticked:
  assumes t: "listener_tick E L X = Some (L', X')" "server_wf (lw_server X)" "all_held (lw_server X) (li_pending_publisher_connections L)"
    "distinct (map pb_publisher (li_pending_publisher_connections L))" "\<forall>p \<in> set (li_pending_player_connections L). s_fd (pp_srt p) \<noteq> 0"
  shows "ticked E L X L' X'"
proof (cases "li_srt L = None \<or> li_state L = SLS_RS_INVALID")
  case True
  have "\<exists>F. xs = filter F xs" for xs :: "PendingPublisherConnection list" by (rule exI [of _ "\<lambda>x. True"]) simp
  thus ?thesis using True t(1,3) keeps_refl by (auto simp: listener_tick_def ticked_def)
next
  case False
  define M where "M = drain_player_key_validations (le_json E) (le_http E) (le_steady E)
      (sweep_player_key_cache (le_steady E) (cleanupExpiredStreamOverrides (le_steady E) L))"
  have m: "li_pending_player_connections M = li_pending_player_connections L" "li_pending_publisher_connections M = li_pending_publisher_connections L"
    using tick_lists [OF M_def] by simp_all
  note a = t(1) [unfolded listener_tick_def Let_def if_not_P [OF False], folded M_def]
  obtain kept X1 where d: "drive_publishers E (li_pending_publisher_connections L) M X = Some (kept, X1)"
      "drive_pending_player_connections E (M\<lparr> li_pending_publisher_connections := kept \<rparr>) X1 = Some (L', X')"
    using a by (auto simp: drive_pending_publisher_connections_def m split: bind_splits)
  let ?M = "M\<lparr> li_pending_publisher_connections := kept \<rparr>"
  obtain pl L2 where e: "drive_players E (li_pending_player_connections L) ?M X1 = Some (pl, L2, X')" "L' = L2\<lparr> li_pending_player_connections := pl \<rparr>"
    using d(2) by (auto simp: drive_pending_player_connections_def m split: bind_splits)
  let ?A = "authorised E (li_http_url_role L)"
  note 1 = drive_publishers_keeps [OF d(1) t(2-4), where url = "li_http_url_role L"]
  have k1: "keeps (le_now E) ?A (pb_publisher ` set (li_pending_publisher_connections L)) (lw_server X) (lw_server X1)" using 1 by blast
  note wf = keepsD(1) [OF k1 t(2)]
  note 2 = drive_players_keeps [OF e(1) wf t(5), where now = "le_now E" and A = ?A]
  have k2: "keeps (le_now E) ?A {} (lw_server X1) (lw_server X')" using 2 by blast
  have held: "all_held (lw_server X') kept" by (rule all_held_kept [OF _ k2 wf]) (use 1 in auto)
  have pubs: "li_pending_publisher_connections L' = kept" using 2 e(2) by (simp add: same_held_def)
  have pls: "li_pending_player_connections L' = pl" by (simp add: e(2))
  have "keeps (le_now E) ?A (pb_publisher ` set (li_pending_publisher_connections L)) (lw_server X) (lw_server X')"
    by (rule keeps_trans [OF k1 k2]) simp
  thus ?thesis unfolding ticked_def pubs pls using held 1 2 by auto
qed

section \<open>All listeners of a server\<close>

abbreviation held_publishers :: "CSLSListener \<Rightarrow> role_id set" where
  "held_publishers L \<equiv> pb_publisher ` set (li_pending_publisher_connections L)"

definition listener_ok :: "conf_vars server \<Rightarrow> CSLSListener \<Rightarrow> bool" where
  "listener_ok S L \<longleftrightarrow> all_held S (li_pending_publisher_connections L) \<and>
     distinct (map pb_publisher (li_pending_publisher_connections L)) \<and> distinct (map pb_key_stream_name (li_pending_publisher_connections L)) \<and>
     length (li_pending_publisher_connections L) \<le> MAX_PENDING_PUBLISHER_CONNECTIONS \<and>
     length (li_pending_player_connections L) \<le> MAX_PENDING_PLAYER_CONNECTIONS \<and>
     (\<forall>p \<in> set (li_pending_player_connections L). s_fd (pp_srt p) \<noteq> 0)"

definition listeners_ok :: "CSLSListener list \<times> listener_world \<Rightarrow> bool" where
  "listeners_ok \<equiv> \<lambda>(Ls, X). server_wf (lw_server X) \<and> (\<forall>L \<in> set Ls. listener_ok (lw_server X) L) \<and>
     (\<forall>k < length Ls. \<forall>l < length Ls. k \<noteq> l \<longrightarrow> held_publishers (Ls ! k) \<inter> held_publishers (Ls ! l) = {})"

definition listeners_fresh :: "CSLSListener list \<times> listener_world \<Rightarrow> bool" where
  "listeners_fresh \<equiv> \<lambda>(Ls, X). server_wf (lw_server X) \<and>
     (\<forall>L \<in> set Ls. li_pending_publisher_connections L = [] \<and> li_pending_player_connections L = [])"

text \<open>One call of a listener: its handler, for a socket number libsrt can return, or its tick.\<close>

inductive listener_call :: "listener_env \<Rightarrow> CSLSListener \<Rightarrow> listener_world \<Rightarrow> CSLSListener \<Rightarrow> listener_world \<Rightarrow> bool" for E where
  Accept: "listener_handler E L X = Some (n, L', X') \<Longrightarrow> le_accept E \<noteq> 0 \<Longrightarrow> listener_call E L X L' X'"
| Tick: "listener_tick E L X = Some (L', X') \<Longrightarrow> listener_call E L X L' X'"

text \<open>The rest of the server works on roles no listener holds.\<close>

inductive listeners_step :: "CSLSListener list \<times> listener_world \<Rightarrow> CSLSListener list \<times> listener_world \<Rightarrow> bool" where
  Call: "k < length Ls \<Longrightarrow> listener_call E (Ls ! k) X L' X' \<Longrightarrow> listeners_step (Ls, X) (Ls[k := L'], X')"
| Others: "server_wf (lw_server X') \<Longrightarrow>
    \<forall>L \<in> set Ls. \<forall>i \<in> held_publishers L. \<forall>r. held_in (lw_server X) i r \<longrightarrow> held_in (lw_server X') i r \<Longrightarrow> listeners_step (Ls, X) (Ls, X')"

inductive_cases listeners_stepE: "listeners_step (Ls, X) (Ls', X')"

text \<open>What one call keeps, in one form for both calls.\<close>

definition called :: "listener_env \<Rightarrow> CSLSListener \<Rightarrow> listener_world \<Rightarrow> CSLSListener \<Rightarrow> listener_world \<Rightarrow> bool" where
  "called E L X L' X' \<longleftrightarrow>
     keeps (le_now E) (authorised E (li_http_url_role L)) (held_publishers L) (lw_server X) (lw_server X') \<and>
     listener_ok (lw_server X') L' \<and> held_publishers L' \<subseteq> held_publishers L \<union> {w_next (lw_world X)..}"

lemma filter_distinct: "distinct (map f xs) \<Longrightarrow> distinct (map f (filter F xs))"
  by (induction xs) auto

lemma all_held_below: "all_held S ps \<Longrightarrow> p \<in> set ps \<Longrightarrow> pb_publisher p < w_next (sv_world S)"
  by (auto simp: all_held_def held_in_def)

lemma ticked_called:
  assumes "ticked E L X L' X'" "listener_ok (lw_server X) L"
  shows "called E L X L' X'"
proof -
  let ?ps = "li_pending_publisher_connections L" and ?qs = "li_pending_publisher_connections L'"
  obtain F where f: "?qs = filter F ?ps" using assms(1) by (auto simp: ticked_def)
  have l: "length (filter F ?ps) \<le> length ?ps" by simp
  have "distinct (map pb_publisher ?qs)" "distinct (map pb_key_stream_name ?qs)"
    using assms(2) unfolding f listener_ok_def by (auto intro: filter_distinct)
  moreover have "length ?qs \<le> MAX_PENDING_PUBLISHER_CONNECTIONS" using assms(2) order_trans [OF l] unfolding f listener_ok_def by blast
  moreover have "held_publishers L' \<subseteq> held_publishers L" using f by auto
  ultimately show ?thesis using assms unfolding called_def ticked_def listener_ok_def by auto
qed

lemma handled_called:
  assumes h: "handled E s L X L' X'" and ok: "listener_ok (lw_server X) L" and wf: "server_wf (lw_server X)" and s: "s_fd s \<noteq> 0"
  shows "called E L X L' X'"
proof -
  let ?ps = "li_pending_publisher_connections L" and ?qs = "li_pending_publisher_connections L'"
  have k: "keeps (le_now E) (authorised E (li_http_url_role L)) {} (lw_server X) (lw_server X')" using h by (simp add: handled_def)
  have ah: "all_held (lw_server X') ?ps" by (rule all_held_kept [OF _ k wf]) (use ok in \<open>auto simp: listener_ok_def\<close>)
  have pubs: "all_held (lw_server X') ?qs \<and> distinct (map pb_publisher ?qs) \<and> distinct (map pb_key_stream_name ?qs) \<and>
      length ?qs \<le> MAX_PENDING_PUBLISHER_CONNECTIONS \<and> held_publishers L' \<subseteq> held_publishers L \<union> {w_next (lw_world X)..}"
  proof (cases "?qs = ?ps")
    case True
    thus ?thesis using ok ah by (simp add: listener_ok_def)
  next
    case False
    then obtain p r where p: "?qs = ?ps @ [p]" "length ?ps < MAX_PENDING_PUBLISHER_CONNECTIONS" "pb_key_stream_name p \<notin> pb_key_stream_name ` set ?ps"
        "w_next (lw_world X) \<le> pb_publisher p" "held_in (lw_server X') (pb_publisher p) r" "\<not> rl_http_passed r"
      using h by (auto simp: handled_def holds_more_def)
    have "pb_publisher q < w_next (lw_world X)" if "q \<in> set ?ps" for q using all_held_below that ok by (auto simp: listener_ok_def)
    hence "pb_publisher p \<notin> held_publishers L" using p(4) by force
    thus ?thesis using p ok ah by (auto simp: listener_ok_def all_held_def)
  qed
  moreover have "length (li_pending_player_connections L') \<le> MAX_PENDING_PLAYER_CONNECTIONS \<and> (\<forall>p \<in> set (li_pending_player_connections L'). s_fd (pp_srt p) \<noteq> 0)"
    using h ok s by (auto simp: handled_def listener_ok_def)
  moreover have "keeps (le_now E) (authorised E (li_http_url_role L)) (held_publishers L) (lw_server X) (lw_server X')" using keeps_mono [OF k] by simp
  ultimately show ?thesis by (simp add: called_def listener_ok_def)
qed

lemma unchanged_called: "listener_ok (lw_server X) L \<Longrightarrow> called E L X L X"
  using keeps_refl by (auto simp: called_def)

lemma call_called:
  assumes "listener_call E L X L' X'" "listener_ok (lw_server X) L" "server_wf (lw_server X)"
  shows "called E L X L' X'"
  using assms(1)
proof cases
  case (Accept n)
  show ?thesis
  proof (cases "le_accept E < 0")
    case True
    thus ?thesis using handler_handled [OF Accept(1) assms(3) Accept(2)] unchanged_called [OF assms(2)] by simp
  next
    case False
    hence "handled E \<lparr> s_fd = le_accept E, s_eid = 0 \<rparr> L X L' X'" using handler_handled [OF Accept(1) assms(3) Accept(2)] by simp
    thus ?thesis by (rule handled_called [OF _ assms(2,3)]) (simp add: Accept(2))
  qed
next
  case Tick
  show ?thesis by (rule ticked_called [OF tick_ticked [OF Tick assms(3)] assms(2)]) (use assms(2) in \<open>simp_all add: listener_ok_def\<close>)
qed

lemma listener_ok_later:
  assumes "listener_ok S L" "all_held S' (li_pending_publisher_connections L)"
  shows "listener_ok S' L"
  using assms by (simp add: listener_ok_def)

lemma call_keeps_ok:
  assumes ok: "listeners_ok (Ls, X)" and k: "k < length Ls" and c: "listener_call E (Ls ! k) X L' X'"
  shows "listeners_ok (Ls[k := L'], X')"
proof -
  have wf: "server_wf (lw_server X)" and each: "\<And>l. l < length Ls \<Longrightarrow> listener_ok (lw_server X) (Ls ! l)"
    and apart: "\<And>i j. i < length Ls \<Longrightarrow> j < length Ls \<Longrightarrow> i \<noteq> j \<Longrightarrow> held_publishers (Ls ! i) \<inter> held_publishers (Ls ! j) = {}"
    using ok by (auto simp: listeners_ok_def)
  have d: "keeps (le_now E) (authorised E (li_http_url_role (Ls ! k))) (held_publishers (Ls ! k)) (lw_server X) (lw_server X')"
      "listener_ok (lw_server X') L'" "held_publishers L' \<subseteq> held_publishers (Ls ! k) \<union> {w_next (lw_world X)..}"
    using call_called [OF c each [OF k] wf] by (auto simp: called_def)
  have other: "listener_ok (lw_server X') (Ls ! l)" if l: "l < length Ls" "l \<noteq> k" for l
    by (rule listener_ok_later [OF each [OF l(1)] all_held_kept [OF _ d(1) wf apart [OF l(1) k l(2)]]])
       (use each [OF l(1)] in \<open>simp add: listener_ok_def\<close>)
  have below: "held_publishers (Ls ! l) \<subseteq> {..<w_next (lw_world X)}" if "l < length Ls" for l
    using each [OF that] all_held_below by (auto simp: listener_ok_def)
  have new: "held_publishers L' \<inter> held_publishers (Ls ! l) = {}" if l: "l < length Ls" "l \<noteq> k" for l
  proof -
    have "held_publishers (Ls ! k) \<inter> held_publishers (Ls ! l) = {}" using apart [OF k l(1)] l(2) by simp
    moreover have "{w_next (lw_world X)..} \<inter> held_publishers (Ls ! l) = {}" using below [OF l(1)] by force
    ultimately show ?thesis using d(3) by blast
  qed
  have "listener_ok (lw_server X') ((Ls[k := L']) ! l)" if "l < length Ls" for l using other d(2) that by (cases "l = k") simp_all
  moreover have "held_publishers ((Ls[k := L']) ! i) \<inter> held_publishers ((Ls[k := L']) ! j) = {}" if "i < length Ls" "j < length Ls" "i \<noteq> j" for i j
    using that new [of i] new [of j] apart [of i j] by (cases "i = k"; cases "j = k") (simp_all add: Int_commute)
  ultimately show ?thesis using keepsD(1) [OF d(1) wf] by (auto simp: listeners_ok_def in_set_conv_nth)
qed

interpretation listeners: component listeners_fresh listeners_step listeners_ok
proof
  fix s assume "listeners_fresh s"
  thus "listeners_ok s" by (cases s) (auto simp: listeners_fresh_def listeners_ok_def listener_ok_def all_held_def)
next
  fix s t assume ok: "listeners_ok s" and st: "listeners_step s t"
  show "listeners_ok t" using st ok
  proof cases
    case (Call k Ls E X L' X')
    thus ?thesis using call_keeps_ok ok by simp
  next
    case (Others X' Ls X)
    have "listener_ok (lw_server X') L" if l: "L \<in> set Ls" for L
    proof (rule listener_ok_later)
      show "listener_ok (lw_server X) L" using ok l Others(1) by (simp add: listeners_ok_def)
      hence "all_held (lw_server X) (li_pending_publisher_connections L)" by (simp add: listener_ok_def)
      thus "all_held (lw_server X') (li_pending_publisher_connections L)" using Others(4) l unfolding all_held_def by blast
    qed
    thus ?thesis using ok Others(1-3) by (simp add: listeners_ok_def)
  qed
qed

end
