(* ===== verification/Listener_Safety.thy ===== *)
theory Listener_Safety
  imports Listener_Correct
begin

text \<open>The properties of the listeners of a server, over any sequence of their calls.\<close>

section \<open>Progress\<close>

text \<open>An authorised publisher of a free stream is published.\<close>

lemma on_role_own:
  assumes "map_of (w_relays (sv_world S)) i = None" "map_of (sv_roles S) i = Some r" "f r (sv_world S) = Some (x, r1, W1)"
  shows "on_role i f S = Some (x, S\<lparr> sv_roles := AList.update i r1 (sv_roles S), sv_world := W1 \<rparr>)"
  using assms by (simp add: on_role_def load_own)

lemma finish_publishes:
  assumes h: "map_of (sv_roles (lw_server X)) (pb_publisher p) = Some r" "map_of (w_relays (lw_world X)) (pb_publisher p) = None"
    and free: "get_publisher (pb_key_stream_name p) (lw_pub X) = None"
    and l: "li_list_role L" "li_map_pusher L \<Longrightarrow> get_relay_conf (pb_app_uplive p) (relay_table False X) = None"
  shows "\<exists>X'. finish_publisher_accept E p L X = Some (SLS_OK, X') \<and> get_publisher (pb_key_stream_name p) (lw_pub X') = Some (pb_publisher p) \<and>
     w_roles (lw_world X') = w_roles (lw_world X) @ [pb_publisher p]"
proof -
  define i where "i = pb_publisher p"
  define key where "key = pb_key_stream_name p"
  obtain r1 W1 where b: "bind_publisher key L r (lw_world X) = (r1, W1)" by fastforce
  note w = bind_own [OF b]
  define S1 where "S1 = (lw_server X)\<lparr> sv_roles := AList.update i r1 (sv_roles (lw_server X)), sv_world := W1 \<rparr>"
  have o: "on_role i (\<lambda>r W. Some ((), bind_publisher key L r W)) (lw_server X) = Some ((), S1)"
    using on_role_own [of "lw_server X" i r "\<lambda>r W. Some ((), bind_publisher key L r W)"] h b by (simp add: i_def S1_def)
  have s: "set_push_2_publisher key i (w_pub (sv_world S1)) =
      (SLS_OK, (lw_pub X)\<lparr> m_map_push_2_publisher := std_put key i (m_map_push_2_publisher (lw_pub X)) \<rparr>)" (is "_ = (_, ?P)")
    using free w(2) by (simp add: S1_def set_push_2_publisher_def get_publisher_def key_def)
  define S2 where "S2 = S1\<lparr> sv_world := (sv_world S1)\<lparr> w_pub := ?P, w_roles := w_roles (lw_world X) @ [i] \<rparr> \<rparr>"
  have u: "push_role L i (S1\<lparr> sv_world := (sv_world S1)\<lparr> w_pub := ?P \<rparr> \<rparr>) = Some S2"
    using l(1) w(4) by (simp add: push_role_def role_push_def S1_def S2_def)
  have t: "get_relay_conf (pb_app_uplive p) (relay_table False (X\<lparr> lw_server := S2 \<rparr>)) = get_relay_conf (pb_app_uplive p) (relay_table False X)"
    by (simp add: relay_table_def get_relay_conf_def)
  have "finish_publisher_accept E p L X = Some (SLS_OK, X\<lparr> lw_server := S2 \<rparr>)"
    unfolding finish_publisher_accept_def Let_def i_def [symmetric] key_def [symmetric]
    using free o s u l(2) t by (simp add: key_def [symmetric] start_relay_def add_relay_manager_def)
  thus ?thesis by (simp add: S2_def get_publisher_def key_def i_def std_put_lookup)
qed

text \<open>Without a web hook a publisher that is let in by the address rules is published in the same call.\<close>

lemma no_hook_role:
  assumes "li_http_url_role L = []"
  shows "rl_http_passed (new_publisher E i s ca lat L)" "rl_http_url (new_publisher E i s ca lat L) = []"
proof -
  have b: "rl_http_url (snd (init_bitrate_limiter n a b c r)) = rl_http_url r" for n a b c r
    by (simp add: init_bitrate_limiter_def Let_def split: prod.split)
  show "rl_http_url (new_publisher E i s ca lat L) = []"
    using assms by (simp add: new_publisher_def Let_def set_http_url_def set_first_data_timeout_def publisher_init_def role_init_def set_srt_def role_new_def b split: option.split)
qed (simp add: new_publisher_fields assms)

lemma publisher_accepted:
  assumes url: "li_http_url_role L = []" and ca: "get_ca app (lw_pub X) = Some ca" "\<not> acl_refuses (acl_publish (var_acl ''ip_actions'' ca)) (le_peer_raw E (s_fd s))"
    and free: "get_publisher (stream_key_of app stream) (lw_pub X) = None" and wf: "server_wf (lw_server X)"
    and l: "li_list_role L" "li_map_pusher L \<Longrightarrow> get_relay_conf app (relay_table False X) = None"
  shows "\<exists>X'. publisher_accept E s app stream lat L X = Some (L, X') \<and> get_publisher (stream_key_of app stream) (lw_pub X') = Some (w_next (lw_world X)) \<and>
    w_roles (lw_world X') = w_roles (lw_world X) @ [w_next (lw_world X)]"
proof -
  define i where "i = w_next (lw_world X)"
  define r where "r = new_publisher E i s ca lat L"
  define S0 where "S0 = add_role r (lw_server X)"
  have own: "map_of (w_relays (sv_world S0)) i = None" "map_of (sv_roles S0) i = Some r"
    using wf new_publisher_fields(1) by (auto simp: S0_def add_role_def map_of_update r_def i_def server_wf_def relay_wf_def)
  note n = no_hook_role [OF url, of E i s ca lat, folded r_def]
  let ?S = "\<lambda>S. S\<lparr> sv_roles := AList.update i r (sv_roles S), sv_world := sv_world S \<rparr>"
  have c: "on_role i (\<lambda>r W. Some (on_connect (le_role E i) r W)) S0 = Some (SLS_OK, ?S S0)"
    by (rule on_role_own [OF own]) (simp add: on_connect_def n)
  have own1: "map_of (w_relays (sv_world (?S S0))) i = None" "map_of (sv_roles (?S S0)) i = Some r" using own by (simp_all add: map_of_update)
  have g: "on_role i (check_http_passed (le_role E i)) (?S S0) = Some (SLS_OK, ?S (?S S0))"
    by (rule on_role_own [OF own1]) (simp add: check_http_passed_def n)
  define Y where "Y = X\<lparr> lw_server := ?S (?S S0) \<rparr>"
  define p where "p = \<lparr> pb_publisher = i, pb_app_uplive = app, pb_stream_name = stream, pb_key_stream_name = stream_key_of app stream \<rparr>"
  have y: "sv_world (lw_server Y) = (lw_world X)\<lparr> w_next := Suc i \<rparr>" "sv_table (lw_server Y) = sv_table (lw_server X)" "lw_push_info Y = lw_push_info X"
    by (simp_all add: Y_def S0_def add_role_def i_def)
  have "\<exists>X'. finish_publisher_accept E p L Y = Some (SLS_OK, X') \<and> get_publisher (pb_key_stream_name p) (lw_pub X') = Some (pb_publisher p) \<and>
     w_roles (lw_world X') = w_roles (lw_world Y) @ [pb_publisher p]"
  proof (rule finish_publishes)
    show "map_of (sv_roles (lw_server Y)) (pb_publisher p) = Some r" "map_of (w_relays (lw_world Y)) (pb_publisher p) = None"
      using own1 by (simp_all add: Y_def p_def map_of_update)
    show "get_publisher (pb_key_stream_name p) (lw_pub Y) = None" using free by (simp add: y p_def)
    show "get_relay_conf (pb_app_uplive p) (relay_table False Y) = None" if "li_map_pusher L"
      using l(2) [OF that] by (simp add: relay_table_def get_relay_conf_def y p_def)
  qed (rule l(1))
  then obtain X' where f: "finish_publisher_accept E p L Y = Some (SLS_OK, X')" "get_publisher (stream_key_of app stream) (lw_pub X') = Some i"
      "w_roles (lw_world X') = w_roles (lw_world X) @ [i]" by (auto simp: p_def y)
  have "settle_publisher E p L (X\<lparr> lw_server := ?S S0 \<rparr>) = Some (L, X')"
    using g f(1) by (simp add: settle_publisher_def p_def Y_def)
  hence "dispatch_publisher E s ca app stream lat L X = Some (L, X')"
    unfolding dispatch_publisher_def Let_def i_def [symmetric] r_def [symmetric] S0_def [symmetric] c by (simp add: p_def)
  thus ?thesis using f(2,3) ca url by (auto simp: publisher_accept_def i_def)
qed

text \<open>The same for a whole connection without a player key.\<close>

lemma handler_publishes:
  assumes e: "0 < le_accept E" "le_peer E = Some (peer, port)" "role_size (w_roles (lw_world X)) < int MAX_HANDOFF_BACKLOG" "li_conf L = Some conf"
      "accept_latency (sc_vars conf) (le_latency E) = Some lat" "le_streamid E = Some sid" "sid \<noteq> []" "sls_parse_streamid (Some sid) = Some kv"
      "accepted_names kv = Some (h, a, t)" "get_uplive (take 2047 (h @ ''/'' @ a)) (lw_pub X) = []" "connection_allowed L False" "requested_key sid L = None"
    and url: "li_http_url_role L = []" and ca: "get_ca (take 2047 (h @ ''/'' @ a)) (lw_pub X) = Some ca"
      "\<not> acl_refuses (acl_publish (var_acl ''ip_actions'' ca)) (le_peer_raw E (le_accept E))"
    and free: "get_publisher (stream_key_of (take 2047 (h @ ''/'' @ a)) t) (lw_pub X) = None" and wf: "server_wf (lw_server X)"
    and l: "li_list_role L" "li_map_pusher L \<Longrightarrow> get_relay_conf (take 2047 (h @ ''/'' @ a)) (relay_table False X) = None"
  shows "\<exists>X'. listener_handler E L X = Some (1, L, X') \<and>
    get_publisher (stream_key_of (take 2047 (h @ ''/'' @ a)) t) (lw_pub X') = Some (w_next (lw_world X)) \<and>
    w_roles (lw_world X') = w_roles (lw_world X) @ [w_next (lw_world X)]"
proof -
  let ?s = "\<lparr> s_fd = le_accept E, s_eid = 0 \<rparr>"
  obtain X' where p: "publisher_accept E ?s (take 2047 (h @ ''/'' @ a)) t lat L X = Some (L, X')"
      "get_publisher (stream_key_of (take 2047 (h @ ''/'' @ a)) t) (lw_pub X') = Some (w_next (lw_world X))"
      "w_roles (lw_world X') = w_roles (lw_world X) @ [w_next (lw_world X)]"
    using publisher_accepted [OF url ca(1) _ free wf l, where s = ?s and lat = lat and E = E] ca(2) by auto
  have "listener_handler E L X = Some (1, L, X')"
    unfolding listener_handler_def using e p(1) by (simp add: route_connection_def)
  thus ?thesis using p(2,3) by blast
qed

section \<open>A run\<close>

definition demo_conf :: conf_vars where
  "demo_conf = []"

definition demo_listener :: CSLSListener where
  "demo_listener = listener_new\<lparr> li_conf := Some \<lparr> sc_vars = [], sc_apps = [] \<rparr>, li_srt := Some \<lparr> s_fd = 3, s_eid = 1 \<rparr>, li_state := SLS_RS_INITED,
     li_list_role := True, li_is_legacy_listener := True \<rparr>"

definition quiet_world :: "conf_vars role_world" where
  "quiet_world = \<lparr> w_pub = map_publisher_new\<lparr> m_map_uplive_2_conf := [(''u/a'', demo_conf)] \<rparr>, w_data = set_caps 0 1 map_data_init, w_roles = [], w_relays = [], w_next = 0, w_calls = [],
     rw_cache = cache_new 0, rw_posts = [], rw_snapshot = (\<lambda>i. new_snapshot), rw_trace = [] \<rparr>"

definition quiet_server :: listener_world where
  "quiet_server = \<lparr> lw_server = \<lparr> sv_roles = [], sv_table = [], sv_world = quiet_world \<rparr>, lw_pull_info = [], lw_push_info = [],
     lw_registry = [], lw_next_manager = 0, lw_next_snapshot = 0 \<rparr>"

definition demo_call :: "time_ms \<Rightarrow> int \<Rightarrow> (nat \<Rightarrow> AsyncHttpResponse option) \<Rightarrow> listener_env" where
  "demo_call now fd http = \<lparr> le_now = now, le_steady = now * 1000000, le_accept = fd, le_peer = Some (''10.0.0.1'', 9), le_latency = (0, 120, 4),
     le_streamid = Some ''u/a/x'', le_peer_raw = (\<lambda>fd. Some (AF_INET 1 9)), le_role = (\<lambda>i. (live_env now [])\<lparr> e_http := http \<rparr>),
     le_relay = (\<lambda>i. net ''9000''), le_root = None, le_get_ok = True, le_http = (\<lambda>n. None), le_json = (\<lambda>s. None),
     le_client_id = id, le_key_id = id \<rparr>"

text \<open>The first connection of the run: socket 7 publishes the stream \<open>u/a/x\<close>.\<close>

lemma demo_names: "\<exists>kv. sls_parse_streamid (Some ''u/a/x'') = Some kv \<and> accepted_names kv = Some (''u'', ''a'', ''x'')"
proof -
  have "map_option accepted_names (sls_parse_streamid (Some ''u/a/x'')) = Some (Some (''u'', ''a'', ''x''))" by code_simp
  thus ?thesis by auto
qed

lemma demo_key: "requested_key ''u/a/x'' demo_listener = None" "stream_key_of ''u/a'' ''x'' = ''u/a/x''" "take 2047 ''u/a'' = ''u/a''"
  by code_simp+

lemma listeners_demo_fresh: "listeners_fresh ([demo_listener], quiet_server)"
  by (simp add: listeners_fresh_def server_wf_def relay_wf_def quiet_server_def quiet_world_def demo_listener_def listener_new_def map_publisher_new_def get_publisher_def publisher_ok_def)

lemma demo_publishes:
  "\<exists>X. listener_handler (demo_call now 7 http) demo_listener quiet_server = Some (1, demo_listener, X) \<and> get_publisher ''u/a/x'' (lw_pub X) = Some 0"
proof -
  obtain kv where kv: "sls_parse_streamid (Some ''u/a/x'') = Some kv" "accepted_names kv = Some (''u'', ''a'', ''x'')" using demo_names by blast
  let ?E = "demo_call now 7 http" and ?X = quiet_server
  have "\<exists>X'. listener_handler ?E demo_listener ?X = Some (1, demo_listener, X') \<and>
      get_publisher (stream_key_of (take 2047 (''u'' @ ''/'' @ ''a'')) ''x'') (lw_pub X') = Some (w_next (lw_world ?X)) \<and>
      w_roles (lw_world X') = w_roles (lw_world ?X) @ [w_next (lw_world ?X)]"
  proof (rule handler_publishes)
    show "sls_parse_streamid (Some ''u/a/x'') = Some kv" "accepted_names kv = Some (''u'', ''a'', ''x'')" by (rule kv)+
    show "requested_key ''u/a/x'' demo_listener = None" by (rule demo_key)
    show "accept_latency (sc_vars \<lparr> sc_vars = [], sc_apps = [] \<rparr>) (le_latency ?E) = Some 120"
      by (simp add: accept_latency_def demo_call_def var_int_def)
    show "server_wf (lw_server ?X)" using listeners_demo_fresh by (simp add: listeners_fresh_def)
    show "\<not> acl_refuses (acl_publish (var_acl ''ip_actions'' demo_conf)) (le_peer_raw ?E (le_accept ?E))"
      by (simp add: demo_conf_def var_acl_def acl_refuses_def libsrt_getpeeraddr_raw_def demo_call_def)
  qed (simp_all add: demo_key demo_call_def quiet_server_def quiet_world_def demo_listener_def listener_new_def map_publisher_new_def get_publisher_def get_ca_def
        get_uplive_def connection_allowed_def accept_latency_def var_int_def role_size_def MAX_HANDOFF_BACKLOG_def demo_conf_def)
  moreover have "w_next (lw_world ?X) = 0" by (simp add: quiet_server_def quiet_world_def)
  ultimately show ?thesis by (auto simp: demo_key)
qed

text \<open>The second connection: a socket whose peer has no name any more is closed.\<close>

lemma listeners_demo_run:
  "\<exists>X. listeners_step\<^sup>*\<^sup>* ([demo_listener], quiet_server) ([demo_listener], X) \<and> get_publisher ''u/a/x'' (lw_pub X) = Some 0 \<and>
     listener_call (demo_call 20 8 http\<lparr> le_peer := None \<rparr>) demo_listener X demo_listener (refuse \<lparr> s_fd = 8, s_eid = 0 \<rparr> X)"
proof -
  obtain X where x: "listener_handler (demo_call 10 7 http) demo_listener quiet_server = Some (1, demo_listener, X)" "get_publisher ''u/a/x'' (lw_pub X) = Some 0"
    using demo_publishes by blast
  have "listener_call (demo_call 10 7 http) demo_listener quiet_server demo_listener X"
    by (rule Accept [OF x(1)]) (simp add: demo_call_def)
  hence "listeners_step ([demo_listener], quiet_server) ([demo_listener], X)" using Call [of 0 "[demo_listener]"] by fastforce
  moreover have "listener_call (demo_call 20 8 http\<lparr> le_peer := None \<rparr>) demo_listener X demo_listener (refuse \<lparr> s_fd = 8, s_eid = 0 \<rparr> X)"
    by (rule Accept [where n = 1]) (simp_all add: listener_handler_def demo_call_def)
  ultimately show ?thesis using x(2) by blast
qed

lemma run_call:
  assumes "listeners_fresh s" "listeners_step\<^sup>*\<^sup>* s (Ls, X)" "k < length Ls"
  shows "server_wf (lw_server X)" "listener_ok (lw_server X) (Ls ! k)"
  using listeners.inv_reachable [OF assms(1,2)] assms(3) by (auto simp: listeners_ok_def)

section \<open>Properties\<close>










lemma demo_tick: "\<exists>L. listener_tick (demo_call 10 0 http) demo_listener quiet_server = Some (L, quiet_server)"
proof -
  have "li_srt demo_listener \<noteq> None" "li_state demo_listener \<noteq> SLS_RS_INVALID" "li_pending_publisher_connections demo_listener = []"
      "li_pending_player_connections demo_listener = []" by (simp_all add: demo_listener_def listener_new_def)
  thus ?thesis using tick_lists [OF refl]
    by (simp add: listener_tick_def Let_def drive_pending_publisher_connections_def drive_pending_player_connections_def)
qed


end
