(* ===== verification/Listener_Admission.thy ===== *)
theory Listener_Admission
  imports Listener_Safety
begin

text \<open>Who is let in: the address rules, the conditions on a player, and what a configuration sets up.\<close>

section \<open>The address rules\<close>

text \<open>The list has a first element that matches, and it denies.\<close>

definition first_denies :: "(sls_ip_access_t \<Rightarrow> bool) \<Rightarrow> sls_ip_access_t list \<Rightarrow> bool" where
  "first_denies m es \<longleftrightarrow> (\<exists>pre e post. es = pre @ e # post \<and> m e \<and> ip_action e = DENY \<and> (\<forall>d \<in> set pre. \<not> m d))"

lemma first_denies_Cons: "first_denies m (e # es) \<longleftrightarrow> (if m e then ip_action e = DENY else first_denies m es)"
proof
  assume "first_denies m (e # es)"
  then obtain pre d post where p: "e # es = pre @ d # post" "m d" "ip_action d = DENY" "\<forall>c \<in> set pre. \<not> m c" by (auto simp: first_denies_def)
  show "if m e then ip_action e = DENY else first_denies m es"
  proof (cases pre)
    case (Cons x pre')
    hence "es = pre' @ d # post" "\<forall>c \<in> set pre'. \<not> m c" "\<not> m e" using p by auto
    thus ?thesis using p(2,3) unfolding first_denies_def by auto
  qed (use p in simp)
next
  assume a: "if m e then ip_action e = DENY else first_denies m es"
  show "first_denies m (e # es)"
  proof (cases "m e")
    case True
    thus ?thesis using a unfolding first_denies_def by (intro exI [of _ "[]"] exI [of _ e] exI [of _ es]) simp
  next
    case False
    then obtain pre d post where "es = pre @ d # post" "m d" "ip_action d = DENY" "\<forall>c \<in> set pre. \<not> m c" using a by (auto simp: first_denies_def)
    thus ?thesis using False unfolding first_denies_def by (intro exI [of _ "e # pre"] exI [of _ d] exI [of _ post]) simp
  qed
qed

lemma acl_first: "sls_check_ip_acl es v4 v6 is6 = Acl_DENY \<longleftrightarrow> first_denies (\<lambda>e. acl_matches e v4 v6 is6) es"
proof (induction es)
  case Nil
  show ?case by (simp add: first_denies_def)
qed (simp add: first_denies_Cons split: sls_access_action.split)

lemma be32_word: "uint (word_of_int (be32 [a, b, c, d]) :: 32 word) = be32 [a, b, c, d]" for a b c d :: byte
proof -
  have u: "0 \<le> uint x" "uint x \<le> 255" for x :: byte using uint_lt2p [of x] by simp_all
  have e: "be32 [a, b, c, d] = 16777216 * uint a + 65536 * uint b + 256 * uint c + uint d" by (simp add: be32_def)
  have "0 \<le> be32 [a, b, c, d]" "be32 [a, b, c, d] \<le> 4294967295"
    unfolding e using u [of a] u [of b] u [of c] u [of d] by linarith+
  thus ?thesis by (simp add: uint_word_of_int take_bit_int_eq_self)
qed


section \<open>Players\<close>

text \<open>A pull relay leaves the roles, the registry and the snapshots alone.\<close>

lemma on_relays_more: "on_relays f W = Some (a, W') \<Longrightarrow> relay_world.more W' = relay_world.more W"
  by (auto simp: on_relays_def relay_world.defs)

lemma more_snapshot: "relay_world.more W' = relay_world.more W \<Longrightarrow> rw_snapshot W' = rw_snapshot W" for W :: "'ca role_world"
  by (cases W; cases W') simp

lemma start_relay_snapshot:
  assumes "start_relay E pull a s L X = Some (ret, X')"
  shows "rw_snapshot (lw_world X') = rw_snapshot (lw_world X)"
proof (cases "fst (add_relay_manager (lw_next_manager X) a s (relay_table pull X))")
  case None
  thus ?thesis using assms by (auto simp: start_relay_def split: prod.splits option.splits)
next
  case (Some m)
  then obtain T where t: "add_relay_manager (lw_next_manager X) a s (relay_table pull X) = (Some m, T)" by (metis prod.collapse)
  let ?f = "\<lambda>V. map_option (\<lambda>(ret, m1, V1). ((ret, m1), V1)) (start_manager E (manager_pointers L m) V)"
  obtain q m1 W1 where o: "on_relays ?f (sv_world (put_table pull T (lw_server X))) = Some ((q, m1), W1)"
      "lw_server X' = store_manager (manager_self m) m1 ((put_table pull T (lw_server X))\<lparr> sv_world := W1 \<rparr>)"
    using assms t by (auto simp: start_relay_def Let_def split: bind_splits)
  have "rw_snapshot W1 = rw_snapshot (sv_world (put_table pull T (lw_server X)))" by (rule more_snapshot [OF on_relays_more [OF o(1)]])
  thus ?thesis by (simp add: o(2) store_manager_def put_table_def)
qed

lemma source_registry:
  assumes "player_source E app stream L X = Some (found, X')"
  shows "registry_world (lw_server X') = registry_world (lw_server X)" "lw_registry X' = lw_registry X" "sv_roles (lw_server X') = sv_roles (lw_server X)"
proof -
  have "X' = X \<or> (\<exists>ret. start_relay E True app stream L X = Some (ret, X'))"
    using assms by (auto simp: player_source_def Let_def split: if_splits bind_splits)
  thus "registry_world (lw_server X') = registry_world (lw_server X)" "lw_registry X' = lw_registry X" "sv_roles (lw_server X') = sv_roles (lw_server X)"
    using start_relay_keeps(3,4) start_relay_snapshot by (auto simp: registry_world_def)
qed

lemma refuse_roles: "sv_roles (lw_server (refuse s X)) = sv_roles (lw_server X)"
  by (simp add: refuse_def)

lemma override_registry:
  "li_player_registry (remember_override t key pk L) = li_player_registry L"
  "li_player_registry (snd (effective_max_players t key pk ca L)) = li_player_registry L"
  by (simp_all add: remember_override_def effective_max_players_def Let_def split: option.split)

text \<open>And a player that meets the conditions is let in, when no web hook has to be told.\<close>

lemma new_player_url: "li_http_url_role L = [] \<Longrightarrow> rl_http_url (new_player E i s key sid lat L) = []"
  by (simp add: new_player_def role_init_def role_new_def set_srt_def set_streamid_def set_http_url_def Let_def)

lemma admit_runs:
  assumes "li_http_url_role L = []" "li_list_role L" "server_wf (lw_server X)"
  shows "\<exists>X'. admit_player E s key sid pk peer lat L X = Some X' \<and> map_of (sv_roles (lw_server X')) (w_next (lw_world X)) \<noteq> None"
proof -
  define i where "i = w_next (lw_world X)"
  define r where "r = new_player E i s key sid lat L"
  define S0 where "S0 = add_role r (lw_server X)"
  have id: "rl_id r = i" using new_player_fields(1) [of E i s key sid lat L] by (simp add: r_def)
  have own: "map_of (w_relays (sv_world S0)) i = None" "map_of (sv_roles S0) i = Some r"
    using assms(3) id by (auto simp: S0_def add_role_def map_of_update i_def server_wf_def relay_wf_def)
  define S1 where "S1 = S0\<lparr> sv_roles := AList.update i r (sv_roles S0), sv_world := sv_world S0 \<rparr>"
  have c: "on_role i (\<lambda>r W. Some (on_connect (le_role E i) r W)) S0 = Some (SLS_OK, S1)"
    unfolding S1_def by (rule on_role_own [OF own]) (simp add: on_connect_def r_def new_player_url assms(1))
  define X2 where "X2 = register_player E i key pk peer lat L (X\<lparr> lw_server := S1 \<rparr>)"
  have m: "map_of (sv_roles (lw_server X2)) i \<noteq> None"
    by (simp add: X2_def register_player_def Let_def S1_def map_of_update)
  obtain S3 where p: "push_role L i (lw_server X2) = Some S3" "sv_roles S3 = sv_roles (lw_server X2)" using assms(2) by (simp add: push_role_def)
  have "admit_player E s key sid pk peer lat L X = Some (X2\<lparr> lw_server := S3 \<rparr>)"
    unfolding admit_player_def Let_def i_def [symmetric] r_def [symmetric] S0_def [symmetric] c using p(1) by (simp add: X2_def)
  thus ?thesis using m p(2) by (simp add: i_def)
qed

lemma player_let_in:
  assumes "li_http_url_role L = []" "li_list_role L" "\<not> li_player_registry L" "server_wf (lw_server X)"
    "get_publisher (stream_key_of app stream) (lw_pub X) \<noteq> None" "get_ca app (lw_pub X) = Some ca"
    "\<not> acl_refuses (acl_play (var_acl ''ip_actions'' ca)) (le_peer_raw E (s_fd s))"
  shows "\<exists>X'. finish_player_accept E s app stream sid None peer lat L X = Some (snd (effective_max_players (le_steady E) (stream_key_of app stream) None ca L), X') \<and>
     map_of (sv_roles (lw_server X')) (w_next (lw_world X)) \<noteq> None"
proof -
  obtain limit L2 where e: "effective_max_players (le_steady E) (stream_key_of app stream) None ca L = (limit, L2)" by fastforce
  have l: "li_http_url_role L2 = []" "li_list_role L2" "\<not> li_player_registry L2"
    using e assms(1-3) by (auto simp: effective_max_players_def Let_def split: option.splits if_splits)
  obtain X' where x: "admit_player E s (stream_key_of app stream) sid None peer lat L2 X = Some X'" "map_of (sv_roles (lw_server X')) (w_next (lw_world X)) \<noteq> None"
    using admit_runs [OF l(1,2) assms(4)] by blast
  obtain q where "get_publisher (stream_key_of app stream) (lw_pub X) = Some q" using assms(5) by blast
  hence "finish_player_accept E s app stream sid None peer lat L X = Some (L2, X')"
    using assms(6,7) e l(3) x(1)
    by (simp add: finish_player_accept_def Let_def remember_override_def player_source_def admit_within_limit_def player_limit_reached_def)
  thus ?thesis using x(2) e by simp
qed

text \<open>C8. A connection becomes a player of a stream only when the app is configured, its address rules for players do not refuse the peer, the
  stream has a publisher, and the players that are alive in the registry are fewer than the limit of the stream, where a
  positive limit is set by the key, by a key that was used for the stream before, or by the configuration.\<close>

theorem player_admitted_only:
  assumes "finish_player_accept E s app stream sid pk peer lat L X = Some (L', X')" "server_wf (lw_server X)" "s_fd s \<noteq> 0"
    "map_of (sv_roles (lw_server X)) j = None" "map_of (sv_roles (lw_server X')) j \<noteq> None"
  shows "\<exists>ca. get_ca app (lw_pub X) = Some ca \<and> \<not> acl_refuses (acl_play (var_acl ''ip_actions'' ca)) (le_peer_raw E (s_fd s)) \<and>
    get_publisher (stream_key_of app stream) (lw_pub X') \<noteq> None \<and>
    (let limit = fst (effective_max_players (le_steady E) (stream_key_of app stream) pk ca
           (remember_override (le_steady E) (stream_key_of app stream) pk L))
     in li_player_registry L \<and> 0 < limit \<longrightarrow> fst (registry_count (registry_world (lw_server X)) (stream_key_of app stream) (lw_registry X)) < limit)"
proof -
  define key where "key = stream_key_of app stream"
  define L1 where "L1 = remember_override (le_steady E) key pk L"
  obtain found X1 where f: "player_source E app stream L1 X = Some (found, X1)"
    using assms(1) by (auto simp: finish_player_accept_def Let_def key_def [symmetric] L1_def [symmetric] split: bind_splits)
  note a = assms(1) [unfolded finish_player_accept_def Let_def, folded key_def, folded L1_def, unfolded f bind.bind_lunit prod.case]
  note r = source_registry [OF f] and k1 = source_keeps(1) [OF f]
  have no: "Some (M, refuse s Y) \<noteq> Some (L', X')" if "sv_roles (lw_server Y) = sv_roles (lw_server X)" for M Y
    using that assms(4,5) refuse_roles [of s Y] by auto
  note no1 = no [OF r(3)]
  obtain ca where c: "get_ca app (lw_pub X1) = Some ca" "\<not> acl_refuses (acl_play (var_acl ''ip_actions'' ca)) (le_peer_raw E (s_fd s))"
      "get_publisher key (lw_pub X1) \<noteq> None" "admit_within_limit E s key sid pk peer lat ca L1 X1 = Some (L', X')"
    using a no1 by (cases "get_ca app (lw_pub X1)") (simp_all split: if_splits)
  have wf: "server_wf (lw_server X1)" by (rule keepsD(1) [OF k1 assms(2)])
  have g: "get_ca app (lw_pub X) = Some ca" using c(1) keepsD(8) [OF k1 assms(2)] by (simp add: get_ca_def)
  have p: "get_publisher key (lw_pub X') \<noteq> None"
    using within_limit_keeps [OF c(4) wf assms(3)] keepsD(5) [OF _ wf] c(3) by blast
  obtain limit L2 b X2 where e: "effective_max_players (le_steady E) key pk ca L1 = (limit, L2)" "player_limit_reached key limit L2 X1 = (b, X2)"
    by (metis prod.collapse)
  have "sv_roles (lw_server X2) = sv_roles (lw_server X)" using limit_frame [OF e(2)] r(3) by simp
  hence "\<not> b" using c(4) [unfolded admit_within_limit_def e prod.case] no by (auto split: if_splits)
  moreover have "li_player_registry L2 = li_player_registry L"
    using override_registry(2) [of "le_steady E" key pk ca L1] override_registry(1) [of "le_steady E" key pk L] e(1) by (simp add: L1_def)
  ultimately have "fst (registry_count (registry_world (lw_server X)) key (lw_registry X)) < limit" if "li_player_registry L" "0 < limit"
    using e(2) that r by (auto simp: player_limit_reached_def split: prod.splits)
  thus ?thesis using g c(2) p e(1) by (auto simp: key_def [symmetric] L1_def [symmetric] Let_def)
qed

text \<open>A server with one publisher.\<close>

definition live_server :: listener_world where
  "live_server = quiet_server\<lparr> lw_server := \<lparr> sv_roles = [], sv_table = [],
     sv_world = quiet_world\<lparr> w_pub := (w_pub quiet_world)\<lparr> m_map_push_2_publisher := [(''u/a/x'', 0)] \<rparr>, w_next := 1 \<rparr> \<rparr> \<rparr>"

theorem player_admitted_only_witness:
  "\<exists>L' X'. finish_player_accept (demo_call 10 9 (\<lambda>n. None)) \<lparr> s_fd = 9, s_eid = 0 \<rparr> ''u/a'' ''x'' ''u/l/x'' None ''10.0.0.1'' 120 demo_listener live_server = Some (L', X') \<and>
     map_of (sv_roles (lw_server X')) 1 \<noteq> None \<and> get_publisher ''u/a/x'' (lw_pub X') \<noteq> None"
proof -
  let ?E = "demo_call 10 9 (\<lambda>n. None)" and ?s = "\<lparr> s_fd = 9, s_eid = 0 \<rparr>"
  have wf: "server_wf (lw_server live_server)"
    by (simp add: live_server_def quiet_server_def quiet_world_def map_publisher_new_def server_wf_def relay_wf_def publisher_ok_def get_publisher_def)
  have n: "w_next (lw_world live_server) = 1" "map_of (sv_roles (lw_server live_server)) 1 = None" by (simp_all add: live_server_def)
  have "\<exists>X'. finish_player_accept ?E ?s ''u/a'' ''x'' ''u/l/x'' None ''10.0.0.1'' 120 demo_listener live_server =
      Some (snd (effective_max_players (le_steady ?E) (stream_key_of ''u/a'' ''x'') None [] demo_listener), X') \<and>
      map_of (sv_roles (lw_server X')) (w_next (lw_world live_server)) \<noteq> None"
    by (rule player_let_in [OF _ _ _ wf])
       (simp_all add: demo_key live_server_def quiet_server_def quiet_world_def map_publisher_new_def get_publisher_def get_ca_def demo_listener_def
          listener_new_def demo_conf_def var_acl_def acl_refuses_def libsrt_getpeeraddr_raw_def demo_call_def)
  then obtain L' X' where x: "finish_player_accept ?E ?s ''u/a'' ''x'' ''u/l/x'' None ''10.0.0.1'' 120 demo_listener live_server = Some (L', X')"
      "map_of (sv_roles (lw_server X')) 1 \<noteq> None" using n by auto
  from player_admitted_only [OF x(1) wf _ n(2) x(2)] x show ?thesis by (auto simp: demo_key)
qed

section \<open>Configuration\<close>

text \<open>What is entered into the publisher table by a configuration is never replaced.\<close>

definition routes_kept :: "'ca CSLSMapPublisher \<Rightarrow> 'ca CSLSMapPublisher \<Rightarrow> bool" where
  "routes_kept P Q \<longleftrightarrow> (\<forall>k v. get_ca k P = Some v \<longrightarrow> get_ca k Q = Some v) \<and>
     (\<forall>k u. map_of (m_map_live_2_uplive P) k = Some u \<longrightarrow> map_of (m_map_live_2_uplive Q) k = Some u)"

lemma routes_kept_steps:
  "routes_kept P P" "routes_kept P Q \<Longrightarrow> routes_kept Q R \<Longrightarrow> routes_kept P R"
  "set_conf k v P = (ret, Q) \<Longrightarrow> routes_kept P Q" "set_live_2_uplive k u P = (ret, Q) \<Longrightarrow> routes_kept P Q"
  by (auto simp: routes_kept_def set_conf_def set_live_2_uplive_def get_ca_def std_put_lookup split: if_splits)

lemma map_domains_routes:
  assumes "map_domains ds live up P = (SLS_OK, Q)" "up \<noteq> []"
  shows "routes_kept P Q \<and> m_map_uplive_2_conf Q = m_map_uplive_2_conf P \<and>
    (\<forall>d \<in> set ds. get_uplive (d @ ''/'' @ live) Q = up \<and> up \<noteq> d @ ''/'' @ live)"
  using assms
proof (induction ds arbitrary: P)
  case Nil
  thus ?case by (auto simp: routes_kept_steps)
next
  case (Cons d ds)
  let ?t = "d @ ''/'' @ live"
  obtain ret P1 where s: "set_live_2_uplive ?t up P = (ret, P1)" by fastforce
  have n: "up \<noteq> ?t" and m: "map_domains ds live up P1 = (SLS_OK, Q)" and g: "get_uplive ?t P1 = up"
    using Cons.prems s by (auto simp: Let_def set_live_2_uplive_def get_uplive_def std_put_lookup SLS_ERROR_def SLS_OK_def split: if_splits option.splits)
  note ih = Cons.IH [OF m Cons.prems(2)]
  have "m_map_uplive_2_conf P1 = m_map_uplive_2_conf P" using s by (auto simp: set_live_2_uplive_def split: if_splits)
  moreover have "get_uplive ?t Q = up" using g ih Cons.prems(2) by (auto simp: get_uplive_def routes_kept_def split: option.splits)
  moreover have "routes_kept P Q" using routes_kept_steps(2) [OF routes_kept_steps(4) [OF s]] ih by blast
  ultimately show ?case using ih n by simp
qed

lemma map_relays_pub: "lw_pub (snd (map_relays crs up X)) = lw_pub X"
  by (induction crs arbitrary: X) auto

lemma put_pub_pub [simp]: "lw_pub (put_pub P X) = P"
  by (simp add: put_pub_def)

text \<open>The publisher app of an app block, and what a block enters: its player apps lead to its publisher app, which has a block.\<close>

abbreviation uplive_of :: "string \<Rightarrow> app_conf \<Rightarrow> string" where
  "uplive_of pd ca \<equiv> pd @ ''/'' @ var_text ''app_publisher'' (app_vars ca)"

definition app_routed :: "string list \<Rightarrow> string \<Rightarrow> app_conf \<Rightarrow> 'ca CSLSMapPublisher \<Rightarrow> bool" where
  "app_routed ds pd ca P \<longleftrightarrow> get_ca (uplive_of pd ca) P \<noteq> None \<and>
     (\<forall>d \<in> set ds. get_uplive (d @ ''/'' @ var_text ''app_player'' (app_vars ca)) P = uplive_of pd ca \<and>
        uplive_of pd ca \<noteq> d @ ''/'' @ var_text ''app_player'' (app_vars ca))"

lemma app_routed_kept: "app_routed ds pd ca P \<Longrightarrow> routes_kept P Q \<Longrightarrow> app_routed ds pd ca Q"
  unfolding app_routed_def routes_kept_def get_uplive_def by (auto split: option.splits)

lemma map_apps_routes:
  "map_apps ds pd cas L X = (SLS_OK, L', X') \<Longrightarrow> routes_kept (lw_pub X) (lw_pub X') \<and> (\<forall>ca \<in> set cas. app_routed ds pd ca (lw_pub X')) \<and>
     li_app_players L' = li_app_players L @ map (\<lambda>ca. var_text ''app_player'' (app_vars ca)) cas"
proof (induction cas arbitrary: L X)
  case Nil
  thus ?case by (auto simp: routes_kept_steps)
next
  case (Cons ca cas)
  let ?up = "uplive_of pd ca" and ?live = "var_text ''app_player'' (app_vars ca)"
  obtain ret P1 where s: "set_conf ?up (app_vars ca) (lw_pub X) = (ret, P1)" by fastforce
  obtain ret2 P2 where d: "map_domains ds ?live ?up P1 = (ret2, P2)" by fastforce
  obtain ret3 X3 where r: "map_relays (app_relays ca) ?up (put_pub P2 X) = (ret3, X3)" by fastforce
  have ok: "ret2 = SLS_OK" "map_apps ds pd cas (L\<lparr> li_app_players := li_app_players L @ [?live] \<rparr>) X3 = (SLS_OK, L', X')"
    using Cons.prems s d r by (auto simp: Let_def SLS_ERROR_def SLS_OK_def split: if_splits)
  note ih = Cons.IH [OF ok(2)]
  note m = map_domains_routes [OF d [unfolded ok(1)]]
  have x3: "lw_pub X3 = P2" using map_relays_pub [of "app_relays ca" ?up "put_pub P2 X"] r by simp
  have "get_ca ?up P1 \<noteq> None" using s by (auto simp: set_conf_def get_ca_def std_put_lookup split: if_splits)
  hence "app_routed ds pd ca P2" using m by (simp add: app_routed_def get_ca_def)
  hence "app_routed ds pd ca (lw_pub X')" using app_routed_kept ih x3 by blast
  moreover have "routes_kept (lw_pub X) (lw_pub X')"
    using routes_kept_steps(2) [OF routes_kept_steps(3) [OF s]] routes_kept_steps(2) [of P1 P2 "lw_pub X'"] m ih x3 by simp
  ultimately show ?case using ih by simp
qed

text \<open>A configuration that is taken.\<close>

lemma init_conf_taken:
  assumes "init_conf_app L X = (SLS_OK, L', X')" "li_conf L = Some conf"
  defines "ds \<equiv> sls_conf_string_split (var_text ''domain_player'' (sc_vars conf)) '' ''" and "pd \<equiv> var_text ''domain_publisher'' (sc_vars conf)"
  shows "\<exists>X1. lw_pub X1 = lw_pub X \<and> ds \<noteq> [] \<and> pd \<noteq> [] \<and> sc_apps conf \<noteq> [] \<and>
    map_apps ds pd (sc_apps conf) ((conf_scalars (sc_vars conf) L)\<lparr> li_domain_players := ds, li_domain_publisher := pd \<rparr>) X1 = (SLS_OK, L', X')"
proof -
  define X1 where "X1 = (if li_auth_reject_cache (conf_scalars (sc_vars conf) L)
      then X\<lparr> lw_server := (lw_server X)\<lparr> sv_world := (lw_world X)\<lparr> rw_cache := set_ttl (var_int ''auth_reject_cache_ttl'' (sc_vars conf)) (rw_cache (lw_world X)) \<rparr> \<rparr> \<rparr>
      else X)"
  have "lw_pub X1 = lw_pub X" by (simp add: X1_def)
  thus ?thesis using assms(1,2) unfolding init_conf_app_def Let_def ds_def [symmetric] pd_def [symmetric]
    by (auto simp: X1_def [symmetric] ds_def [symmetric] pd_def [symmetric] SLS_ERROR_def SLS_OK_def split: if_splits)
qed

lemma map_apps_frame:
  "map_apps ds pd cas L X = (ret, L', X') \<Longrightarrow> ka_max_length L' = ka_max_length L \<and> li_domain_players L' = li_domain_players L"
proof (induction cas arbitrary: L X)
  case (Cons ca cas)
  let ?up = "uplive_of pd ca" and ?live = "var_text ''app_player'' (app_vars ca)" and ?M = "L\<lparr> li_app_players := li_app_players L @ [var_text ''app_player'' (app_vars ca)] \<rparr>"
  obtain ret1 P1 where s: "set_conf ?up (app_vars ca) (lw_pub X) = (ret1, P1)" by fastforce
  obtain ret2 P2 where d: "map_domains ds ?live ?up P1 = (ret2, P2)" by fastforce
  obtain ret3 X3 where r: "map_relays (app_relays ca) ?up (put_pub P2 X) = (ret3, X3)" by fastforce
  have "L' = L \<or> L' = ?M \<or> map_apps ds pd cas ?M X3 = (ret, L', X')" using Cons.prems s d r by (auto simp: Let_def split: if_splits)
  thus ?case using Cons.IH [of ?M X3] by auto
qed simp

text \<open>C27. After a configuration was taken, every player app of the server leads, in every player domain, to the publisher app of its own
  block, that publisher app has a block of settings, the two names differ, and nothing another listener had entered was replaced.\<close>

theorem conf_routes:
  assumes "init_conf_app L X = (SLS_OK, L', X')" "li_conf L = Some conf" "ca \<in> set (sc_apps conf)"
    "d \<in> set (sls_conf_string_split (var_text ''domain_player'' (sc_vars conf)) '' '')"
  shows "get_uplive (d @ ''/'' @ var_text ''app_player'' (app_vars ca)) (lw_pub X') =
      var_text ''domain_publisher'' (sc_vars conf) @ ''/'' @ var_text ''app_publisher'' (app_vars ca) \<and>
    get_ca (var_text ''domain_publisher'' (sc_vars conf) @ ''/'' @ var_text ''app_publisher'' (app_vars ca)) (lw_pub X') \<noteq> None \<and>
    d @ ''/'' @ var_text ''app_player'' (app_vars ca) \<noteq> var_text ''domain_publisher'' (sc_vars conf) @ ''/'' @ var_text ''app_publisher'' (app_vars ca) \<and>
    routes_kept (lw_pub X) (lw_pub X')"
proof -
  obtain X1 where x: "lw_pub X1 = lw_pub X" "map_apps (sls_conf_string_split (var_text ''domain_player'' (sc_vars conf)) '' '')
      (var_text ''domain_publisher'' (sc_vars conf)) (sc_apps conf) ((conf_scalars (sc_vars conf) L)\<lparr>
        li_domain_players := sls_conf_string_split (var_text ''domain_player'' (sc_vars conf)) '' '',
        li_domain_publisher := var_text ''domain_publisher'' (sc_vars conf) \<rparr>) X1 = (SLS_OK, L', X')"
    using init_conf_taken [OF assms(1,2)] by blast
  note r = map_apps_routes [OF x(2), unfolded x(1)]
  have "app_routed (sls_conf_string_split (var_text ''domain_player'' (sc_vars conf)) '' '') (var_text ''domain_publisher'' (sc_vars conf)) ca (lw_pub X')"
    using r assms(3) by blast
  hence a: "get_uplive (d @ ''/'' @ var_text ''app_player'' (app_vars ca)) (lw_pub X') = uplive_of (var_text ''domain_publisher'' (sc_vars conf)) ca"
      "uplive_of (var_text ''domain_publisher'' (sc_vars conf)) ca \<noteq> d @ ''/'' @ var_text ''app_player'' (app_vars ca)"
      "get_ca (uplive_of (var_text ''domain_publisher'' (sc_vars conf)) ca) (lw_pub X') \<noteq> None" using assms(4) unfolding app_routed_def by blast+
  show ?thesis using a(1) a(2) [symmetric] a(3) r by blast
qed

definition demo_server_conf :: server_conf where
  "demo_server_conf = \<lparr> sc_vars = [(''domain_player'', VStr ''p''), (''domain_publisher'', VStr ''u'')],
     sc_apps = [\<lparr> app_vars = [(''app_player'', VStr ''l''), (''app_publisher'', VStr ''a'')], app_relays = [] \<rparr>] \<rparr>"

definition bare_listener :: CSLSListener where
  "bare_listener = listener_new\<lparr> li_conf := Some demo_server_conf, li_map_puller := True, li_map_pusher := True \<rparr>"

lemma demo_init: "\<exists>L X. init_conf_app bare_listener quiet_server = (SLS_OK, L, X)"
proof -
  have "sls_conf_string_split ''p'' '' '' = [''p'']" by code_simp
  thus ?thesis by (simp add: init_conf_app_def bare_listener_def demo_server_conf_def listener_new_def var_text_def Let_def conf_scalars_def
    set_conf_def set_live_2_uplive_def quiet_server_def quiet_world_def map_publisher_new_def get_ca_def)
qed

theorem conf_routes_witness:
  "\<exists>L X. init_conf_app bare_listener quiet_server = (SLS_OK, L, X) \<and> get_uplive ''p/l'' (lw_pub X) = ''u/a''"
proof -
  obtain L X where i: "init_conf_app bare_listener quiet_server = (SLS_OK, L, X)" using demo_init by blast
  have c: "li_conf bare_listener = Some demo_server_conf" by (simp add: bare_listener_def)
  have "sls_conf_string_split ''p'' '' '' = [''p'']" by code_simp
  hence d: "''p'' \<in> set (sls_conf_string_split (var_text ''domain_player'' (sc_vars demo_server_conf)) '' '')" by (simp add: demo_server_conf_def var_text_def)
  have m: "\<lparr> app_vars = [(''app_player'', VStr ''l''), (''app_publisher'', VStr ''a'')], app_relays = [] \<rparr> \<in> set (sc_apps demo_server_conf)"
    by (simp add: demo_server_conf_def)
  from conf_routes [OF i c m d] i show ?thesis by (auto simp: demo_server_conf_def var_text_def)
qed



end
