(* ===== verification/Spec2Isabelle.thy ===== *)
theory Spec2Isabelle
  imports Recycle_Array Timecode_Correct Map_Data Reject_Cache Log_Limiter Bitrate_Limit Sls_Array Registries
    Conf_Ports Conf_Correct Relay_Manager_Correct Group_Correct Player_Key_Correct Listener_Admission
begin

text \<open>
  A verification library of the SRT live server (\<^verbatim>\<open>src/core\<close>). Publishers and pull relays send MPEG transport
  streams over SRT; the server keeps each stream in a ring of bytes and sends it to players and push relays.
  Listeners accept connections, decide who may publish or play, and hand the resulting roles to worker threads;
  a worker drives its roles, reconnects relays and reaps dead connections.

  \<^bold>\<open>Parts and theories.\<close>

  \<^item> \<open>Prelude\<close>: return codes of \<^verbatim>\<open>common.hpp\<close>, bytes, checked memory copies, association lists, and the locale
    \<open>component\<close> (initial states, steps, invariant) that the stateful parts interpret.
  \<^item> \<open>Recycle_Array\<close>: the broadcast ring \<^verbatim>\<open>SLSRecycleArray\<close>, one writer and many readers. The array is refined to the
    list of all bytes written; the locale \<open>broadcast_ring\<close> states the contract and proves in-order delivery for
    every interleaving; the interpretation \<open>live\<close> discharges it for the code.
  \<^item> \<open>Sls_Array\<close>: the growing queue \<^verbatim>\<open>SLSArray\<close> of the file reader; locale \<open>byte_queue\<close>, interpretation \<open>file_queue\<close>;
    and the proof that growing it breaks the next read.
  \<^item> \<open>Ts_Common\<close>: the transport stream helpers of \<^verbatim>\<open>common.cpp\<close> (continuity counters, PAT, PMT and PES parsing).
  \<^item> \<open>Timecode\<close>, \<open>Timecode_Correct\<close>: \<^verbatim>\<open>SLSTimecode.cpp\<close>, the bit readers, the H.264 and H.265 timecode parsers and the
    stream scan; totality, memory safety, and round trips against encoders.
  \<^item> \<open>Map_Data\<close>: the table of live streams \<^verbatim>\<open>SLSMapData\<close> with its budget; invariants over all reachable states and the
    separation of publishing sessions.
  \<^item> \<open>Stream_Id\<close>: string helpers of \<^verbatim>\<open>common\<close> and \<^verbatim>\<open>util\<close> and the stream id grammar of \<^verbatim>\<open>sls_sid.cpp\<close>.
  \<^item> \<open>Reject_Cache\<close>: the negative cache \<^verbatim>\<open>auth_reject_cache.cpp\<close> and the two handshake callbacks of \<^verbatim>\<open>sls_sid.cpp\<close>.
  \<^item> \<open>Registries\<close>: the publisher table \<^verbatim>\<open>SLSMapPublisher\<close> (locale \<open>exclusive_claims\<close>, interpretation \<open>publishers\<close>), the
    hand-off list \<^verbatim>\<open>SLSRoleList\<close> and the player registry \<^verbatim>\<open>SLSPlayerRegistry\<close>.
  \<^item> \<open>Bitrate_Limit\<close>: the limiter \<^verbatim>\<open>SLSBitrateLimit\<close> with single precision rounding.
  \<^item> \<open>Log_Limiter\<close>: the log rate limiter \<^verbatim>\<open>SLSLogRateLimiter\<close>, refined to one machine per key.

  \<^item> \<open>C_Text\<close>: the C and C++ conversions the later parts call (\<^verbatim>\<open>strtol\<close>, \<^verbatim>\<open>stoi\<close> with its exceptions, \<^verbatim>\<open>strtok\<close>,
    \<^verbatim>\<open>snprintf\<close>, \<^verbatim>\<open>inet_pton\<close> for version 4).
  \<^item> \<open>Conf\<close>, \<open>Conf_Tables\<close>, \<open>Conf_Correct\<close>, \<open>Conf_Ports\<close>: \<^verbatim>\<open>conf.cpp\<close>, the directive tables of the classes it fills, the
    generations of a configuration across reloads, the command line, and the port lists. Every loaded tree has the
    types and ranges of its tables; a reload keeps the readers of the old tree; the accepted malformed files are shown.
  \<^item> \<open>Push_Url\<close>: \<^verbatim>\<open>SLSPushUrlValidator.cpp\<close>, the policy for destinations an operator or a webhook names, with the DNS
    answers as an argument.
  \<^item> \<open>Relay\<close>: \<^verbatim>\<open>SLSRelay.cpp\<close>, the URL of a relay and the call sequence that opens it; the vetted address is the dialled one.
  \<^item> \<open>Relay_Manager\<close>, \<open>Relay_Manager_Correct\<close>: \<^verbatim>\<open>SLSMapRelay\<close>, \<^verbatim>\<open>SLSRelayManager\<close> and its push and pull subclasses, and the
    reconnection of \<^verbatim>\<open>SLSGroup\<close>.

  \<^item> \<open>Role\<close>, \<open>Role_Correct\<close>, \<open>Role_Delivery\<close>, \<open>Role_Gate\<close>, \<open>Role_Socket\<close>: \<^verbatim>\<open>SLSRole.cpp\<close>, \<^verbatim>\<open>SLSPublisher.cpp\<close> and \<^verbatim>\<open>SLSPlayer.cpp\<close>, the
    connections a worker drives. A role is a record; every call takes the role, the tables it shares and the answers of
    libsrt and of the web hook. Shown: a viewer receives what the publisher stored, in order; before the hook has answered
    nothing is stored and after the deadline nothing is accepted; a socket is closed once and not used afterwards; relays
    a hook asks for are dialled at the vetted addresses.
  \<^item> \<open>Relay_Handoff\<close>: a relay as a role, between the manager that opened it and the worker that adopts it.
  \<^item> \<open>Group\<close>, \<open>Group_Correct\<close>: the worker \<^verbatim>\<open>SLSGroup.cpp\<close>. The role objects of the server are a store, a worker holds their
    numbers; one pass is one step, and the steps of listeners, other workers and the control server come between. Shown:
    the invariant of the map over all interleavings, that the housekeeping reaps the dead, and that \<^verbatim>\<open>stop\<close> releases all.
  \<^item> \<open>Player_Key\<close>, \<open>Player_Key_Correct\<close>: the player keys of \<^verbatim>\<open>SLSListenerAuth.cpp\<close>: cache, requests in flight, rate limit.
  \<^item> \<open>Listener\<close>, \<open>Listener_Setup\<close>: the listener, \<^verbatim>\<open>SLSListenerHandler.cpp\<close>, \<^verbatim>\<open>SLSListenerCore.cpp\<close> and \<^verbatim>\<open>SLSListenerConfig.cpp\<close>. Its
    record extends the one of the player keys; a call works on the store of roles, the relay tables and the player registry.
  \<^item> \<open>Listener_Frame\<close>, \<open>Listener_Keeps\<close>, \<open>Listener_Own\<close>, \<open>Listener_Calls\<close>, \<open>Listener_Players\<close>, \<open>Listener_Handler\<close>: what each call of a
    listener keeps of the server. The locale \<open>relay_runs\<close> carries a law through the walks that open relays; the relation
    \<open>keeps\<close> composes along the stages of the handler and of the tick.
  \<^item> \<open>Listener_Correct\<close>, \<open>Listener_Safety\<close>, \<open>Listener_Admission\<close>: all listeners of a server as one \<open>component\<close>, interleaved with the
    rest of it. Shown: publication needs authorisation, incumbents are kept, an accepted socket gets one owner, what is
    held is bounded and settled by its deadline, who becomes a player, and what a configuration sets up.

  \<^bold>\<open>Conventions.\<close> A class is a record of its members under their names in the code; an operation takes and returns the
  record. Clocks are arguments. An access outside of an object, and a loop that does not end, is \<^const>\<open>None\<close>; that it does
  not happen is proved, never assumed. Locks make every call of a registry one step; interleavings are sequences of calls.
  Counters of 64 bits and times are unbounded integers; narrowing conversions are written out.

  \<^bold>\<open>Bounds.\<close> No definition has fuel: loops are structural, have a measure, or are partial functions with a totality lemma.

  \<^bold>\<open>Code outside of the repository.\<close> The resolver, \<^verbatim>\<open>inet_pton\<close> for version 6, the results of the SRT and epoll calls, the
  answers of the web hooks, the JSON and URL parsers, the keyed hashes and the random host choice are arguments
  (\<open>push_env\<close>, \<open>srt_env\<close>, \<open>role_env\<close>, \<open>group_env\<close>, \<open>listener_env\<close>, \<open>pton6\<close>, seeds); the theorems hold for all of them, or
  name what they ask of them.

  \<^bold>\<open>Not modelled.\<close> Sockets, threads, epoll and HTTP themselves, logging and the two programs are input and output. The
  manager \<^verbatim>\<open>SLSManager.cpp\<close> wires the parts and writes the statistics document; its use of the configuration (generations,
  port lists) is in \<open>Conf\<close> and \<open>Conf_Ports\<close>. The file reader of the test client, the session tracker, the synchronised
  clock and the summary logger serve diagnosis. Of the statistics the texts are left out. \<^verbatim>\<open>sls_conf_set_double\<close> has no
  directive that uses it.
\<close>

end
